(* ===== verification/Fuin_Prelude.thy ===== *)
theory Fuin_Prelude
  imports Main "HOL-Library.Word" "HOL-Library.Sublist"
begin

text \<open>
  Shared vocabulary of the development: bytes and C strings, the status codes of
  \<open>include/utils.h\<close>, computations that thread a state and stop at the first
  non-\<open>SM_OK\<close> status, the parameters that stand for libsodium, the clock and the
  random generator, and little-endian integer codecs with their interface locale.
\<close>

unbundle bit_operations_syntax

section \<open>Automation collections\<close>

named_theorems comp_simps \<open>unfolding rules of the status-and-state computations\<close>
named_theorems preserves_rules \<open>rules that show that a computation keeps a state invariant\<close>

section \<open>Bytes, strings and C integers\<close>

type_synonym byte = "8 word"
type_synonym bytes = "byte list"

text \<open>A C string is the list of its characters before the terminating NUL.\<close>

definition str_bytes :: "string \<Rightarrow> bytes" where
  "str_bytes s = map of_char s"

definition c_str :: "string \<Rightarrow> string" where
  "c_str s = takeWhile (\<lambda>c. c \<noteq> CHR 0x00) s"

definition nul_free :: "string \<Rightarrow> bool" where
  "nul_free s = (CHR 0x00 \<notin> set s)"

definition INT_MAX :: int where "INT_MAX = 2147483647"
definition INT64_MAX :: int where "INT64_MAX = 9223372036854775807"
definition UINT32_MAX :: int where "UINT32_MAX = 4294967295"
definition UINT64_MAX :: int where "UINT64_MAX = 18446744073709551615"

text \<open>Conversion to a 32-bit \<open>int\<close>: the low 32 bits, read as two's complement.\<close>

definition c_int :: "int \<Rightarrow> int" where
  "c_int v = sint (word_of_int v :: 32 word)"

section \<open>Status codes\<close>

datatype sm_error =
    SM_ERR_INVALID_ARGUMENT
  | SM_ERR_NOT_IMPLEMENTED
  | SM_ERR_CRYPTO
  | SM_ERR_STORAGE
  | SM_ERR_AUTH
  | SM_ERR_NOT_FOUND
  | SM_ERR_INPUT_TOO_LARGE

text \<open>\<open>SM_OK\<close> with the value a function delivers is \<open>Inr\<close>, every other status is \<open>Inl\<close>.\<close>

type_synonym 'a result = "sm_error + 'a"

fun sm_code :: "'a result \<Rightarrow> int" where
  "sm_code (Inr _) = 0"
| "sm_code (Inl SM_ERR_INVALID_ARGUMENT) = -1"
| "sm_code (Inl SM_ERR_NOT_IMPLEMENTED) = -2"
| "sm_code (Inl SM_ERR_CRYPTO) = -3"
| "sm_code (Inl SM_ERR_STORAGE) = -4"
| "sm_code (Inl SM_ERR_AUTH) = -5"
| "sm_code (Inl SM_ERR_NOT_FOUND) = -6"
| "sm_code (Inl SM_ERR_INPUT_TOO_LARGE) = -7"

definition check :: "bool \<Rightarrow> sm_error \<Rightarrow> unit result" where
  "check b e = (if b then Inr () else Inl e)"

text \<open>The pure form of the chain \<open>if (status == SM_OK) status = ...\<close>.\<close>

definition and_then :: "'a result \<Rightarrow> ('a \<Rightarrow> 'b result) \<Rightarrow> 'b result" where
  "and_then r f = (case r of Inl e \<Rightarrow> Inl e | Inr x \<Rightarrow> f x)"

section \<open>Computations over a state\<close>

type_synonym ('s, 'a) comp = "'s \<Rightarrow> 'a result \<times> 's"

definition ret :: "'a \<Rightarrow> ('s, 'a) comp" where
  "ret x = (\<lambda>s. (Inr x, s))"

definition raise :: "sm_error \<Rightarrow> ('s, 'a) comp" where
  "raise e = (\<lambda>s. (Inl e, s))"

definition andthen :: "('s, 'a) comp \<Rightarrow> ('a \<Rightarrow> ('s, 'b) comp) \<Rightarrow> ('s, 'b) comp" where
  "andthen m f = (\<lambda>s. case m s of (Inl e, s') \<Rightarrow> (Inl e, s') | (Inr x, s') \<Rightarrow> f x s')"

definition lift_result :: "'a result \<Rightarrow> ('s, 'a) comp" where
  "lift_result r = (\<lambda>s. (r, s))"

definition guard :: "bool \<Rightarrow> sm_error \<Rightarrow> ('s, unit) comp" where
  "guard b e = (\<lambda>s. (if b then Inr () else Inl e, s))"

definition gets :: "('s \<Rightarrow> 'a) \<Rightarrow> ('s, 'a) comp" where
  "gets f = (\<lambda>s. (Inr (f s), s))"

definition modify :: "('s \<Rightarrow> 's) \<Rightarrow> ('s, unit) comp" where
  "modify f = (\<lambda>s. (Inr (), f s))"

definition when_ok :: "bool \<Rightarrow> ('s, unit) comp \<Rightarrow> ('s, unit) comp" where
  "when_ok b m = (if b then m else ret ())"

text \<open>Run \<open>m\<close> and hand its status to \<open>f\<close>, whatever it is (a \<open>cleanup:\<close> label).\<close>

definition finally_do :: "('s, 'a) comp \<Rightarrow> ('a result \<Rightarrow> ('s, 'b) comp) \<Rightarrow> ('s, 'b) comp" where
  "finally_do m f = (\<lambda>s. case m s of (r, s') \<Rightarrow> f r s')"

text \<open>A computation keeps a state predicate whatever its status.\<close>

definition preserves :: "('s \<Rightarrow> bool) \<Rightarrow> ('s, 'a) comp \<Rightarrow> bool" where
  "preserves I m = (\<forall>s. I s \<longrightarrow> I (snd (m s)))"

section \<open>Little-endian integers\<close>

text \<open>The loop \<open>out[i] = (unsigned char)(value >> (i * 8))\<close> for \<open>i < n\<close>.\<close>

definition write_le :: "nat \<Rightarrow> 'a::len word \<Rightarrow> bytes" where
  "write_le n v = map (\<lambda>i. ucast (drop_bit (i * 8) v)) [0..<n]"

text \<open>The loop \<open>value |= (uint64_t)in[i] << (8 * i)\<close>.\<close>

primrec read_le_from :: "nat \<Rightarrow> bytes \<Rightarrow> 'a::len word \<Rightarrow> 'a word" where
  "read_le_from i [] acc = acc"
| "read_le_from i (b # bs) acc = read_le_from (Suc i) bs (acc OR push_bit (8 * i) (ucast b))"

definition read_le :: "bytes \<Rightarrow> 'a::len word" where
  "read_le bs = read_le_from 0 bs 0"

section \<open>Lemmas: strings and C integers\<close>

lemma byte_less: "unat (b :: byte) < 256"
  using unsigned_less [of b] by simp

lemma unat_of_char [simp]: "unat (of_char c :: byte) = of_char c"
proof -
  have "(of_char c :: nat) < 256"
    by (metis char_of_char of_char_of mod_less_divisor zero_less_numeral)
  then have "unat (of_nat (of_char c) :: byte) = of_char c"
    by (simp only: unat_of_nat) (simp add: take_bit_eq_mod)
  then show ?thesis by (simp only: of_nat_of_char)
qed

lemma of_char_byte_inject [simp]: "(of_char c :: byte) = of_char d \<longleftrightarrow> c = d"
  by (metis of_char_eq_iff unat_of_char)

lemma length_str_bytes [simp]: "length (str_bytes s) = length s"
  by (simp add: str_bytes_def)

lemma str_bytes_inject [simp]: "str_bytes s = str_bytes t \<longleftrightarrow> s = t"
proof -
  have "inj (of_char :: char \<Rightarrow> byte)" by (simp add: inj_def)
  then show ?thesis by (simp add: str_bytes_def inj_map_eq_map)
qed

lemma c_str_nul_free [simp]: "nul_free s \<Longrightarrow> c_str s = s"
  by (auto simp: nul_free_def c_str_def takeWhile_eq_all_conv)

lemma nul_free_c_str [simp]: "nul_free (c_str s)"
  unfolding nul_free_def c_str_def by (auto dest: set_takeWhileD)

lemma c_int_id [simp]: "- 2147483648 \<le> v \<Longrightarrow> v \<le> INT_MAX \<Longrightarrow> c_int v = v"
  unfolding c_int_def INT_MAX_def
  by (simp add: sint_sbintrunc' signed_take_bit_int_eq_self)

section \<open>Lemmas: results and computations\<close>

lemma and_then_Inr [simp]: "and_then (Inr x) f = f x"
  by (simp add: and_then_def)

lemma and_then_Inl [simp]: "and_then (Inl e) f = Inl e"
  by (simp add: and_then_def)

lemma and_then_eq_Inr: "and_then r f = Inr y \<longleftrightarrow> (\<exists>x. r = Inr x \<and> f x = Inr y)"
  by (cases r) auto

lemma check_True [simp]: "check True e = Inr ()"
  by (simp add: check_def)

lemma check_False [simp]: "check False e = Inl e"
  by (simp add: check_def)

lemma check_eq_Inr [simp]: "check b e = Inr u \<longleftrightarrow> b"
  by (simp add: check_def)

lemma andthen_ret [comp_simps]: "andthen (ret x) f = f x"
  by (simp add: andthen_def ret_def)

lemma andthen_raise [comp_simps]: "andthen (raise e) f = raise e"
  by (simp add: andthen_def raise_def)

lemma andthen_eq_Inr:
  "andthen m f s = (Inr y, s'') \<longleftrightarrow> (\<exists>x s'. m s = (Inr x, s') \<and> f x s' = (Inr y, s''))"
  by (auto simp: andthen_def split: prod.splits sum.splits)

lemma andthen_Inr: "m s = (Inr x, s') \<Longrightarrow> andthen m f s = f x s'"
  by (simp add: andthen_def)

lemma andthen_Inl: "m s = (Inl e, s') \<Longrightarrow> andthen m f s = (Inl e, s')"
  by (simp add: andthen_def)

lemma guard_eq_Inr [simp]: "guard b e s = (Inr u, s') \<longleftrightarrow> b \<and> s' = s"
  by (auto simp: guard_def)

lemma guard_True [comp_simps]: "guard True e = ret ()"
  by (simp add: guard_def ret_def)

lemma guard_False [comp_simps]: "guard False e = raise e"
  by (simp add: guard_def raise_def)

lemma ret_eq [simp]: "ret x s = (Inr x, s)"
  by (simp add: ret_def)

lemma raise_eq [simp]: "raise e s = (Inl e, s)"
  by (simp add: raise_def)

lemma lift_result_eq [simp]: "lift_result r s = (r, s)"
  by (simp add: lift_result_def)

lemma gets_eq [simp]: "gets f s = (Inr (f s), s)"
  by (simp add: gets_def)

lemma modify_eq [simp]: "modify f s = (Inr (), f s)"
  by (simp add: modify_def)

lemma when_ok_True [simp]: "when_ok True m = m"
  by (simp add: when_ok_def)

lemma when_ok_False [simp]: "when_ok False m = ret ()"
  by (simp add: when_ok_def)

lemma preservesI: "(\<And>s. I s \<Longrightarrow> I (snd (m s))) \<Longrightarrow> preserves I m"
  by (simp add: preserves_def)

lemma preservesD: "preserves I m \<Longrightarrow> I s \<Longrightarrow> m s = (r, s') \<Longrightarrow> I s'"
  by (metis preserves_def snd_conv)

lemma preserves_ret [preserves_rules]: "preserves I (ret x)"
  by (simp add: preserves_def)

lemma preserves_raise [preserves_rules]: "preserves I (raise e)"
  by (simp add: preserves_def)

lemma preserves_lift_result [preserves_rules]: "preserves I (lift_result r)"
  by (simp add: preserves_def)

lemma preserves_guard [preserves_rules]: "preserves I (guard b e)"
  by (simp add: preserves_def guard_def)

lemma preserves_gets [preserves_rules]: "preserves I (gets f)"
  by (simp add: preserves_def)

lemma preserves_andthen [preserves_rules]:
  "preserves I m \<Longrightarrow> (\<And>x. preserves I (f x)) \<Longrightarrow> preserves I (andthen m f)"
  unfolding preserves_def andthen_def
  by (auto split: prod.splits sum.splits; metis snd_conv)

lemma preserves_finally_do [preserves_rules]:
  "preserves I m \<Longrightarrow> (\<And>r. preserves I (f r)) \<Longrightarrow> preserves I (finally_do m f)"
  unfolding preserves_def finally_do_def
  by (auto split: prod.splits; metis snd_conv)

lemma preserves_when_ok [preserves_rules]: "preserves I m \<Longrightarrow> preserves I (when_ok b m)"
  by (simp add: when_ok_def preserves_ret)

lemma preserves_if [preserves_rules]:
  "preserves I m \<Longrightarrow> preserves I m' \<Longrightarrow> preserves I (if b then m else m')"
  by simp

section \<open>Lemmas: little-endian integers\<close>

lemma length_write_le [simp]: "length (write_le n v) = n"
  by (simp add: write_le_def)

lemma nth_write_le: "i < n \<Longrightarrow> write_le n v ! i = ucast (drop_bit (i * 8) v)"
  by (simp add: write_le_def)

lemma bit_push_ucast_byte:
  fixes b :: byte
  shows "bit (push_bit (8 * i) (ucast b :: 'a::len word)) k \<longleftrightarrow>
      k < LENGTH('a) \<and> k div 8 = i \<and> bit b (k mod 8)"
proof (cases "k < 8 * i")
  case True
  then have "k div 8 \<noteq> i" by (metis less_mult_imp_div_less mult.commute nat_less_le)
  with True show ?thesis by (simp add: bit_push_bit_iff)
next
  case False
  define j where "j = k - 8 * i"
  have k: "k = 8 * i + j" using False by (simp add: j_def)
  show ?thesis
  proof (cases "j < 8")
    case True
    then show ?thesis unfolding k by (auto simp: bit_push_bit_iff bit_ucast_iff)
  next
    case False
    then have "\<not> bit b j" using bit_imp_le_length [of b j] by auto
    moreover have "k div 8 \<noteq> i" unfolding k using False by simp
    ultimately show ?thesis unfolding k by (simp add: bit_push_bit_iff bit_ucast_iff)
  qed
qed

lemma bit_read_le_from:
  fixes acc :: "'a::len word"
  shows "bit (read_le_from i bs acc) k \<longleftrightarrow>
    bit acc k \<or> (k < LENGTH('a) \<and> i \<le> k div 8 \<and> k div 8 - i < length bs \<and>
      bit (bs ! (k div 8 - i)) (k mod 8))"
proof (induction bs arbitrary: i acc)
  case Nil
  then show ?case by simp
next
  case (Cons b bs)
  show ?case
  proof (cases "k div 8 = i")
    case True
    then show ?thesis by (auto simp: Cons.IH bit_or_iff bit_push_ucast_byte)
  next
    case False
    then have ge: "Suc i \<le> k div 8 \<longleftrightarrow> i \<le> k div 8" by arith
    have "k div 8 - i = Suc (k div 8 - Suc i)" if "i \<le> k div 8"
      using False that by arith
    then show ?thesis
      using False by (auto simp: Cons.IH bit_or_iff bit_push_ucast_byte ge)
  qed
qed

lemma read_write_le:
  fixes v :: "'a::len word"
  assumes "LENGTH('a) = 8 * n"
  shows "read_le (write_le n v) = v"
proof (rule bit_word_eqI)
  fix k
  assume k: "k < LENGTH('a)"
  then have "k div 8 < n" using assms by simp
  then have "bit (write_le n v ! (k div 8)) (k mod 8) \<longleftrightarrow> bit v k"
    by (simp add: nth_write_le bit_ucast_iff bit_drop_bit_eq)
  with k \<open>k div 8 < n\<close> show "bit (read_le (write_le n v) :: 'a word) k \<longleftrightarrow> bit v k"
    by (simp add: read_le_def bit_read_le_from)
qed

text \<open>
  The contract of a fixed-width integer codec. Its clients are the framed encodings:
  a value followed by anything can be taken apart again in one way only.
\<close>

locale fixed_codec =
  fixes enc :: "'v \<Rightarrow> bytes"
    and dec :: "bytes \<Rightarrow> 'v"
    and width :: nat
  assumes dec_enc: "dec (enc v) = v"
    and width_enc: "length (enc v) = width"
begin

lemma enc_inject: "enc v = enc w \<longleftrightarrow> v = w"
  by (metis dec_enc)

lemma enc_append_inject: "enc v @ xs = enc w @ ys \<longleftrightarrow> v = w \<and> xs = ys"
  by (metis append_eq_append_conv enc_inject width_enc)

lemma dec_take: "dec (take width (enc v @ xs)) = v"
  by (simp add: dec_enc flip: width_enc [of v])

end

section \<open>Interface: framed fields\<close>

text \<open>
  The contract of a self-delimiting field encoding: a framed field followed by anything can
  be cut off in one way only. Its clients, the canonical encodings that are hashed, signed
  or authenticated, then determine their fields.
\<close>

locale framing =
  fixes frame :: "bytes \<Rightarrow> bytes"
    and fits :: "bytes \<Rightarrow> bool"
  assumes frame_cut: "fits a \<Longrightarrow> fits b \<Longrightarrow> frame a @ xs = frame b @ ys \<Longrightarrow> a = b \<and> xs = ys"
    and frame_nonempty: "frame a \<noteq> []"
begin

lemma frames_inject:
  "list_all fits as \<Longrightarrow> list_all fits bs \<Longrightarrow> concat (map frame as) = concat (map frame bs) \<Longrightarrow> as = bs"
proof (induction as arbitrary: bs)
  case Nil
  then show ?case by (cases bs) (simp_all add: frame_nonempty)
next
  case (Cons a as)
  from Cons.prems obtain b cs where bs: "bs = b # cs"
    by (cases bs) (auto simp: frame_nonempty)
  with Cons.prems have "a = b \<and> concat (map frame as) = concat (map frame cs)"
    using frame_cut [of a b "concat (map frame as)" "concat (map frame cs)"] by simp
  then show ?case using Cons.IH [of cs] Cons.prems bs by simp
qed

end

end
