(* ===== verification/Fuin_Env.thy ===== *)
theory Fuin_Env
  imports Fuin_Prelude
begin

text \<open>
  What the program calls but does not define. libsodium, OpenSSL, the operating
  system's clock and the outcome of each SQLite statement are the fields of one record
  \<open>env\<close>, an argument of every definition that uses them; the theorems quantify over it
  and name the documented behaviour they rely on (\<open>crypto_ok\<close> and its parts). The part
  of the state that orders the calls is the counter \<open>tick\<close>: the clock, the random
  generator and the statement outcomes are read at the current tick, which every such
  call advances.
\<close>

section \<open>Parameters\<close>

datatype aead_algorithm = AES_256_GCM | XCHACHA20_POLY1305 | AEGIS_256

record env =
  \<comment> \<open>libsodium\<close>
  sodium_init_ok :: bool
  sha256 :: "bytes \<Rightarrow> bytes"
  crypto_auth :: "bytes \<Rightarrow> bytes \<Rightarrow> bytes"
  generichash :: "bytes \<Rightarrow> bytes \<Rightarrow> bytes"
  aead_encrypt :: "aead_algorithm \<Rightarrow> bytes \<Rightarrow> bytes \<Rightarrow> bytes \<Rightarrow> bytes \<Rightarrow> bytes"
  aead_decrypt :: "aead_algorithm \<Rightarrow> bytes \<Rightarrow> bytes \<Rightarrow> bytes \<Rightarrow> bytes \<Rightarrow> bytes option"
  aes256gcm_is_available :: bool
  has_aegis :: bool
  pwhash :: "string \<Rightarrow> bytes \<Rightarrow> bytes option"
  kdf_derive_from_key :: "nat \<Rightarrow> string \<Rightarrow> bytes \<Rightarrow> bytes option"
  bin2hex :: "bytes \<Rightarrow> string"
  bin2base64 :: "bytes \<Rightarrow> string"
  base642bin :: "string \<Rightarrow> bytes option"
  randombytes :: "nat \<Rightarrow> nat \<Rightarrow> bytes"
  randombytes_uniform :: "nat \<Rightarrow> nat \<Rightarrow> nat"
  \<comment> \<open>OpenSSL: HMAC-SHA1 through \<open>EVP_Q_mac\<close>\<close>
  hmac_sha1 :: "bytes \<Rightarrow> bytes \<Rightarrow> bytes option"
  \<comment> \<open>operating system and SQLite\<close>
  clock :: "nat \<Rightarrow> int"
  sql_ok :: "nat \<Rightarrow> bool"

record world =
  tick :: nat

section \<open>Effects\<close>

definition next_tick :: "'a world_scheme \<Rightarrow> 'a world_scheme" where
  "next_tick s = s\<lparr>tick := Suc (tick s)\<rparr>"

text \<open>\<open>time(NULL)\<close>: seconds since the epoch, or -1.\<close>

definition sys_time :: "env \<Rightarrow> ('a world_scheme, int) comp" where
  "sys_time E = (\<lambda>s. (Inr (clock E (tick s)), next_tick s))"

definition randombytes_buf :: "env \<Rightarrow> nat \<Rightarrow> ('a world_scheme, bytes) comp" where
  "randombytes_buf E n = (\<lambda>s. (Inr (randombytes E (tick s) n), next_tick s))"

definition uniform_draw :: "env \<Rightarrow> nat \<Rightarrow> ('a world_scheme, nat) comp" where
  "uniform_draw E n = (\<lambda>s. (Inr (randombytes_uniform E (tick s) n), next_tick s))"

definition require_sodium :: "env \<Rightarrow> unit result" where
  "require_sodium E = check (sodium_init_ok E) SM_ERR_CRYPTO"

section \<open>Documented behaviour of the parameters\<close>

fun key_bytes :: "aead_algorithm \<Rightarrow> nat" where
  "key_bytes _ = 32"

fun npub_bytes :: "aead_algorithm \<Rightarrow> nat" where
  "npub_bytes AES_256_GCM = 12"
| "npub_bytes XCHACHA20_POLY1305 = 24"
| "npub_bytes AEGIS_256 = 32"

fun tag_bytes :: "aead_algorithm \<Rightarrow> nat" where
  "tag_bytes AES_256_GCM = 16"
| "tag_bytes XCHACHA20_POLY1305 = 16"
| "tag_bytes AEGIS_256 = 32"

definition sha256_ok :: "env \<Rightarrow> bool" where
  "sha256_ok E = (\<forall>m. length (sha256 E m) = 32)"

definition auth_ok :: "env \<Rightarrow> bool" where
  "auth_ok E = (\<forall>k m. length (crypto_auth E k m) = 32)"

definition generichash_ok :: "env \<Rightarrow> bool" where
  "generichash_ok E = (\<forall>k m. length (generichash E k m) = 32)"

definition aead_ok :: "env \<Rightarrow> bool" where
  "aead_ok E = ((\<forall>alg k n ad m.
     aead_decrypt E alg k n ad (aead_encrypt E alg k n ad m) = Some m \<and>
     length (aead_encrypt E alg k n ad m) = length m + tag_bytes alg) \<and>
     (\<forall>alg k n ad c m. aead_decrypt E alg k n ad c = Some m \<longrightarrow> length c = length m + tag_bytes alg))"

definition base64_ok :: "env \<Rightarrow> bool" where
  "base64_ok E = (\<forall>b. base642bin E (bin2base64 E b) = Some b \<and>
     CHR ''.'' \<notin> set (bin2base64 E b) \<and> nul_free (bin2base64 E b) \<and>
     length (bin2base64 E b) = 4 * ((length b + 2) div 3))"

definition hex_ok :: "env \<Rightarrow> bool" where
  "hex_ok E = (inj (bin2hex E) \<and> (\<forall>b. length (bin2hex E b) = 2 * length b \<and> nul_free (bin2hex E b)))"

definition random_ok :: "env \<Rightarrow> bool" where
  "random_ok E = (\<forall>t n. length (randombytes E t n) = n \<and>
     (0 < n \<longrightarrow> randombytes_uniform E t n < n))"

section \<open>A sample instance\<close>

text \<open>
  A small concrete instance of the parameters. It satisfies the length and round-trip
  laws above (not the security ones) and is used to evaluate the model on examples.
\<close>

definition fit32 :: "bytes \<Rightarrow> bytes" where
  "fit32 b = take 32 (b @ replicate 32 0)"

definition sample_hex :: "byte \<Rightarrow> string" where
  "sample_hex b = [''0123456789abcdef'' ! (unat b div 16), ''0123456789abcdef'' ! (unat b mod 16)]"

definition b64_alphabet :: string where
  "b64_alphabet = ''ABCDEFGHIJKLMNOPQRSTUVWXYZabcdefghijklmnopqrstuvwxyz0123456789+/''"

definition b64_char :: "nat \<Rightarrow> char" where
  "b64_char i = b64_alphabet ! i"

definition b64_value :: "char \<Rightarrow> nat" where
  "b64_value c = length (takeWhile (\<lambda>d. d \<noteq> c) b64_alphabet)"

fun b64_encode :: "bytes \<Rightarrow> string" where
  "b64_encode [] = []"
| "b64_encode [a] = [b64_char (unat a div 4), b64_char (unat a mod 4 * 16), CHR ''='', CHR ''='']"
| "b64_encode [a, b] = [b64_char (unat a div 4), b64_char (unat a mod 4 * 16 + unat b div 16),
     b64_char (unat b mod 16 * 4), CHR ''='']"
| "b64_encode (a # b # c # bs) = b64_char (unat a div 4) # b64_char (unat a mod 4 * 16 + unat b div 16) #
     b64_char (unat b mod 16 * 4 + unat c div 64) # b64_char (unat c mod 64) # b64_encode bs"

fun b64_decode :: "string \<Rightarrow> bytes option" where
  "b64_decode [] = Some []"
| "b64_decode (p # q # r # t # cs) =
     (if r = CHR ''='' then Some [of_nat (b64_value p * 4 + b64_value q div 16)]
      else if t = CHR ''='' then Some [of_nat (b64_value p * 4 + b64_value q div 16),
        of_nat (b64_value q mod 16 * 16 + b64_value r div 4)]
      else map_option (\<lambda>bs. of_nat (b64_value p * 4 + b64_value q div 16) #
        of_nat (b64_value q mod 16 * 16 + b64_value r div 4) #
        of_nat (b64_value r mod 4 * 64 + b64_value t) # bs) (b64_decode cs))"
| "b64_decode _ = None"

definition sample_env :: env where
  "sample_env = \<lparr>
     sodium_init_ok = True,
     sha256 = fit32,
     crypto_auth = (\<lambda>k m. fit32 (take 16 (k @ m) @ take 16 (rev m))),
     generichash = (\<lambda>k m. fit32 (take 16 (k @ m) @ take 16 (rev m))),
     aead_encrypt = (\<lambda>alg k n ad m. m @ replicate (tag_bytes alg) (if k = [] then 0 else hd k)),
     aead_decrypt = (\<lambda>alg k n ad c.
       if length c < tag_bytes alg \<or>
          drop (length c - tag_bytes alg) c \<noteq> replicate (tag_bytes alg) (if k = [] then 0 else hd k)
       then None else Some (take (length c - tag_bytes alg) c)),
     aes256gcm_is_available = True,
     has_aegis = True,
     pwhash = (\<lambda>pw salt. Some (fit32 (str_bytes pw @ salt))),
     kdf_derive_from_key = (\<lambda>i ctx k. Some (map (\<lambda>b. b + of_nat i) (fit32 k))),
     bin2hex = (\<lambda>b. concat (map sample_hex b)),
     bin2base64 = b64_encode,
     base642bin = b64_decode,
     randombytes = (\<lambda>t n. replicate n (of_nat t)),
     randombytes_uniform = (\<lambda>t n. t mod n),
     hmac_sha1 = (\<lambda>k m. Some (take 20 (fit32 (k @ m)))),
     clock = (\<lambda>t. 1719792000 + int t),
     sql_ok = (\<lambda>_. True)\<rparr>"

section \<open>Lemmas\<close>

lemma sys_time_eq [simp]: "sys_time E s = (Inr (clock E (tick s)), next_tick s)"
  by (simp add: sys_time_def)

lemma randombytes_buf_eq [simp]:
  "randombytes_buf E n s = (Inr (randombytes E (tick s) n), next_tick s)"
  by (simp add: randombytes_buf_def)

lemma tick_next_tick [simp]: "tick (next_tick s) = Suc (tick s)"
  by (simp add: next_tick_def)

lemma require_sodium_eq_Inr [simp]: "require_sodium E = Inr u \<longleftrightarrow> sodium_init_ok E"
  by (simp add: require_sodium_def)

lemma b64_char_props:
  "i < 64 \<Longrightarrow> b64_value (b64_char i) = i \<and> b64_char i \<noteq> CHR ''='' \<and> b64_char i \<noteq> CHR ''.'' \<and>
    b64_char i \<noteq> CHR 0x00"
proof -
  assume i: "i < 64"
  have "list_all (\<lambda>i. b64_value (b64_char i) = i \<and> b64_char i \<noteq> CHR ''='' \<and> b64_char i \<noteq> CHR ''.'' \<and>
    b64_char i \<noteq> CHR 0x00) [0..<64]"
    by code_simp
  with i show ?thesis by (simp add: list_all_iff)
qed

lemma b64_split:
  fixes a b c :: byte
  shows "unat a div 4 < 64" "unat a mod 4 * 16 + unat b div 16 < 64"
    "unat b mod 16 * 4 + unat c div 64 < 64" "unat a mod 4 * 16 < 64" "unat b mod 16 * 4 < 64"
    "unat c mod 64 < 64"
proof -
  have "unat a div 4 < 64" "unat b div 16 < 16" "unat c div 64 < 4"
    using byte_less [of a] byte_less [of b] byte_less [of c]
    by (simp_all add: less_mult_imp_div_less)
  moreover have "unat a mod 4 < 4" "unat b mod 16 < 16" by simp_all
  ultimately show "unat a div 4 < 64" "unat a mod 4 * 16 + unat b div 16 < 64"
    "unat b mod 16 * 4 + unat c div 64 < 64" "unat a mod 4 * 16 < 64" "unat b mod 16 * 4 < 64"
    "unat c mod 64 < 64"
    by linarith+
qed

lemma b64_join:
  fixes b :: nat
  shows "(a mod 4 * 16 + b div 16) div 16 = a mod 4 + b div 16 div 16"
    "(a mod 4 * 16 + b div 16) mod 16 = b div 16 mod 16"
    "(b mod 16 * 4 + c div 64) div 4 = b mod 16 + c div 64 div 4"
    "(b mod 16 * 4 + c div 64) mod 4 = c div 64 mod 4"
  by simp_all

lemma unat_div_256: "unat (a :: byte) div 256 = 0"
  using byte_less [of a] by simp

lemma byte_digits:
  fixes a :: byte
  shows "of_nat (unat a div 4 * 4 + unat a mod 4) = a"
    "of_nat (unat a div 16 mod 16 * 16 + unat a mod 16) = a"
    "of_nat (unat a div 64 mod 4 * 64 + unat a mod 64) = a"
proof -
  have "unat a div 16 < 16" "unat a div 64 < 4"
    using byte_less [of a] by (simp_all add: less_mult_imp_div_less)
  then have m: "unat a div 16 mod 16 = unat a div 16" "unat a div 64 mod 4 = unat a div 64" by simp_all
  show "of_nat (unat a div 4 * 4 + unat a mod 4) = a"
    "of_nat (unat a div 16 mod 16 * 16 + unat a mod 16) = a"
    "of_nat (unat a div 64 mod 4 * 64 + unat a mod 64) = a"
    unfolding m div_mult_mod_eq by simp_all
qed

lemma b64_roundtrip: "b64_decode (b64_encode bs) = Some bs"
proof (induction bs rule: b64_encode.induct)
  case 1
  then show ?case by simp
next
  case (2 a)
  have "unat a mod 4 * 16 div 16 = unat a mod 4" by simp
  then show ?case
    using byte_digits(1) [of a] by (simp add: b64_char_props b64_split del: of_nat_add of_nat_mult)
next
  case (3 a b)
  have "unat b div 16 div 16 = 0" "unat b mod 16 * 4 div 4 = unat b mod 16"
    using unat_div_256 [of b] by (simp_all add: div_mult2_eq [symmetric])
  then show ?case
    using byte_digits(1) [of a] byte_digits(2) [of b]
    by (simp add: b64_char_props b64_split b64_join del: of_nat_add of_nat_mult)
next
  case (4 a b c bs)
  have "unat b div 16 div 16 = 0" "unat c div 64 div 4 = 0"
    using unat_div_256 [of b] unat_div_256 [of c] by (simp_all add: div_mult2_eq [symmetric])
  then show ?case
    using 4 byte_digits(1) [of a] byte_digits(2) [of b] byte_digits(3) [of c]
    by (simp add: b64_char_props b64_split b64_join del: of_nat_add of_nat_mult)
qed

lemma b64_encode_chars: "c \<in> set (b64_encode bs) \<Longrightarrow> c \<noteq> CHR ''.'' \<and> c \<noteq> CHR 0x00"
  by (induction bs rule: b64_encode.induct) (auto simp: b64_char_props b64_split)

lemma length_b64_encode: "length (b64_encode bs) = 4 * ((length bs + 2) div 3)"
proof (induction bs rule: b64_encode.induct)
  case (4 a b c bs)
  have "(length (a # b # c # bs) + 2) div 3 = Suc ((length bs + 2) div 3)"
    using div_add_self2 [of 3 "length bs + 2"] by simp
  then show ?case using 4 by simp
qed simp_all

lemma sample_base64_ok: "base64_ok sample_env"
  using b64_encode_chars
  by (auto simp: base64_ok_def sample_env_def b64_roundtrip length_b64_encode nul_free_def)

lemma length_fit32 [simp]: "length (fit32 b) = 32"
  by (simp add: fit32_def)

lemma sample_hashes_ok: "sha256_ok sample_env" "auth_ok sample_env" "generichash_ok sample_env"
  by (simp_all add: sha256_ok_def auth_ok_def generichash_ok_def sample_env_def)

lemma sample_aead_ok: "aead_ok sample_env"
  by (simp add: aead_ok_def sample_env_def)

end
