(* ===== verification/Fuin_Time.thy ===== *)
theory Fuin_Time
  imports Fuin_Env
begin

text \<open>
  The C library as \<open>src/src/utils.c\<close> uses it for timestamps: \<open>gmtime_r\<close>, the
  decimal and hexadecimal conversions of \<open>snprintf\<close>, and \<open>strcmp\<close>; then
  \<open>utils_format_iso8601\<close> with the two functions that read the clock. The vault compares
  expiry times as strings, so the main result is that the string order of timestamps is
  the order of the times.
\<close>

section \<open>Formatting and comparison\<close>

definition digit_char :: "nat \<Rightarrow> char" where
  "digit_char d = ''0123456789'' ! d"

fun dec_digits :: "nat \<Rightarrow> string" where
  "dec_digits n = (if n < 10 then [digit_char n] else dec_digits (n div 10) @ [digit_char (n mod 10)])"

declare dec_digits.simps [simp del]

definition zero_pad :: "nat \<Rightarrow> string \<Rightarrow> string" where
  "zero_pad w s = replicate (w - length s) CHR ''0'' @ s"

text \<open>\<open>%0<w>u\<close> and \<open>%0<w>d\<close>.\<close>

definition fmt_0u :: "nat \<Rightarrow> nat \<Rightarrow> string" where
  "fmt_0u w n = zero_pad w (dec_digits n)"

definition fmt_0d :: "nat \<Rightarrow> int \<Rightarrow> string" where
  "fmt_0d w n = (if n < 0 then CHR ''-'' # fmt_0u (w - 1) (nat (- n)) else fmt_0u w (nat n))"

text \<open>The same digits by division of integers, for evaluation.\<close>

definition int_digits :: "int \<Rightarrow> string" where
  "int_digits n = dec_digits (nat n)"

lemma int_digits_code [code]:
  "int_digits n = (if n < 10 then [digit_char (nat n)] else int_digits (n div 10) @ [digit_char (nat (n mod 10))])"
  by (cases "n < 10") (simp_all add: int_digits_def dec_digits.simps [of "nat n"] nat_div_distrib nat_mod_distrib)

lemma fmt_0d_code [code]:
  "fmt_0d w n = (if n < 0 then CHR ''-'' # zero_pad (w - 1) (int_digits (- n)) else zero_pad w (int_digits n))"
  by (simp add: fmt_0d_def fmt_0u_def int_digits_def)

definition hex_char :: "nat \<Rightarrow> char" where
  "hex_char d = ''0123456789abcdef'' ! d"

text \<open>\<open>%02x\<close> of one byte.\<close>

definition fmt_02x :: "byte \<Rightarrow> string" where
  "fmt_02x b = [hex_char (unat b div 16), hex_char (unat b mod 16)]"

fun strcmp :: "string \<Rightarrow> string \<Rightarrow> int" where
  "strcmp [] [] = 0"
| "strcmp [] (y # ys) = - of_char y"
| "strcmp (x # xs) [] = of_char x"
| "strcmp (x # xs) (y # ys) = (if x = y then strcmp xs ys else of_char x - of_char y)"

section \<open>Broken-down UTC time\<close>

text \<open>Days from 1970-01-01 to January 1st of a year: the calendar rule of \<open>gmtime\<close>.\<close>

definition days_before_year :: "int \<Rightarrow> int" where
  "days_before_year y = 365 * (y - 1970) + (y - 1969) div 4 - (y - 1901) div 100 + (y - 1601) div 400"

definition is_leap :: "int \<Rightarrow> bool" where
  "is_leap y = (y mod 4 = 0 \<and> (y mod 100 \<noteq> 0 \<or> y mod 400 = 0))"

lemma div_next:
  fixes a n :: int
  assumes "0 < n"
  shows "(a + 1) div n = a div n + (if (a + 1) mod n = 0 then 1 else 0)"
proof (cases "a mod n + 1 = n")
  case True
  moreover have "a = n * (a div n) + a mod n" by simp
  moreover have "n * (a div n + 1) = n * (a div n) + n" by (simp add: distrib_left)
  ultimately have e: "a + 1 = n * (a div n + 1) + 0" by linarith
  from int_div_pos_eq [OF e] int_mod_pos_eq [OF e] assms show ?thesis by simp
next
  case False
  then have r: "0 \<le> a mod n + 1" "a mod n + 1 < n"
    using assms pos_mod_bound [of n a] pos_mod_sign [of n a] by linarith+
  have "a + 1 = n * (a div n) + (a mod n + 1)"
    using mult_div_mod_eq [of n a] by simp
  from int_div_pos_eq [OF this r] int_mod_pos_eq [OF this r] r
  show ?thesis using pos_mod_sign [OF assms, of a] by simp
qed

lemma mod_shift_zero: "(y - c + 1) mod n = 0 \<longleftrightarrow> y mod n = 0" if "(c - 1) mod n = 0" for y c n :: int
  using that by (metis mod_0_imp_dvd dvd_imp_mod_0 diff_add_eq diff_diff_eq2 dvd_diff_commute dvd_diff_left_iff add.commute diff_diff_add mod_eq_0_iff_dvd uminus_add_conv_diff diff_minus_eq_add dvd_minus_iff minus_diff_eq zdvd_zdiffD dvd_diff dvd_add_right_iff)

lemma leap_arith:
  fixes a b c x :: int
  assumes "h \<Longrightarrow> g" "g \<Longrightarrow> f"
  shows "365 * (x + 1 - 1970) + (a + (if f then 1 else 0)) - (b + (if g then 1 else 0)) + (c + (if h then 1 else 0))
    = 365 * (x - 1970) + a - b + c + (if f \<and> (\<not> g \<or> h) then 366 else 365)"
  using assms by (cases f; cases g; cases h) simp_all

lemma days_before_year_Suc:
  "days_before_year (y + 1) = days_before_year y + (if is_leap y then 366 else 365)"
proof -
  have a1: "(y + 1 - 1969) div 4 = (y - 1969) div 4 + (if y mod 4 = 0 then 1 else (0::int))"
    using div_next [of 4 "y - 1969"] mod_shift_zero [of 1969 4 y] by (simp add: algebra_simps)
  have a2: "(y + 1 - 1901) div 100 = (y - 1901) div 100 + (if y mod 100 = 0 then 1 else (0::int))"
    using div_next [of 100 "y - 1901"] mod_shift_zero [of 1901 100 y] by (simp add: algebra_simps)
  have a3: "(y + 1 - 1601) div 400 = (y - 1601) div 400 + (if y mod 400 = 0 then 1 else (0::int))"
    using div_next [of 400 "y - 1601"] mod_shift_zero [of 1601 400 y] by (simp add: algebra_simps)
  have d: "(4::int) dvd 100" "(100::int) dvd 400" by simp_all
  have m: "y mod 400 = 0 \<Longrightarrow> y mod 100 = 0" "y mod 100 = 0 \<Longrightarrow> y mod 4 = 0"
    using d by (metis dvd_trans mod_0_imp_dvd dvd_imp_mod_0)+
  show ?thesis
    unfolding days_before_year_def is_leap_def a1 a2 a3
    by (rule leap_arith [OF m])
qed

lemma days_before_year_less: "days_before_year y < days_before_year (y + 1)"
  by (simp add: days_before_year_Suc)

text \<open>The last year that starts on or before day \<open>d\<close>, searched upwards from \<open>y\<close>.\<close>

function year_search :: "int \<Rightarrow> int \<Rightarrow> int" where
  "year_search d y = (if days_before_year (y + 1) \<le> d then year_search d (y + 1) else y)"
  by pat_completeness auto
termination
proof (relation "measure (\<lambda>(d, y). nat (d - days_before_year y))")
  fix d y :: int
  assume "days_before_year (y + 1) \<le> d"
  then show "((d, y + 1), (d, y)) \<in> measure (\<lambda>(d, y). nat (d - days_before_year y))"
    using days_before_year_less [of y] by auto
qed simp

declare year_search.simps [simp del]

definition year_of_day :: "int \<Rightarrow> int" where
  "year_of_day d = year_search d (1970 + (if 0 \<le> d then d div 366 else d div 365))"

definition month_lengths :: "int \<Rightarrow> int list" where
  "month_lengths y = [31, if is_leap y then 29 else 28, 31, 30, 31, 30, 31, 31, 30, 31, 30, 31]"

fun month_split :: "int list \<Rightarrow> int \<Rightarrow> int \<times> int" where
  "month_split [] d = (0, d)"
| "month_split (l # ls) d =
     (if d < l then (0, d) else (case month_split ls (d - l) of (m, r) \<Rightarrow> (m + 1, r)))"

record tm =
  tm_year :: int
  tm_mon :: int
  tm_mday :: int
  tm_hour :: int
  tm_min :: int
  tm_sec :: int

text \<open>\<open>gmtime_r\<close> returns NULL when the year does not fit the \<open>int\<close> field.\<close>

definition gmtime :: "int \<Rightarrow> tm option" where
  "gmtime t =
     (let d = t div 86400; r = t mod 86400; y = year_of_day d;
          (m, md) = month_split (month_lengths y) (d - days_before_year y)
      in if y - 1900 < - 2147483648 \<or> INT_MAX < y - 1900 then None
         else Some \<lparr>tm_year = y - 1900, tm_mon = m, tm_mday = md + 1,
                    tm_hour = r div 3600, tm_min = r mod 3600 div 60, tm_sec = r mod 60\<rparr>)"

section \<open>Timestamps of \<open>utils.c\<close>\<close>

definition UTILS_ISO8601_UTC_BUFFER_LEN :: nat where
  "UTILS_ISO8601_UTC_BUFFER_LEN = 21"

definition iso8601_string :: "tm \<Rightarrow> string" where
  "iso8601_string u =
     fmt_0d 4 (tm_year u + 1900) @ ''-'' @ fmt_0d 2 (tm_mon u + 1) @ ''-'' @ fmt_0d 2 (tm_mday u) @
     ''T'' @ fmt_0d 2 (tm_hour u) @ '':'' @ fmt_0d 2 (tm_min u) @ '':'' @ fmt_0d 2 (tm_sec u) @ ''Z''"

definition utils_format_iso8601 :: "int \<Rightarrow> nat \<Rightarrow> string result" where
  "utils_format_iso8601 timestamp buffer_len =
     (if buffer_len < UTILS_ISO8601_UTC_BUFFER_LEN then Inl SM_ERR_INVALID_ARGUMENT
      else case gmtime timestamp of
        None \<Rightarrow> Inl SM_ERR_STORAGE
      | Some u \<Rightarrow>
          (if buffer_len \<le> length (iso8601_string u) then Inl SM_ERR_INVALID_ARGUMENT
           else Inr (iso8601_string u)))"

definition utils_now_iso8601 :: "env \<Rightarrow> nat \<Rightarrow> ('a world_scheme, string) comp" where
  "utils_now_iso8601 E buffer_len =
     andthen (guard (UTILS_ISO8601_UTC_BUFFER_LEN \<le> buffer_len) SM_ERR_INVALID_ARGUMENT) (\<lambda>_.
     andthen (sys_time E) (\<lambda>now.
     if now = -1 then raise SM_ERR_STORAGE
     else lift_result (utils_format_iso8601 now buffer_len)))"

text \<open>
  \<open>seconds\<close> is a \<open>uint64_t\<close>; \<open>time_t\<close> and \<open>long\<close> have 64 bits, and the sum is
  taken modulo \<open>2 ^ 64\<close> before the test \<open>expires < now\<close>.
\<close>

definition time_add :: "int \<Rightarrow> int \<Rightarrow> int" where
  "time_add now off = sint (word_of_int (now + off) :: 64 word)"

definition utils_now_plus_seconds_iso8601 ::
  "env \<Rightarrow> 64 word \<Rightarrow> nat \<Rightarrow> ('a world_scheme, string) comp" where
  "utils_now_plus_seconds_iso8601 E seconds buffer_len =
     andthen (guard (UTILS_ISO8601_UTC_BUFFER_LEN \<le> buffer_len) SM_ERR_INVALID_ARGUMENT) (\<lambda>_.
     andthen (guard (uint seconds \<le> INT64_MAX) SM_ERR_INVALID_ARGUMENT) (\<lambda>_.
     andthen (sys_time E) (\<lambda>now.
     if now = -1 then raise SM_ERR_STORAGE
     else let offset = sint seconds; expires = time_add now offset in
       if offset < 0 then raise SM_ERR_INVALID_ARGUMENT
       else if expires < now then raise SM_ERR_INVALID_ARGUMENT
       else lift_result (utils_format_iso8601 expires buffer_len))))"

section \<open>Lemmas: string comparison\<close>

lemma strcmp_refl [simp]: "strcmp s s = 0"
  by (induction s) auto

lemma strcmp_append:
  "length xs = length ys \<Longrightarrow>
   strcmp (xs @ us) (ys @ vs) = (if xs = ys then strcmp us vs else strcmp xs ys)"
  by (induction xs ys rule: list_induct2) auto

lemma of_char_digit: "d < 10 \<Longrightarrow> (of_char (digit_char d) :: int) = 48 + int d"
proof -
  assume "d < 10"
  then have "d \<in> {0, 1, 2, 3, 4, 5, 6, 7, 8, 9}" by auto
  then show ?thesis by (auto simp: digit_char_def)
qed

lemma digit_char_inject: "a < 10 \<Longrightarrow> b < 10 \<Longrightarrow> digit_char a = digit_char b \<longleftrightarrow> a = b"
  by (metis add_left_cancel of_char_digit of_nat_eq_iff)

text \<open>The last \<open>w\<close> decimal digits of a number, leading zeros included.\<close>

fun fixed_digits :: "nat \<Rightarrow> nat \<Rightarrow> string" where
  "fixed_digits 0 n = []"
| "fixed_digits (Suc w) n = fixed_digits w (n div 10) @ [digit_char (n mod 10)]"

lemma length_fixed_digits [simp]: "length (fixed_digits w n) = w"
  by (induction w n rule: fixed_digits.induct) auto

lemma fixed_digits_zero: "fixed_digits w 0 = replicate w CHR ''0''"
  by (induction w) (simp_all add: digit_char_def replicate_append_same)

lemma length_dec_digits: "0 < w \<Longrightarrow> n < 10 ^ w \<Longrightarrow> length (dec_digits n) \<le> w"
proof (induction n arbitrary: w rule: dec_digits.induct)
  case (1 n)
  show ?case
  proof (cases "n < 10")
    case True
    with 1 show ?thesis by (subst dec_digits.simps) simp
  next
    case False
    with 1(2,3) obtain v where w: "w = Suc v" "0 < v" by (cases w; cases "w - 1") auto
    with 1(3) have "n div 10 < 10 ^ v" by auto
    from 1(1) [OF False w(2) this] False show ?thesis
      by (subst dec_digits.simps) (simp add: w)
  qed
qed

lemma fmt_0u_fixed: "0 < w \<Longrightarrow> n < 10 ^ w \<Longrightarrow> fmt_0u w n = fixed_digits w n"
proof (induction n arbitrary: w rule: dec_digits.induct)
  case (1 n)
  then obtain v where w: "w = Suc v" by (cases w) auto
  show ?case
  proof (cases "n < 10")
    case True
    then show ?thesis
      by (simp add: w fmt_0u_def zero_pad_def dec_digits.simps [of n] fixed_digits_zero)
  next
    case False
    with 1(3) w have v: "0 < v" by (cases v) auto
    from 1(3) w have n: "n div 10 < 10 ^ v" by auto
    from 1(1) [OF False v n] False show ?thesis
      by (simp add: w fmt_0u_def zero_pad_def dec_digits.simps [of n])
  qed
qed

lemma sgn_strcmp_fixed:
  "a < 10 ^ w \<Longrightarrow> b < 10 ^ w \<Longrightarrow>
   sgn (strcmp (fixed_digits w a) (fixed_digits w b)) = sgn (int a - int b)"
proof (induction w arbitrary: a b)
  case 0
  then show ?case by simp
next
  case (Suc w)
  then have ab: "a div 10 < 10 ^ w" "b div 10 < 10 ^ w" by auto
  have IH: "sgn (strcmp (fixed_digits w (a div 10)) (fixed_digits w (b div 10)))
      = sgn (int (a div 10) - int (b div 10))"
    by (rule Suc.IH [OF ab])
  have eq: "fixed_digits w (a div 10) = fixed_digits w (b div 10) \<longleftrightarrow> a div 10 = b div 10"
    using IH by (auto simp: sgn_if split: if_splits)
  show ?case
  proof (cases "a div 10 = b div 10")
    case True
    then have "int a - int b = int (a mod 10) - int (b mod 10)"
      by (metis (no_types) add_diff_cancel_left mult_div_mod_eq of_nat_add)
    with True show ?thesis
      by (simp add: strcmp_append of_char_digit digit_char_inject)
  next
    case False
    have "sgn (int (a div 10) - int (b div 10)) = sgn (int a - int b)"
    proof (cases "a div 10 < b div 10")
      case True
      then have "a < b" by (meson div_le_mono leD leI)
      with True show ?thesis by simp
    next
      case less: False
      with False have "b div 10 < a div 10" by simp
      moreover from this have "b < a" by (meson div_le_mono leD leI)
      ultimately show ?thesis by simp
    qed
    with False show ?thesis by (simp add: strcmp_append eq IH)
  qed
qed

section \<open>Lemmas: the calendar\<close>

lemma days_before_year_mono: "y < z \<Longrightarrow> days_before_year (y + 1) \<le> days_before_year z"
proof (induction "nat (z - y - 1)" arbitrary: z)
  case 0
  then have "z = y + 1" by simp
  then show ?case by simp
next
  case (Suc n)
  then have "y < z - 1" "n = nat (z - 1 - y - 1)" by simp_all
  from Suc.hyps(1) [OF this(2,1)] days_before_year_less [of "z - 1"] show ?case by simp
qed

lemma year_search_bounds:
  "days_before_year y \<le> d \<Longrightarrow>
   days_before_year (year_search d y) \<le> d \<and> d < days_before_year (year_search d y + 1)"
proof (induction d y rule: year_search.induct)
  case (1 d y)
  show ?case
  proof (cases "days_before_year (y + 1) \<le> d")
    case True
    with "1.IH" show ?thesis by (simp add: year_search.simps [of d y])
  next
    case False
    with "1.prems" show ?thesis by (simp add: year_search.simps [of d y])
  qed
qed

lemma days_before_year_1970 [simp]: "days_before_year 1970 = 0"
  by (simp add: days_before_year_def)

lemma days_after_1970: "days_before_year (1970 + int n) \<le> 366 * int n"
proof (induction n)
  case (Suc n)
  then show ?case
    using days_before_year_Suc [of "1970 + int n"] by (simp add: algebra_simps split: if_splits)
qed simp

lemma days_to_1970: "days_before_year (1970 - int n) \<le> - 365 * int n"
proof (induction n)
  case (Suc n)
  then show ?case
    using days_before_year_Suc [of "1970 - int (Suc n)"] by (simp add: algebra_simps split: if_splits)
qed simp

lemma year_of_day_bounds:
  "days_before_year (year_of_day d) \<le> d" "d < days_before_year (year_of_day d + 1)"
proof -
  have "days_before_year (1970 + (if 0 \<le> d then d div 366 else d div 365)) \<le> d"
  proof (cases "0 \<le> d")
    case True
    then have "1970 + d div 366 = 1970 + int (nat (d div 366))"
      by (simp add: pos_imp_zdiv_nonneg_iff)
    then have "days_before_year (1970 + d div 366) \<le> 366 * (d div 366)"
      using days_after_1970 [of "nat (d div 366)"] True by (simp add: pos_imp_zdiv_nonneg_iff)
    also have "\<dots> \<le> d" using mult_div_mod_eq [of 366 d] pos_mod_sign [of 366 d] by linarith
    finally show ?thesis using True by simp
  next
    case False
    then have neg: "d div 365 \<le> 0" by (simp add: neg_imp_zdiv_nonneg_iff)
    then have "1970 + d div 365 = 1970 - int (nat (- (d div 365)))" by simp
    then have "days_before_year (1970 + d div 365) \<le> 365 * (d div 365)"
      using days_to_1970 [of "nat (- (d div 365))"] neg by simp
    also have "\<dots> \<le> d" using mult_div_mod_eq [of 365 d] pos_mod_sign [of 365 d] by linarith
    finally show ?thesis using False by simp
  qed
  from year_search_bounds [OF this]
  show "days_before_year (year_of_day d) \<le> d" "d < days_before_year (year_of_day d + 1)"
    by (simp_all add: year_of_day_def)
qed

lemma year_of_day_mono: "d \<le> e \<Longrightarrow> year_of_day d \<le> year_of_day e"
  using days_before_year_mono [of "year_of_day e" "year_of_day d"]
    year_of_day_bounds [of d] year_of_day_bounds [of e] by fastforce

text \<open>Signs of lexicographic comparisons of field lists.\<close>

fun lex_sgn :: "int list \<Rightarrow> int list \<Rightarrow> int" where
  "lex_sgn (a # as) (b # bs) = (if a = b then lex_sgn as bs else sgn (a - b))"
| "lex_sgn _ _ = 0"

lemma lex_sgn_refl [simp]: "lex_sgn xs xs = 0"
  by (induction xs) auto

lemma lex_sgn_anti: "lex_sgn xs ys = - lex_sgn ys xs"
  by (induction xs ys rule: lex_sgn.induct) (auto simp: sgn_if)

lemma month_split_range:
  "0 \<le> d \<Longrightarrow> d < sum_list ls \<Longrightarrow> month_split ls d = (m, r) \<Longrightarrow>
   0 \<le> m \<and> m < int (length ls) \<and> 0 \<le> r \<and> r < ls ! nat m"
proof (induction ls d arbitrary: m r rule: month_split.induct)
  case (2 l ls d)
  show ?case
  proof (cases "d < l")
    case True
    with 2 show ?thesis by auto
  next
    case False
    obtain m' r' where ms: "month_split ls (d - l) = (m', r')" by force
    with False 2(4) have mr: "m = m' + 1" "r = r'" by auto
    have "0 \<le> m' \<and> m' < int (length ls) \<and> 0 \<le> r' \<and> r' < ls ! nat m'"
      using 2(1) [OF False _ _ ms] 2(3) False by simp
    then show ?thesis by (simp add: mr nat_add_distrib)
  qed
qed simp

lemma month_split_mono:
  "0 \<le> d \<Longrightarrow> d < e \<Longrightarrow> e < sum_list ls \<Longrightarrow>
   month_split ls d = (m, r) \<Longrightarrow> month_split ls e = (m', r') \<Longrightarrow> m < m' \<or> (m = m' \<and> r < r')"
proof (induction ls d arbitrary: e m r m' r' rule: month_split.induct)
  case (2 l ls d)
  show ?case
  proof (cases "e < l")
    case True
    with 2 show ?thesis by auto
  next
    case False
    obtain n s where e: "month_split ls (e - l) = (n, s)" by force
    with False 2(6) have e': "m' = n + 1" "r' = s" by auto
    have "0 \<le> n" using month_split_range [OF _ _ e] 2(4) False by simp
    show ?thesis
    proof (cases "d < l")
      case True
      with 2(5) e' \<open>0 \<le> n\<close> show ?thesis by auto
    next
      case ge: False
      obtain k t where d: "month_split ls (d - l) = (k, t)" by force
      with ge 2(5) have "m = k + 1" "r = t" by auto
      moreover have "k < n \<or> (k = n \<and> t < s)"
        using 2(1) [OF ge, of "e - l"] 2(3,4) ge d e by simp
      ultimately show ?thesis using e' by auto
    qed
  qed
qed simp

lemma month_lengths_sum: "sum_list (month_lengths y) = days_before_year (y + 1) - days_before_year y"
  by (simp add: month_lengths_def days_before_year_Suc)

lemma month_lengths_le: "m < 12 \<Longrightarrow> month_lengths y ! m \<le> 31"
proof -
  assume "m < 12"
  then have "month_lengths y ! m \<in> set (month_lengths y)"
    by (intro nth_mem) (simp add: month_lengths_def)
  then show ?thesis by (auto simp: month_lengths_def split: if_splits)
qed

lemma hms_lex:
  fixes h m s h' m' s' :: int
  assumes "3600 * h + 60 * m + s < 3600 * h' + 60 * m' + s'"
    and "0 \<le> m" "m < 60" "0 \<le> s" "s < 60" "0 \<le> m'" "m' < 60" "0 \<le> s'" "s' < 60"
  shows "lex_sgn [h, m, s] [h', m', s'] = -1"
proof -
  have "h < h' \<or> h = h' \<and> (m < m' \<or> m = m' \<and> s < s')"
    using assms by linarith
  then show ?thesis by auto
qed

definition tm_fields :: "tm \<Rightarrow> int list" where
  "tm_fields u = [tm_year u + 1900, tm_mon u + 1, tm_mday u, tm_hour u, tm_min u, tm_sec u]"

lemma gmtime_fields_less:
  assumes t: "t < t'" and u: "gmtime t = Some u" and u': "gmtime t' = Some u'"
  shows "lex_sgn (tm_fields u) (tm_fields u') = -1"
proof -
  define d e where de: "d = t div 86400" "e = t' div 86400"
  define y z where yz: "y = year_of_day d" "z = year_of_day e"
  obtain m r where md: "month_split (month_lengths y) (d - days_before_year y) = (m, r)" by force
  obtain n s where me: "month_split (month_lengths z) (e - days_before_year z) = (n, s)" by force
  define a b where ab: "a = t mod 86400" "b = t' mod 86400"
  have fu: "tm_fields u = [y, m + 1, r + 1, a div 3600, a mod 3600 div 60, a mod 60]"
    using u md by (auto simp: gmtime_def Let_def tm_fields_def de yz ab split: if_splits)
  have fu': "tm_fields u' = [z, n + 1, s + 1, b div 3600, b mod 3600 div 60, b mod 60]"
    using u' me by (auto simp: gmtime_def Let_def tm_fields_def de yz ab split: if_splits)
  have "d \<le> e" using t by (simp add: de zdiv_mono1)
  then have "y \<le> z" by (simp add: yz year_of_day_mono)
  show ?thesis
  proof (cases "d = e")
    case True
    have ta: "t = 86400 * d + a" and tb: "t' = 86400 * d + b"
      using True by (simp_all add: ab de) (metis mult_div_mod_eq)
    then have "a < b" using t by simp
    have q: "x = 3600 * (x div 3600) + 60 * (x mod 3600 div 60) + x mod 60" for x :: int
    proof -
      have "x mod 3600 mod 60 = x mod 60" by (simp add: mod_mod_cancel)
      then show ?thesis
        using mult_div_mod_eq [of 3600 x] mult_div_mod_eq [of 60 "x mod 3600"] by linarith
    qed
    have rng: "0 \<le> x mod 60" "x mod 60 < 60" "0 \<le> x mod 3600 div 60" "x mod 3600 div 60 < 60"
      for x :: int
      by (simp_all add: pos_imp_zdiv_nonneg_iff div_less_iff_less_mult)
    have "3600 * (a div 3600) + 60 * (a mod 3600 div 60) + a mod 60
        < 3600 * (b div 3600) + 60 * (b mod 3600 div 60) + b mod 60"
      using \<open>a < b\<close> q [of a] q [of b] by metis
    then have hms: "lex_sgn [a div 3600, a mod 3600 div 60, a mod 60]
        [b div 3600, b mod 3600 div 60, b mod 60] = -1"
      by (rule hms_lex) (rule rng)+
    have same: "y = z" "m = n" "r = s" using True md me by (simp_all add: yz)
    show ?thesis
      using hms unfolding fu fu' same by (simp only: lex_sgn.simps if_True refl)
  next
    case False
    then have de_less: "d < e" using \<open>d \<le> e\<close> by simp
    show ?thesis
    proof (cases "y = z")
      case True
      have "e - days_before_year z < sum_list (month_lengths z)"
        using year_of_day_bounds [of e] by (simp add: month_lengths_sum yz)
      moreover have "0 \<le> d - days_before_year y"
        using year_of_day_bounds [of d] by (simp add: yz)
      ultimately have "m < n \<or> (m = n \<and> r < s)"
        using month_split_mono [OF _ _ _ md, of "e - days_before_year z"] de_less True me by simp
      then show ?thesis unfolding fu fu' True lex_sgn.simps by (elim disjE conjE) simp_all
    next
      case False
      then show ?thesis using \<open>y \<le> z\<close> by (simp add: fu fu')
    qed
  qed
qed


section \<open>Lemmas: timestamp strings\<close>

lemma dec_digits_long: "10 ^ w \<le> n \<Longrightarrow> w < length (dec_digits n)"
proof (induction n arbitrary: w rule: dec_digits.induct)
  case (1 n)
  show ?case
  proof (cases w)
    case 0
    then show ?thesis by (subst dec_digits.simps) simp
  next
    case (Suc v)
    with 1(2) have "\<not> n < 10" "10 ^ v \<le> n div 10"
      by (auto simp: less_eq_div_iff_mult_less_eq mult.commute) (metis le_less_trans not_less
          one_le_numeral one_le_power mult_le_mono2 mult.right_neutral)
    with 1(1) show ?thesis by (subst dec_digits.simps) (simp add: Suc)
  qed
qed

lemma length_fmt_0u: "0 < w \<Longrightarrow> n < 10 ^ w \<Longrightarrow> length (fmt_0u w n) = w"
  by (simp add: fmt_0u_fixed)

lemma fmt_0u_short: "length (fmt_0u w n) \<le> w \<Longrightarrow> n < 10 ^ w"
  using dec_digits_long [of w n] by (fastforce simp: fmt_0u_def zero_pad_def)

definition tm_in_range :: "tm \<Rightarrow> bool" where
  "tm_in_range u = (0 \<le> tm_year u + 1900 \<and> 0 \<le> tm_mon u \<and> tm_mon u < 12 \<and>
     1 \<le> tm_mday u \<and> tm_mday u \<le> 31 \<and> 0 \<le> tm_hour u \<and> tm_hour u < 24 \<and>
     0 \<le> tm_min u \<and> tm_min u < 60 \<and> 0 \<le> tm_sec u \<and> tm_sec u < 60)"

lemma gmtime_in_range:
  assumes "gmtime t = Some u" and "0 \<le> t"
  shows "tm_in_range u"
proof -
  define d where "d = t div 86400"
  define y where "y = year_of_day d"
  obtain m r where md: "month_split (month_lengths y) (d - days_before_year y) = (m, r)" by force
  have "0 \<le> d - days_before_year y" "d - days_before_year y < sum_list (month_lengths y)"
    using year_of_day_bounds [of d] by (simp_all add: y_def month_lengths_sum)
  from month_split_range [OF this md] have mr: "0 \<le> m" "m < 12" "0 \<le> r" "r < month_lengths y ! nat m"
    by (simp_all add: month_lengths_def)
  then have "nat m < 12" by linarith
  from month_lengths_le [OF this, of y] have "r < 31" using mr(4) by linarith
  have "0 \<le> d" using assms(2) by (simp add: d_def pos_imp_zdiv_nonneg_iff)
  then have "1970 \<le> y"
    using days_before_year_mono [of y 1970] year_of_day_bounds(2) [of d] by (fastforce simp: y_def)
  moreover have "0 \<le> t mod 86400" "t mod 86400 < 86400" by simp_all
  ultimately show ?thesis
    using assms(1) md mr \<open>r < 31\<close>
    by (auto simp: gmtime_def Let_def tm_in_range_def pos_imp_zdiv_nonneg_iff div_less_iff_less_mult
        simp flip: d_def y_def split: if_splits)
qed

lemma sgn_strcmp_field:
  assumes "0 < w" "0 \<le> a" "a < 10 ^ w" "0 \<le> b" "b < 10 ^ w"
  shows "sgn (strcmp (fmt_0d w a @ xs) (fmt_0d w b @ ys)) = (if a = b then sgn (strcmp xs ys) else sgn (a - b))"
proof -
  have n: "nat a < 10 ^ w" "nat b < 10 ^ w" using assms by (simp_all add: nat_less_iff)
  have s: "sgn (strcmp (fixed_digits w (nat a)) (fixed_digits w (nat b))) = sgn (a - b)"
    using sgn_strcmp_fixed [OF n] assms by simp
  then have "fixed_digits w (nat a) = fixed_digits w (nat b) \<longleftrightarrow> a = b"
    using assms by (auto simp: sgn_if split: if_splits)
  with s assms n show ?thesis by (simp add: fmt_0d_def fmt_0u_fixed strcmp_append)
qed

lemma iso8601_lex:
  assumes "tm_in_range u" "tm_year u + 1900 < 10000" "tm_in_range v" "tm_year v + 1900 < 10000"
  shows "sgn (strcmp (iso8601_string u) (iso8601_string v)) = lex_sgn (tm_fields u) (tm_fields v)"
  using assms unfolding iso8601_string_def tm_in_range_def
  by (simp add: sgn_strcmp_field tm_fields_def sgn_eq_0_iff)

lemma length_fmt_02: "0 \<le> x \<Longrightarrow> x < 100 \<Longrightarrow> length (fmt_0d 2 x) = 2"
  using length_fmt_0u [of 2 "nat x"] by (simp add: fmt_0d_def nat_less_iff)

lemma length_iso8601:
  assumes "tm_in_range u"
  shows "length (iso8601_string u) = 16 + length (fmt_0u 4 (nat (tm_year u + 1900)))"
proof -
  have "length (fmt_0d 2 (tm_mon u + 1)) = 2" "length (fmt_0d 2 (tm_mday u)) = 2"
    "length (fmt_0d 2 (tm_hour u)) = 2" "length (fmt_0d 2 (tm_min u)) = 2"
    "length (fmt_0d 2 (tm_sec u)) = 2"
    using assms unfolding tm_in_range_def by (auto intro!: length_fmt_02)
  moreover have "fmt_0d 4 (tm_year u + 1900) = fmt_0u 4 (nat (tm_year u + 1900))"
    using assms by (simp add: tm_in_range_def fmt_0d_def)
  ultimately show ?thesis by (simp add: iso8601_string_def)
qed

lemma utils_format_iso8601_Inr:
  assumes "utils_format_iso8601 t UTILS_ISO8601_UTC_BUFFER_LEN = Inr a" "0 \<le> t"
  obtains u where "gmtime t = Some u" "a = iso8601_string u" "tm_in_range u" "tm_year u + 1900 < 10000"
proof -
  from assms(1) obtain u where u: "gmtime t = Some u" "a = iso8601_string u"
    "length (iso8601_string u) < 21"
    by (auto simp: utils_format_iso8601_def UTILS_ISO8601_UTC_BUFFER_LEN_def split: option.splits if_splits)
  have r: "tm_in_range u" using u(1) assms(2) by (rule gmtime_in_range)
  then have "length (fmt_0u 4 (nat (tm_year u + 1900))) \<le> 4"
    using u(3) by (simp add: length_iso8601)
  from fmt_0u_short [OF this] have "tm_year u + 1900 < 10000" by simp
  with u(1,2) r show ?thesis by (rule that)
qed

lemma iso8601_sgn:
  assumes "utils_format_iso8601 t UTILS_ISO8601_UTC_BUFFER_LEN = Inr a" "0 \<le> t"
    and "utils_format_iso8601 t' UTILS_ISO8601_UTC_BUFFER_LEN = Inr b" "0 \<le> t'"
  shows "sgn (strcmp a b) = sgn (t - t')"
proof -
  obtain u where u: "gmtime t = Some u" "a = iso8601_string u" "tm_in_range u" "tm_year u + 1900 < 10000"
    using assms(1,2) by (rule utils_format_iso8601_Inr)
  obtain v where v: "gmtime t' = Some v" "b = iso8601_string v" "tm_in_range v" "tm_year v + 1900 < 10000"
    using assms(3,4) by (rule utils_format_iso8601_Inr)
  have "sgn (strcmp a b) = lex_sgn (tm_fields u) (tm_fields v)"
    using iso8601_lex [OF u(3,4) v(3,4)] by (simp add: u(2) v(2))
  moreover have "lex_sgn (tm_fields u) (tm_fields v) = sgn (t - t')"
  proof (cases t t' rule: linorder_cases)
    case less
    then show ?thesis using gmtime_fields_less [OF less u(1) v(1)] by simp
  next
    case equal
    then show ?thesis using u(1) v(1) by simp
  next
    case greater
    then show ?thesis
      using gmtime_fields_less [OF greater v(1) u(1)] lex_sgn_anti [of "tm_fields u"] by simp
  qed
  ultimately show ?thesis by simp
qed

lemma iso8601_strcmp:
  assumes "utils_format_iso8601 t UTILS_ISO8601_UTC_BUFFER_LEN = Inr a" "0 \<le> t"
    and "utils_format_iso8601 t' UTILS_ISO8601_UTC_BUFFER_LEN = Inr b" "0 \<le> t'"
  shows "strcmp a b \<le> 0 \<longleftrightarrow> t \<le> t'"
  using iso8601_sgn [OF assms] by (auto simp: sgn_if split: if_splits)

text \<open>
  the vault decides expiry with \<open>strcmp\<close> (and SQLite's text comparison) on the
  timestamps that \<open>utils_format_iso8601\<close> writes; for times from 1970 on that order is
  exactly the order of the times.
\<close>

theorem iso8601_order:
  assumes "utils_format_iso8601 t UTILS_ISO8601_UTC_BUFFER_LEN = Inr a" "0 \<le> t"
    and "utils_format_iso8601 t' UTILS_ISO8601_UTC_BUFFER_LEN = Inr b" "0 \<le> t'"
  shows "strcmp a b \<le> 0 \<longleftrightarrow> t \<le> t'"
  by (rule iso8601_strcmp [OF assms])

theorem iso8601_order_witness:
  "utils_format_iso8601 1719792000 UTILS_ISO8601_UTC_BUFFER_LEN = Inr ''2024-07-01T00:00:00Z'' \<and>
   utils_format_iso8601 951782400 UTILS_ISO8601_UTC_BUFFER_LEN = Inr ''2000-02-29T00:00:00Z'' \<and>
   (strcmp ''2000-02-29T00:00:00Z'' ''2024-07-01T00:00:00Z'' \<le> 0 \<longleftrightarrow> (951782400::int) \<le> 1719792000)"
proof -
  have a: "utils_format_iso8601 1719792000 UTILS_ISO8601_UTC_BUFFER_LEN = Inr ''2024-07-01T00:00:00Z''"
    by code_simp
  have b: "utils_format_iso8601 951782400 UTILS_ISO8601_UTC_BUFFER_LEN = Inr ''2000-02-29T00:00:00Z''"
    by code_simp
  show ?thesis using a b iso8601_order [OF b _ a] by simp
qed

lemma time_add_wrap:
  assumes "9223372036854775807 < now + off" "now + off < 18446744073709551616"
  shows "time_add now off = now + off - 18446744073709551616"
proof -
  have "now + off + 9223372036854775808 = 18446744073709551616 * 1 + (now + off - 9223372036854775808)"
    by simp
  from int_mod_pos_eq [OF this] assms show ?thesis
    unfolding time_add_def int_word_sint by simp
qed

lemma now_plus_seconds_Inr:
  assumes "utils_now_plus_seconds_iso8601 E seconds L s = (Inr a, s')"
    and "0 \<le> clock E (tick s)" "clock E (tick s) \<le> INT64_MAX"
  shows "utils_format_iso8601 (clock E (tick s) + uint seconds) L = Inr a
    \<and> clock E (tick s) + uint seconds \<le> INT64_MAX"
proof -
  define now where "now = clock E (tick s)"
  define off where "off = sint seconds"
  define ex where "ex = time_add now off"
  from assms(1) have h: "uint seconds \<le> INT64_MAX" "\<not> off < 0" "\<not> ex < now"
    "utils_format_iso8601 ex L = Inr a"
    by (auto simp: utils_now_plus_seconds_iso8601_def andthen_eq_Inr Let_def now_def off_def ex_def
        split: if_splits)
  have off: "off = uint seconds"
    using h(1) order_trans [OF _ uint_ge_0 [of seconds], of "- 9223372036854775808"]
    by (simp add: off_def INT64_MAX_def sint_uint signed_take_bit_int_eq_self)
  have le: "now + off \<le> INT64_MAX"
  proof (rule ccontr)
    assume "\<not> now + off \<le> INT64_MAX"
    then have over: "9223372036854775807 < now + off" by (simp add: INT64_MAX_def)
    have up: "now + off < 18446744073709551616 - 1"
      using assms(3) h(1) off by (simp add: INT64_MAX_def now_def)
    have "ex = now + off - 18446744073709551616"
      unfolding ex_def by (rule time_add_wrap) (use over up in simp_all)
    with up h(3) off h(1) show False by (simp add: INT64_MAX_def)
  qed
  have "ex = now + off"
    unfolding ex_def time_add_def sint_sbintrunc'
    using le h(2) assms(2) by (simp add: INT64_MAX_def signed_take_bit_int_eq_self now_def)
  with h(4) off le show ?thesis by (simp add: now_def)
qed

text \<open>
  \<open>utils_now_plus_seconds_iso8601\<close> succeeds only with the timestamp of the exact
  sum of the clock and the offset: a sum that leaves the 64-bit range is never formatted.
\<close>

theorem now_plus_seconds_exact:
  assumes "utils_now_plus_seconds_iso8601 E seconds L s = (Inr a, s')"
    and "0 \<le> clock E (tick s)" "clock E (tick s) \<le> INT64_MAX"
  shows "utils_format_iso8601 (clock E (tick s) + uint seconds) L = Inr a
    \<and> clock E (tick s) + uint seconds \<le> INT64_MAX"
  by (rule now_plus_seconds_Inr [OF assms])

theorem now_plus_seconds_exact_witness:
  "utils_now_plus_seconds_iso8601 sample_env 3600 21 \<lparr>tick = 0\<rparr>
     = (Inr ''2024-07-01T01:00:00Z'', \<lparr>tick = 1\<rparr>) \<and>
   utils_format_iso8601 (clock sample_env 0 + uint (3600 :: 64 word)) 21 = Inr ''2024-07-01T01:00:00Z''"
proof -
  have f: "utils_format_iso8601 1719795600 21 = Inr ''2024-07-01T01:00:00Z''" by code_simp
  have c: "clock sample_env 0 = 1719792000" by (simp add: sample_env_def)
  have "time_add 1719792000 3600 = 1719795600" by (simp add: time_add_def)
  then have a: "utils_now_plus_seconds_iso8601 sample_env 3600 21 \<lparr>tick = 0\<rparr>
     = (Inr ''2024-07-01T01:00:00Z'', \<lparr>tick = 1\<rparr>)"
    using f by (simp add: utils_now_plus_seconds_iso8601_def andthen_def guard_def c next_tick_def
        UTILS_ISO8601_UTC_BUFFER_LEN_def INT64_MAX_def)
  show ?thesis
    using a now_plus_seconds_exact [OF a] c by (simp add: INT64_MAX_def)
qed

section \<open>Timestamps as C strings\<close>

lemma digit_char_not_nul: "d < 10 \<Longrightarrow> digit_char d \<noteq> CHR 0x00"
  using of_char_digit [of d] by auto

lemma nul_free_append [simp]: "nul_free (a @ b) \<longleftrightarrow> nul_free a \<and> nul_free b"
  by (auto simp: nul_free_def)

lemma nul_free_Cons [simp]: "nul_free (c # s) \<longleftrightarrow> c \<noteq> CHR 0x00 \<and> nul_free s"
  by (auto simp: nul_free_def)

lemma nul_free_Nil [simp]: "nul_free []"
  by (simp add: nul_free_def)

lemma nul_free_dec_digits: "nul_free (dec_digits n)"
proof (induction n rule: dec_digits.induct)
  case (1 n)
  then show ?case by (subst dec_digits.simps) (auto simp: digit_char_not_nul dest: sym)
qed

lemma nul_free_fmt_0d: "nul_free (fmt_0d w n)"
  by (auto simp: fmt_0d_def fmt_0u_def zero_pad_def nul_free_dec_digits nul_free_def [of "replicate _ _"])

lemma format_iso8601_c_string:
  "utils_format_iso8601 t n = Inr text \<Longrightarrow> nul_free text \<and> text \<noteq> [] \<and> length text < n"
  by (auto simp: utils_format_iso8601_def iso8601_string_def nul_free_fmt_0d
      split: if_splits option.splits)

lemma now_iso8601_c_string:
  assumes "utils_now_iso8601 E n s = (Inr text, s')"
  shows "nul_free text \<and> text \<noteq> [] \<and> length text < n \<and> s' = next_tick s"
  using assms
  by (auto simp: utils_now_iso8601_def andthen_eq_Inr split: if_splits dest: format_iso8601_c_string)

end
