(* ===== verification/Fuin_Utils.thy ===== *)
theory Fuin_Utils
  imports Fuin_Time
begin

text \<open>
  The rest of \<open>src/src/utils.c\<close>: little-endian serialisation, status messages,
  base64 and base32, random identifiers and passwords, one-time codes. libsodium's codecs
  and random generator and OpenSSL's HMAC are parameters. A buffer the caller supplies
  appears as its length, and a function returns what it would have written into it.
\<close>

section \<open>Model\<close>

definition utils_write_u64_le :: "64 word \<Rightarrow> bytes" where
  "utils_write_u64_le value = write_le 8 value"

definition utils_status_message :: "int \<Rightarrow> string" where
  "utils_status_message status =
     (if status = 0 then ''ok''
      else if status = -1 then ''invalid argument''
      else if status = -2 then ''not implemented''
      else if status = -3 then ''crypto error''
      else if status = -4 then ''storage error''
      else if status = -5 then ''authentication error''
      else if status = -6 then ''not found''
      else if status = -7 then ''input too large''
      else ''unknown error'')"

text \<open>\<open>sodium_base64_ENCODED_LEN\<close> of the padded variant, terminating NUL included.\<close>

definition base64_encoded_len :: "nat \<Rightarrow> nat" where
  "base64_encoded_len n = 4 * ((n + 2) div 3) + 1"

definition utils_base64_encode :: "env \<Rightarrow> bytes \<Rightarrow> nat \<Rightarrow> string result" where
  "utils_base64_encode E input output_len =
     and_then (require_sodium E) (\<lambda>_.
     if output_len < base64_encoded_len (length input) then Inl SM_ERR_INVALID_ARGUMENT
     else Inr (bin2base64 E input))"

definition utils_base64_decode :: "env \<Rightarrow> string \<Rightarrow> nat \<Rightarrow> bytes result" where
  "utils_base64_decode E input output_len =
     and_then (require_sodium E) (\<lambda>_.
     case base642bin E input of
       None \<Rightarrow> Inl SM_ERR_INVALID_ARGUMENT
     | Some b \<Rightarrow> if output_len < length b then Inl SM_ERR_INVALID_ARGUMENT else Inr b)"

subsection \<open>Identifiers and passwords\<close>

definition UTILS_UUID_V4_BUFFER_LEN :: nat where
  "UTILS_UUID_V4_BUFFER_LEN = 37"

definition uuid_v4_bits :: "bytes \<Rightarrow> bytes" where
  "uuid_v4_bits u = u[6 := (u ! 6 AND 0x0F) OR 0x40, 8 := (u ! 8 AND 0x3F) OR 0x80]"

definition uuid_string :: "bytes \<Rightarrow> string" where
  "uuid_string u =
     (let h = (\<lambda>i. fmt_02x (u ! i)) in
      h 0 @ h 1 @ h 2 @ h 3 @ ''-'' @ h 4 @ h 5 @ ''-'' @ h 6 @ h 7 @ ''-'' @ h 8 @ h 9 @ ''-'' @
      h 10 @ h 11 @ h 12 @ h 13 @ h 14 @ h 15)"

definition utils_generate_uuid_v4 :: "env \<Rightarrow> nat \<Rightarrow> ('a world_scheme, string) comp" where
  "utils_generate_uuid_v4 E buffer_len =
     andthen (guard (UTILS_UUID_V4_BUFFER_LEN \<le> buffer_len) SM_ERR_INVALID_ARGUMENT) (\<lambda>_.
     andthen (lift_result (require_sodium E)) (\<lambda>_.
     andthen (randombytes_buf E 16) (\<lambda>raw.
     let text = uuid_string (uuid_v4_bits raw) in
     if buffer_len \<le> length text then raise SM_ERR_INVALID_ARGUMENT else ret text)))"

definition password_alnum :: string where
  "password_alnum = ''ABCDEFGHIJKLMNOPQRSTUVWXYZabcdefghijklmnopqrstuvwxyz0123456789''"

definition password_symbols :: string where
  "password_symbols = ''!@#$%^&*()-_=+[]{}:;,.?''"

definition password_charset :: "bool \<Rightarrow> string" where
  "password_charset include_symbols =
     password_alnum @ (if include_symbols then password_symbols else [])"

fun password_loop :: "env \<Rightarrow> string \<Rightarrow> nat \<Rightarrow> ('a world_scheme, string) comp" where
  "password_loop E charset 0 = ret []"
| "password_loop E charset (Suc n) =
     andthen (uniform_draw E (length charset)) (\<lambda>k.
     andthen (password_loop E charset n) (\<lambda>rest.
     ret (charset ! k # rest)))"

definition utils_generate_password ::
  "env \<Rightarrow> nat \<Rightarrow> nat \<Rightarrow> bool \<Rightarrow> ('a world_scheme, string) comp" where
  "utils_generate_password E buffer_len password_len include_symbols =
     andthen (guard (password_len \<noteq> 0 \<and> password_len < buffer_len) SM_ERR_INVALID_ARGUMENT) (\<lambda>_.
     andthen (lift_result (require_sodium E)) (\<lambda>_.
     password_loop E (password_charset include_symbols) password_len))"

subsection \<open>Base32\<close>

definition base32_blank :: "byte \<Rightarrow> bool" where
  "base32_blank c = (c = 0x20 \<or> c = 0x0A \<or> c = 0x0D \<or> c = 0x09)"

definition base32_value :: "byte \<Rightarrow> nat option" where
  "base32_value c =
     (if 0x41 \<le> c \<and> c \<le> 0x5A then Some (unat c - 0x41)
      else if 0x61 \<le> c \<and> c \<le> 0x7A then Some (unat c - 0x61)
      else if 0x32 \<le> c \<and> c \<le> 0x37 then Some (unat c - 0x32 + 26)
      else None)"

text \<open>
  One pass of the loop per input byte; the accumulator is a \<open>uint32_t\<close> whose high bits
  are shifted out, \<open>out\<close> the bytes written so far.
\<close>

fun base32_loop :: "nat \<Rightarrow> bytes \<Rightarrow> 32 word \<Rightarrow> nat \<Rightarrow> bytes \<Rightarrow> bool \<Rightarrow> bytes result" where
  "base32_loop output_len [] accumulator bits out padding_seen = Inr out"
| "base32_loop output_len (c # input) accumulator bits out padding_seen =
     (if base32_blank c then base32_loop output_len input accumulator bits out padding_seen
      else if c = 0x3D then base32_loop output_len input accumulator bits out True
      else if padding_seen then Inl SM_ERR_INVALID_ARGUMENT
      else case base32_value c of
        None \<Rightarrow> Inl SM_ERR_INVALID_ARGUMENT
      | Some v \<Rightarrow>
          (let acc = push_bit 5 accumulator OR of_nat v; bits' = bits + 5 in
           if 8 \<le> bits' then
             (if output_len \<le> length out then Inl SM_ERR_INVALID_ARGUMENT
              else base32_loop output_len input acc (bits' - 8)
                (out @ [ucast (drop_bit (bits' - 8) acc AND 0xFF)]) padding_seen)
           else base32_loop output_len input acc bits' out padding_seen))"

definition utils_base32_decode :: "bytes \<Rightarrow> nat \<Rightarrow> bytes result" where
  "utils_base32_decode input output_len =
     and_then (base32_loop output_len input 0 0 [] False) (\<lambda>out.
     if out = [] then Inl SM_ERR_INVALID_ARGUMENT else Inr out)"

subsection \<open>One-time codes\<close>

text \<open>The loop that fills \<open>counter_bytes\<close> from index 7 down writes big-endian bytes.\<close>

definition totp_counter_bytes :: "64 word \<Rightarrow> bytes" where
  "totp_counter_bytes counter = rev (write_le 8 counter)"

definition totp_binary_code :: "bytes \<Rightarrow> nat \<Rightarrow> 32 word" where
  "totp_binary_code mac offset =
     push_bit 24 (ucast (mac ! offset) AND 0x7F) OR push_bit 16 (ucast (mac ! (offset + 1))) OR
     push_bit 8 (ucast (mac ! (offset + 2))) OR ucast (mac ! (offset + 3))"

definition utils_totp_code ::
  "env \<Rightarrow> bytes \<Rightarrow> 64 word \<Rightarrow> 32 word \<Rightarrow> int \<Rightarrow> nat \<Rightarrow> string result" where
  "utils_totp_code E seed unix_time period_seconds digits output_len =
     (if seed = [] \<or> period_seconds = 0 \<or> digits < 6 \<or> 8 < digits \<or> output_len \<le> nat digits
      then Inl SM_ERR_INVALID_ARGUMENT
      else case hmac_sha1 E seed (totp_counter_bytes (unix_time div ucast period_seconds)) of
        None \<Rightarrow> Inl SM_ERR_CRYPTO
      | Some mac \<Rightarrow>
          (if length mac < 20 then Inl SM_ERR_CRYPTO
           else
             let offset = unat (mac ! (length mac - 1) AND 0x0F);
                 code = totp_binary_code mac offset;
                 modulus = (10 :: 32 word) ^ nat digits;
                 text = fmt_0u (nat digits) (unat (code mod modulus))
             in if output_len \<le> length text then Inl SM_ERR_INVALID_ARGUMENT else Inr text))"

section \<open>Reference definitions\<close>

text \<open>The inverse of \<open>utils_write_u64_le\<close>, and numbers written in bytes, most significant first.\<close>

definition utils_read_u64_le :: "bytes \<Rightarrow> 64 word" where
  "utils_read_u64_le bs = read_le bs"

definition be_value :: "bytes \<Rightarrow> nat" where
  "be_value = foldl (\<lambda>n b. n * 256 + unat b) 0"

definition be_bytes :: "nat \<Rightarrow> nat \<Rightarrow> bytes" where
  "be_bytes n v = map (\<lambda>i. of_nat (v div 256 ^ (n - Suc i))) [0..<n]"

text \<open>
  The symbols of a base32 text: blanks dropped, everything up to the padding read as
  5-bit digits; no reading when a symbol is foreign or follows padding.
\<close>

definition base32_number :: "nat \<Rightarrow> nat list \<Rightarrow> nat" where
  "base32_number = foldl (\<lambda>n v. n * 32 + v)"

definition base32_symbols :: "bytes \<Rightarrow> nat list option" where
  "base32_symbols input =
     (let cs = filter (\<lambda>c. \<not> base32_blank c) input;
          body = takeWhile (\<lambda>c. c \<noteq> 0x3D) cs;
          rest = dropWhile (\<lambda>c. c \<noteq> 0x3D) cs
      in if list_all (\<lambda>c. base32_value c \<noteq> None) body \<and> list_all (\<lambda>c. c = 0x3D) rest
         then Some (map (\<lambda>c. the (base32_value c)) body) else None)"

text \<open>The shape of a version-4 identifier (RFC 4122).\<close>

definition uuid_pattern_char :: "char \<Rightarrow> char \<Rightarrow> bool" where
  "uuid_pattern_char p c =
     (if p = CHR ''x'' then c \<in> set ''0123456789abcdef''
      else if p = CHR ''y'' then c \<in> set ''89ab'' else c = p)"

definition is_uuid_v4 :: "string \<Rightarrow> bool" where
  "is_uuid_v4 t = list_all2 uuid_pattern_char ''xxxxxxxx-xxxx-4xxx-yxxx-xxxxxxxxxxxx'' t"

section \<open>Lemmas: integers\<close>

interpretation u64: fixed_codec utils_write_u64_le utils_read_u64_le 8
  by unfold_locales
    (simp_all add: utils_write_u64_le_def utils_read_u64_le_def read_write_le)

section \<open>Base32\<close>

lemma length_be_bytes [simp]: "length (be_bytes n v) = n"
  by (simp add: be_bytes_def)

lemma be_bytes_Suc: "be_bytes (Suc n) v = be_bytes n (v div 256) @ [of_nat v]"
proof -
  have "v div 256 ^ (n - i) = v div 256 div 256 ^ (n - Suc i)" if "i < n" for i
  proof -
    have "n - i = Suc (n - Suc i)" using that by simp
    then show ?thesis by (simp only: power_Suc div_mult2_eq)
  qed
  then show ?thesis by (simp add: be_bytes_def)
qed

lemma base32_symbols_Nil [simp]: "base32_symbols [] = Some []"
  by (simp add: base32_symbols_def)

lemma base32_symbols_Cons:
  "base32_symbols (c # cs) =
     (if base32_blank c then base32_symbols cs
      else if c = 0x3D then (if list_all (\<lambda>c. base32_blank c \<or> c = 0x3D) cs then Some [] else None)
      else case base32_value c of None \<Rightarrow> None | Some v \<Rightarrow> map_option ((#) v) (base32_symbols cs))"
proof -
  have all: "list_all (\<lambda>c. base32_blank c \<or> c = 0x3D) cs \<longleftrightarrow>
      list_all (\<lambda>c. c = 0x3D) (filter (\<lambda>c. \<not> base32_blank c) cs)"
    by (auto simp: list_all_iff)
  show ?thesis
  proof (cases "base32_value c")
    case None
    then show ?thesis unfolding base32_symbols_def Let_def all by simp
  next
    case (Some v)
    then show ?thesis unfolding base32_symbols_def Let_def all by simp
  qed
qed

lemma base32_loop_padded:
  "base32_loop L cs acc bits out True =
     (if list_all (\<lambda>c. base32_blank c \<or> c = 0x3D) cs then Inr out else Inl SM_ERR_INVALID_ARGUMENT)"
  by (induction cs) auto

lemma base32_value_less: "base32_value c = Some v \<Longrightarrow> v < 32"
  by (auto simp: base32_value_def word_le_nat_alt split: if_splits)

lemma push5_or: "v < 32 \<Longrightarrow> push_bit 5 (of_nat N :: 32 word) OR of_nat v = of_nat (N * 32 + v)"
proof -
  assume v: "v < 32"
  have "push_bit 5 (of_nat N :: 32 word) AND of_nat v = 0"
  proof (rule bit_word_eqI)
    fix k
    have "\<not> bit v k" if "5 \<le> k"
    proof -
      have "(32::nat) \<le> 2 ^ k" using power_increasing [OF that, of "2::nat"] by simp
      then have "v div 2 ^ k = 0" using v by simp
      then show ?thesis by (simp add: bit_iff_odd)
    qed
    then show "bit (push_bit 5 (of_nat N :: 32 word) AND of_nat v) k \<longleftrightarrow> bit (0 :: 32 word) k"
      by (auto simp: bit_and_iff bit_push_bit_iff bit_of_nat_iff)
  qed
  then have "push_bit 5 (of_nat N :: 32 word) OR of_nat v = push_bit 5 (of_nat N) + of_nat v"
    by (simp add: disjunctive_add_eq_or)
  then show ?thesis by (simp add: push_bit_eq_mult mult.commute)
qed

lemma base32_out_byte:
  assumes "k \<le> 24"
  shows "(ucast (drop_bit k (of_nat N :: 32 word) AND 0xFF) :: byte) = of_nat (N div 2 ^ k)"
proof (rule bit_word_eqI)
  fix i assume "i < LENGTH(8)"
  then have i: "i < 8" by simp
  have m: "(0xFF :: 32 word) = mask 8" by (simp add: mask_eq_exp_minus_1)
  have d: "N div 2 ^ k = drop_bit k N" by (simp add: drop_bit_eq_div)
  show "bit (ucast (drop_bit k (of_nat N :: 32 word) AND 0xFF) :: byte) i \<longleftrightarrow>
      bit (of_nat (N div 2 ^ k) :: byte) i"
    unfolding m d using i assms
    by (auto simp: bit_ucast_iff bit_and_iff bit_mask_iff bit_drop_bit_eq bit_of_nat_iff)
qed

lemma base32_loop_correct:
  assumes "bits < 8" "m \<le> L"
  shows "base32_loop L cs (of_nat N) bits (be_bytes m (N div 2 ^ bits)) False =
     (case base32_symbols cs of
        None \<Rightarrow> Inl SM_ERR_INVALID_ARGUMENT
      | Some vs \<Rightarrow>
          (let total = bits + 5 * length vs; n = m + total div 8 in
           if L < n then Inl SM_ERR_INVALID_ARGUMENT
           else Inr (be_bytes n (base32_number N vs div 2 ^ (total mod 8)))))"
  using assms
proof (induction cs arbitrary: N bits m)
  case Nil
  then show ?case by (simp add: base32_number_def)
next
  case (Cons c cs)
  show ?case
  proof (cases "base32_blank c \<or> c = 0x3D \<or> base32_value c = None")
    case True
    then show ?thesis
      using Cons by (auto simp: base32_symbols_Cons base32_loop_padded base32_number_def)
  next
    case False
    then obtain v where v: "base32_value c = Some v" and c: "\<not> base32_blank c" "c \<noteq> 0x3D" by auto
    define N' where "N' = N * 32 + v"
    have v32: "v < 32" using v by (rule base32_value_less)
    have acc: "push_bit 5 (of_nat N :: 32 word) OR of_nat v = of_nat N'"
      unfolding N'_def using v32 by (rule push5_or)
    have num: "base32_number N (v # vs) = base32_number N' vs" for vs
      by (simp add: base32_number_def N'_def)
    have shift: "N' div 2 ^ (bits + 5) = N div 2 ^ bits"
    proof -
      have "N' div 2 ^ (5 + bits) = (N' div 2 ^ 5) div 2 ^ bits"
        by (simp only: power_add div_mult2_eq)
      then show ?thesis using v32 by (simp add: N'_def add.commute)
    qed
    show ?thesis
    proof (cases "8 \<le> bits + 5")
      case False
      then show ?thesis
        using c v Cons.IH [of "bits + 5" m N'] Cons.prems
        by (simp add: base32_symbols_Cons acc shift num Let_def split: option.splits)
           (simp add: algebra_simps)
    next
      case True
      define k where "k = bits + 5 - 8"
      have k: "bits + 5 = k + 8" "k < 8" "k \<le> 24" using True Cons.prems by (auto simp: k_def)
      have out: "be_bytes m (N div 2 ^ bits) @ [ucast (drop_bit k (of_nat N' :: 32 word) AND 0xFF)]
          = be_bytes (Suc m) (N' div 2 ^ k)"
      proof -
        have "N' div 2 ^ k div 256 = N' div 2 ^ (k + 8)"
          by (simp add: power_add div_mult2_eq)
        then show ?thesis
          unfolding be_bytes_Suc base32_out_byte [OF k(3)] using shift k(1) by simp
      qed
      have tot: "bits + 5 * length (v # vs) = k + 5 * length vs + 8" for vs :: "nat list"
        using k(1) by simp
      show ?thesis
      proof (cases "L \<le> m")
        case True
        then show ?thesis using c v k Cons.prems
          by (auto simp: base32_symbols_Cons acc Let_def k_def [symmetric] tot [simplified]
              split: option.splits)
      next
        case False
        then have L: "Suc m \<le> L" by simp
        have step: "base32_loop L (c # cs) (of_nat N) bits (be_bytes m (N div 2 ^ bits)) False =
            base32_loop L cs (of_nat N') k (be_bytes (Suc m) (N' div 2 ^ k)) False"
          using c v k(1) L by (simp add: acc Let_def flip: out k_def)
        have d: "(8 + x) div 8 = Suc (x div 8)" for x :: nat by simp
        show ?thesis
          unfolding step Cons.IH [OF k(2) L] using c v
          by (auto simp: base32_symbols_Cons num Let_def tot [simplified] d split: option.splits)
      qed
    qed
  qed
qed

text \<open>
  \<open>utils_base32_decode\<close> equals a reference reading on every input and every output
  length. The text is decoded exactly when, blanks apart, it is a run of base32 digits
  followed by padding only, it has at least one whole byte and the bytes fit the buffer;
  the bytes are then the big-endian digits of the base-32 number with the incomplete
  trailing bits dropped, although the code keeps only a 32-bit accumulator.
\<close>

theorem base32_decode_correct:
  "utils_base32_decode input output_len =
     (case base32_symbols input of
        None \<Rightarrow> Inl SM_ERR_INVALID_ARGUMENT
      | Some vs \<Rightarrow>
          (let n = 5 * length vs div 8 in
           if n = 0 \<or> output_len < n then Inl SM_ERR_INVALID_ARGUMENT
           else Inr (be_bytes n (base32_number 0 vs div 2 ^ (5 * length vs mod 8)))))"
proof -
  have e: "be_bytes n v = [] \<longleftrightarrow> n = 0" for n v by (metis length_be_bytes length_0_conv)
  have "base32_loop output_len input 0 0 [] False =
    (case base32_symbols input of
        None \<Rightarrow> Inl SM_ERR_INVALID_ARGUMENT
      | Some vs \<Rightarrow>
          (let n = 5 * length vs div 8 in
           if output_len < n then Inl SM_ERR_INVALID_ARGUMENT
           else Inr (be_bytes n (base32_number 0 vs div 2 ^ (5 * length vs mod 8)))))"
    using base32_loop_correct [of 0 0 output_len input 0]
    by (simp add: be_bytes_def [of 0] Let_def cong: option.case_cong)
  then show ?thesis
    by (auto simp: utils_base32_decode_def Let_def e split: option.splits)
qed

section \<open>Identifiers and passwords\<close>

lemma hex_char_digit: "d < 16 \<Longrightarrow> hex_char d \<in> set ''0123456789abcdef''"
  unfolding hex_char_def by (rule nth_mem) simp

lemma byte_nibbles: "unat (b :: byte) div 16 < 16" "unat b mod 16 < 16"
  using byte_less [of b] by (simp_all add: less_mult_imp_div_less)

lemma uuid_version_nibble: "unat ((b AND 0x0F) OR 0x40 :: byte) div 16 = 4"
proof -
  have "drop_bit 4 ((b AND 0x0F) OR 0x40 :: byte) = 4"
    by (rule bit_word_eqI) (auto simp: bit_simps numeral_eq_Suc less_Suc_eq)
  then have "unat (drop_bit 4 ((b AND 0x0F) OR 0x40 :: byte)) = 4" by simp
  then show ?thesis unfolding unat_drop_bit_eq by (simp add: drop_bit_eq_div)
qed

lemma uuid_variant_nibble: "unat ((b AND 0x3F) OR 0x80 :: byte) div 16 \<in> {8, 9, 10, 11}"
proof -
  have "drop_bit 6 ((b AND 0x3F) OR 0x80 :: byte) = 2"
    by (rule bit_word_eqI) (auto simp: bit_simps numeral_eq_Suc less_Suc_eq)
  then have "unat (drop_bit 6 ((b AND 0x3F) OR 0x80 :: byte)) = 2" by simp
  then have "unat ((b AND 0x3F) OR 0x80 :: byte) div 64 = 2"
    unfolding unat_drop_bit_eq by (simp add: drop_bit_eq_div)
  then have "128 \<le> unat ((b AND 0x3F) OR 0x80 :: byte) \<and> unat ((b AND 0x3F) OR 0x80 :: byte) < 192"
    by arith
  then show ?thesis by auto
qed

lemma uuid_string_v4:
  assumes "length u = 16"
  shows "is_uuid_v4 (uuid_string (uuid_v4_bits u))"
proof -
  define w where "w = uuid_v4_bits u"
  have hex: "hex_char (unat b div 16) \<in> set ''0123456789abcdef''"
      "hex_char (unat b mod 16) \<in> set ''0123456789abcdef''" for b :: byte
    using byte_nibbles [of b] by (auto intro!: hex_char_digit simp del: list.set)
  have w6: "unat (w ! 6) div 16 = 4"
    using assms uuid_version_nibble by (simp add: w_def uuid_v4_bits_def)
  have w8: "unat (w ! 8) div 16 \<in> {8, 9, 10, 11}"
    using assms uuid_variant_nibble [of "u ! 8"] by (simp add: w_def uuid_v4_bits_def)
  have c4: "hex_char (unat (w ! 6) div 16) = CHR ''4''"
    unfolding w6 by (simp add: hex_char_def)
  have cv: "hex_char (unat (w ! 8) div 16) \<in> set ''89ab''"
    using w8 by (auto simp: hex_char_def)
  show ?thesis
    unfolding is_uuid_v4_def w_def [symmetric]
    using hex c4 cv
    by (simp add: uuid_string_def fmt_02x_def Let_def uuid_pattern_char_def del: list.set)
qed

lemma length_uuid_v4: "is_uuid_v4 t \<Longrightarrow> length t = 36"
  unfolding is_uuid_v4_def by (drule list_all2_lengthD) simp

text \<open>
  On every branch of \<open>utils_generate_uuid_v4\<close>: a short buffer and a failed
  libsodium are reported, otherwise the text is the formatted random block, and that text
  always matches the version-4 pattern (dashes, version digit 4, variant digit 8 to b).
\<close>

theorem generate_uuid_v4_shape:
  assumes "random_ok E"
  shows "fst (utils_generate_uuid_v4 E buffer_len s) =
     (if buffer_len < UTILS_UUID_V4_BUFFER_LEN then Inl SM_ERR_INVALID_ARGUMENT
      else if \<not> sodium_init_ok E then Inl SM_ERR_CRYPTO
      else Inr (uuid_string (uuid_v4_bits (randombytes E (tick s) 16)))) \<and>
    is_uuid_v4 (uuid_string (uuid_v4_bits (randombytes E (tick s) 16)))"
proof -
  have "length (randombytes E (tick s) 16) = 16" using assms by (simp add: random_ok_def)
  from uuid_string_v4 [OF this] show ?thesis
    by (auto simp: utils_generate_uuid_v4_def UTILS_UUID_V4_BUFFER_LEN_def andthen_def guard_def
        require_sodium_def length_uuid_v4 Let_def check_def)
qed

lemma password_loop_ok:
  assumes "random_ok E" "charset \<noteq> []"
  shows "\<exists>p s'. password_loop E charset n s = (Inr p, s') \<and> length p = n \<and> set p \<subseteq> set charset"
proof (induction n arbitrary: s)
  case 0
  then show ?case by simp
next
  case (Suc n)
  obtain p s' where p: "password_loop E charset n (next_tick s) = (Inr p, s')"
      "length p = n" "set p \<subseteq> set charset" using Suc by blast
  have "randombytes_uniform E (tick s) (length charset) < length charset"
    using assms by (simp add: random_ok_def)
  then show ?case using p by (simp add: andthen_def uniform_draw_def)
qed

text \<open>
  \<open>utils_generate_password\<close> ends with a password of the requested length drawn from
  the selected character set.
\<close>

theorem generate_password_ok:
  assumes "random_ok E" "sodium_init_ok E" "password_len \<noteq> 0" "password_len < buffer_len"
  shows "\<exists>p s'. utils_generate_password E buffer_len password_len include_symbols s = (Inr p, s') \<and>
    length p = password_len \<and> set p \<subseteq> set (password_charset include_symbols)"
proof -
  have "password_charset include_symbols \<noteq> []"
    by (simp add: password_charset_def password_alnum_def)
  from password_loop_ok [OF assms(1) this] show ?thesis
    using assms(2-)
    by (simp add: utils_generate_password_def andthen_def guard_def require_sodium_def)
qed

section \<open>One-time codes\<close>

lemma push8_or:
  fixes b :: byte
  shows "push_bit 8 (of_nat n :: 32 word) OR ucast b = of_nat (n * 256 + unat b)"
proof -
  have "push_bit 8 (of_nat n :: 32 word) AND ucast b = 0"
    by (rule bit_word_eqI) (auto simp: bit_simps dest: bit_imp_le_length)
  then have "push_bit 8 (of_nat n :: 32 word) OR ucast b = push_bit 8 (of_nat n) + ucast b"
    by (simp add: disjunctive_add_eq_or)
  then show ?thesis by (simp add: push_bit_eq_mult mult.commute)
qed

lemma byte_low7: "ucast (b :: byte) AND 0x7F = (of_nat (unat b mod 128) :: 32 word)"
proof -
  have m: "(0x7F :: 32 word) = mask 7" by (simp add: mask_eq_exp_minus_1)
  have e: "unat b mod 128 = take_bit 7 (unat b)" by (simp add: take_bit_eq_mod)
  show ?thesis unfolding m e
    by (rule bit_word_eqI) (auto simp: bit_simps)
qed

lemma be_value_4: "be_value [a, b, c, d] = ((unat a * 256 + unat b) * 256 + unat c) * 256 + unat d"
  by (simp add: be_value_def)

lemma take4_drop: "off + 3 < length mac \<Longrightarrow>
    take 4 (drop off mac) = [mac ! off, mac ! (off + 1), mac ! (off + 2), mac ! (off + 3)]"
  by (simp add: numeral_eq_Suc take_Suc_conv_app_nth)

lemma totp_binary_code_value:
  assumes "off + 3 < length mac"
  shows "unat (totp_binary_code mac off) = be_value (take 4 (drop off mac)) mod 2 ^ 31"
proof -
  define a b c d where abcd: "a = mac ! off" "b = mac ! (off + 1)" "c = mac ! (off + 2)" "d = mac ! (off + 3)"
  define v where "v = ((unat a mod 128 * 256 + unat b) * 256 + unat c) * 256 + unat d"
  have "totp_binary_code mac off =
      push_bit 8 (push_bit 8 (push_bit 8 (ucast a AND 0x7F) OR ucast b) OR ucast c) OR (ucast d :: 32 word)"
    unfolding totp_binary_code_def abcd [symmetric] by (simp add: push_bit_or or.assoc)
  then have code: "totp_binary_code mac off = of_nat v"
    unfolding byte_low7 push8_or v_def .
  have bd: "unat b < 256" "unat c < 256" "unat d < 256" by (rule byte_less)+
  then have "v < 2 ^ 31" unfolding v_def by simp
  then have "unat (totp_binary_code mac off) = v" unfolding code
    by (simp add: unat_of_nat take_bit_eq_mod)
  moreover have "be_value (take 4 (drop off mac)) mod 2 ^ 31 = v"
  proof -
    define x y where "x = unat a mod 128" and "y = unat a div 128"
    have a: "unat a = x + 128 * y" by (simp add: x_def y_def)
    have "be_value (take 4 (drop off mac)) = v + y * 2 ^ 31"
      unfolding take4_drop [OF assms] be_value_4 v_def abcd [symmetric] x_def [symmetric]
      unfolding a by simp
    then show ?thesis using \<open>v < 2 ^ 31\<close> by (simp only: mod_mult_self1 mod_less)
  qed
  ultimately show ?thesis by simp
qed

lemma totp_offset: "unat ((b :: byte) AND 0x0F) \<le> 15"
proof -
  have "(0x0F :: byte) = mask 4" by (simp add: mask_eq_exp_minus_1)
  then have "unat (b AND 0x0F) = unat b mod 16"
    by (metis take_bit_eq_mask take_bit_eq_mod unsigned_take_bit_eq power_numeral pow.simps(2) pow.simps(1) sqr.simps)
  then show ?thesis by simp
qed

lemma unat_power_10: "d \<le> 8 \<Longrightarrow> unat ((10 :: 32 word) ^ d) = 10 ^ d"
proof -
  assume "d \<le> 8"
  then have "(10 :: nat) ^ d \<le> 10 ^ 8" by (rule power_increasing) simp
  then have "(10 :: nat) ^ d < 2 ^ 32" by simp
  then have "unat (of_nat (10 ^ d) :: 32 word) = 10 ^ d"
    by (simp only: unat_of_nat) (simp add: take_bit_eq_mod)
  then show ?thesis by (simp del: unat_of_nat)
qed

text \<open>
  \<open>utils_totp_code\<close> is RFC 6238 dynamic truncation: with valid parameters the four
  bytes it reads lie inside the MAC, and the code is the 31-bit big-endian value of these
  bytes modulo ten to the number of digits, written in exactly that many digits. The
  32-bit arithmetic (shifts, modulus built by multiplication) loses nothing.
\<close>

theorem totp_code_rfc:
  assumes "seed \<noteq> []" "period \<noteq> 0" "6 \<le> digits" "digits \<le> 8" "digits < int output_len"
    and mac: "hmac_sha1 E seed (totp_counter_bytes (now div ucast period)) = Some mac" "20 \<le> length mac"
    and offset: "offset = unat (last mac AND 0x0F)"
  shows "offset + 3 < length mac \<and>
    utils_totp_code E seed now period digits output_len =
      Inr (fixed_digits (nat digits) (be_value (take 4 (drop offset mac)) mod 2 ^ 31 mod 10 ^ nat digits))"
proof -
  have "mac \<noteq> []" using mac by auto
  then have last: "mac ! (length mac - 1) = last mac" by (simp add: last_conv_nth)
  have off: "offset + 3 < length mac" using totp_offset [of "last mac"] mac offset by simp
  let ?v = "be_value (take 4 (drop offset mac)) mod 2 ^ 31 mod 10 ^ nat digits"
  have d: "nat digits \<le> 8" "0 < nat digits" "nat digits < output_len" using assms(3-5) by auto
  have code: "unat (totp_binary_code mac offset mod 10 ^ nat digits) = ?v"
    using totp_binary_code_value [OF off] unat_power_10 [OF d(1)] by (simp add: unat_mod)
  have "fmt_0u (nat digits) ?v = fixed_digits (nat digits) ?v"
    by (rule fmt_0u_fixed) (use d in simp_all)
  then have "fmt_0u (nat digits) (unat (totp_binary_code mac offset mod 10 ^ nat digits)) =
      fixed_digits (nat digits) ?v"
    unfolding code .
  moreover have "\<not> (seed = [] \<or> period = 0 \<or> digits < 6 \<or> 8 < digits \<or> output_len \<le> nat digits)"
    using assms(1-4) d by auto
  moreover have "length mac < 20 \<longleftrightarrow> False" using mac by simp
  moreover have "output_len \<le> length (fixed_digits (nat digits) ?v) \<longleftrightarrow> False" using d by simp
  ultimately show ?thesis using off
    by (simp only: utils_totp_code_def mac(1) option.case if_False Let_def last flip: offset)
qed

section \<open>Witnesses\<close>

lemma sample_random_ok: "random_ok sample_env"
  by (simp add: random_ok_def sample_env_def)

theorem generate_uuid_v4_shape_witness:
  "random_ok sample_env \<and>
   fst (utils_generate_uuid_v4 sample_env 37 \<lparr>tick = 255\<rparr>) = Inr ''ffffffff-ffff-4fff-bfff-ffffffffffff''"
proof -
  have "uuid_string (uuid_v4_bits (randombytes sample_env 255 16)) =
      ''ffffffff-ffff-4fff-bfff-ffffffffffff''"
    by code_simp
  then show ?thesis
    using generate_uuid_v4_shape [OF sample_random_ok, of 37 "\<lparr>tick = 255\<rparr>"] sample_random_ok
    by (simp add: UTILS_UUID_V4_BUFFER_LEN_def) (simp add: sample_env_def)
qed

theorem totp_code_rfc_witness:
  "utils_totp_code sample_env [0x81, 2, 3, 4] 59 30 6 7 = Inr ''909060''"
proof -
  have mac: "hmac_sha1 sample_env [0x81, 2, 3, 4] (totp_counter_bytes (59 div ucast (30 :: 32 word))) =
      Some ([0x81, 2, 3, 4, 0, 0, 0, 0, 0, 0, 0, 1] @ replicate 8 0)"
    by code_simp
  have "be_value [0x81, 2, 3, 4] mod 2147483648 mod 1000000 = 909060"
    by (simp add: be_value_4)
  moreover have "fixed_digits (Suc (Suc (Suc (Suc (Suc (Suc 0)))))) 909060 = ''909060''"
    by (simp add: digit_char_def)
  moreover have "(6 :: nat) = Suc (Suc (Suc (Suc (Suc (Suc 0)))))" by simp
  ultimately have digits:
    "fixed_digits 6 (be_value [0x81, 2, 3, 4] mod 2147483648 mod 1000000) = ''909060''"
    by (simp only:)
  show ?thesis
    using totp_code_rfc [OF _ _ _ _ _ mac _ refl, of 6 7]
    by (simp add: digits)
qed

end
