(* ===== verification/Fuin_Storage.thy ===== *)
theory Fuin_Storage
  imports Fuin_Utils "HOL-Library.Char_ord" "HOL-Library.List_Lexorder"
begin

text \<open>
  The database behind \<open>src/src/storage.c\<close> and the tables of \<open>src/sql/schema.sql\<close>.
  A connection is a view of the tables (\<open>tables\<close>) and, while a transaction is open, the
  snapshot a rollback or a crash returns to (\<open>saved\<close>). SQLite itself is a parameter:
  statement number \<open>t\<close> of a run succeeds when \<open>sql_ok E t\<close> holds, and the theorems quantify
  over all such schedules of failures. A failing statement leaves the tables as they are.
\<close>

section \<open>Model\<close>

subsection \<open>Tables\<close>

record secret_row =
  s_id :: string
  s_name :: string
  s_name_nonce :: bytes
  s_encrypted_name :: bytes
  s_version :: int
  s_algorithm :: string
  s_ciphertext :: bytes
  s_encrypted_dek :: bytes
  s_nonce :: bytes
  s_dek_nonce :: bytes
  s_key_commitment :: bytes
  s_nonce_counter :: int
  s_created_at :: string
  s_updated_at :: string
  s_expires_at :: "string option"
  s_rotation_interval :: "int option"
  s_is_archived :: bool

record audit_row =
  a_entry_id :: int
  a_timestamp :: string
  a_action :: string
  a_actor :: string
  a_target :: string
  a_target_version :: "int option"
  a_result :: string
  a_prev_hash :: bytes
  a_entry_hash :: bytes
  a_hmac_signature :: bytes

record db =
  secrets :: "secret_row list"
  audit_log :: "audit_row list"
  metadata :: "string \<rightharpoonup> bytes"
  auth_failures :: "(string \<times> string) list"

record store = world +
  g_db :: bool
  tables :: db
  saved :: "db option"

definition schema_algorithms :: "string list" where
  "schema_algorithms = [''AES-256-GCM'', ''XChaCha20-Poly1305'', ''AEGIS-256'']"

definition schema_actions :: "string list" where
  "schema_actions = [''CREATE'', ''READ'', ''UPDATE'', ''DELETE'', ''ROLLBACK'', ''ROTATE_KEK'',
     ''ROTATE_DEK'', ''TOKEN_ISSUE'', ''TOKEN_REVOKE'']"

definition schema_results :: "string list" where
  "schema_results = [''SUCCESS'', ''FAILURE'']"

text \<open>
  The constraints of table \<open>secrets\<close>: primary key, \<open>UNIQUE (name, version)\<close>, the unique
  partial index over the active rows, and the \<open>CHECK\<close> clauses.
\<close>

definition secrets_constraints :: "secret_row list \<Rightarrow> secret_row \<Rightarrow> bool" where
  "secrets_constraints rows r \<longleftrightarrow>
     list_all (\<lambda>x. s_id x \<noteq> s_id r \<and> (s_name x, s_version x) \<noteq> (s_name r, s_version r) \<and>
       (s_name x \<noteq> s_name r \<or> s_is_archived x \<or> s_is_archived r)) rows \<and>
     s_algorithm r \<in> set schema_algorithms \<and>
     (case s_rotation_interval r of None \<Rightarrow> True | Some i \<Rightarrow> 0 < i)"

definition insert_secret_row :: "secret_row \<Rightarrow> db \<Rightarrow> db option" where
  "insert_secret_row r d =
     (if secrets_constraints (secrets d) r then Some (d\<lparr>secrets := secrets d @ [r]\<rparr>) else None)"

definition insert_audit_row :: "audit_row \<Rightarrow> db \<Rightarrow> db option" where
  "insert_audit_row r d =
     (if list_all (\<lambda>x. a_entry_id x \<noteq> a_entry_id r) (audit_log d) \<and>
         a_action r \<in> set schema_actions \<and> a_result r \<in> set schema_results
      then Some (d\<lparr>audit_log := audit_log d @ [r]\<rparr>) else None)"

subsection \<open>Statements\<close>

text \<open>
  A query (\<open>prepare\<close>, \<open>bind\<close>, \<open>step\<close>, \<open>finalize\<close>) and a change of the tables; outside a
  transaction a change is durable at once.
\<close>

definition sql_select :: "env \<Rightarrow> (db \<Rightarrow> 'x) \<Rightarrow> ('a store_scheme, 'x) comp" where
  "sql_select E f = (\<lambda>s.
     if sql_ok E (tick s) then (Inr (f (tables s)), next_tick s)
     else (Inl SM_ERR_STORAGE, next_tick s))"

definition sql_write :: "env \<Rightarrow> (db \<Rightarrow> db option) \<Rightarrow> ('a store_scheme, unit) comp" where
  "sql_write E f = (\<lambda>s.
     if sql_ok E (tick s) then
       (case f (tables s) of
          None \<Rightarrow> (Inl SM_ERR_STORAGE, next_tick s)
        | Some d \<Rightarrow> (Inr (), next_tick (s\<lparr>tables := d\<rparr>)))
     else (Inl SM_ERR_STORAGE, next_tick s))"

text \<open>An \<open>UPDATE\<close> or \<open>DELETE\<close> with its \<open>sqlite3_changes\<close> count, and \<open>sqlite3_prepare_v2\<close> alone.\<close>

definition sql_change :: "env \<Rightarrow> (db \<Rightarrow> db \<times> nat) \<Rightarrow> ('a store_scheme, nat) comp" where
  "sql_change E f = (\<lambda>s.
     if sql_ok E (tick s) then (Inr (snd (f (tables s))), next_tick (s\<lparr>tables := fst (f (tables s))\<rparr>))
     else (Inl SM_ERR_STORAGE, next_tick s))"

definition sql_prepare :: "env \<Rightarrow> ('a store_scheme, unit) comp" where
  "sql_prepare E = sql_select E (\<lambda>_. ())"

definition require_db :: "('a store_scheme, unit) comp" where
  "require_db = (\<lambda>s. (if g_db s then Inr () else Inl SM_ERR_INVALID_ARGUMENT, s))"

text \<open>The tables after a crash, or as another process sees them.\<close>

definition committed :: "'a store_scheme \<Rightarrow> db" where
  "committed s = (case saved s of None \<Rightarrow> tables s | Some d \<Rightarrow> d)"

definition in_txn :: "'a store_scheme \<Rightarrow> bool" where
  "in_txn s \<longleftrightarrow> saved s \<noteq> None"

subsection \<open>Transactions\<close>

definition storage_begin_transaction :: "env \<Rightarrow> ('a store_scheme, unit) comp" where
  "storage_begin_transaction E = andthen require_db (\<lambda>_ s.
     if sql_ok E (tick s) \<and> saved s = None then (Inr (), next_tick (s\<lparr>saved := Some (tables s)\<rparr>))
     else (Inl SM_ERR_STORAGE, next_tick s))"

definition storage_commit_transaction :: "env \<Rightarrow> ('a store_scheme, unit) comp" where
  "storage_commit_transaction E = andthen require_db (\<lambda>_ s.
     if sql_ok E (tick s) \<and> saved s \<noteq> None then (Inr (), next_tick (s\<lparr>saved := None\<rparr>))
     else (Inl SM_ERR_STORAGE, next_tick s))"

definition storage_rollback_transaction :: "env \<Rightarrow> ('a store_scheme, unit) comp" where
  "storage_rollback_transaction E = andthen require_db (\<lambda>_ s.
     case saved s of
       Some d \<Rightarrow>
         if sql_ok E (tick s) then (Inr (), next_tick (s\<lparr>tables := d, saved := None\<rparr>))
         else (Inl SM_ERR_STORAGE, next_tick s)
     | None \<Rightarrow> (Inl SM_ERR_STORAGE, next_tick s))"

text \<open>Closing a connection with an open transaction rolls it back; a busy handle stays open.\<close>

definition storage_close :: "env \<Rightarrow> ('a store_scheme, unit) comp" where
  "storage_close E = (\<lambda>s.
     if \<not> g_db s then (Inr (), s)
     else if sql_ok E (tick s)
     then (Inr (), next_tick (s\<lparr>g_db := False, tables := committed s, saved := None\<rparr>))
     else (Inl SM_ERR_STORAGE, next_tick s))"

text \<open>
  The block that ends every modifying operation: commit on success, roll back when the
  commit fails or an earlier status is not \<open>SM_OK\<close>; the rollback's own status is ignored.
\<close>

definition commit_or_rollback :: "env \<Rightarrow> 'x result \<Rightarrow> ('a store_scheme, 'x) comp" where
  "commit_or_rollback E r = (\<lambda>s.
     case r of
       Inl e \<Rightarrow> (Inl e, snd (storage_rollback_transaction E s))
     | Inr x \<Rightarrow>
         (case storage_commit_transaction E s of
            (Inr u, s') \<Rightarrow> (Inr x, s')
          | (Inl e, s') \<Rightarrow> (Inl e, snd (storage_rollback_transaction E s'))))"

subsection \<open>Schema verification\<close>

record column_info =
  col_name :: string
  col_type :: string
  col_not_null :: bool
  col_primary_key :: bool

record index_info =
  idx_name :: string
  idx_unique :: bool
  idx_partial :: bool

text \<open>What \<open>sqlite_master\<close>, \<open>PRAGMA table_info\<close> and \<open>PRAGMA index_list\<close> report.\<close>

record catalog =
  cat_tables :: "string list"
  table_info :: "string \<Rightarrow> column_info list"
  index_list :: "string \<Rightarrow> index_info list"

definition ascii_lower :: "char \<Rightarrow> char" where
  "ascii_lower c =
     (if of_char c \<in> {65..90 :: nat} then char_of ((of_char c :: nat) + 32) else c)"

definition sqlite3_stricmp_eq :: "string \<Rightarrow> string \<Rightarrow> bool" where
  "sqlite3_stricmp_eq a b \<longleftrightarrow> map ascii_lower a = map ascii_lower b"

definition storage_require_table :: "catalog \<Rightarrow> string \<Rightarrow> unit result" where
  "storage_require_table cat t = check (t \<in> set (cat_tables cat)) SM_ERR_STORAGE"

definition storage_require_column :: "catalog \<Rightarrow> string \<Rightarrow> column_info \<Rightarrow> unit result" where
  "storage_require_column cat t required =
     (case find (\<lambda>c. col_name c = col_name required) (table_info cat t) of
        None \<Rightarrow> Inl SM_ERR_STORAGE
      | Some c \<Rightarrow> check (sqlite3_stricmp_eq (col_type c) (col_type required) \<and>
          (col_not_null required \<longrightarrow> col_not_null c) \<and>
          (col_primary_key required \<longrightarrow> col_primary_key c)) SM_ERR_STORAGE)"

fun storage_require_columns :: "catalog \<Rightarrow> string \<Rightarrow> column_info list \<Rightarrow> unit result" where
  "storage_require_columns cat t [] = Inr ()"
| "storage_require_columns cat t (c # cs) =
     and_then (storage_require_column cat t c) (\<lambda>_. storage_require_columns cat t cs)"

definition storage_require_index ::
  "catalog \<Rightarrow> string \<Rightarrow> string \<Rightarrow> bool \<Rightarrow> bool \<Rightarrow> unit result" where
  "storage_require_index cat t i unique partial =
     (case find (\<lambda>x. idx_name x = i) (index_list cat t) of
        None \<Rightarrow> Inl SM_ERR_STORAGE
      | Some x \<Rightarrow> check (idx_unique x = unique \<and> idx_partial x = partial) SM_ERR_STORAGE)"

definition secrets_columns :: "column_info list" where
  "secrets_columns = map (\<lambda>(n, t, nn, pk). \<lparr>col_name = n, col_type = t, col_not_null = nn, col_primary_key = pk\<rparr>)
    [(''id'', ''TEXT'', False, True), (''name'', ''TEXT'', True, False),
     (''name_nonce'', ''BLOB'', True, False), (''encrypted_name'', ''BLOB'', True, False),
     (''version'', ''INTEGER'', True, False), (''algorithm'', ''TEXT'', True, False),
     (''ciphertext'', ''BLOB'', True, False), (''encrypted_dek'', ''BLOB'', True, False),
     (''nonce'', ''BLOB'', True, False), (''dek_nonce'', ''BLOB'', True, False),
     (''key_commitment'', ''BLOB'', True, False), (''nonce_counter'', ''INTEGER'', True, False),
     (''created_at'', ''TEXT'', True, False), (''updated_at'', ''TEXT'', True, False),
     (''expires_at'', ''TEXT'', False, False), (''rotation_interval_seconds'', ''INTEGER'', False, False),
     (''tags'', ''TEXT'', False, False), (''is_archived'', ''INTEGER'', True, False)]"

definition audit_columns :: "column_info list" where
  "audit_columns = map (\<lambda>(n, t, nn, pk). \<lparr>col_name = n, col_type = t, col_not_null = nn, col_primary_key = pk\<rparr>)
    [(''entry_id'', ''INTEGER'', False, True), (''timestamp'', ''TEXT'', True, False),
     (''action'', ''TEXT'', True, False), (''actor'', ''TEXT'', True, False),
     (''target'', ''TEXT'', True, False), (''target_version'', ''INTEGER'', False, False),
     (''result'', ''TEXT'', True, False), (''prev_hash'', ''BLOB'', True, False),
     (''entry_hash'', ''BLOB'', True, False), (''hmac_signature'', ''BLOB'', True, False)]"

definition metadata_columns :: "column_info list" where
  "metadata_columns = map (\<lambda>(n, t, nn, pk). \<lparr>col_name = n, col_type = t, col_not_null = nn, col_primary_key = pk\<rparr>)
    [(''key'', ''TEXT'', False, True), (''value'', ''BLOB'', True, False)]"

definition auth_failure_columns :: "column_info list" where
  "auth_failure_columns = map (\<lambda>(n, t, nn, pk). \<lparr>col_name = n, col_type = t, col_not_null = nn, col_primary_key = pk\<rparr>)
    [(''event_id'', ''INTEGER'', False, True), (''timestamp'', ''TEXT'', True, False),
     (''result'', ''TEXT'', True, False)]"

text \<open>The loop over \<open>required_tables\<close>, then the columns of each table, then the index.\<close>

fun storage_require_tables :: "catalog \<Rightarrow> string list \<Rightarrow> unit result" where
  "storage_require_tables cat [] = Inr ()"
| "storage_require_tables cat (t # ts) =
     and_then (storage_require_table cat t) (\<lambda>_. storage_require_tables cat ts)"

definition storage_verify_schema :: "catalog \<Rightarrow> unit result" where
  "storage_verify_schema cat =
     and_then (storage_require_tables cat [''secrets'', ''audit_log'', ''metadata'', ''auth_failures'']) (\<lambda>_.
     and_then (storage_require_columns cat ''secrets'' secrets_columns) (\<lambda>_.
     and_then (storage_require_columns cat ''audit_log'' audit_columns) (\<lambda>_.
     and_then (storage_require_columns cat ''metadata'' metadata_columns) (\<lambda>_.
     and_then (storage_require_columns cat ''auth_failures'' auth_failure_columns) (\<lambda>_.
     storage_require_index cat ''secrets'' ''idx_secrets_name_active'' True True)))))"

section \<open>Interface: a transactional store\<close>

text \<open>
  What the modifying operations of the vault rely on. \<open>durable\<close> is the state a crash
  leaves, \<open>working\<close> what the connection reads, \<open>open_txn\<close> whether a transaction is open.
\<close>

locale transactional =
  fixes begin_txn commit_txn rollback_txn :: "('s, unit) comp"
    and durable working :: "'s \<Rightarrow> 'd"
    and open_txn :: "'s \<Rightarrow> bool"
  assumes begin_durable: "durable (snd (begin_txn s)) = durable s"
    and begin_open: "begin_txn s = (Inr u, s') \<Longrightarrow> open_txn s' \<and> working s' = working s"
    and begin_closed: "begin_txn s = (Inr u, s') \<Longrightarrow> \<not> open_txn s"
    and commit_durable: "commit_txn s = (Inr u, s') \<Longrightarrow>
      durable s' = working s \<and> working s' = working s \<and> \<not> open_txn s'"
    and commit_failed: "commit_txn s = (Inl e, s') \<Longrightarrow> durable s' = durable s"
    and rollback_durable: "durable (snd (rollback_txn s)) = durable s"
    and rollback_working: "rollback_txn s = (Inr u, s') \<Longrightarrow> working s' = durable s"
begin

text \<open>The closing block of an operation, over any store.\<close>

definition finish :: "'x result \<Rightarrow> ('s, 'x) comp" where
  "finish r = (\<lambda>s. case r of
      Inl e \<Rightarrow> (Inl e, snd (rollback_txn s))
    | Inr x \<Rightarrow> (case commit_txn s of
         (Inr u, s') \<Rightarrow> (Inr x, s') | (Inl e, s') \<Rightarrow> (Inl e, snd (rollback_txn s'))))"

lemma finish_failed: "finish r s = (Inl e, s') \<Longrightarrow> durable s' = durable s"
  by (auto simp: finish_def rollback_durable commit_failed split: sum.splits prod.splits)

lemma finish_done:
  "finish r s = (Inr x, s') \<Longrightarrow>
    r = Inr x \<and> durable s' = working s \<and> working s' = working s \<and> \<not> open_txn s'"
  by (auto simp: finish_def split: sum.splits prod.splits dest: commit_durable)

text \<open>
  A block that only works on the open transaction is atomic: when it does not end with
  success the durable state is the one before, and when it does the durable state is what
  the block computed.
\<close>

lemma block_failed:
  assumes body: "\<And>d. preserves (\<lambda>s. open_txn s \<and> durable s = d) body"
    and run: "andthen begin_txn (\<lambda>_. finally_do body finish) s = (Inl e, s')"
  shows "durable s' = durable s"
proof (cases "begin_txn s")
  case (Pair r s1)
  show ?thesis
  proof (cases r)
    case (Inl e')
    then show ?thesis using run Pair begin_durable [of s] by (simp add: andthen_def)
  next
    case (Inr u)
    then have s1: "open_txn s1 \<and> durable s1 = durable s"
      using Pair begin_open begin_durable [of s] by fastforce
    obtain q s2 where q: "body s1 = (q, s2)" by fastforce
    have "durable s2 = durable s" using preservesD [OF body s1 q] by simp
    moreover have "finish q s2 = (Inl e, s')"
      using run Pair Inr q by (simp add: andthen_def finally_do_def)
    ultimately show ?thesis by (simp add: finish_failed)
  qed
qed

lemma block_done:
  assumes "andthen begin_txn (\<lambda>_. finally_do body finish) s = (Inr x, s')"
  shows "\<exists>s1 s2. begin_txn s = (Inr (), s1) \<and> body s1 = (Inr x, s2) \<and> working s1 = working s \<and>
    durable s' = working s2 \<and> working s' = working s2 \<and> \<not> open_txn s'"
proof -
  obtain s1 where s1: "begin_txn s = (Inr (), s1)" and r: "finally_do body finish s1 = (Inr x, s')"
    using assms by (auto simp: andthen_eq_Inr)
  obtain q s2 where q: "body s1 = (q, s2)" by fastforce
  have "finish q s2 = (Inr x, s')" using r q by (simp add: finally_do_def)
  from finish_done [OF this] show ?thesis using s1 q begin_open [OF s1] by auto
qed

text \<open>The same for a block whose closing part also runs when the transaction did not start.\<close>

lemma late_block_failed:
  assumes body: "\<And>d. preserves (\<lambda>s. open_txn s \<and> durable s = d) body"
    and run: "finally_do (andthen begin_txn (\<lambda>_. body)) finish s = (Inl e, s')"
  shows "durable s' = durable s"
proof -
  obtain q s2 where q: "andthen begin_txn (\<lambda>_. body) s = (q, s2)" by fastforce
  then have "finish q s2 = (Inl e, s')" using run by (simp add: finally_do_def)
  then have "durable s' = durable s2" by (rule finish_failed)
  moreover have "durable s2 = durable s"
  proof (cases "begin_txn s")
    case (Pair r s1)
    show ?thesis
    proof (cases r)
      case (Inl e')
      then show ?thesis using q Pair begin_durable [of s] by (auto simp: andthen_def)
    next
      case (Inr u)
      then have s1: "open_txn s1 \<and> durable s1 = durable s"
        using Pair begin_open begin_durable [of s] by fastforce
      have "body s1 = (q, s2)" using q Pair Inr by (simp add: andthen_def)
      then show ?thesis using preservesD [OF body s1] by blast
    qed
  qed
  ultimately show ?thesis by simp
qed

lemma late_block_done:
  assumes "finally_do (andthen begin_txn (\<lambda>_. body)) finish s = (Inr x, s')"
  shows "\<exists>s1 s2. begin_txn s = (Inr (), s1) \<and> body s1 = (Inr x, s2) \<and> working s1 = working s \<and>
    durable s' = working s2 \<and> working s' = working s2 \<and> \<not> open_txn s' \<and> finish (Inr x) s2 = (Inr x, s')"
proof -
  obtain q s2 where q: "andthen begin_txn (\<lambda>_. body) s = (q, s2)" by fastforce
  then have f: "finish q s2 = (Inr x, s')" using assms by (simp add: finally_do_def)
  note fin = finish_done [OF f]
  from fin q obtain s1 where s1: "begin_txn s = (Inr (), s1)" "body s1 = (Inr x, s2)"
    by (auto simp: andthen_eq_Inr)
  have "finish (Inr x) s2 = (Inr x, s')" using f fin by simp
  then show ?thesis using fin s1 begin_open [OF s1(1)] by blast
qed

end

section \<open>Lemmas\<close>

lemma select_eq_Inr:
  "sql_select E f s = (Inr x, s') \<longleftrightarrow> sql_ok E (tick s) \<and> x = f (tables s) \<and> s' = next_tick s"
  by (auto simp: sql_select_def)

lemma write_eq_Inr:
  "sql_write E f s = (Inr u, s') \<longleftrightarrow>
    (\<exists>d. sql_ok E (tick s) \<and> f (tables s) = Some d \<and> s' = next_tick (s\<lparr>tables := d\<rparr>))"
  by (auto simp: sql_write_def split: option.splits)

lemma change_eq_Inr:
  "sql_change E f s = (Inr n, s') \<longleftrightarrow>
    sql_ok E (tick s) \<and> n = snd (f (tables s)) \<and> s' = next_tick (s\<lparr>tables := fst (f (tables s))\<rparr>)"
  by (auto simp: sql_change_def)

lemma prepare_eq_Inr:
  "sql_prepare E s = (Inr u, s') \<longleftrightarrow> sql_ok E (tick s) \<and> s' = next_tick s"
  by (auto simp: sql_prepare_def select_eq_Inr)

lemma next_tick_store [simp]:
  "tables (next_tick s) = tables s" "saved (next_tick s) = saved s" "g_db (next_tick s) = g_db s"
  "committed (next_tick s) = committed s" "in_txn (next_tick s) = in_txn s"
  by (simp_all add: next_tick_def committed_def in_txn_def split: option.splits)

lemma committed_tables_update [simp]:
  "in_txn s \<Longrightarrow> committed (s\<lparr>tables := d\<rparr>) = committed s"
  by (auto simp: committed_def in_txn_def)

lemma in_txn_tables_update [simp]: "in_txn (s\<lparr>tables := d\<rparr>) = in_txn s"
  by (simp add: in_txn_def)

lemma committed_no_txn [simp]: "\<not> in_txn s \<Longrightarrow> committed s = tables s"
  by (simp add: committed_def in_txn_def)

text \<open>The invariant of a transaction body: it stays open and the durable tables do not move.\<close>

abbreviation txn_inv :: "db \<Rightarrow> 'a store_scheme \<Rightarrow> bool" where
  "txn_inv d \<equiv> (\<lambda>s. in_txn s \<and> committed s = d)"

lemma preserves_select [preserves_rules]: "preserves (txn_inv d) (sql_select E f)"
  by (simp add: preserves_def sql_select_def)

lemma preserves_write [preserves_rules]: "preserves (txn_inv d) (sql_write E f)"
  by (auto simp: preserves_def sql_write_def split: option.splits)

lemma preserves_change [preserves_rules]: "preserves (txn_inv d) (sql_change E f)"
  by (auto simp: preserves_def sql_change_def)

lemma preserves_prepare [preserves_rules]: "preserves (txn_inv d) (sql_prepare E)"
  by (simp add: sql_prepare_def preserves_select)

lemma preserves_require_db [preserves_rules]: "preserves I require_db"
  by (simp add: preserves_def require_db_def)

lemma preserves_sys_time [preserves_rules]: "preserves (txn_inv d) (sys_time E)"
  by (simp add: preserves_def)

lemma preserves_randombytes [preserves_rules]: "preserves (txn_inv d) (randombytes_buf E n)"
  by (simp add: preserves_def)

lemma require_db_eq_Inr [simp]: "require_db s = (Inr u, s') \<longleftrightarrow> g_db s \<and> s' = s"
  by (auto simp: require_db_def)

lemmas storage_txn_defs = storage_begin_transaction_def storage_commit_transaction_def
  storage_rollback_transaction_def andthen_def require_db_def

interpretation sq: transactional "storage_begin_transaction E" "storage_commit_transaction E"
    "storage_rollback_transaction E" committed tables in_txn
  for E :: env
  by unfold_locales
    (auto simp: storage_txn_defs committed_def in_txn_def next_tick_def
      split: if_splits option.splits)

lemma commit_or_rollback_finish: "commit_or_rollback E = sq.finish E"
  by (rule ext) (simp add: commit_or_rollback_def sq.finish_def)

lemma require_columns_iff:
  "storage_require_columns cat t cs = Inr () \<longleftrightarrow> (\<forall>c \<in> set cs. storage_require_column cat t c = Inr ())"
  by (induction cs) (auto simp: and_then_eq_Inr)

lemma require_tables_iff:
  "storage_require_tables cat ts = Inr () \<longleftrightarrow> set ts \<subseteq> set (cat_tables cat)"
  by (induction ts) (auto simp: and_then_eq_Inr storage_require_table_def)

end
