(* ===== verification/Fuin_Audit.thy ===== *)
theory Fuin_Audit
  imports Fuin_Storage
begin

text \<open>
  The hash-chained, signed audit log of \<open>src/src/audit.c\<close>: the canonical encoding of an
  entry, the SHA-256 chain with its per-entry ratcheted HMAC keys, and the operations that
  append an entry, verify the whole log and sign it again under another key. The log is the
  table \<open>audit_log\<close>, read in \<open>entry_id\<close> order.
\<close>

section \<open>Model\<close>

definition AUDIT_ACTOR_DEFAULT :: string where "AUDIT_ACTOR_DEFAULT = ''user:default''"
definition crypto_hash_sha256_BYTES :: nat where "crypto_hash_sha256_BYTES = 32"
definition crypto_auth_BYTES :: nat where "crypto_auth_BYTES = 32"
definition crypto_auth_KEYBYTES :: nat where "crypto_auth_KEYBYTES = 32"
definition SIZE_MAX :: int where "SIZE_MAX = 18446744073709551615"

subsection \<open>Canonical bytes\<close>

definition audit_checked_add :: "nat \<Rightarrow> nat \<Rightarrow> nat result" where
  "audit_checked_add total_len value =
     (if SIZE_MAX - int value < int total_len then Inl SM_ERR_INVALID_ARGUMENT else Inr (total_len + value))"

definition audit_write_u32_le :: "32 word \<Rightarrow> bytes" where
  "audit_write_u32_le value = write_le 4 value"

definition audit_field_size :: "nat \<Rightarrow> nat result" where
  "audit_field_size field_len =
     (if UINT32_MAX < int field_len then Inl SM_ERR_INVALID_ARGUMENT else Inr (4 + field_len))"

text \<open>The bytes before the cursor, extended by a length prefix and the data.\<close>

definition audit_append_field :: "bytes \<Rightarrow> bytes \<Rightarrow> bytes result" where
  "audit_append_field buffer data =
     (if UINT32_MAX < int (length data) then Inl SM_ERR_INVALID_ARGUMENT
      else Inr (buffer @ audit_write_u32_le (of_nat (length data)) @ data))"

definition audit_valid_action :: "string \<Rightarrow> bool" where
  "audit_valid_action act \<longleftrightarrow> act \<noteq> [] \<and>
     act \<in> set [''CREATE'', ''READ'', ''UPDATE'', ''DELETE'', ''ROLLBACK'', ''ROTATE_KEK'',
       ''ROTATE_DEK'', ''TOKEN_ISSUE'', ''TOKEN_REVOKE'']"

definition audit_valid_result :: "string \<Rightarrow> bool" where
  "audit_valid_result res \<longleftrightarrow> res \<noteq> [] \<and> (res = ''SUCCESS'' \<or> res = ''FAILURE'')"

definition audit_actor_value :: "string option \<Rightarrow> string" where
  "audit_actor_value act =
     (case act of None \<Rightarrow> AUDIT_ACTOR_DEFAULT | Some a \<Rightarrow> if a = [] then AUDIT_ACTOR_DEFAULT else a)"

text \<open>The repeated \<open>ADD_FIELD_SIZE\<close>, then the repeated \<open>audit_append_field\<close>.\<close>

fun audit_total_size :: "nat \<Rightarrow> bytes list \<Rightarrow> nat result" where
  "audit_total_size total_len [] = Inr total_len"
| "audit_total_size total_len (f # fs) =
     and_then (audit_field_size (length f)) (\<lambda>field_len.
     and_then (audit_checked_add total_len field_len) (\<lambda>total_len'. audit_total_size total_len' fs))"

fun audit_append_fields :: "bytes \<Rightarrow> bytes list \<Rightarrow> bytes result" where
  "audit_append_fields buffer [] = Inr buffer"
| "audit_append_fields buffer (f # fs) =
     and_then (audit_append_field buffer f) (\<lambda>buffer'. audit_append_fields buffer' fs)"

definition audit_entry_fields ::
  "string \<Rightarrow> int \<Rightarrow> string \<Rightarrow> string option \<Rightarrow> string \<Rightarrow> int \<Rightarrow> string \<Rightarrow> bytes \<Rightarrow> bytes option \<Rightarrow> bytes list"
where
  "audit_entry_fields ts eid act actor tgt tv res prev eh =
     [str_bytes ''SM-AUDIT-v1'', utils_write_u64_le (of_int eid), str_bytes ts, str_bytes act,
      str_bytes (audit_actor_value actor), str_bytes tgt,
      (if 0 < tv then utils_write_u64_le (of_int tv) else []), str_bytes res, prev] @
     (case eh of None \<Rightarrow> [] | Some h \<Rightarrow> [h])"

definition audit_build_entry_bytes ::
  "string \<Rightarrow> int \<Rightarrow> string \<Rightarrow> string option \<Rightarrow> string \<Rightarrow> int \<Rightarrow> string \<Rightarrow> bytes \<Rightarrow> bytes option \<Rightarrow> bytes result"
where
  "audit_build_entry_bytes ts eid act actor tgt tv res prev eh =
     (if ts = [] \<or> eid < 1 \<or> \<not> audit_valid_action act \<or> tgt = [] \<or> \<not> audit_valid_result res
      then Inl SM_ERR_INVALID_ARGUMENT
      else
        let fields = audit_entry_fields ts eid act actor tgt tv res prev eh in
        and_then (audit_total_size 0 fields) (\<lambda>total_len.
        and_then (audit_append_fields [] fields) (\<lambda>buffer.
        if length buffer \<noteq> total_len then Inl SM_ERR_STORAGE else Inr buffer)))"

definition audit_compute_entry_hash ::
  "env \<Rightarrow> string \<Rightarrow> int \<Rightarrow> string \<Rightarrow> string option \<Rightarrow> string \<Rightarrow> int \<Rightarrow> string \<Rightarrow> bytes \<Rightarrow> bytes result"
where
  "audit_compute_entry_hash E ts eid act actor tgt tv res prev =
     and_then (audit_build_entry_bytes ts eid act actor tgt tv res prev None) (\<lambda>b. Inr (sha256 E b))"

definition audit_compute_signature ::
  "env \<Rightarrow> string \<Rightarrow> int \<Rightarrow> string \<Rightarrow> string option \<Rightarrow> string \<Rightarrow> int \<Rightarrow> string \<Rightarrow> bytes \<Rightarrow> bytes \<Rightarrow> bytes \<Rightarrow> bytes result"
where
  "audit_compute_signature E ts eid act actor tgt tv res prev eh key =
     and_then (audit_build_entry_bytes ts eid act actor tgt tv res prev (Some eh))
       (\<lambda>b. Inr (crypto_auth E key b))"

subsection \<open>Keys\<close>

definition audit_validate_key :: "env \<Rightarrow> bytes \<Rightarrow> unit result" where
  "audit_validate_key E key =
     and_then (check (length key = crypto_auth_KEYBYTES) SM_ERR_INVALID_ARGUMENT) (\<lambda>_. require_sodium E)"

definition audit_advance_ratchet_key :: "env \<Rightarrow> bytes \<Rightarrow> bytes" where
  "audit_advance_ratchet_key E key = sha256 E key"

fun audit_ratchet_loop :: "env \<Rightarrow> nat \<Rightarrow> bytes \<Rightarrow> bytes" where
  "audit_ratchet_loop E 0 key = key"
| "audit_ratchet_loop E (Suc n) key = audit_ratchet_loop E n (audit_advance_ratchet_key E key)"

definition audit_derive_ratchet_key :: "env \<Rightarrow> bytes \<Rightarrow> nat \<Rightarrow> bytes result" where
  "audit_derive_ratchet_key E key entry_index =
     and_then (audit_validate_key E key) (\<lambda>_. Inr (audit_ratchet_loop E entry_index key))"

subsection \<open>Reading rows\<close>

text \<open>Text columns come back as C strings; hashes and signatures must have their exact length.\<close>

definition audit_column_hash :: "bytes \<Rightarrow> bytes result" where
  "audit_column_hash blob =
     (if length blob \<noteq> crypto_hash_sha256_BYTES then Inl SM_ERR_STORAGE else Inr blob)"

definition audit_column_signature :: "bytes \<Rightarrow> bytes result" where
  "audit_column_signature blob =
     (if length blob \<noteq> crypto_auth_BYTES then Inl SM_ERR_STORAGE else Inr blob)"

record audit_entry =
  e_id :: int
  e_timestamp :: string
  e_action :: string
  e_actor :: string
  e_target :: string
  e_version :: int
  e_result :: string
  e_prev :: bytes
  e_hash :: bytes

definition audit_read_columns :: "audit_row \<Rightarrow> audit_entry result" where
  "audit_read_columns r =
     and_then (check (1 \<le> a_entry_id r) SM_ERR_STORAGE) (\<lambda>_.
     and_then (case a_target_version r of
         None \<Rightarrow> Inr 0
       | Some v \<Rightarrow> if c_int v < 1 then Inl SM_ERR_STORAGE else Inr (c_int v)) (\<lambda>tv.
     and_then (audit_column_hash (a_prev_hash r)) (\<lambda>prev.
     and_then (audit_column_hash (a_entry_hash r)) (\<lambda>eh.
     Inr \<lparr>e_id = a_entry_id r, e_timestamp = c_str (a_timestamp r), e_action = c_str (a_action r),
          e_actor = c_str (a_actor r), e_target = c_str (a_target r), e_version = tv,
          e_result = c_str (a_result r), e_prev = prev, e_hash = eh\<rparr>))))"

definition entry_hash_of :: "env \<Rightarrow> audit_entry \<Rightarrow> bytes result" where
  "entry_hash_of E e = audit_compute_entry_hash E (e_timestamp e) (e_id e) (e_action e)
     (Some (e_actor e)) (e_target e) (e_version e) (e_result e) (e_prev e)"

definition entry_signed_bytes :: "audit_entry \<Rightarrow> bytes result" where
  "entry_signed_bytes e = audit_build_entry_bytes (e_timestamp e) (e_id e) (e_action e)
     (Some (e_actor e)) (e_target e) (e_version e) (e_result e) (e_prev e) (Some (e_hash e))"

text \<open>The part of the loop body that \<open>audit_verify_chain\<close> and \<open>audit_resign_chain\<close> share.\<close>

definition audit_check_link :: "env \<Rightarrow> bytes \<Rightarrow> audit_entry \<Rightarrow> unit result" where
  "audit_check_link E expected_prev e =
     and_then (check (e_prev e = expected_prev) SM_ERR_CRYPTO) (\<lambda>_.
     and_then (entry_hash_of E e) (\<lambda>computed.
     check (e_hash e = computed) SM_ERR_CRYPTO))"

fun audit_verify_rows :: "env \<Rightarrow> bytes \<Rightarrow> bytes \<Rightarrow> audit_row list \<Rightarrow> unit result" where
  "audit_verify_rows E expected_prev ratchet_key [] = Inr ()"
| "audit_verify_rows E expected_prev ratchet_key (r # rows) =
     and_then (audit_read_columns r) (\<lambda>e.
     and_then (audit_column_signature (a_hmac_signature r)) (\<lambda>signature.
     and_then (audit_check_link E expected_prev e) (\<lambda>_.
     and_then (entry_signed_bytes e) (\<lambda>signed.
     and_then (check (signature = crypto_auth E ratchet_key signed) SM_ERR_CRYPTO) (\<lambda>_.
     audit_verify_rows E (e_hash e) (audit_advance_ratchet_key E ratchet_key) rows)))))"

definition audit_rows :: "db \<Rightarrow> audit_row list" where
  "audit_rows d = sort_key a_entry_id (audit_log d)"

definition zero_hash :: bytes where
  "zero_hash = replicate crypto_hash_sha256_BYTES 0"

definition audit_verify_chain :: "env \<Rightarrow> bytes \<Rightarrow> ('a store_scheme, unit) comp" where
  "audit_verify_chain E audit_key =
     andthen require_db (\<lambda>_.
     andthen (lift_result (audit_validate_key E audit_key)) (\<lambda>_.
     andthen (sql_select E audit_rows) (\<lambda>rows.
     lift_result (audit_verify_rows E zero_hash audit_key rows))))"

subsection \<open>Signing the log again\<close>

fun audit_resign_rows ::
  "env \<Rightarrow> bytes \<Rightarrow> bytes \<Rightarrow> audit_row list \<Rightarrow> (int \<times> bytes) list result" where
  "audit_resign_rows E expected_prev ratchet_key [] = Inr []"
| "audit_resign_rows E expected_prev ratchet_key (r # rows) =
     and_then (audit_read_columns r) (\<lambda>e.
     and_then (audit_check_link E expected_prev e) (\<lambda>_.
     and_then (entry_signed_bytes e) (\<lambda>signed.
     and_then (audit_resign_rows E (e_hash e) (audit_advance_ratchet_key E ratchet_key) rows) (\<lambda>items.
     Inr ((e_id e, crypto_auth E ratchet_key signed) # items)))))"

definition audit_update_signature :: "bytes \<Rightarrow> int \<Rightarrow> db \<Rightarrow> db \<times> nat" where
  "audit_update_signature sig eid d =
     (d\<lparr>audit_log := map (\<lambda>r. if a_entry_id r = eid then r\<lparr>a_hmac_signature := sig\<rparr> else r) (audit_log d)\<rparr>,
      length (filter (\<lambda>r. a_entry_id r = eid) (audit_log d)))"

text \<open>The id is bound with \<open>sqlite3_bind_int\<close>: its low 32 bits only.\<close>

fun audit_update_signatures :: "env \<Rightarrow> (int \<times> bytes) list \<Rightarrow> ('a store_scheme, unit) comp" where
  "audit_update_signatures E [] = ret ()"
| "audit_update_signatures E ((eid, sig) # items) =
     andthen (sql_change E (audit_update_signature sig (c_int eid))) (\<lambda>changes.
     andthen (guard (changes = 1) SM_ERR_STORAGE) (\<lambda>_.
     audit_update_signatures E items))"

definition audit_resign_chain :: "env \<Rightarrow> bytes \<Rightarrow> ('a store_scheme, unit) comp" where
  "audit_resign_chain E audit_key =
     andthen require_db (\<lambda>_.
     andthen (lift_result (audit_validate_key E audit_key)) (\<lambda>_.
     andthen (sql_select E audit_rows) (\<lambda>rows.
     andthen (lift_result (audit_resign_rows E zero_hash audit_key rows)) (\<lambda>items.
     andthen (sql_prepare E) (\<lambda>_.
     audit_update_signatures E items)))))"

subsection \<open>Appending an entry\<close>

definition audit_count_entries :: "env \<Rightarrow> ('a store_scheme, nat) comp" where
  "audit_count_entries E = andthen require_db (\<lambda>_. sql_select E (\<lambda>d. length (audit_log d)))"

text \<open>
  \<open>COALESCE(MAX(entry_id), 0) + 1\<close>: past the largest 64-bit integer SQLite continues with a
  floating-point number, which \<open>sqlite3_column_int64\<close> clamps back to it.
\<close>

definition max_entry_id :: "audit_row list \<Rightarrow> int" where
  "max_entry_id rows = (if rows = [] then 0 else Max (set (map a_entry_id rows)))"

definition audit_next_entry_id :: "env \<Rightarrow> ('a store_scheme, int) comp" where
  "audit_next_entry_id E =
     andthen require_db (\<lambda>_.
     andthen (sql_select E (\<lambda>d. min (max_entry_id (audit_log d) + 1) INT64_MAX)) (\<lambda>next_id.
     if next_id < 1 then raise SM_ERR_STORAGE else ret next_id))"

definition audit_get_last_hash :: "env \<Rightarrow> ('a store_scheme, bytes) comp" where
  "audit_get_last_hash E =
     andthen require_db (\<lambda>_.
     andthen (sql_select E audit_rows) (\<lambda>rows.
     if rows = [] then ret zero_hash
     else lift_result (audit_column_hash (a_entry_hash (last rows)))))"

definition audit_get_entry_hash :: "env \<Rightarrow> int \<Rightarrow> ('a store_scheme, bytes) comp" where
  "audit_get_entry_hash E eid =
     andthen require_db (\<lambda>_.
     andthen (guard (1 \<le> eid) SM_ERR_INVALID_ARGUMENT) (\<lambda>_.
     andthen (sql_select E (\<lambda>d. find (\<lambda>r. a_entry_id r = eid) (audit_log d))) (\<lambda>row.
     case row of
       None \<Rightarrow> raise SM_ERR_NOT_FOUND
     | Some r \<Rightarrow> lift_result (audit_column_hash (a_entry_hash r)))))"

definition audit_log_event ::
  "env \<Rightarrow> string option \<Rightarrow> string \<Rightarrow> string \<Rightarrow> int \<Rightarrow> string \<Rightarrow> bytes \<Rightarrow> ('a store_scheme, unit) comp" where
  "audit_log_event E actor act tgt tv res audit_key =
     andthen require_db (\<lambda>_.
     andthen (lift_result (audit_validate_key E audit_key)) (\<lambda>_.
     let actor_value = audit_actor_value actor in
     andthen (utils_now_iso8601 E UTILS_ISO8601_UTC_BUFFER_LEN) (\<lambda>ts.
     andthen (audit_get_last_hash E) (\<lambda>prev.
     andthen (audit_next_entry_id E) (\<lambda>eid.
     andthen (audit_count_entries E) (\<lambda>entry_count.
     andthen (lift_result (audit_compute_entry_hash E ts eid act (Some actor_value) tgt tv res prev)) (\<lambda>eh.
     andthen (lift_result (audit_derive_ratchet_key E audit_key entry_count)) (\<lambda>ratchet_key.
     andthen (lift_result (audit_compute_signature E ts eid act (Some actor_value) tgt tv res prev eh
       ratchet_key)) (\<lambda>signature.
     sql_write E (insert_audit_row
       \<lparr>a_entry_id = eid, a_timestamp = ts, a_action = act, a_actor = actor_value, a_target = tgt,
        a_target_version = (if 0 < tv then Some tv else None), a_result = res, a_prev_hash = prev,
        a_entry_hash = eh, a_hmac_signature = signature\<rparr>))))))))))"

section \<open>Reference definitions\<close>

text \<open>A field as it stands in the canonical bytes, and the arguments that are accepted.\<close>

definition audit_frame :: "bytes \<Rightarrow> bytes" where
  "audit_frame f = audit_write_u32_le (of_nat (length f)) @ f"

definition audit_fits :: "bytes \<Rightarrow> bool" where
  "audit_fits f \<longleftrightarrow> int (length f) \<le> UINT32_MAX"

definition entry_args_ok :: "string \<Rightarrow> int \<Rightarrow> string \<Rightarrow> string \<Rightarrow> string \<Rightarrow> bool" where
  "entry_args_ok ts eid act tgt res \<longleftrightarrow>
     ts \<noteq> [] \<and> 1 \<le> eid \<and> audit_valid_action act \<and> tgt \<noteq> [] \<and> audit_valid_result res"

text \<open>
  The requirement on one row of the log: readable columns, the link to the row before, the
  recomputed entry hash and the MAC under the ratchet key of its position; what
  \<open>audit_verify_chain\<close> accepts on the ordered rows; and the row \<open>audit_log_event\<close> builds.
\<close>

definition audit_row_ok :: "env \<Rightarrow> bytes \<Rightarrow> bytes \<Rightarrow> audit_row \<Rightarrow> bool" where
  "audit_row_ok E expected_prev key r \<longleftrightarrow>
     (case audit_read_columns r of
        Inl _ \<Rightarrow> False
      | Inr e \<Rightarrow>
          length (a_hmac_signature r) = crypto_auth_BYTES \<and> e_prev e = expected_prev \<and>
          entry_hash_of E e = Inr (e_hash e) \<and>
          (case entry_signed_bytes e of
             Inl _ \<Rightarrow> False
           | Inr b \<Rightarrow> a_hmac_signature r = crypto_auth E key b))"

definition last_hash :: "bytes \<Rightarrow> audit_row list \<Rightarrow> bytes" where
  "last_hash prev rows = (if rows = [] then prev else a_entry_hash (last rows))"

definition ids_in_range :: "audit_row list \<Rightarrow> bool" where
  "ids_in_range rows \<longleftrightarrow> list_all (\<lambda>r. a_entry_id r \<le> INT64_MAX) rows"

definition chain_ok :: "env \<Rightarrow> bytes \<Rightarrow> audit_row list \<Rightarrow> bool" where
  "chain_ok E key rows \<longleftrightarrow> audit_verify_rows E zero_hash key rows = Inr ()"

definition new_audit_row ::
  "env \<Rightarrow> string \<Rightarrow> string option \<Rightarrow> string \<Rightarrow> string \<Rightarrow> int \<Rightarrow> string \<Rightarrow> bytes \<Rightarrow> db \<Rightarrow> audit_row result" where
  "new_audit_row E ts actor act tgt tv res key d =
     (let a = audit_actor_value actor; prev = last_hash zero_hash (audit_rows d);
          eid = min (max_entry_id (audit_log d) + 1) INT64_MAX in
      and_then (audit_compute_entry_hash E ts eid act (Some a) tgt tv res prev) (\<lambda>eh.
      and_then (audit_compute_signature E ts eid act (Some a) tgt tv res prev eh
         ((sha256 E ^^ length (audit_log d)) key)) (\<lambda>sig.
      Inr \<lparr>a_entry_id = eid, a_timestamp = ts, a_action = act, a_actor = a, a_target = tgt,
        a_target_version = (if 0 < tv then Some tv else None), a_result = res, a_prev_hash = prev,
        a_entry_hash = eh, a_hmac_signature = sig\<rparr>)))"

section \<open>Canonical bytes\<close>

interpretation u32: fixed_codec audit_write_u32_le "read_le :: bytes \<Rightarrow> 32 word" 4
  by unfold_locales (simp_all add: audit_write_u32_le_def read_write_le)

lemma of_nat_u32_inject:
  "int m \<le> UINT32_MAX \<Longrightarrow> int n \<le> UINT32_MAX \<Longrightarrow> (of_nat m :: 32 word) = of_nat n \<longleftrightarrow> m = n"
proof -
  assume mn: "int m \<le> UINT32_MAX" "int n \<le> UINT32_MAX"
  have "unat (of_nat k :: 32 word) = k" if "int k \<le> UINT32_MAX" for k
    using that by (simp add: unat_of_nat take_bit_eq_mod UINT32_MAX_def)
  then show ?thesis using mn by metis
qed

interpretation af: framing audit_frame audit_fits
proof unfold_locales
  fix a b xs ys
  assume fits: "audit_fits a" "audit_fits b" and eq: "audit_frame a @ xs = audit_frame b @ ys"
  then have "(of_nat (length a) :: 32 word) = of_nat (length b) \<and> a @ xs = b @ ys"
    by (simp add: audit_frame_def u32.enc_append_inject)
  then show "a = b \<and> xs = ys"
    using fits by (auto simp: audit_fits_def of_nat_u32_inject)
next
  fix a :: bytes
  have "length (audit_write_u32_le (of_nat (length a))) = 4" by (rule u32.width_enc)
  then show "audit_frame a \<noteq> []" by (auto simp: audit_frame_def)
qed

lemma length_audit_frame: "length (audit_frame f) = 4 + length f"
  by (simp add: audit_frame_def u32.width_enc)

lemma audit_append_fields_Inr:
  "audit_append_fields buffer fs = Inr b \<longleftrightarrow>
    list_all audit_fits fs \<and> b = buffer @ concat (map audit_frame fs)"
  by (induction fs arbitrary: buffer)
     (auto simp: and_then_eq_Inr audit_append_field_def audit_fits_def audit_frame_def split: if_splits)

lemma audit_total_size_Inr:
  "audit_total_size acc fs = Inr n \<Longrightarrow> n = acc + length (concat (map audit_frame fs))"
  by (induction fs arbitrary: acc)
     (fastforce simp: and_then_eq_Inr audit_field_size_def audit_checked_add_def length_audit_frame
       split: if_splits)+

text \<open>The size pass succeeds for fields that fit, as long as they are few.\<close>

lemma audit_total_size_ok:
  "list_all audit_fits fs \<Longrightarrow> int acc + int (length fs) * (UINT32_MAX + 4) \<le> SIZE_MAX \<Longrightarrow>
    audit_total_size acc fs = Inr (acc + length (concat (map audit_frame fs)))"
proof (induction fs arbitrary: acc)
  case Nil
  then show ?case by simp
next
  case (Cons f fs)
  have f: "int (length f) \<le> UINT32_MAX" using Cons.prems by (simp add: audit_fits_def)
  have "int (acc + (4 + length f)) + int (length fs) * (UINT32_MAX + 4) \<le> SIZE_MAX"
    using Cons.prems(2) f by (simp add: algebra_simps)
  moreover from this have "audit_checked_add acc (4 + length f) = Inr (acc + (4 + length f))"
    by (auto simp: audit_checked_add_def UINT32_MAX_def)
  ultimately show ?case
    using Cons.IH [of "acc + (4 + length f)"] Cons.prems(1) f
    by (simp add: audit_field_size_def length_audit_frame)
qed

lemma audit_build_entry_bytes_Inr:
  "audit_build_entry_bytes ts eid act actor tgt tv res prev eh = Inr b \<longleftrightarrow>
    entry_args_ok ts eid act tgt res \<and>
    list_all audit_fits (audit_entry_fields ts eid act actor tgt tv res prev eh) \<and>
    b = concat (map audit_frame (audit_entry_fields ts eid act actor tgt tv res prev eh))"
    (is "?l \<longleftrightarrow> ?r")
proof
  assume ?l
  then show ?r
    by (auto simp: audit_build_entry_bytes_def Let_def and_then_eq_Inr audit_append_fields_Inr
        entry_args_ok_def split: if_splits)
next
  assume r: ?r
  let ?fs = "audit_entry_fields ts eid act actor tgt tv res prev eh"
  have len: "length ?fs \<le> 10" by (simp add: audit_entry_fields_def split: option.splits)
  then have "int 0 + int (length ?fs) * (UINT32_MAX + 4) \<le> SIZE_MAX"
    by (simp add: UINT32_MAX_def SIZE_MAX_def)
  then have "audit_total_size 0 ?fs = Inr (length (concat (map audit_frame ?fs)))"
    using audit_total_size_ok [of ?fs 0] r by simp
  moreover have "audit_append_fields [] ?fs = Inr (concat (map audit_frame ?fs))"
    using r by (simp add: audit_append_fields_Inr)
  ultimately show ?l
    using r by (auto simp: audit_build_entry_bytes_def entry_args_ok_def Let_def)
qed

lemma of_int_u64_inject:
  assumes "1 \<le> a" "a \<le> INT64_MAX" "1 \<le> b" "b \<le> INT64_MAX"
  shows "(of_int a :: 64 word) = of_int b \<longleftrightarrow> a = b"
proof -
  have "uint (of_int k :: 64 word) = k" if "1 \<le> k" "k \<le> INT64_MAX" for k
    using that by (simp add: uint_word_of_int INT64_MAX_def)
  then show ?thesis using assms by metis
qed

lemma entry_bytes_inject:
  assumes "audit_build_entry_bytes ts eid act actor tgt tv res prev eh = Inr b"
    and "audit_build_entry_bytes ts' eid' act' actor' tgt' tv' res' prev' eh' = Inr b"
    and "eid \<le> INT64_MAX" "eid' \<le> INT64_MAX" "tv \<le> INT_MAX" "tv' \<le> INT_MAX"
  shows "ts = ts' \<and> eid = eid' \<and> act = act' \<and> audit_actor_value actor = audit_actor_value actor' \<and>
    tgt = tgt' \<and> max 0 tv = max 0 tv' \<and> res = res' \<and> prev = prev' \<and> eh = eh'"
proof -
  have fields: "audit_entry_fields ts eid act actor tgt tv res prev eh =
      audit_entry_fields ts' eid' act' actor' tgt' tv' res' prev' eh'"
    using assms(1,2) unfolding audit_build_entry_bytes_Inr by (intro af.frames_inject) auto
  have ids: "1 \<le> eid" "1 \<le> eid'"
    using assms(1,2) by (simp_all add: audit_build_entry_bytes_Inr entry_args_ok_def)
  have nonempty: "utils_write_u64_le w \<noteq> []" for w
    using u64.width_enc [of w] by auto
  have "eid = eid'"
    using fields ids assms(3,4)
    by (simp add: audit_entry_fields_def u64.enc_inject of_int_u64_inject)
  moreover have "max 0 tv = max 0 tv'"
  proof -
    have "(if 0 < tv then utils_write_u64_le (of_int tv) else []) =
        (if 0 < tv' then utils_write_u64_le (of_int tv') else [])"
      using fields by (simp add: audit_entry_fields_def)
    then show ?thesis
      using assms(5,6) nonempty of_int_u64_inject [of tv tv']
      by (auto simp: u64.enc_inject INT_MAX_def INT64_MAX_def nonempty [symmetric] split: if_splits)
  qed
  ultimately show ?thesis
    using fields by (auto simp: audit_entry_fields_def split: option.splits)
qed

text \<open>
  The canonical bytes of an audit entry determine the entry. Two successful runs of
  \<open>audit_build_entry_bytes\<close> with the same bytes agree in every field, and in whether an entry
  hash is part of them: no field can be shifted into its neighbour, so neither the chain hash
  nor the signature can be carried over to a different entry. The only identifications are
  the documented ones: an absent or empty actor stands for \<open>user:default\<close> and every target
  version below one stands for none.
\<close>

theorem audit_entry_bytes_inject:
  assumes "audit_build_entry_bytes ts eid act actor tgt tv res prev eh = Inr b"
    and "audit_build_entry_bytes ts' eid' act' actor' tgt' tv' res' prev' eh' = Inr b"
    and "eid \<le> INT64_MAX" "eid' \<le> INT64_MAX" "tv \<le> INT_MAX" "tv' \<le> INT_MAX"
  shows "ts = ts' \<and> eid = eid' \<and> act = act' \<and> audit_actor_value actor = audit_actor_value actor' \<and>
    tgt = tgt' \<and> max 0 tv = max 0 tv' \<and> res = res' \<and> prev = prev' \<and> eh = eh'"
  using assms by (rule entry_bytes_inject)

section \<open>The chain\<close>

lemma ratchet_loop_funpow: "audit_ratchet_loop E n key = (sha256 E ^^ n) key"
  by (induction n arbitrary: key) (simp_all add: audit_advance_ratchet_key_def funpow_swap1)

lemma read_columns_Inr:
  "audit_read_columns r = Inr e \<Longrightarrow> e_hash e = a_entry_hash r \<and> e_prev e = a_prev_hash r \<and>
     e_id e = a_entry_id r \<and> 1 \<le> a_entry_id r \<and> length (a_prev_hash r) = 32 \<and> length (a_entry_hash r) = 32 \<and>
     e_timestamp e = c_str (a_timestamp r) \<and> e_action e = c_str (a_action r) \<and>
     e_actor e = c_str (a_actor r) \<and> e_target e = c_str (a_target r) \<and> e_result e = c_str (a_result r) \<and>
     0 \<le> e_version e \<and> e_version e \<le> INT_MAX"
proof -
  have "c_int v \<le> INT_MAX" for v
    using sint_lt [of "word_of_int v :: 32 word"] by (simp add: c_int_def INT_MAX_def)
  then show "audit_read_columns r = Inr e \<Longrightarrow> ?thesis"
    by (auto simp: audit_read_columns_def and_then_eq_Inr audit_column_hash_def
        crypto_hash_sha256_BYTES_def INT_MAX_def split: if_splits option.splits)
qed

lemma verify_rows_Cons:
  "audit_verify_rows E prev key (r # rows) = Inr () \<longleftrightarrow>
    audit_row_ok E prev key r \<and> audit_verify_rows E (a_entry_hash r) (sha256 E key) rows = Inr ()"
  by (auto simp: and_then_eq_Inr audit_row_ok_def audit_check_link_def audit_column_signature_def
      audit_advance_ratchet_key_def read_columns_Inr split: sum.splits if_splits)

declare audit_verify_rows.simps(2) [simp del]

lemma verify_rows_append:
  "audit_verify_rows E prev key (xs @ ys) = Inr () \<longleftrightarrow>
    audit_verify_rows E prev key xs = Inr () \<and>
    audit_verify_rows E (last_hash prev xs) ((sha256 E ^^ length xs) key) ys = Inr ()"
  by (induction xs arbitrary: prev key)
     (auto simp: verify_rows_Cons last_hash_def funpow_swap1)

lemma verify_rows_snoc:
  "audit_verify_rows E prev key (xs @ [r]) = Inr () \<longleftrightarrow>
    audit_verify_rows E prev key xs = Inr () \<and>
    audit_row_ok E (last_hash prev xs) ((sha256 E ^^ length xs) key) r"
  by (simp add: verify_rows_append verify_rows_Cons)

lemma verify_rows_iff:
  "audit_verify_rows E prev key rows = Inr () \<longleftrightarrow>
    (\<forall>i < length rows. audit_row_ok E (last_hash prev (take i rows)) ((sha256 E ^^ i) key) (rows ! i))"
proof (induction rows rule: rev_induct)
  case Nil
  then show ?case by simp
next
  case (snoc r rows)
  then show ?case by (auto simp: verify_rows_snoc nth_append less_Suc_eq)
qed

lemma insort_snoc: "f x < f r \<Longrightarrow> insort_key f x (ys @ [r]) = insort_key f x ys @ [r]"
  by (induction ys) auto

lemma sort_snoc: "\<forall>x \<in> set xs. f x < f r \<Longrightarrow> sort_key f (xs @ [r]) = sort_key f xs @ [r]"
  unfolding sort_key_def by (induction xs) (simp_all add: insort_snoc)

lemma audit_rows_snoc:
  "\<forall>x \<in> set (audit_log d). a_entry_id x < a_entry_id r \<Longrightarrow>
    audit_rows (d\<lparr>audit_log := audit_log d @ [r]\<rparr>) = audit_rows d @ [r]"
  by (simp add: audit_rows_def sort_snoc)

lemma set_audit_rows [simp]: "set (audit_rows d) = set (audit_log d)"
  by (simp add: audit_rows_def)

lemma length_audit_rows [simp]: "length (audit_rows d) = length (audit_log d)"
  by (simp add: audit_rows_def)

lemma audit_rows_Nil [simp]: "audit_rows d = [] \<longleftrightarrow> audit_log d = []"
  by (metis length_audit_rows length_0_conv)

lemma le_max_entry_id: "x \<in> set rows \<Longrightarrow> a_entry_id x \<le> max_entry_id rows"
  by (auto simp: max_entry_id_def)

lemma next_entry_id_fresh:
  assumes "insert_audit_row r d = Some d'" "a_entry_id r = min (max_entry_id (audit_log d) + 1) INT64_MAX"
    and "x \<in> set (audit_log d)" "ids_in_range (audit_log d)"
  shows "a_entry_id x < a_entry_id r"
proof -
  have ne: "a_entry_id y \<noteq> a_entry_id r" if "y \<in> set (audit_log d)" for y
    using assms(1) that by (auto simp: insert_audit_row_def list_all_iff split: if_splits)
  have "a_entry_id x \<le> max_entry_id (audit_log d)" using assms(3) by (rule le_max_entry_id)
  moreover have "max_entry_id (audit_log d) \<in> a_entry_id ` set (audit_log d)"
    using assms(3) by (auto simp: max_entry_id_def intro: Max_in)
  then obtain y where "y \<in> set (audit_log d)" "max_entry_id (audit_log d) = a_entry_id y" by auto
  then have "max_entry_id (audit_log d) \<noteq> a_entry_id r" "max_entry_id (audit_log d) \<le> INT64_MAX"
    using ne assms(4) by (auto simp: ids_in_range_def list_all_iff)
  ultimately show ?thesis using assms(2) by (auto simp: min_def split: if_splits)
qed

lemma get_last_hash_Inr:
  "audit_get_last_hash E s = (Inr prev, s') \<longleftrightarrow> g_db s \<and> sql_ok E (tick s) \<and> s' = next_tick s \<and>
    prev = last_hash zero_hash (audit_rows (tables s)) \<and> length prev = 32"
  by (auto simp: audit_get_last_hash_def andthen_eq_Inr select_eq_Inr last_hash_def audit_column_hash_def
      zero_hash_def crypto_hash_sha256_BYTES_def split: if_splits)

lemma next_entry_id_Inr:
  "audit_next_entry_id E s = (Inr eid, s') \<longleftrightarrow> g_db s \<and> sql_ok E (tick s) \<and> s' = next_tick s \<and>
    eid = min (max_entry_id (audit_log (tables s)) + 1) INT64_MAX \<and> 1 \<le> eid"
  by (auto simp: audit_next_entry_id_def andthen_eq_Inr select_eq_Inr split: if_splits)

lemma count_entries_Inr:
  "audit_count_entries E s = (Inr n, s') \<longleftrightarrow> g_db s \<and> sql_ok E (tick s) \<and> s' = next_tick s \<and>
    n = length (audit_log (tables s))"
  by (auto simp: audit_count_entries_def andthen_eq_Inr select_eq_Inr)

lemma derive_ratchet_key_Inr:
  "audit_derive_ratchet_key E key n = Inr k \<longleftrightarrow>
    audit_validate_key E key = Inr () \<and> k = (sha256 E ^^ n) key"
  by (auto simp: audit_derive_ratchet_key_def and_then_eq_Inr ratchet_loop_funpow)

lemma validate_key_Inr:
  "audit_validate_key E key = Inr () \<longleftrightarrow> length key = 32 \<and> sodium_init_ok E"
  by (auto simp: audit_validate_key_def and_then_eq_Inr crypto_auth_KEYBYTES_def)

lemma log_event_Inr:
  assumes "audit_log_event E actor act tgt tv res key s = (Inr (), s')"
  obtains ts r d where "g_db s" "length key = 32" "sodium_init_ok E"
    "utils_now_iso8601 E UTILS_ISO8601_UTC_BUFFER_LEN s = (Inr ts, next_tick s)"
    "length (last_hash zero_hash (audit_rows (tables s))) = 32"
    "new_audit_row E ts actor act tgt tv res key (tables s) = Inr r" "1 \<le> a_entry_id r"
    "insert_audit_row r (tables s) = Some d" "s' = s\<lparr>tables := d, tick := tick s + 5\<rparr>"
proof -
  from assms obtain ts s1 where 0: "g_db s" "audit_validate_key E key = Inr ()"
    "utils_now_iso8601 E UTILS_ISO8601_UTC_BUFFER_LEN s = (Inr ts, s1)"
    by (auto simp: audit_log_event_def Let_def andthen_eq_Inr)
  have s1: "s1 = next_tick s" using now_iso8601_c_string [OF 0(3)] by simp
  show ?thesis
    using assms 0 that [of ts] unfolding s1
    by (auto simp: audit_log_event_def Let_def andthen_eq_Inr get_last_hash_Inr next_entry_id_Inr
        count_entries_Inr derive_ratchet_key_Inr write_eq_Inr validate_key_Inr new_audit_row_def
        and_then_eq_Inr next_tick_def)
qed

lemma valid_action_nul_free: "audit_valid_action act \<Longrightarrow> nul_free act"
  by (auto simp: audit_valid_action_def)

lemma valid_result_nul_free: "audit_valid_result res \<Longrightarrow> nul_free res"
  by (auto simp: audit_valid_result_def)

lemma actor_value_idem [simp]: "audit_actor_value (Some (audit_actor_value actor)) = audit_actor_value actor"
  by (auto simp: audit_actor_value_def AUDIT_ACTOR_DEFAULT_def split: option.splits)

lemma build_entry_bytes_norm:
  "audit_build_entry_bytes ts eid act (Some (audit_actor_value actor)) tgt (if 0 < tv then tv else 0) res prev eh =
    audit_build_entry_bytes ts eid act (Some (audit_actor_value actor)) tgt tv res prev eh"
  by (simp add: audit_build_entry_bytes_def audit_entry_fields_def)

lemma new_audit_row_ok:
  assumes row: "new_audit_row E ts actor act tgt tv res key d = Inr r" "sha256_ok E" "auth_ok E"
    and nf: "nul_free ts" "nul_free tgt" "nul_free (audit_actor_value actor)" and tv: "tv \<le> INT_MAX"
    and prev: "length (last_hash zero_hash (audit_rows d)) = 32" "1 \<le> a_entry_id r"
  shows "audit_row_ok E (last_hash zero_hash (audit_rows d)) ((sha256 E ^^ length (audit_log d)) key) r"
proof -
  let ?a = "audit_actor_value actor" and ?prev = "last_hash zero_hash (audit_rows d)"
  let ?eid = "min (max_entry_id (audit_log d) + 1) INT64_MAX" and ?v = "if 0 < tv then tv else 0"
  obtain b eh c where b: "audit_build_entry_bytes ts ?eid act (Some ?a) tgt tv res ?prev None = Inr b"
      "eh = sha256 E b"
    and c: "audit_build_entry_bytes ts ?eid act (Some ?a) tgt tv res ?prev (Some eh) = Inr c"
    and r: "r = \<lparr>a_entry_id = ?eid, a_timestamp = ts, a_action = act, a_actor = ?a, a_target = tgt,
        a_target_version = (if 0 < tv then Some tv else None), a_result = res, a_prev_hash = ?prev,
        a_entry_hash = eh, a_hmac_signature = crypto_auth E ((sha256 E ^^ length (audit_log d)) key) c\<rparr>"
    using row(1)
    by (auto simp: new_audit_row_def Let_def and_then_eq_Inr audit_compute_entry_hash_def audit_compute_signature_def)
  have "audit_valid_action act" "audit_valid_result res"
    using b by (auto simp: audit_build_entry_bytes_Inr entry_args_ok_def)
  then have nf2: "nul_free act" "nul_free res" by (auto intro: valid_action_nul_free valid_result_nul_free)
  have len: "length eh = 32" using b(2) row(2) by (simp add: sha256_ok_def)
  have "1 \<le> ?eid" using prev(2) r by simp
  then have read: "audit_read_columns r = Inr \<lparr>e_id = ?eid, e_timestamp = ts, e_action = act, e_actor = ?a,
      e_target = tgt, e_version = ?v, e_result = res, e_prev = ?prev, e_hash = eh\<rparr>"
    using nf nf2 tv prev(1) len
    by (simp add: audit_read_columns_def r audit_column_hash_def crypto_hash_sha256_BYTES_def)
  have sig: "a_hmac_signature r = crypto_auth E ((sha256 E ^^ length (audit_log d)) key) c"
    by (simp add: r)
  show ?thesis
    unfolding audit_row_ok_def read using b c row(3)
    by (simp add: sig entry_hash_of_def entry_signed_bytes_def build_entry_bytes_norm
        audit_compute_entry_hash_def auth_ok_def crypto_auth_BYTES_def)
qed

lemma insert_audit_row_Some:
  "insert_audit_row r d = Some d' \<Longrightarrow> d' = d\<lparr>audit_log := audit_log d @ [r]\<rparr>"
  by (auto simp: insert_audit_row_def split: if_splits)

lemma log_event_chain:
  assumes "audit_log_event E actor act tgt tv res key s = (Inr (), s')"
    and "chain_ok E key (audit_rows (tables s))" "ids_in_range (audit_log (tables s))"
    and "nul_free tgt" "nul_free (audit_actor_value actor)" "tv \<le> INT_MAX" "sha256_ok E" "auth_ok E"
  shows "\<exists>r. tables s' = (tables s)\<lparr>audit_log := audit_log (tables s) @ [r]\<rparr> \<and>
    audit_rows (tables s') = audit_rows (tables s) @ [r] \<and>
    a_action r = act \<and> a_target r = tgt \<and> a_result r = res \<and> a_actor r = audit_actor_value actor \<and>
    a_target_version r = (if 0 < tv then Some tv else None) \<and>
    chain_ok E key (audit_rows (tables s')) \<and> ids_in_range (audit_log (tables s'))"
proof -
  obtain ts r d where 1: "utils_now_iso8601 E UTILS_ISO8601_UTC_BUFFER_LEN s = (Inr ts, next_tick s)"
      "length (last_hash zero_hash (audit_rows (tables s))) = 32"
      "new_audit_row E ts actor act tgt tv res key (tables s) = Inr r" "1 \<le> a_entry_id r"
      "insert_audit_row r (tables s) = Some d" "s' = s\<lparr>tables := d, tick := tick s + 5\<rparr>"
    using assms(1) by (rule log_event_Inr)
  have "nul_free ts" using now_iso8601_c_string [OF 1(1)] by simp
  with new_audit_row_ok [OF 1(3)] assms 1 have
    ok: "audit_row_ok E (last_hash zero_hash (audit_rows (tables s)))
      ((sha256 E ^^ length (audit_log (tables s))) key) r" by simp
  have r: "a_entry_id r = min (max_entry_id (audit_log (tables s)) + 1) INT64_MAX"
    "a_action r = act" "a_target r = tgt" "a_result r = res" "a_actor r = audit_actor_value actor"
    "a_target_version r = (if 0 < tv then Some tv else None)"
    using 1(3) by (auto simp: new_audit_row_def Let_def and_then_eq_Inr)
  have d: "d = (tables s)\<lparr>audit_log := audit_log (tables s) @ [r]\<rparr>"
    using 1(5) by (rule insert_audit_row_Some)
  have "\<forall>x \<in> set (audit_log (tables s)). a_entry_id x < a_entry_id r"
    using next_entry_id_fresh [OF 1(5) r(1)] assms(3) by blast
  then have rows: "audit_rows d = audit_rows (tables s) @ [r]"
    unfolding d by (rule audit_rows_snoc)
  have "chain_ok E key (audit_rows d)"
    unfolding rows chain_ok_def verify_rows_snoc using ok assms(2) by (simp add: chain_ok_def)
  then show ?thesis
    using r rows d 1(6) assms(3) by (auto simp: ids_in_range_def)
qed

text \<open>
  C25: Appending keeps the log verifiable. When \<open>audit_log_event\<close> returns \<open>SM_OK\<close> on a log
  that verifies under the audit key, it has added exactly one row with the given action,
  target, version, result and actor, that row is the last one in \<open>entry_id\<close> order whatever
  the ids in the table are, and the longer log verifies under the same key.
\<close>

theorem log_event_extends_chain:
  assumes "audit_log_event E actor act tgt tv res key s = (Inr (), s')"
    and "chain_ok E key (audit_rows (tables s))" "ids_in_range (audit_log (tables s))"
    and "nul_free tgt" "nul_free (audit_actor_value actor)" "tv \<le> INT_MAX" "sha256_ok E" "auth_ok E"
  shows "\<exists>r. tables s' = (tables s)\<lparr>audit_log := audit_log (tables s) @ [r]\<rparr> \<and>
    audit_rows (tables s') = audit_rows (tables s) @ [r] \<and>
    a_action r = act \<and> a_target r = tgt \<and> a_result r = res \<and> a_actor r = audit_actor_value actor \<and>
    a_target_version r = (if 0 < tv then Some tv else None) \<and>
    chain_ok E key (audit_rows (tables s')) \<and> ids_in_range (audit_log (tables s'))"
  by (rule log_event_chain [OF assms])

end
