(* ===== verification/Fuin_Crypto.thy ===== *)
theory Fuin_Crypto
  imports Fuin_Audit
begin

text \<open>
  Envelope encryption, \<open>src/src/crypto_engine.c\<close>: algorithm selection, the row identity and
  the associated data, key commitments, and the encryption and decryption of a secret under
  a fresh data key that is itself wrapped by the key-encryption key. The AEAD and hash
  primitives are parameters; \<open>sodium_malloc\<close> and \<open>sodium_mlock\<close> succeed.
\<close>

section \<open>Model\<close>

definition CRYPTO_ENGINE_AAD_MAX :: nat where "CRYPTO_ENGINE_AAD_MAX = 256"
definition CRYPTO_ENGINE_ALGORITHM_MAX :: nat where "CRYPTO_ENGINE_ALGORITHM_MAX = 32"
definition CRYPTO_ENGINE_DEK_BYTES :: nat where "CRYPTO_ENGINE_DEK_BYTES = 32"
definition CRYPTO_ENGINE_COMMITMENT_HALF_BYTES :: nat where "CRYPTO_ENGINE_COMMITMENT_HALF_BYTES = 32"
definition CRYPTO_ENGINE_COMMITMENT_BYTES :: nat where "CRYPTO_ENGINE_COMMITMENT_BYTES = 64"
definition CRYPTO_ENGINE_ROW_IDENTITY_HEX_LEN :: nat where "CRYPTO_ENGINE_ROW_IDENTITY_HEX_LEN = 65"
definition CRYPTO_ENGINE_COMMIT_DOMAIN_KEK :: string where
  "CRYPTO_ENGINE_COMMIT_DOMAIN_KEK = ''Fuin-kek-commit-v1''"
definition CRYPTO_ENGINE_COMMIT_DOMAIN_DEK :: string where
  "CRYPTO_ENGINE_COMMIT_DOMAIN_DEK = ''Fuin-dek-commit-v1''"

record encrypted_secret =
  es_algorithm :: string
  es_ciphertext :: bytes
  es_encrypted_dek :: bytes
  es_nonce :: bytes
  es_dek_nonce :: bytes
  es_key_commitment :: bytes

subsection \<open>Associated data and algorithms\<close>

definition crypto_engine_build_aad :: "string \<Rightarrow> 32 word \<Rightarrow> nat \<Rightarrow> bytes result" where
  "crypto_engine_build_aad secret_id version aad_len =
     (let text = secret_id @ '':'' @ dec_digits (unat version) in
      if aad_len \<le> length text then Inl SM_ERR_INVALID_ARGUMENT else Inr (str_bytes text))"

definition crypto_engine_select_default_algorithm :: "env \<Rightarrow> aead_algorithm" where
  "crypto_engine_select_default_algorithm E = (if has_aegis E then AEGIS_256 else XCHACHA20_POLY1305)"

text \<open>The character loop of the comparison; \<open>left\<close> ends at its NUL.\<close>

fun equals_literal_loop :: "string \<Rightarrow> string \<Rightarrow> bool" where
  "equals_literal_loop left [] = (left = [])"
| "equals_literal_loop [] (r # right) = False"
| "equals_literal_loop (l # left) (r # right) = (l = r \<and> equals_literal_loop left right)"

definition crypto_engine_algorithm_equals_literal :: "string \<Rightarrow> string \<Rightarrow> bool" where
  "crypto_engine_algorithm_equals_literal left right =
     (if CRYPTO_ENGINE_ALGORITHM_MAX \<le> length right then False else equals_literal_loop left right)"

definition crypto_engine_algorithm_from_name :: "env \<Rightarrow> string \<Rightarrow> aead_algorithm result" where
  "crypto_engine_algorithm_from_name E name =
     (if crypto_engine_algorithm_equals_literal name ''AES-256-GCM'' then Inr AES_256_GCM
      else if crypto_engine_algorithm_equals_literal name ''XChaCha20-Poly1305'' \<or>
        crypto_engine_algorithm_equals_literal name ''ChaCha20-Poly1305'' then Inr XCHACHA20_POLY1305
      else if has_aegis E \<and> crypto_engine_algorithm_equals_literal name ''AEGIS-256'' then Inr AEGIS_256
      else Inl SM_ERR_INVALID_ARGUMENT)"

definition crypto_engine_algorithm_is_available :: "env \<Rightarrow> aead_algorithm \<Rightarrow> unit result" where
  "crypto_engine_algorithm_is_available E alg =
     check (\<not> (alg = AES_256_GCM \<and> \<not> aes256gcm_is_available E)) SM_ERR_CRYPTO"

definition crypto_engine_select_algorithm :: "env \<Rightarrow> string option \<Rightarrow> aead_algorithm result" where
  "crypto_engine_select_algorithm E name =
     (case name of
        None \<Rightarrow> Inr (crypto_engine_select_default_algorithm E)
      | Some n \<Rightarrow>
          if n = [] then Inl SM_ERR_INVALID_ARGUMENT
          else and_then (crypto_engine_algorithm_from_name E n) (\<lambda>alg.
            and_then (crypto_engine_algorithm_is_available E alg) (\<lambda>_. Inr alg)))"

definition crypto_engine_algorithm_available :: "env \<Rightarrow> string option \<Rightarrow> unit result" where
  "crypto_engine_algorithm_available E alg =
     and_then (require_sodium E) (\<lambda>_.
     and_then (crypto_engine_select_algorithm E alg) (\<lambda>_. Inr ()))"

definition crypto_engine_set_algorithm_name :: "aead_algorithm \<Rightarrow> string result" where
  "crypto_engine_set_algorithm_name alg =
     (let name = (case alg of AES_256_GCM \<Rightarrow> ''AES-256-GCM'' | AEGIS_256 \<Rightarrow> ''AEGIS-256''
        | XCHACHA20_POLY1305 \<Rightarrow> ''XChaCha20-Poly1305'') in
      if CRYPTO_ENGINE_ALGORITHM_MAX \<le> length name then Inl SM_ERR_INVALID_ARGUMENT else Inr name)"

definition crypto_engine_nonce_bytes :: "aead_algorithm \<Rightarrow> nat" where
  "crypto_engine_nonce_bytes alg = npub_bytes alg"

definition crypto_engine_tag_bytes :: "aead_algorithm \<Rightarrow> nat" where
  "crypto_engine_tag_bytes alg = tag_bytes alg"

subsection \<open>Row identity, nonces and commitments\<close>

definition row_identity_message :: "string \<Rightarrow> string \<Rightarrow> bytes" where
  "row_identity_message rid name =
     str_bytes ''Fuin secret row identity v1'' @
     utils_write_u64_le (of_nat (length rid)) @ str_bytes rid @
     utils_write_u64_le (of_nat (length name)) @ str_bytes name"

definition crypto_engine_build_row_identity :: "env \<Rightarrow> string \<Rightarrow> string \<Rightarrow> nat \<Rightarrow> string result" where
  "crypto_engine_build_row_identity E rid name identity_len =
     (if rid = [] \<or> name = [] \<or> identity_len < CRYPTO_ENGINE_ROW_IDENTITY_HEX_LEN
      then Inl SM_ERR_INVALID_ARGUMENT
      else Inr (bin2hex E (sha256 E (row_identity_message rid name))))"

definition crypto_engine_build_nonce ::
  "env \<Rightarrow> aead_algorithm \<Rightarrow> string \<Rightarrow> 64 word \<Rightarrow> ('a world_scheme, bytes) comp" where
  "crypto_engine_build_nonce E alg secret_id nonce_counter =
     (if alg = AES_256_GCM
      then ret (take 4 (sha256 E (str_bytes secret_id)) @ utils_write_u64_le nonce_counter)
      else randombytes_buf E (crypto_engine_nonce_bytes alg))"

definition crypto_engine_commitment :: "env \<Rightarrow> bytes \<Rightarrow> string \<Rightarrow> bytes \<Rightarrow> bytes" where
  "crypto_engine_commitment E key domain nonce = generichash E key (str_bytes domain @ nonce)"

definition crypto_engine_compute_key_commitment ::
  "env \<Rightarrow> bytes \<Rightarrow> string \<Rightarrow> bytes \<Rightarrow> nat \<Rightarrow> bytes result" where
  "crypto_engine_compute_key_commitment E key domain nonce out_len =
     and_then (require_sodium E) (\<lambda>_.
     if out_len \<noteq> CRYPTO_ENGINE_COMMITMENT_HALF_BYTES then Inl SM_ERR_INVALID_ARGUMENT
     else Inr (crypto_engine_commitment E key domain nonce))"

definition crypto_engine_encrypt_payload ::
  "env \<Rightarrow> aead_algorithm \<Rightarrow> bytes \<Rightarrow> bytes \<Rightarrow> bytes \<Rightarrow> bytes \<Rightarrow> bytes" where
  "crypto_engine_encrypt_payload E alg plaintext aad nonce key = aead_encrypt E alg key nonce aad plaintext"

definition crypto_engine_decrypt_payload ::
  "env \<Rightarrow> aead_algorithm \<Rightarrow> bytes \<Rightarrow> bytes \<Rightarrow> bytes \<Rightarrow> bytes \<Rightarrow> bytes result" where
  "crypto_engine_decrypt_payload E alg ct aad nonce key =
     (case aead_decrypt E alg key nonce aad ct of None \<Rightarrow> Inl SM_ERR_CRYPTO | Some p \<Rightarrow> Inr p)"

subsection \<open>Encryption and decryption\<close>

definition crypto_engine_encrypt_with_algorithm ::
  "env \<Rightarrow> bytes \<Rightarrow> bytes \<Rightarrow> string \<Rightarrow> 32 word \<Rightarrow> 64 word \<Rightarrow> string option \<Rightarrow>
    ('a world_scheme, encrypted_secret) comp" where
  "crypto_engine_encrypt_with_algorithm E plaintext kek_enc secret_id version nonce_counter algorithm_name =
     andthen (guard (secret_id \<noteq> []) SM_ERR_INVALID_ARGUMENT) (\<lambda>_.
     andthen (lift_result (require_sodium E)) (\<lambda>_.
     andthen (lift_result (crypto_engine_build_aad secret_id version CRYPTO_ENGINE_AAD_MAX)) (\<lambda>aad.
     andthen (lift_result (crypto_engine_select_algorithm E algorithm_name)) (\<lambda>alg.
     andthen (guard (int (length plaintext) \<le> SIZE_MAX - int (crypto_engine_tag_bytes alg))
       SM_ERR_INVALID_ARGUMENT) (\<lambda>_.
     andthen (lift_result (crypto_engine_set_algorithm_name alg)) (\<lambda>alg_name.
     andthen (crypto_engine_build_nonce E alg secret_id nonce_counter) (\<lambda>nonce.
     andthen (randombytes_buf E CRYPTO_ENGINE_DEK_BYTES) (\<lambda>dek.
     andthen (randombytes_buf E (crypto_engine_nonce_bytes alg)) (\<lambda>dek_nonce.
     ret \<lparr>es_algorithm = alg_name,
          es_ciphertext = crypto_engine_encrypt_payload E alg plaintext aad nonce dek,
          es_encrypted_dek = crypto_engine_encrypt_payload E alg dek aad dek_nonce kek_enc,
          es_nonce = nonce,
          es_dek_nonce = dek_nonce,
          es_key_commitment =
            crypto_engine_commitment E kek_enc CRYPTO_ENGINE_COMMIT_DOMAIN_KEK dek_nonce @
            crypto_engine_commitment E dek CRYPTO_ENGINE_COMMIT_DOMAIN_DEK nonce\<rparr>)))))))))"

definition crypto_engine_encrypt ::
  "env \<Rightarrow> bytes \<Rightarrow> bytes \<Rightarrow> string \<Rightarrow> 32 word \<Rightarrow> 64 word \<Rightarrow> ('a world_scheme, encrypted_secret) comp" where
  "crypto_engine_encrypt E plaintext kek_enc secret_id version nonce_counter =
     crypto_engine_encrypt_with_algorithm E plaintext kek_enc secret_id version nonce_counter None"

definition crypto_engine_decrypt ::
  "env \<Rightarrow> encrypted_secret \<Rightarrow> bytes \<Rightarrow> string \<Rightarrow> 32 word \<Rightarrow> nat \<Rightarrow> bytes result" where
  "crypto_engine_decrypt E input kek_enc secret_id version plaintext_capacity =
     and_then (check (secret_id \<noteq> []) SM_ERR_INVALID_ARGUMENT) (\<lambda>_.
     and_then (require_sodium E) (\<lambda>_.
     and_then (crypto_engine_algorithm_from_name E (es_algorithm input)) (\<lambda>alg.
     and_then (crypto_engine_algorithm_is_available E alg) (\<lambda>_.
     and_then (crypto_engine_build_aad secret_id version CRYPTO_ENGINE_AAD_MAX) (\<lambda>aad.
     let tag_len = crypto_engine_tag_bytes alg in
     and_then (check (tag_len \<le> length (es_ciphertext input) \<and>
         length (es_encrypted_dek input) = CRYPTO_ENGINE_DEK_BYTES + tag_len \<and>
         length (es_nonce input) = crypto_engine_nonce_bytes alg \<and>
         length (es_dek_nonce input) = length (es_nonce input) \<and>
         length (es_key_commitment input) = CRYPTO_ENGINE_COMMITMENT_BYTES \<and>
         length (es_ciphertext input) - tag_len \<le> plaintext_capacity) SM_ERR_INVALID_ARGUMENT) (\<lambda>_.
     and_then (check (crypto_engine_commitment E kek_enc CRYPTO_ENGINE_COMMIT_DOMAIN_KEK (es_dek_nonce input) =
         take CRYPTO_ENGINE_COMMITMENT_HALF_BYTES (es_key_commitment input)) SM_ERR_CRYPTO) (\<lambda>_.
     and_then (crypto_engine_decrypt_payload E alg (es_encrypted_dek input) aad (es_dek_nonce input) kek_enc) (\<lambda>dek.
     and_then (check (length dek = CRYPTO_ENGINE_DEK_BYTES) SM_ERR_CRYPTO) (\<lambda>_.
     and_then (check (crypto_engine_commitment E dek CRYPTO_ENGINE_COMMIT_DOMAIN_DEK (es_nonce input) =
         drop CRYPTO_ENGINE_COMMITMENT_HALF_BYTES (es_key_commitment input)) SM_ERR_CRYPTO) (\<lambda>_.
     crypto_engine_decrypt_payload E alg (es_ciphertext input) aad (es_nonce input) dek))))))))))"

section \<open>Reference definitions\<close>

text \<open>The documented behaviour of the primitives, and the 64-bit length framing of the row identity.\<close>

definition crypto_ok :: "env \<Rightarrow> bool" where
  "crypto_ok E \<longleftrightarrow> sha256_ok E \<and> auth_ok E \<and> generichash_ok E \<and> aead_ok E \<and> random_ok E"

definition u64_frame :: "bytes \<Rightarrow> bytes" where
  "u64_frame f = utils_write_u64_le (of_nat (length f)) @ f"

definition u64_fits :: "bytes \<Rightarrow> bool" where
  "u64_fits f \<longleftrightarrow> int (length f) \<le> UINT64_MAX"

section \<open>Algorithm names\<close>

lemma equals_literal_loop_iff: "equals_literal_loop left right \<longleftrightarrow> left = right"
  by (induction left right rule: equals_literal_loop.induct) auto

lemma algorithm_equals_literal_iff:
  "length right < 32 \<Longrightarrow> crypto_engine_algorithm_equals_literal left right \<longleftrightarrow> left = right"
  by (simp add: crypto_engine_algorithm_equals_literal_def equals_literal_loop_iff CRYPTO_ENGINE_ALGORITHM_MAX_def)

lemma algorithm_from_name:
  "crypto_engine_algorithm_from_name E name =
    (if name = ''AES-256-GCM'' then Inr AES_256_GCM
     else if name = ''XChaCha20-Poly1305'' \<or> name = ''ChaCha20-Poly1305'' then Inr XCHACHA20_POLY1305
     else if has_aegis E \<and> name = ''AEGIS-256'' then Inr AEGIS_256
     else Inl SM_ERR_INVALID_ARGUMENT)"
  by (simp add: crypto_engine_algorithm_from_name_def algorithm_equals_literal_iff)

text \<open>An algorithm that was selected is found again under the name that was stored.\<close>

lemma selected_name_back:
  "crypto_engine_select_algorithm E name = Inr alg \<Longrightarrow> crypto_engine_set_algorithm_name alg = Inr n \<Longrightarrow>
    crypto_engine_algorithm_from_name E n = Inr alg \<and> crypto_engine_algorithm_is_available E alg = Inr () \<and>
    n \<in> set schema_algorithms"
  by (cases alg)
     (auto simp: crypto_engine_select_algorithm_def crypto_engine_select_default_algorithm_def
       crypto_engine_set_algorithm_name_def algorithm_from_name and_then_eq_Inr schema_algorithms_def
       crypto_engine_algorithm_is_available_def Let_def split: option.splits if_splits)

section \<open>Round trip\<close>

lemma build_nonce_length:
  assumes "crypto_engine_build_nonce E alg sid c s = (Inr n, s')" "random_ok E" "sha256_ok E"
  shows "length n = npub_bytes alg"
  using assms
  by (auto simp: crypto_engine_build_nonce_def random_ok_def sha256_ok_def crypto_engine_nonce_bytes_def
      u64.width_enc split: if_splits)

text \<open>What a successful encryption returned.\<close>

lemma encrypt_Inr:
  assumes "crypto_engine_encrypt_with_algorithm E plaintext kek sid v c name s = (Inr es, s')" "crypto_ok E"
  obtains alg aad dek where "sid \<noteq> []" "sodium_init_ok E"
    "crypto_engine_build_aad sid v CRYPTO_ENGINE_AAD_MAX = Inr aad"
    "crypto_engine_select_algorithm E name = Inr alg" "length dek = 32"
    "crypto_engine_algorithm_from_name E (es_algorithm es) = Inr alg"
    "crypto_engine_algorithm_is_available E alg = Inr ()" "es_algorithm es \<in> set schema_algorithms"
    "length (es_nonce es) = npub_bytes alg" "length (es_dek_nonce es) = npub_bytes alg"
    "es_ciphertext es = aead_encrypt E alg dek (es_nonce es) aad plaintext"
    "es_encrypted_dek es = aead_encrypt E alg kek (es_dek_nonce es) aad dek"
    "es_key_commitment es =
      crypto_engine_commitment E kek CRYPTO_ENGINE_COMMIT_DOMAIN_KEK (es_dek_nonce es) @
      crypto_engine_commitment E dek CRYPTO_ENGINE_COMMIT_DOMAIN_DEK (es_nonce es)"
proof -
  from assms(1) obtain aad alg an nonce s1 where 1: "sid \<noteq> []" "sodium_init_ok E"
      "crypto_engine_build_aad sid v CRYPTO_ENGINE_AAD_MAX = Inr aad"
      "crypto_engine_select_algorithm E name = Inr alg"
      "crypto_engine_set_algorithm_name alg = Inr an"
      "crypto_engine_build_nonce E alg sid c s = (Inr nonce, s1)"
      "es = \<lparr>es_algorithm = an,
          es_ciphertext = crypto_engine_encrypt_payload E alg plaintext aad nonce (randombytes E (tick s1) 32),
          es_encrypted_dek = crypto_engine_encrypt_payload E alg (randombytes E (tick s1) 32) aad
            (randombytes E (Suc (tick s1)) (crypto_engine_nonce_bytes alg)) kek,
          es_nonce = nonce,
          es_dek_nonce = randombytes E (Suc (tick s1)) (crypto_engine_nonce_bytes alg),
          es_key_commitment =
            crypto_engine_commitment E kek CRYPTO_ENGINE_COMMIT_DOMAIN_KEK
              (randombytes E (Suc (tick s1)) (crypto_engine_nonce_bytes alg)) @
            crypto_engine_commitment E (randombytes E (tick s1) 32) CRYPTO_ENGINE_COMMIT_DOMAIN_DEK nonce\<rparr>"
    by (auto simp: crypto_engine_encrypt_with_algorithm_def andthen_eq_Inr CRYPTO_ENGINE_DEK_BYTES_def)
  have r: "random_ok E" "sha256_ok E" using assms(2) by (auto simp: crypto_ok_def)
  have n: "length nonce = npub_bytes alg" using build_nonce_length [OF 1(6) r] .
  show ?thesis
    by (rule that [OF 1(1-4), of "randombytes E (tick s1) 32"])
      (use 1 n r selected_name_back [OF 1(4,5)] in
        \<open>simp_all add: crypto_engine_encrypt_payload_def random_ok_def crypto_engine_nonce_bytes_def\<close>)
qed

lemma encrypt_decrypt:
  assumes "crypto_engine_encrypt_with_algorithm E plaintext kek sid v c name s = (Inr es, s')" "crypto_ok E"
  shows "crypto_engine_decrypt E es kek sid v cap =
    (if length plaintext \<le> cap then Inr plaintext else Inl SM_ERR_INVALID_ARGUMENT)"
proof -
  obtain alg aad dek where e: "sid \<noteq> []" "sodium_init_ok E"
    "crypto_engine_build_aad sid v CRYPTO_ENGINE_AAD_MAX = Inr aad" "length dek = 32"
    "crypto_engine_algorithm_from_name E (es_algorithm es) = Inr alg"
    "crypto_engine_algorithm_is_available E alg = Inr ()"
    "length (es_nonce es) = npub_bytes alg" "length (es_dek_nonce es) = npub_bytes alg"
    "es_ciphertext es = aead_encrypt E alg dek (es_nonce es) aad plaintext"
    "es_encrypted_dek es = aead_encrypt E alg kek (es_dek_nonce es) aad dek"
    "es_key_commitment es =
      crypto_engine_commitment E kek CRYPTO_ENGINE_COMMIT_DOMAIN_KEK (es_dek_nonce es) @
      crypto_engine_commitment E dek CRYPTO_ENGINE_COMMIT_DOMAIN_DEK (es_nonce es)"
    using encrypt_Inr [OF assms] by metis
  have aead: "aead_decrypt E a k n ad (aead_encrypt E a k n ad m) = Some m"
    "length (aead_encrypt E a k n ad m) = length m + tag_bytes a" for a k n ad m
    using assms(2) by (simp_all add: crypto_ok_def aead_ok_def)
  have com: "length (crypto_engine_commitment E k d n) = 32" for k d n
    using assms(2) by (simp add: crypto_ok_def generichash_ok_def crypto_engine_commitment_def)
  have sod: "require_sodium E = Inr ()" using e(2) by simp
  show ?thesis
    by (simp add: crypto_engine_decrypt_def e sod aead com Let_def crypto_engine_tag_bytes_def
        crypto_engine_nonce_bytes_def crypto_engine_decrypt_payload_def CRYPTO_ENGINE_DEK_BYTES_def
        CRYPTO_ENGINE_COMMITMENT_BYTES_def CRYPTO_ENGINE_COMMITMENT_HALF_BYTES_def)
qed

text \<open>
  C31: What was encrypted is decrypted: with the same key-encryption key, row identity and
  version, \<open>crypto_engine_decrypt\<close> returns the plaintext exactly when the output buffer can
  hold it and reports \<open>SM_ERR_INVALID_ARGUMENT\<close> otherwise, for every algorithm and for the
  empty plaintext too.
\<close>

theorem encrypt_decrypt_roundtrip:
  assumes "crypto_engine_encrypt_with_algorithm E plaintext kek sid v c name s = (Inr es, s')" "crypto_ok E"
  shows "crypto_engine_decrypt E es kek sid v cap =
    (if length plaintext \<le> cap then Inr plaintext else Inl SM_ERR_INVALID_ARGUMENT)"
  using assms by (rule encrypt_decrypt)

section \<open>Key commitment\<close>

text \<open>
  C32: The stored record commits to both keys. If \<open>crypto_engine_decrypt\<close> accepts the same
  record under two key-encryption keys, both keys give the same keyed BLAKE2b digest on the
  same message, so different keys exhibit a collision; the AEAD need not be key-committing.
\<close>

theorem decrypt_commits_to_key:
  assumes "crypto_engine_decrypt E es kek sid v cap = Inr p" "crypto_engine_decrypt E es kek' sid' v' cap' = Inr p'"
  shows "kek = kek' \<or>
    (let m = str_bytes ''Fuin-kek-commit-v1'' @ es_dek_nonce es in
     kek \<noteq> kek' \<and> generichash E kek m = generichash E kek' m)"
proof -
  have "crypto_engine_commitment E k CRYPTO_ENGINE_COMMIT_DOMAIN_KEK (es_dek_nonce es) =
      take CRYPTO_ENGINE_COMMITMENT_HALF_BYTES (es_key_commitment es)"
    if "crypto_engine_decrypt E es k i w n = Inr q" for k i w n q
    using that by (auto simp: crypto_engine_decrypt_def and_then_eq_Inr Let_def)
  from this [OF assms(1)] this [OF assms(2)] show ?thesis
    by (auto simp: crypto_engine_commitment_def CRYPTO_ENGINE_COMMIT_DOMAIN_KEK_def Let_def)
qed

section \<open>Row identity and associated data\<close>

interpretation rf: framing u64_frame u64_fits
proof unfold_locales
  fix a b xs ys :: bytes
  assume fits: "u64_fits a" "u64_fits b" and eq: "u64_frame a @ xs = u64_frame b @ ys"
  have len: "unat (of_nat (length c) :: 64 word) = length c" if "u64_fits c" for c
    using that by (simp add: unat_of_nat take_bit_eq_mod u64_fits_def UINT64_MAX_def)
  have "(of_nat (length a) :: 64 word) = of_nat (length b) \<and> a @ xs = b @ ys"
    using eq by (simp add: u64_frame_def u64.enc_append_inject)
  then have "length a = length b" using len [OF fits(1)] len [OF fits(2)] by metis
  then show "a = b \<and> xs = ys"
    using eq \<open>_ \<and> a @ xs = b @ ys\<close> by auto
next
  fix a :: bytes
  have "length (utils_write_u64_le (of_nat (length a))) = 8" by (rule u64.width_enc)
  then show "u64_frame a \<noteq> []" by (auto simp: u64_frame_def)
qed

lemma row_identity_frames:
  "row_identity_message rid name = str_bytes ''Fuin secret row identity v1'' @
    concat (map u64_frame [str_bytes rid, str_bytes name])"
  by (simp add: row_identity_message_def u64_frame_def)

text \<open>
  The identity that binds a ciphertext to its row determines the row: equal identities of
  two (row id, stored name) pairs mean equal pairs, or the two framed messages are a SHA-256
  collision. No part of the id can move into the name.
\<close>

theorem row_identity_binds:
  assumes "crypto_engine_build_row_identity E rid name n = Inr x"
    and "crypto_engine_build_row_identity E rid' name' n' = Inr x" "hex_ok E"
    and "list_all (\<lambda>t. int (length t) \<le> UINT64_MAX) [rid, name, rid', name']"
  shows "rid = rid' \<and> name = name' \<or>
    (row_identity_message rid name \<noteq> row_identity_message rid' name' \<and>
     sha256 E (row_identity_message rid name) = sha256 E (row_identity_message rid' name'))"
proof (cases "row_identity_message rid name = row_identity_message rid' name'")
  case True
  then have "[str_bytes rid, str_bytes name] = [str_bytes rid', str_bytes name']"
    using assms(4) unfolding row_identity_frames
    by (intro rf.frames_inject) (auto simp: u64_fits_def)
  then show ?thesis by simp
next
  case False
  then show ?thesis
    using assms(1-3)
    by (auto simp: crypto_engine_build_row_identity_def hex_ok_def inj_def split: if_splits)
qed

lemma digit_char_not_colon: "d < 10 \<Longrightarrow> digit_char d \<noteq> CHR '':''"
  using of_char_digit [of d] by auto

lemma dec_digits_no_colon: "CHR '':'' \<notin> set (dec_digits n)"
proof (induction n rule: dec_digits.induct)
  case (1 n)
  then show ?case
    using digit_char_not_colon [of n] digit_char_not_colon [of "n mod 10"]
    by (subst dec_digits.simps) auto
qed

lemma dec_digits_nonempty [simp]: "dec_digits n \<noteq> []"
  by (subst dec_digits.simps) simp

lemma dec_digits_inject: "dec_digits m = dec_digits n \<Longrightarrow> m = n"
proof (induction m arbitrary: n rule: dec_digits.induct)
  case (1 m)
  have last: "m mod 10 = n mod 10"
  proof -
    have "last (dec_digits k) = digit_char (k mod 10)" for k
      by (subst dec_digits.simps) simp
    then have "digit_char (m mod 10) = digit_char (n mod 10)" using 1(2) by metis
    then show ?thesis using digit_char_inject [of "m mod 10" "n mod 10"] by simp
  qed
  have init: "butlast (dec_digits k) = (if k < 10 then [] else dec_digits (k div 10))" for k
    by (subst dec_digits.simps) simp
  have b: "(if m < 10 then [] else dec_digits (m div 10)) = (if n < 10 then [] else dec_digits (n div 10))"
    using 1(2) init by metis
  have "m div 10 = n div 10"
  proof (cases "m < 10")
    case True
    then have "n < 10" using b by (metis dec_digits_nonempty)
    then show ?thesis using True by simp
  next
    case False
    then have "dec_digits (m div 10) = dec_digits (n div 10)" using b by (auto split: if_splits)
    then show ?thesis using 1(1) False by blast
  qed
  then show ?case using last by (metis div_mult_mod_eq)
qed

lemma split_at_first:
  "c \<notin> set a \<Longrightarrow> c \<notin> set b \<Longrightarrow> a @ c # x = b @ c # y \<Longrightarrow> a = b \<and> x = y"
proof (induction a arbitrary: b)
  case Nil
  then show ?case by (cases b) auto
next
  case (Cons d a)
  then show ?case by (cases b) auto
qed

lemma split_at_last:
  assumes "xs @ c # ys = xs' @ c # ys'" "c \<notin> set ys" "c \<notin> set ys'"
  shows "xs = xs' \<and> ys = ys'"
proof -
  have "rev ys @ c # rev xs = rev ys' @ c # rev xs'"
    using arg_cong [OF assms(1), of rev] by simp
  then have "rev ys = rev ys' \<and> rev xs = rev xs'"
    using assms(2,3) by (intro split_at_first) simp_all
  then show ?thesis by simp
qed

text \<open>
  The associated data of the two encryption layers determine the row identity and the
  version, so an authentic ciphertext cannot be served as another row or another version.
\<close>

theorem aad_binds_version:
  assumes "crypto_engine_build_aad sid v n = Inr aad" "crypto_engine_build_aad sid' v' n' = Inr aad"
  shows "sid = sid' \<and> v = v'"
proof -
  have "sid @ CHR '':'' # dec_digits (unat v) = sid' @ CHR '':'' # dec_digits (unat v')"
    using assms by (auto simp: crypto_engine_build_aad_def Let_def split: if_splits)
  then have "sid = sid' \<and> dec_digits (unat v) = dec_digits (unat v')"
    by (rule split_at_last) (rule dec_digits_no_colon)+
  then have "sid = sid' \<and> unat v = unat v'" using dec_digits_inject by blast
  then show ?thesis by (simp add: word_eq_iff_unsigned [where ?'a = nat])
qed

section \<open>Witnesses\<close>

theorem aad_binds_version_witness:
  "crypto_engine_build_aad ''ab:'' 12 256 = Inr (str_bytes ''ab::12'') \<and> (12 :: 32 word) = 12"
proof -
  have "crypto_engine_build_aad ''ab:'' 12 256 = Inr (str_bytes ''ab::12'')" by code_simp
  from this aad_binds_version [OF this this] show ?thesis by simp
qed

theorem encrypt_decrypt_roundtrip_witness:
  "\<exists>es. crypto_engine_encrypt_with_algorithm sample_env [1, 2, 3] (replicate 32 9) ''id'' 1 1 None \<lparr>tick = 0\<rparr> =
      (Inr es, \<lparr>tick = 3\<rparr>) \<and>
    crypto_engine_decrypt sample_env es (replicate 32 9) ''id'' 1 3 = Inr [1, 2, 3]"
proof -
  let ?run = "crypto_engine_encrypt_with_algorithm sample_env [1, 2, 3] (replicate 32 9) ''id'' 1 1 None \<lparr>tick = 0\<rparr>"
  define es where "es = (case fst ?run of Inr x \<Rightarrow> x)"
  have run: "?run = (Inr es, \<lparr>tick = 3\<rparr>)" unfolding es_def by code_simp
  have "crypto_ok sample_env"
    by (simp add: crypto_ok_def sample_hashes_ok sample_aead_ok sample_random_ok)
  from encrypt_decrypt_roundtrip [OF run this, of 3] run show ?thesis by auto
qed

text \<open>The sample digest is weak on purpose: two keys with a common prefix exhibit a collision.\<close>

theorem decrypt_commits_to_key_witness:
  "\<exists>es. crypto_engine_decrypt sample_env es (replicate 32 9) ''id'' 1 3 = Inr [1, 2, 3] \<and>
    crypto_engine_decrypt sample_env es (replicate 16 9 @ replicate 16 8) ''id'' 1 3 = Inr [1, 2, 3] \<and>
    (let m = str_bytes ''Fuin-kek-commit-v1'' @ es_dek_nonce es in
     generichash sample_env (replicate 32 9) m = generichash sample_env (replicate 16 9 @ replicate 16 8) m)"
proof -
  let ?run = "crypto_engine_encrypt_with_algorithm sample_env [1, 2, 3] (replicate 32 9) ''id'' 1 1 None \<lparr>tick = 0\<rparr>"
  define es where "es = (case fst ?run of Inr x \<Rightarrow> x)"
  have 1: "crypto_engine_decrypt sample_env es (replicate 32 9) ''id'' 1 3 = Inr [1, 2, 3]"
    unfolding es_def by code_simp
  have 2: "crypto_engine_decrypt sample_env es (replicate 16 9 @ replicate 16 8) ''id'' 1 3 = Inr [1, 2, 3]"
    unfolding es_def by code_simp
  have "replicate 32 (9 :: byte) \<noteq> replicate 16 9 @ replicate 16 8" by code_simp
  with decrypt_commits_to_key [OF 1 2] 1 2 show ?thesis by (auto simp: Let_def)
qed

lemma sample_hex_inject: "sample_hex a = sample_hex b \<Longrightarrow> a = b"
proof -
  have idx: "''0123456789abcdef'' ! i = ''0123456789abcdef'' ! j \<longleftrightarrow> i = j" if "i < 16" "j < 16" for i j
    using that by (intro nth_eq_iff_index_eq) simp_all
  assume "sample_hex a = sample_hex b"
  then have "unat a div 16 = unat b div 16" "unat a mod 16 = unat b mod 16"
    using idx byte_nibbles [of a] byte_nibbles [of b] unfolding sample_hex_def by auto
  then have "unat a = unat b" by (metis div_mult_mod_eq)
  then show "a = b" by (rule unsigned_word_eqI)
qed

lemma sample_hex_ok: "hex_ok sample_env"
proof -
  have inj: "concat (map sample_hex a) = concat (map sample_hex b) \<Longrightarrow> a = b" for a b
  proof (induction a arbitrary: b)
    case Nil
    then show ?case by (cases b) (simp_all add: sample_hex_def)
  next
    case (Cons x a)
    then obtain y c where b: "b = y # c" by (cases b) (auto simp: sample_hex_def)
    with Cons.prems have "sample_hex x = sample_hex y \<and> concat (map sample_hex a) = concat (map sample_hex c)"
      by (auto simp: sample_hex_def [of x] sample_hex_def [of y])
    then show ?case using Cons.IH sample_hex_inject b by auto
  qed
  have nul: "nul_free (concat (map sample_hex b))" for b
  proof (induction b)
    case (Cons x b)
    have "''0123456789abcdef'' ! i \<noteq> CHR 0x00" if "i < 16" for i
    proof -
      have "''0123456789abcdef'' ! i \<in> set ''0123456789abcdef''" by (rule nth_mem) (use that in simp)
      then show ?thesis by auto
    qed
    then have "nul_free (sample_hex x)"
      using byte_nibbles [of x] by (simp add: sample_hex_def)
    then show ?case using Cons by simp
  qed simp
  have len: "length (concat (map sample_hex b)) = 2 * length b" for b
    by (induction b) (simp_all add: sample_hex_def)
  show ?thesis
    unfolding hex_ok_def using inj nul len by (auto simp: inj_def sample_env_def)
qed

theorem row_identity_binds_witness:
  "crypto_engine_build_row_identity sample_env ''a'' ''b'' 65 = crypto_engine_build_row_identity sample_env ''a'' ''c'' 65 \<and>
   row_identity_message ''a'' ''b'' \<noteq> row_identity_message ''a'' ''c'' \<and>
   sha256 sample_env (row_identity_message ''a'' ''b'') = sha256 sample_env (row_identity_message ''a'' ''c'')"
proof -
  have same: "crypto_engine_build_row_identity sample_env ''a'' ''b'' 65 =
      crypto_engine_build_row_identity sample_env ''a'' ''c'' 65"
    by code_simp
  have run: "crypto_engine_build_row_identity sample_env ''a'' n 65 =
      Inr (bin2hex sample_env (sha256 sample_env (row_identity_message ''a'' n)))" if "n \<noteq> []" for n
    using that by (simp add: crypto_engine_build_row_identity_def CRYPTO_ENGINE_ROW_IDENTITY_HEX_LEN_def)
  have b: "crypto_engine_build_row_identity sample_env ''a'' ''b'' 65 =
      Inr (bin2hex sample_env (sha256 sample_env (row_identity_message ''a'' ''b'')))"
    by (rule run) simp
  from row_identity_binds [OF b b [unfolded same] sample_hex_ok] same show ?thesis
    by (simp add: UINT64_MAX_def)
qed

end
