(* ===== verification/Fuin_Keys.thy ===== *)
theory Fuin_Keys
  imports Fuin_Crypto
begin

text \<open>
  Key derivation (\<open>src/src/kdf.c\<close>) and the management of wrapped data keys
  (\<open>src/src/key_manager.c\<close>): wrapping, unwrapping and the rotation of the key-encryption key
  over every row of \<open>secrets\<close>. Argon2id and the subkey derivation are parameters. Functions
  that overwrite a caller's buffer return its content afterwards.
\<close>

section \<open>Key derivation\<close>

definition KDF_SALT_BYTES :: nat where "KDF_SALT_BYTES = 16"
definition KDF_MASTER_KEY_BYTES :: nat where "KDF_MASTER_KEY_BYTES = 32"
definition kdf_context :: string where "kdf_context = ''FuinSeal''"

record kdf_subkeys =
  kek_enc :: bytes
  kek_audit :: bytes
  kek_token :: bytes
  kek_meta :: bytes

definition kdf_clear_password :: "string \<Rightarrow> string" where
  "kdf_clear_password password = replicate (length password) (CHR 0x00)"

definition kdf_derive_subkey :: "env \<Rightarrow> nat \<Rightarrow> bytes \<Rightarrow> bytes result" where
  "kdf_derive_subkey E subkey_id master_key =
     (case kdf_derive_from_key E subkey_id kdf_context master_key of
        None \<Rightarrow> Inl SM_ERR_CRYPTO | Some k \<Rightarrow> Inr k)"

definition kdf_generate_salt :: "env \<Rightarrow> ('a world_scheme, bytes) comp" where
  "kdf_generate_salt E =
     andthen (lift_result (require_sodium E)) (\<lambda>_. randombytes_buf E KDF_SALT_BYTES)"

text \<open>The master key and the password buffer after the call.\<close>

definition kdf_derive_master_key :: "env \<Rightarrow> string \<Rightarrow> bytes \<Rightarrow> bytes result \<times> string" where
  "kdf_derive_master_key E password salt =
     (and_then (require_sodium E) (\<lambda>_.
        case pwhash E password salt of None \<Rightarrow> Inl SM_ERR_CRYPTO | Some k \<Rightarrow> Inr k),
      kdf_clear_password password)"

text \<open>The subkeys and the master key buffer after the call.\<close>

definition kdf_derive_subkeys :: "env \<Rightarrow> bytes \<Rightarrow> kdf_subkeys result \<times> bytes" where
  "kdf_derive_subkeys E master_key =
     (and_then (require_sodium E) (\<lambda>_.
      and_then (kdf_derive_subkey E 1 master_key) (\<lambda>k1.
      and_then (kdf_derive_subkey E 2 master_key) (\<lambda>k2.
      and_then (kdf_derive_subkey E 3 master_key) (\<lambda>k3.
      and_then (kdf_derive_subkey E 4 master_key) (\<lambda>k4.
      Inr \<lparr>kek_enc = k1, kek_audit = k2, kek_token = k3, kek_meta = k4\<rparr>))))),
      replicate KDF_MASTER_KEY_BYTES 0)"

section \<open>Wrapping data keys\<close>

definition KEY_MANAGER_DEK_BYTES :: nat where "KEY_MANAGER_DEK_BYTES = 32"
definition KEY_MANAGER_ALGORITHM_MAX :: nat where "KEY_MANAGER_ALGORITHM_MAX = 32"
definition KEY_MANAGER_AAD_MAX :: nat where "KEY_MANAGER_AAD_MAX = 256"
definition KEY_MANAGER_MAX_NONCE_BYTES :: nat where "KEY_MANAGER_MAX_NONCE_BYTES = 32"
definition KEY_MANAGER_WRAPPED_DEK_BYTES :: nat where "KEY_MANAGER_WRAPPED_DEK_BYTES = 64"

definition key_manager_algorithm_equals_literal :: "string \<Rightarrow> string \<Rightarrow> bool" where
  "key_manager_algorithm_equals_literal left right =
     (if KEY_MANAGER_ALGORITHM_MAX \<le> length right then False else equals_literal_loop left right)"

definition key_manager_algorithm_from_name :: "env \<Rightarrow> string \<Rightarrow> aead_algorithm result" where
  "key_manager_algorithm_from_name E name =
     (if key_manager_algorithm_equals_literal name ''AES-256-GCM''
      then (if aes256gcm_is_available E then Inr AES_256_GCM else Inl SM_ERR_CRYPTO)
      else if key_manager_algorithm_equals_literal name ''XChaCha20-Poly1305'' then Inr XCHACHA20_POLY1305
      else if has_aegis E \<and> key_manager_algorithm_equals_literal name ''AEGIS-256'' then Inr AEGIS_256
      else Inl SM_ERR_INVALID_ARGUMENT)"

definition key_manager_nonce_bytes :: "aead_algorithm \<Rightarrow> nat" where
  "key_manager_nonce_bytes alg = npub_bytes alg"

definition key_manager_tag_bytes :: "aead_algorithm \<Rightarrow> nat" where
  "key_manager_tag_bytes alg = tag_bytes alg"

definition key_manager_build_aad :: "string \<Rightarrow> 32 word \<Rightarrow> nat \<Rightarrow> bytes result" where
  "key_manager_build_aad secret_id version aad_len =
     (if secret_id = [] \<or> version = 0 then Inl SM_ERR_INVALID_ARGUMENT
      else let text = secret_id @ '':'' @ dec_digits (unat version) in
        if aad_len \<le> length text then Inl SM_ERR_INVALID_ARGUMENT else Inr (str_bytes text))"

definition key_manager_encrypt_dek ::
  "env \<Rightarrow> aead_algorithm \<Rightarrow> bytes \<Rightarrow> bytes \<Rightarrow> bytes \<Rightarrow> bytes \<Rightarrow> bytes" where
  "key_manager_encrypt_dek E alg dek aad dek_nonce kek = aead_encrypt E alg kek dek_nonce aad dek"

definition key_manager_decrypt_dek ::
  "env \<Rightarrow> aead_algorithm \<Rightarrow> bytes \<Rightarrow> bytes \<Rightarrow> bytes \<Rightarrow> bytes \<Rightarrow> bytes result" where
  "key_manager_decrypt_dek E alg wrapped aad dek_nonce kek =
     (case aead_decrypt E alg kek dek_nonce aad wrapped of None \<Rightarrow> Inl SM_ERR_CRYPTO | Some d \<Rightarrow> Inr d)"

definition key_manager_validate_kek :: "bytes \<Rightarrow> unit result" where
  "key_manager_validate_kek kek = check (length kek = KEY_MANAGER_DEK_BYTES) SM_ERR_INVALID_ARGUMENT"

definition key_manager_generate_dek :: "env \<Rightarrow> nat \<Rightarrow> ('a world_scheme, bytes) comp" where
  "key_manager_generate_dek E dek_len =
     andthen (guard (dek_len = KEY_MANAGER_DEK_BYTES) SM_ERR_INVALID_ARGUMENT) (\<lambda>_.
     andthen (lift_result (require_sodium E)) (\<lambda>_. randombytes_buf E dek_len))"

text \<open>The checks common to wrapping and unwrapping, in the order of the code.\<close>

definition key_manager_prepare ::
  "env \<Rightarrow> string \<Rightarrow> string \<Rightarrow> 32 word \<Rightarrow> bytes \<Rightarrow> (aead_algorithm \<times> bytes) result" where
  "key_manager_prepare E algorithm secret_id version kek =
     and_then (key_manager_validate_kek kek) (\<lambda>_.
     and_then (require_sodium E) (\<lambda>_.
     and_then (key_manager_algorithm_from_name E algorithm) (\<lambda>alg.
     and_then (key_manager_build_aad secret_id version KEY_MANAGER_AAD_MAX) (\<lambda>aad.
     Inr (alg, aad)))))"

text \<open>The wrapped key and its nonce.\<close>

definition key_manager_wrap_dek ::
  "env \<Rightarrow> string \<Rightarrow> string \<Rightarrow> 32 word \<Rightarrow> bytes \<Rightarrow> bytes \<Rightarrow> nat \<Rightarrow> nat \<Rightarrow> ('a world_scheme, bytes \<times> bytes) comp" where
  "key_manager_wrap_dek E algorithm secret_id version dek kek dek_nonce_len wrapped_dek_len =
     andthen (guard (length dek = KEY_MANAGER_DEK_BYTES) SM_ERR_INVALID_ARGUMENT) (\<lambda>_.
     andthen (lift_result (key_manager_prepare E algorithm secret_id version kek)) (\<lambda>(alg, aad).
     let expected = KEY_MANAGER_DEK_BYTES + key_manager_tag_bytes alg in
     andthen (guard (key_manager_nonce_bytes alg \<le> dek_nonce_len \<and> expected \<le> wrapped_dek_len)
       SM_ERR_INVALID_ARGUMENT) (\<lambda>_.
     andthen (randombytes_buf E (key_manager_nonce_bytes alg)) (\<lambda>dek_nonce.
     let wrapped = key_manager_encrypt_dek E alg dek aad dek_nonce kek in
     if length wrapped \<noteq> expected then raise SM_ERR_CRYPTO else ret (wrapped, dek_nonce)))))"

definition key_manager_unwrap_dek ::
  "env \<Rightarrow> string \<Rightarrow> string \<Rightarrow> 32 word \<Rightarrow> bytes \<Rightarrow> bytes \<Rightarrow> bytes \<Rightarrow> nat \<Rightarrow> bytes result" where
  "key_manager_unwrap_dek E algorithm secret_id version wrapped dek_nonce kek dek_len =
     (if dek_len < KEY_MANAGER_DEK_BYTES then Inl SM_ERR_INVALID_ARGUMENT
      else
        and_then (key_manager_prepare E algorithm secret_id version kek) (\<lambda>(alg, aad).
        if length dek_nonce \<noteq> key_manager_nonce_bytes alg \<or>
           length wrapped \<noteq> KEY_MANAGER_DEK_BYTES + key_manager_tag_bytes alg
        then Inl SM_ERR_INVALID_ARGUMENT
        else
          and_then (key_manager_decrypt_dek E alg wrapped aad dek_nonce kek) (\<lambda>dek.
          if length dek \<noteq> KEY_MANAGER_DEK_BYTES then Inl SM_ERR_CRYPTO else Inr dek)))"

definition key_manager_rewrap_dek ::
  "env \<Rightarrow> string \<Rightarrow> string \<Rightarrow> 32 word \<Rightarrow> bytes \<Rightarrow> bytes \<Rightarrow> bytes \<Rightarrow> bytes \<Rightarrow> ('a world_scheme, bytes \<times> bytes) comp" where
  "key_manager_rewrap_dek E algorithm secret_id version old_wrapped old_nonce old_kek new_kek =
     andthen (lift_result (key_manager_unwrap_dek E algorithm secret_id version old_wrapped old_nonce old_kek
       KEY_MANAGER_DEK_BYTES)) (\<lambda>dek.
     key_manager_wrap_dek E algorithm secret_id version dek new_kek KEY_MANAGER_MAX_NONCE_BYTES
       KEY_MANAGER_WRAPPED_DEK_BYTES)"

section \<open>Rotation of the key-encryption key\<close>

definition key_manager_copy_text_column :: "string \<Rightarrow> nat \<Rightarrow> string result" where
  "key_manager_copy_text_column text output_len =
     (if output_len \<le> length (c_str text) then Inl SM_ERR_STORAGE else Inr (c_str text))"

definition update_wrapped_dek_row :: "string \<Rightarrow> bytes \<Rightarrow> bytes \<Rightarrow> bytes \<Rightarrow> db \<Rightarrow> db \<times> nat" where
  "update_wrapped_dek_row rid wrapped dek_nonce commitment d =
     (d\<lparr>secrets := map (\<lambda>r. if s_id r = rid
         then r\<lparr>s_encrypted_dek := wrapped, s_dek_nonce := dek_nonce, s_key_commitment := commitment\<rparr>
         else r) (secrets d)\<rparr>,
      length (filter (\<lambda>r. s_id r = rid) (secrets d)))"

definition key_manager_update_wrapped_dek ::
  "env \<Rightarrow> string \<Rightarrow> bytes \<Rightarrow> bytes \<Rightarrow> bytes \<Rightarrow> ('a store_scheme, unit) comp" where
  "key_manager_update_wrapped_dek E rid wrapped dek_nonce commitment =
     andthen (guard (int (length wrapped) \<le> INT_MAX \<and> int (length dek_nonce) \<le> INT_MAX \<and>
       length commitment = CRYPTO_ENGINE_COMMITMENT_BYTES) SM_ERR_INVALID_ARGUMENT) (\<lambda>_.
     andthen (sql_change E (update_wrapped_dek_row rid wrapped dek_nonce commitment)) (\<lambda>changes.
     guard (changes = 1) SM_ERR_STORAGE))"

text \<open>The body of the loop over the rows.\<close>

definition key_manager_rotate_row ::
  "env \<Rightarrow> bytes \<Rightarrow> bytes \<Rightarrow> secret_row \<Rightarrow> ('a store_scheme, unit) comp" where
  "key_manager_rotate_row E old_kek new_kek r =
     andthen (lift_result (key_manager_copy_text_column (s_id r) UTILS_UUID_V4_BUFFER_LEN)) (\<lambda>rid.
     andthen (guard (s_name r \<noteq> [] \<and> length (c_str (s_name r)) = length (s_name r)) SM_ERR_STORAGE) (\<lambda>_.
     andthen (guard (1 \<le> c_int (s_version r)) SM_ERR_STORAGE) (\<lambda>_.
     andthen (lift_result (key_manager_copy_text_column (s_algorithm r) KEY_MANAGER_ALGORITHM_MAX)) (\<lambda>algorithm.
     andthen (guard (s_encrypted_dek r \<noteq> [] \<and> s_dek_nonce r \<noteq> [] \<and>
       length (s_key_commitment r) = CRYPTO_ENGINE_COMMITMENT_BYTES) SM_ERR_STORAGE) (\<lambda>_.
     andthen (lift_result (crypto_engine_build_row_identity E rid (s_name r)
       CRYPTO_ENGINE_ROW_IDENTITY_HEX_LEN)) (\<lambda>identity.
     andthen (key_manager_rewrap_dek E algorithm identity (of_int (c_int (s_version r)))
       (s_encrypted_dek r) (s_dek_nonce r) old_kek new_kek) (\<lambda>(wrapped, dek_nonce).
     andthen (lift_result (crypto_engine_compute_key_commitment E new_kek CRYPTO_ENGINE_COMMIT_DOMAIN_KEK
       dek_nonce CRYPTO_ENGINE_COMMITMENT_HALF_BYTES)) (\<lambda>commitment.
     key_manager_update_wrapped_dek E rid wrapped dek_nonce
       (commitment @ drop CRYPTO_ENGINE_COMMITMENT_HALF_BYTES (s_key_commitment r))))))))))"

text \<open>Each \<open>sqlite3_step\<close> of the query can fail, the one that finds no further row included.\<close>

fun key_manager_rotate_rows ::
  "env \<Rightarrow> bytes \<Rightarrow> bytes \<Rightarrow> secret_row list \<Rightarrow> ('a store_scheme, unit) comp" where
  "key_manager_rotate_rows E old_kek new_kek [] = sql_prepare E"
| "key_manager_rotate_rows E old_kek new_kek (r # rows) =
     andthen (sql_prepare E) (\<lambda>_.
     andthen (key_manager_rotate_row E old_kek new_kek r) (\<lambda>_.
     key_manager_rotate_rows E old_kek new_kek rows))"

definition key_manager_rotate_kek :: "env \<Rightarrow> bytes \<Rightarrow> bytes \<Rightarrow> ('a store_scheme, unit) comp" where
  "key_manager_rotate_kek E old_kek new_kek =
     andthen require_db (\<lambda>_.
     andthen (lift_result (key_manager_validate_kek old_kek)) (\<lambda>_.
     andthen (lift_result (key_manager_validate_kek new_kek)) (\<lambda>_.
     andthen (lift_result (require_sodium E)) (\<lambda>_.
     andthen (sql_select E (\<lambda>d. sort_key s_id (secrets d))) (\<lambda>rows.
     andthen (sql_prepare E) (\<lambda>_.
     key_manager_rotate_rows E old_kek new_kek rows))))))"

section \<open>Reference definitions\<close>

text \<open>
  A row as the record that \<open>crypto_engine_decrypt\<close> reads, its decryption under a
  key-encryption key, and rows whose text columns read back unchanged.
\<close>

definition row_secret :: "secret_row \<Rightarrow> encrypted_secret" where
  "row_secret r = \<lparr>es_algorithm = s_algorithm r, es_ciphertext = s_ciphertext r,
     es_encrypted_dek = s_encrypted_dek r, es_nonce = s_nonce r, es_dek_nonce = s_dek_nonce r,
     es_key_commitment = s_key_commitment r\<rparr>"

definition row_decrypt :: "env \<Rightarrow> bytes \<Rightarrow> secret_row \<Rightarrow> nat \<Rightarrow> bytes result" where
  "row_decrypt E kek r cap =
     and_then (crypto_engine_build_row_identity E (s_id r) (s_name r) CRYPTO_ENGINE_ROW_IDENTITY_HEX_LEN) (\<lambda>identity.
     crypto_engine_decrypt E (row_secret r) kek identity (of_int (s_version r)) cap)"

definition row_columns_ok :: "secret_row \<Rightarrow> bool" where
  "row_columns_ok r \<longleftrightarrow> nul_free (s_id r) \<and> nul_free (s_name r) \<and> nul_free (s_algorithm r) \<and>
     1 \<le> s_version r \<and> s_version r \<le> INT_MAX"

text \<open>A row after its data key was wrapped again.\<close>

definition rewrapped :: "env \<Rightarrow> bytes \<Rightarrow> bytes \<Rightarrow> secret_row \<Rightarrow> secret_row \<Rightarrow> bool" where
  "rewrapped E old new r r' \<longleftrightarrow> (\<exists>alg aad dek identity n.
     crypto_engine_build_row_identity E (s_id r) (s_name r) CRYPTO_ENGINE_ROW_IDENTITY_HEX_LEN = Inr identity \<and>
     key_manager_algorithm_from_name E (s_algorithm r) = Inr alg \<and>
     key_manager_build_aad identity (of_int (s_version r)) KEY_MANAGER_AAD_MAX = Inr aad \<and>
     aead_decrypt E alg old (s_dek_nonce r) aad (s_encrypted_dek r) = Some dek \<and> length dek = 32 \<and>
     length n = npub_bytes alg \<and> length (s_key_commitment r) = 64 \<and>
     r' = r\<lparr>s_encrypted_dek := aead_encrypt E alg new n aad dek, s_dek_nonce := n,
            s_key_commitment := crypto_engine_commitment E new CRYPTO_ENGINE_COMMIT_DOMAIN_KEK n @
              drop 32 (s_key_commitment r)\<rparr>)"

section \<open>Wrapping\<close>

lemma km_equals_literal_iff:
  "length right < 32 \<Longrightarrow> key_manager_algorithm_equals_literal left right \<longleftrightarrow> left = right"
  by (simp add: key_manager_algorithm_equals_literal_def equals_literal_loop_iff KEY_MANAGER_ALGORITHM_MAX_def)

lemma km_algorithm_agrees:
  "key_manager_algorithm_from_name E name = Inr alg \<Longrightarrow>
    crypto_engine_algorithm_from_name E name = Inr alg \<and> crypto_engine_algorithm_is_available E alg = Inr ()"
  by (auto simp: key_manager_algorithm_from_name_def km_equals_literal_iff algorithm_from_name
      crypto_engine_algorithm_is_available_def split: if_splits)

lemma km_aad_agrees:
  "key_manager_build_aad sid v n = Inr aad \<Longrightarrow> crypto_engine_build_aad sid v n = Inr aad \<and> sid \<noteq> [] \<and> v \<noteq> 0"
  by (auto simp: key_manager_build_aad_def crypto_engine_build_aad_def Let_def split: if_splits)

lemma prepare_Inr:
  "key_manager_prepare E a sid v kek = Inr (alg, aad) \<longleftrightarrow> length kek = 32 \<and> sodium_init_ok E \<and>
    key_manager_algorithm_from_name E a = Inr alg \<and> key_manager_build_aad sid v KEY_MANAGER_AAD_MAX = Inr aad"
  by (auto simp: key_manager_prepare_def and_then_eq_Inr key_manager_validate_kek_def KEY_MANAGER_DEK_BYTES_def)

lemma wrap_Inr:
  assumes "key_manager_wrap_dek E a sid v dek kek nl wl s = (Inr (w, n), s')"
  obtains alg aad where "key_manager_prepare E a sid v kek = Inr (alg, aad)" "length dek = 32"
    "n = randombytes E (tick s) (npub_bytes alg)" "w = aead_encrypt E alg kek n aad dek"
    "length w = 32 + tag_bytes alg" "s' = next_tick s"
  using assms
  by (auto simp: key_manager_wrap_dek_def andthen_eq_Inr Let_def KEY_MANAGER_DEK_BYTES_def
      key_manager_nonce_bytes_def key_manager_tag_bytes_def key_manager_encrypt_dek_def split: if_splits)

lemma unwrap_Inr:
  "key_manager_unwrap_dek E a sid v w n kek len = Inr dek \<longleftrightarrow>
    (\<exists>alg aad. 32 \<le> len \<and> key_manager_prepare E a sid v kek = Inr (alg, aad) \<and> length n = npub_bytes alg \<and>
      length w = 32 + tag_bytes alg \<and> aead_decrypt E alg kek n aad w = Some dek \<and> length dek = 32)"
  by (cases "key_manager_prepare E a sid v kek")
     (auto simp: key_manager_unwrap_dek_def KEY_MANAGER_DEK_BYTES_def key_manager_nonce_bytes_def
      key_manager_tag_bytes_def key_manager_decrypt_dek_def split: if_splits option.splits)

text \<open>
  A wrapped data key is unwrapped to itself: with the same algorithm, identity, version
  and key-encryption key, \<open>key_manager_unwrap_dek\<close> inverts \<open>key_manager_wrap_dek\<close>.
\<close>

theorem wrap_unwrap_roundtrip:
  assumes "key_manager_wrap_dek E a sid v dek kek nl wl s = (Inr (w, n), s')" "aead_ok E" "random_ok E"
  shows "key_manager_unwrap_dek E a sid v w n kek KEY_MANAGER_DEK_BYTES = Inr dek"
proof -
  obtain alg aad where w: "key_manager_prepare E a sid v kek = Inr (alg, aad)" "length dek = 32"
    "n = randombytes E (tick s) (npub_bytes alg)" "w = aead_encrypt E alg kek n aad dek"
    "length w = 32 + tag_bytes alg"
    using wrap_Inr [OF assms(1)] by metis
  then show ?thesis
    using assms(2,3) by (auto simp: unwrap_Inr aead_ok_def random_ok_def KEY_MANAGER_DEK_BYTES_def)
qed

section \<open>Rotation\<close>

lemma rotate_row_Inr:
  assumes "key_manager_rotate_row E old new r s = (Inr (), s')" "row_columns_ok r" "random_ok E"
  obtains r' where "rewrapped E old new r r'"
    "tables s' = (tables s)\<lparr>secrets := map (\<lambda>x. if s_id x = s_id r then x\<lparr>s_encrypted_dek := s_encrypted_dek r',
        s_dek_nonce := s_dek_nonce r', s_key_commitment := s_key_commitment r'\<rparr> else x) (secrets (tables s))\<rparr>"
    "in_txn s' = in_txn s" "committed s' = committed s \<or> \<not> in_txn s"
proof -
  have cols: "c_str (s_id r) = s_id r" "c_str (s_algorithm r) = s_algorithm r" "c_int (s_version r) = s_version r"
    using assms(2) by (auto simp: row_columns_ok_def)
  from assms(1) obtain identity dek w n s1 where 1:
      "crypto_engine_build_row_identity E (s_id r) (s_name r) CRYPTO_ENGINE_ROW_IDENTITY_HEX_LEN = Inr identity"
      "length (s_key_commitment r) = 64"
      "key_manager_unwrap_dek E (s_algorithm r) identity (of_int (s_version r)) (s_encrypted_dek r)
         (s_dek_nonce r) old KEY_MANAGER_DEK_BYTES = Inr dek"
      "key_manager_wrap_dek E (s_algorithm r) identity (of_int (s_version r)) dek new
         KEY_MANAGER_MAX_NONCE_BYTES KEY_MANAGER_WRAPPED_DEK_BYTES s = (Inr (w, n), s1)"
      "s' = next_tick (s1\<lparr>tables := fst (update_wrapped_dek_row (s_id r) w n
         (crypto_engine_commitment E new CRYPTO_ENGINE_COMMIT_DOMAIN_KEK n @ drop 32 (s_key_commitment r))
         (tables s1))\<rparr>)"
    by (auto simp: key_manager_rotate_row_def key_manager_copy_text_column_def key_manager_rewrap_dek_def
        key_manager_update_wrapped_dek_def crypto_engine_compute_key_commitment_def andthen_eq_Inr and_then_eq_Inr
        change_eq_Inr cols CRYPTO_ENGINE_COMMITMENT_BYTES_def CRYPTO_ENGINE_COMMITMENT_HALF_BYTES_def split: if_splits)
  obtain alg aad where w: "key_manager_prepare E (s_algorithm r) identity (of_int (s_version r)) new = Inr (alg, aad)"
      "n = randombytes E (tick s) (npub_bytes alg)" "w = aead_encrypt E alg new n aad dek" "s1 = next_tick s"
    using wrap_Inr [OF 1(4)] by metis
  define r' where "r' = r\<lparr>s_encrypted_dek := w, s_dek_nonce := n,
    s_key_commitment := crypto_engine_commitment E new CRYPTO_ENGINE_COMMIT_DOMAIN_KEK n @ drop 32 (s_key_commitment r)\<rparr>"
  have "rewrapped E old new r r'"
    using 1(1-3) w assms(3) unfolding rewrapped_def r'_def unwrap_Inr prepare_Inr
    by (auto simp: random_ok_def)
  moreover have "tables s' = (tables s)\<lparr>secrets := map (\<lambda>x. if s_id x = s_id r then x\<lparr>s_encrypted_dek := s_encrypted_dek r',
        s_dek_nonce := s_dek_nonce r', s_key_commitment := s_key_commitment r'\<rparr> else x) (secrets (tables s))\<rparr>"
    by (simp add: 1(5) w(4) update_wrapped_dek_row_def r'_def)
  moreover have "in_txn s' = in_txn s" "committed s' = committed s \<or> \<not> in_txn s"
    by (auto simp: 1(5) w(4))
  ultimately show ?thesis by (rule that)
qed

lemma rewrapped_columns:
  "rewrapped E old new r r' \<Longrightarrow> \<exists>w n c. r' = r\<lparr>s_encrypted_dek := w, s_dek_nonce := n, s_key_commitment := c\<rparr>"
  unfolding rewrapped_def by blast

lemma rewrapped_decrypt:
  assumes "rewrapped E old new r r'" "crypto_ok E" "row_decrypt E old r cap = Inr p"
  shows "row_decrypt E new r' cap = Inr p"
proof -
  obtain alg aad dek identity n where w:
     "crypto_engine_build_row_identity E (s_id r) (s_name r) CRYPTO_ENGINE_ROW_IDENTITY_HEX_LEN = Inr identity"
     "key_manager_algorithm_from_name E (s_algorithm r) = Inr alg"
     "key_manager_build_aad identity (of_int (s_version r)) KEY_MANAGER_AAD_MAX = Inr aad"
     "aead_decrypt E alg old (s_dek_nonce r) aad (s_encrypted_dek r) = Some dek" "length dek = 32"
     "length n = npub_bytes alg" "length (s_key_commitment r) = 64"
     "r' = r\<lparr>s_encrypted_dek := aead_encrypt E alg new n aad dek, s_dek_nonce := n,
            s_key_commitment := crypto_engine_commitment E new CRYPTO_ENGINE_COMMIT_DOMAIN_KEK n @
              drop 32 (s_key_commitment r)\<rparr>"
    using assms(1) unfolding rewrapped_def by blast
  have alg: "crypto_engine_algorithm_from_name E (s_algorithm r) = Inr alg"
      "crypto_engine_algorithm_is_available E alg = Inr ()"
    using km_algorithm_agrees [OF w(2)] by auto
  have aad: "crypto_engine_build_aad identity (of_int (s_version r)) CRYPTO_ENGINE_AAD_MAX = Inr aad" "identity \<noteq> []"
    using km_aad_agrees [OF w(3)] by (auto simp: CRYPTO_ENGINE_AAD_MAX_def KEY_MANAGER_AAD_MAX_def)
  have aead: "aead_decrypt E a k n ad (aead_encrypt E a k n ad m) = Some m"
    "length (aead_encrypt E a k n ad m) = length m + tag_bytes a" for a k n ad m
    using assms(2) by (simp_all add: crypto_ok_def aead_ok_def)
  have com: "length (crypto_engine_commitment E k d n) = 32" for k d n
    using assms(2) by (simp add: crypto_ok_def generichash_ok_def crypto_engine_commitment_def)
  show ?thesis
    using assms(3) w(4-7) aad alg
    unfolding row_decrypt_def w(8)
    by (auto simp: w(1) row_secret_def crypto_engine_decrypt_def and_then_eq_Inr Let_def aead com
        crypto_engine_decrypt_payload_def crypto_engine_nonce_bytes_def crypto_engine_tag_bytes_def
        CRYPTO_ENGINE_DEK_BYTES_def CRYPTO_ENGINE_COMMITMENT_HALF_BYTES_def CRYPTO_ENGINE_COMMITMENT_BYTES_def
        split: option.splits)
qed

lemma rotate_rows_Inr:
  assumes "key_manager_rotate_rows E old new rows s = (Inr (), s')" "random_ok E"
    and "distinct rows" "set rows \<subseteq> set (secrets (tables s))" "distinct (map s_id (secrets (tables s)))"
    and "list_all row_columns_ok rows"
  shows "\<exists>F. tables s' = (tables s)\<lparr>secrets := map F (secrets (tables s))\<rparr> \<and>
    (\<forall>r \<in> set rows. rewrapped E old new r (F r)) \<and> (\<forall>r \<in> set (secrets (tables s)) - set rows. F r = r)"
  using assms(1,3-6)
proof (induction rows arbitrary: s)
  case Nil
  then show ?case by (auto simp: prepare_eq_Inr intro!: exI [of _ "\<lambda>r. r"])
next
  case (Cons r rows)
  obtain s1 where s1: "key_manager_rotate_row E old new r (next_tick s) = (Inr (), s1)"
      "key_manager_rotate_rows E old new rows s1 = (Inr (), s')"
    using Cons.prems(1) by (auto simp: andthen_eq_Inr prepare_eq_Inr)
  have r: "row_columns_ok r" "r \<in> set (secrets (tables s))" using Cons.prems by auto
  obtain r' where r': "rewrapped E old new r r'" and
      t: "tables s1 = (tables s)\<lparr>secrets := map (\<lambda>x. if s_id x = s_id r then x\<lparr>s_encrypted_dek := s_encrypted_dek r',
        s_dek_nonce := s_dek_nonce r', s_key_commitment := s_key_commitment r'\<rparr> else x) (secrets (tables s))\<rparr>"
    using rotate_row_Inr [OF s1(1) r(1) assms(2)] unfolding next_tick_store(1) .
  have id': "s_id r' = s_id r" using rewrapped_columns [OF r'] by auto
  have row': "r\<lparr>s_encrypted_dek := s_encrypted_dek r', s_dek_nonce := s_dek_nonce r',
      s_key_commitment := s_key_commitment r'\<rparr> = r'"
    using rewrapped_columns [OF r'] by auto
  have uniq: "s_id x = s_id r \<longleftrightarrow> x = r" if "x \<in> set (secrets (tables s))" for x
    using Cons.prems(4) that r(2) by (metis distinct_map inj_on_eq_iff)
  define G where "G x = (if x = r then r' else x)" for x
  have "secrets (tables s1) = map G (secrets (tables s))"
    unfolding t G_def using uniq row' by (auto intro!: map_cong)
  then have t1: "tables s1 = (tables s)\<lparr>secrets := map G (secrets (tables s))\<rparr>" using t by simp
  have ids: "map s_id (secrets (tables s1)) = map s_id (secrets (tables s))"
    unfolding t1 using id' by (simp add: G_def)
  have sub: "set rows \<subseteq> set (secrets (tables s1))"
  proof
    fix x assume x: "x \<in> set rows"
    then have "x \<noteq> r" "x \<in> set (secrets (tables s))" using Cons.prems(2,3) by auto
    then have "G x = x" by (simp add: G_def)
    then show "x \<in> set (secrets (tables s1))" unfolding t1 using \<open>x \<in> set (secrets (tables s))\<close> by force
  qed
  obtain F where F: "tables s' = (tables s1)\<lparr>secrets := map F (secrets (tables s1))\<rparr>"
      "\<forall>x \<in> set rows. rewrapped E old new x (F x)" "\<forall>x \<in> set (secrets (tables s1)) - set rows. F x = x"
    using Cons.IH [OF s1(2) _ sub] Cons.prems ids by auto
  have notin: "r' \<notin> set rows"
  proof
    assume "r' \<in> set rows"
    then have "r' \<in> set (secrets (tables s))" "r' \<noteq> r" using Cons.prems(2,3) by auto
    then show False using uniq id' by metis
  qed
  have "r' \<in> set (secrets (tables s1))" unfolding t1 using r(2) by (force simp: G_def)
  then have Fr': "F r' = r'" using F(3) notin by auto
  show ?case
  proof (intro exI [of _ "\<lambda>x. F (G x)"] conjI ballI)
    show "tables s' = (tables s)\<lparr>secrets := map (\<lambda>x. F (G x)) (secrets (tables s))\<rparr>"
      unfolding F(1) t1 by simp
  next
    fix x assume "x \<in> set (r # rows)"
    then show "rewrapped E old new x (F (G x))"
      using r' Fr' F(2) Cons.prems(2) by (auto simp: G_def)
  next
    fix x assume x: "x \<in> set (secrets (tables s)) - set (r # rows)"
    then have "G x = x" "x \<in> set (secrets (tables s1)) - set rows"
      unfolding t1 by (force simp: G_def)+
    then show "F (G x) = x" using F(3) by simp
  qed
qed

lemma rotate_kek_rewraps:
  assumes "key_manager_rotate_kek E old new s = (Inr (), s')" "random_ok E"
    and "distinct (map s_id (secrets (tables s)))" "list_all row_columns_ok (secrets (tables s))"
  shows "\<exists>rows. tables s' = (tables s)\<lparr>secrets := rows\<rparr> \<and> list_all2 (rewrapped E old new) (secrets (tables s)) rows"
proof -
  obtain s1 where s1: "key_manager_rotate_rows E old new (sort_key s_id (secrets (tables s))) s1 = (Inr (), s')"
      "tables s1 = tables s"
    using assms(1) by (auto simp: key_manager_rotate_kek_def andthen_eq_Inr select_eq_Inr prepare_eq_Inr)
  have "distinct (secrets (tables s))" using assms(3) by (simp add: distinct_map)
  with rotate_rows_Inr [OF s1(1) assms(2)] obtain F where
      "tables s' = (tables s)\<lparr>secrets := map F (secrets (tables s))\<rparr>"
      "\<forall>r \<in> set (secrets (tables s)). rewrapped E old new r (F r)"
    using assms(3,4) s1(2) by (auto simp: list_all_iff)
  then show ?thesis
    by (intro exI [of _ "map F (secrets (tables s))"]) (auto simp: list_all2_conv_all_nth)
qed

text \<open>
  C33: Rotating the key-encryption key loses nothing. After a successful
  \<open>key_manager_rotate_kek\<close> every row is still there, in the same place, with all columns but
  the wrapped key, its nonce and the commitment unchanged, and whatever it decrypted to under
  the old key it decrypts to under the new one.
\<close>

theorem rotate_kek_keeps_secrets:
  assumes "key_manager_rotate_kek E old new s = (Inr (), s')" "crypto_ok E"
    and "distinct (map s_id (secrets (tables s)))" "list_all row_columns_ok (secrets (tables s))"
  shows "\<exists>rows. tables s' = (tables s)\<lparr>secrets := rows\<rparr> \<and>
    list_all2 (\<lambda>r r'. (\<exists>w n c. r' = r\<lparr>s_encrypted_dek := w, s_dek_nonce := n, s_key_commitment := c\<rparr>) \<and>
      (\<forall>cap p. row_decrypt E old r cap = Inr p \<longrightarrow> row_decrypt E new r' cap = Inr p)) (secrets (tables s)) rows"
proof -
  have "random_ok E" using assms(2) by (simp add: crypto_ok_def)
  from rotate_kek_rewraps [OF assms(1) this assms(3,4)] obtain rows where
      rows: "tables s' = (tables s)\<lparr>secrets := rows\<rparr>" "list_all2 (rewrapped E old new) (secrets (tables s)) rows"
    by blast
  have keeps: "(\<exists>w n c. r' = r\<lparr>s_encrypted_dek := w, s_dek_nonce := n, s_key_commitment := c\<rparr>) \<and>
      (\<forall>cap p. row_decrypt E old r cap = Inr p \<longrightarrow> row_decrypt E new r' cap = Inr p)"
    if "rewrapped E old new r r'" for r r'
    using rewrapped_decrypt [OF that assms(2)] rewrapped_columns [OF that] by blast
  show ?thesis
    by (intro exI [of _ rows] conjI [OF rows(1)] list_all2_mono [OF rows(2)]) (rule keeps)
qed

section \<open>Sample runs\<close>

theorem wrap_unwrap_roundtrip_witness:
  "\<exists>w n. fst (key_manager_wrap_dek sample_env ''AEGIS-256'' ''id'' 1 (replicate 32 5) (replicate 32 9) 32 64 \<lparr>tick = 0\<rparr>) =
      Inr (w, n) \<and>
    key_manager_unwrap_dek sample_env ''AEGIS-256'' ''id'' 1 w n (replicate 32 9) KEY_MANAGER_DEK_BYTES =
      Inr (replicate 32 5)"
proof -
  let ?run = "key_manager_wrap_dek sample_env ''AEGIS-256'' ''id'' 1 (replicate 32 5) (replicate 32 9) 32 64 \<lparr>tick = 0\<rparr>"
  have "case fst ?run of Inr _ \<Rightarrow> True | Inl _ \<Rightarrow> False" by code_simp
  then obtain w n s' where run: "?run = (Inr (w, n), s')"
    by (cases ?run) (auto split: sum.splits)
  show ?thesis
    using wrap_unwrap_roundtrip [OF run sample_aead_ok sample_random_ok] run by auto
qed

definition sample_secret :: encrypted_secret where
  "sample_secret = (case and_then (crypto_engine_build_row_identity sample_env ''id1'' ''a'' 65) (\<lambda>identity.
      fst (crypto_engine_encrypt sample_env [1, 2, 3] (replicate 32 9) identity 1 1 \<lparr>tick = 0\<rparr>)) of
    Inr es \<Rightarrow> es
  | Inl _ \<Rightarrow> \<lparr>es_algorithm = [], es_ciphertext = [], es_encrypted_dek = [], es_nonce = [], es_dek_nonce = [],
      es_key_commitment = []\<rparr>)"

definition sample_row :: secret_row where
  "sample_row = \<lparr>s_id = ''id1'', s_name = ''a'', s_name_nonce = [], s_encrypted_name = [], s_version = 1,
     s_algorithm = es_algorithm sample_secret, s_ciphertext = es_ciphertext sample_secret,
     s_encrypted_dek = es_encrypted_dek sample_secret, s_nonce = es_nonce sample_secret,
     s_dek_nonce = es_dek_nonce sample_secret, s_key_commitment = es_key_commitment sample_secret,
     s_nonce_counter = 1, s_created_at = [], s_updated_at = [], s_expires_at = None,
     s_rotation_interval = None, s_is_archived = False\<rparr>"

definition sample_rows_store :: store where
  "sample_rows_store = \<lparr>tick = 0, g_db = True,
     tables = \<lparr>secrets = [sample_row], audit_log = [], metadata = Map.empty, auth_failures = []\<rparr>, saved = None\<rparr>"

theorem rotate_kek_keeps_secrets_witness:
  "\<exists>s' r'. key_manager_rotate_kek sample_env (replicate 32 9) (replicate 32 8) sample_rows_store = (Inr (), s') \<and>
    secrets (tables s') = [r'] \<and> row_decrypt sample_env (replicate 32 9) sample_row 3 = Inr [1, 2, 3] \<and>
    row_decrypt sample_env (replicate 32 8) r' 3 = Inr [1, 2, 3]"
proof -
  let ?run = "key_manager_rotate_kek sample_env (replicate 32 9) (replicate 32 8) sample_rows_store"
  have "fst ?run = Inr ()" by code_simp
  then obtain s' where run: "?run = (Inr (), s')" by (cases ?run) auto
  have dec: "row_decrypt sample_env (replicate 32 9) sample_row 3 = Inr [1, 2, 3]" by code_simp
  have "row_columns_ok sample_row" by code_simp
  moreover have "secrets (tables sample_rows_store) = [sample_row]" by (simp add: sample_rows_store_def)
  moreover have "crypto_ok sample_env"
    by (simp add: crypto_ok_def sample_hashes_ok sample_aead_ok sample_random_ok)
  ultimately show ?thesis
    using rotate_kek_keeps_secrets [OF run] run dec
    by (simp add: list_all2_Cons1 sample_rows_store_def) fastforce
qed

end
