(* ===== verification/Fuin_Access.thy ===== *)
theory Fuin_Access
  imports Complex_Main Fuin_Crypto
begin

text \<open>
  Access tokens, \<open>src/src/access.c\<close>: scope matching, the token format, issuing and
  verification. The JSON library is a parameter (\<open>json_lib\<close>): a printer of objects and a
  parser that returns the members of the object it read. A JSON number is a rational, so
  that every finite \<open>double\<close> is one; a document that is not an object has no members.
\<close>

section \<open>Model\<close>

definition ACCESS_SUBJECT_MAX :: nat where "ACCESS_SUBJECT_MAX = 128"
definition ACCESS_SCOPE_MAX :: nat where "ACCESS_SCOPE_MAX = 256"
definition ACCESS_TOKEN_BUFFER_LEN :: nat where "ACCESS_TOKEN_BUFFER_LEN = 2048"
definition ACCESS_TOKEN_PREFIX :: string where "ACCESS_TOKEN_PREFIX = ''fu1.''"
definition ACCESS_NONCE_BYTES :: nat where "ACCESS_NONCE_BYTES = 16"
definition ACCESS_MAX_JSON_SECONDS :: int where "ACCESS_MAX_JSON_SECONDS = 9007199254740991"

datatype json_value = JNumber rat | JString string | JOther

type_synonym json_object = "(string \<times> json_value) list"

record json_lib =
  print_unformatted :: "json_object \<Rightarrow> string"
  parse_with_length :: "bytes \<Rightarrow> json_object option"

record access_token_claims =
  subject :: string
  scope :: string
  issued_at :: "64 word"
  expires_at :: "64 word"

subsection \<open>Claims and the payload\<close>

definition access_copy_claim :: "nat \<Rightarrow> string \<Rightarrow> string result" where
  "access_copy_claim output_len input =
     (if output_len = 0 \<or> input = [] then Inl SM_ERR_INVALID_ARGUMENT
      else if output_len \<le> length input then Inl SM_ERR_INVALID_ARGUMENT else Inr input)"

definition access_now :: "env \<Rightarrow> ('a world_scheme, 64 word) comp" where
  "access_now E = andthen (sys_time E) (\<lambda>current.
     if current < 0 then raise SM_ERR_STORAGE else ret (of_int current))"

definition access_make_nonce_b64 :: "env \<Rightarrow> nat \<Rightarrow> ('a world_scheme, string) comp" where
  "access_make_nonce_b64 E nonce_b64_len =
     andthen (guard (nonce_b64_len \<noteq> 0) SM_ERR_INVALID_ARGUMENT) (\<lambda>_.
     andthen (randombytes_buf E ACCESS_NONCE_BYTES) (\<lambda>nonce.
     lift_result (utils_base64_encode E nonce nonce_b64_len)))"

definition access_validate_key :: "bytes \<Rightarrow> unit result" where
  "access_validate_key kek_token = check (length kek_token = 32) SM_ERR_INVALID_ARGUMENT"

definition access_payload_items :: "string \<Rightarrow> string \<Rightarrow> 64 word \<Rightarrow> 64 word \<Rightarrow> string \<Rightarrow> json_object" where
  "access_payload_items sub sc iat ex nonce_b64 =
     [(''v'', JNumber 1), (''sub'', JString sub), (''scope'', JString sc),
      (''iat'', JNumber (of_int (uint iat))), (''exp'', JNumber (of_int (uint ex))),
      (''nonce'', JString nonce_b64)]"

definition access_build_payload ::
  "env \<Rightarrow> json_lib \<Rightarrow> string \<Rightarrow> string \<Rightarrow> 64 word \<Rightarrow> 64 word \<Rightarrow> ('a world_scheme, bytes) comp" where
  "access_build_payload E J sub sc iat ex =
     andthen (access_make_nonce_b64 E (base64_encoded_len ACCESS_NONCE_BYTES)) (\<lambda>nonce_b64.
     ret (str_bytes (print_unformatted J (access_payload_items sub sc iat ex nonce_b64))))"

definition access_b64_encode_alloc :: "env \<Rightarrow> bytes \<Rightarrow> string result" where
  "access_b64_encode_alloc E input = utils_base64_encode E input (base64_encoded_len (length input))"

subsection \<open>The token text\<close>

definition access_compose_token :: "string \<Rightarrow> string \<Rightarrow> nat \<Rightarrow> string result" where
  "access_compose_token payload_b64 signature_b64 token_len =
     (let text = ACCESS_TOKEN_PREFIX @ payload_b64 @ ''.'' @ signature_b64 in
      if token_len = 0 \<or> token_len \<le> length text then Inl SM_ERR_INVALID_ARGUMENT else Inr text)"

definition access_extract_token_parts :: "string \<Rightarrow> (string \<times> string) result" where
  "access_extract_token_parts token =
     (if length token \<le> length ACCESS_TOKEN_PREFIX \<or> ACCESS_TOKEN_BUFFER_LEN < length token \<or>
         take (length ACCESS_TOKEN_PREFIX) token \<noteq> ACCESS_TOKEN_PREFIX
      then Inl SM_ERR_AUTH
      else
        let rest = drop (length ACCESS_TOKEN_PREFIX) token;
            payload = takeWhile (\<lambda>c. c \<noteq> CHR ''.'') rest in
        if CHR ''.'' \<notin> set rest \<or> payload = [] then Inl SM_ERR_AUTH
        else
          let signature = drop (Suc (length payload)) rest in
          if signature = [] \<or> CHR ''.'' \<in> set signature then Inl SM_ERR_AUTH
          else Inr (payload, signature))"

definition access_decode_payload :: "env \<Rightarrow> string \<Rightarrow> bytes result" where
  "access_decode_payload E payload_b64 =
     (if payload_b64 = [] \<or> ACCESS_TOKEN_BUFFER_LEN < length payload_b64 then Inl SM_ERR_AUTH
      else case utils_base64_decode E payload_b64 (length payload_b64) of
        Inl _ \<Rightarrow> Inl SM_ERR_AUTH
      | Inr payload \<Rightarrow> Inr payload)"

definition access_decode_signature :: "env \<Rightarrow> string \<Rightarrow> bytes result" where
  "access_decode_signature E signature_b64 =
     (case utils_base64_decode E signature_b64 32 of
        Inl _ \<Rightarrow> Inl SM_ERR_AUTH
      | Inr sig \<Rightarrow> if length sig \<noteq> 32 then Inl SM_ERR_AUTH else Inr sig)"

subsection \<open>Reading the claims\<close>

text \<open>\<open>cJSON_GetObjectItemCaseSensitive\<close>: the first member with that name.\<close>

definition json_item :: "json_object \<Rightarrow> string \<Rightarrow> json_value option" where
  "json_item obj name = map_option snd (find (\<lambda>(k, v). c_str k = name) obj)"

text \<open>The \<open>valueint\<close> of a number: truncated towards zero and saturated.\<close>

definition json_valueint :: "rat \<Rightarrow> int" where
  "json_valueint x =
     (if of_int INT_MAX \<le> x then INT_MAX
      else if x \<le> - of_int INT_MAX - 1 then - INT_MAX - 1
      else if x < 0 then \<lceil>x\<rceil> else \<lfloor>x\<rfloor>)"

definition access_json_uint64 :: "json_object \<Rightarrow> string \<Rightarrow> 64 word result" where
  "access_json_uint64 obj name =
     (case json_item obj name of
        Some (JNumber x) \<Rightarrow>
          if x < 0 \<or> of_int ACCESS_MAX_JSON_SECONDS < x then Inl SM_ERR_AUTH else Inr (of_int \<lfloor>x\<rfloor>)
      | _ \<Rightarrow> Inl SM_ERR_AUTH)"

definition access_json_string :: "json_object \<Rightarrow> string \<Rightarrow> nat \<Rightarrow> string result" where
  "access_json_string obj name output_len =
     (case json_item obj name of
        Some (JString s) \<Rightarrow> access_copy_claim output_len (c_str s)
      | _ \<Rightarrow> Inl SM_ERR_AUTH)"

definition access_check_version :: "json_object \<Rightarrow> unit result" where
  "access_check_version obj =
     (case json_item obj ''v'' of
        Some (JNumber x) \<Rightarrow> check (json_valueint x = 1) SM_ERR_AUTH
      | _ \<Rightarrow> Inl SM_ERR_AUTH)"

definition access_check_nonce :: "env \<Rightarrow> json_object \<Rightarrow> unit result" where
  "access_check_nonce E obj =
     (case json_item obj ''nonce'' of
        Some (JString s) \<Rightarrow>
          (case utils_base64_decode E (c_str s) ACCESS_NONCE_BYTES of
             Inl _ \<Rightarrow> Inl SM_ERR_AUTH
           | Inr b \<Rightarrow> check (length b = ACCESS_NONCE_BYTES) SM_ERR_AUTH)
      | _ \<Rightarrow> Inl SM_ERR_AUTH)"

definition access_parse_claims :: "env \<Rightarrow> json_lib \<Rightarrow> bytes \<Rightarrow> access_token_claims result" where
  "access_parse_claims E J payload =
     (if payload = [] then Inl SM_ERR_INVALID_ARGUMENT
      else case parse_with_length J payload of
        None \<Rightarrow> Inl SM_ERR_AUTH
      | Some obj \<Rightarrow>
          and_then (access_check_version obj) (\<lambda>_.
          and_then (access_json_string obj ''sub'' ACCESS_SUBJECT_MAX) (\<lambda>sub.
          and_then (access_json_string obj ''scope'' ACCESS_SCOPE_MAX) (\<lambda>sc.
          and_then (access_json_uint64 obj ''iat'') (\<lambda>iat.
          and_then (access_json_uint64 obj ''exp'') (\<lambda>ex.
          and_then (check (\<not> ex \<le> iat) SM_ERR_AUTH) (\<lambda>_.
          and_then (access_check_nonce E obj) (\<lambda>_.
          Inr \<lparr>subject = sub, scope = sc, issued_at = iat, expires_at = ex\<rparr>))))))))"

subsection \<open>Scopes\<close>

text \<open>\<open>required[i]\<close> of a C string, its terminating NUL included.\<close>

definition char_at :: "string \<Rightarrow> nat \<Rightarrow> char" where
  "char_at s i = (if i < length s then s ! i else CHR 0x00)"

definition access_resource_matches :: "string \<Rightarrow> string \<Rightarrow> bool" where
  "access_resource_matches allowed required =
     (if allowed = ''*'' then True
      else if allowed \<noteq> [] \<and> allowed ! (length allowed - 1) = CHR ''*'' then
        let prefix_len = length allowed - 1 in
        if take prefix_len allowed \<noteq> take prefix_len required then False
        else if 0 < prefix_len \<and> allowed ! (prefix_len - 1) \<noteq> CHR ''/'' then
          char_at required prefix_len = CHR 0x00 \<or> char_at required prefix_len = CHR ''/''
        else True
      else length allowed = length required \<and> take (length required) allowed = take (length required) required)"

definition access_one_scope_allows :: "string \<Rightarrow> string \<Rightarrow> bool" where
  "access_one_scope_allows token_scope required_scope =
     (if token_scope = [] then False
      else if token_scope = ''*'' then True
      else if CHR '':'' \<notin> set token_scope \<or> CHR '':'' \<notin> set required_scope then False
      else
        let token_action_len = length (takeWhile (\<lambda>c. c \<noteq> CHR '':'') token_scope);
            required_action_len = length (takeWhile (\<lambda>c. c \<noteq> CHR '':'') required_scope) in
        if token_action_len = 0 \<or> required_action_len = 0 then False
        else if \<not> ((token_action_len = 1 \<and> token_scope ! 0 = CHR ''*'') \<or>
          (token_action_len = required_action_len \<and>
            take required_action_len token_scope = take required_action_len required_scope)) then False
        else access_resource_matches (drop (Suc token_action_len) token_scope)
          (drop (Suc required_action_len) required_scope))"

text \<open>The loop over the comma-separated scopes; \<open>cursor\<close> moves past each comma.\<close>

function access_scope_loop :: "string \<Rightarrow> string \<Rightarrow> bool" where
  "access_scope_loop cursor required =
     (if cursor = [] then False
      else
        let one = takeWhile (\<lambda>c. c \<noteq> CHR '','') cursor in
        if access_one_scope_allows one required then True
        else if CHR '','' \<notin> set cursor then False
        else access_scope_loop (drop (Suc (length one)) cursor) required)"
  by pat_completeness auto
termination
  by (relation "measure (\<lambda>(cursor, _). length cursor)") auto

definition access_scope_allows :: "string \<Rightarrow> string \<Rightarrow> bool" where
  "access_scope_allows token_scope required_scope =
     (if token_scope = [] \<or> required_scope = [] then False
      else access_scope_loop token_scope required_scope)"

subsection \<open>Issuing and verification\<close>

definition access_issue_token ::
  "env \<Rightarrow> json_lib \<Rightarrow> string \<Rightarrow> string \<Rightarrow> 64 word \<Rightarrow> bytes \<Rightarrow> nat \<Rightarrow> ('a world_scheme, string) comp" where
  "access_issue_token E J sub sc ttl_seconds kek_token token_len =
     andthen (guard (ttl_seconds \<noteq> 0 \<and> token_len \<noteq> 0) SM_ERR_INVALID_ARGUMENT) (\<lambda>_.
     andthen (lift_result (access_validate_key kek_token)) (\<lambda>_.
     andthen (lift_result (require_sodium E)) (\<lambda>_.
     andthen (lift_result (access_copy_claim ACCESS_SUBJECT_MAX sub)) (\<lambda>subject_copy.
     andthen (lift_result (access_copy_claim ACCESS_SCOPE_MAX sc)) (\<lambda>scope_copy.
     andthen (access_now E) (\<lambda>iat.
     andthen (guard (\<not> (- 1 - iat < ttl_seconds)) SM_ERR_INVALID_ARGUMENT) (\<lambda>_.
     let ex = iat + ttl_seconds in
     andthen (guard (\<not> ACCESS_MAX_JSON_SECONDS < uint ex) SM_ERR_INVALID_ARGUMENT) (\<lambda>_.
     andthen (access_build_payload E J subject_copy scope_copy iat ex) (\<lambda>payload.
     let signature = crypto_auth E kek_token payload in
     andthen (lift_result (access_b64_encode_alloc E payload)) (\<lambda>payload_b64.
     andthen (lift_result (access_b64_encode_alloc E signature)) (\<lambda>signature_b64.
     lift_result (access_compose_token payload_b64 signature_b64 token_len))))))))))))"

definition access_verify_token ::
  "env \<Rightarrow> json_lib \<Rightarrow> string \<Rightarrow> string option \<Rightarrow> bytes \<Rightarrow> ('a world_scheme, access_token_claims) comp" where
  "access_verify_token E J token required_scope kek_token =
     andthen (guard (token \<noteq> []) SM_ERR_INVALID_ARGUMENT) (\<lambda>_.
     andthen (lift_result (access_validate_key kek_token)) (\<lambda>_.
     andthen (lift_result (require_sodium E)) (\<lambda>_.
     andthen (lift_result (access_extract_token_parts token)) (\<lambda>(payload_b64, signature_b64).
     andthen (lift_result (access_decode_payload E payload_b64)) (\<lambda>payload.
     andthen (lift_result (access_decode_signature E signature_b64)) (\<lambda>signature.
     andthen (guard (signature = crypto_auth E kek_token payload) SM_ERR_AUTH) (\<lambda>_.
     andthen (lift_result (access_parse_claims E J payload)) (\<lambda>parsed.
     andthen (access_now E) (\<lambda>now.
     andthen (guard (\<not> expires_at parsed \<le> now) SM_ERR_AUTH) (\<lambda>_.
     andthen (guard (case required_scope of
         None \<Rightarrow> True | Some r \<Rightarrow> r = [] \<or> access_scope_allows (scope parsed) r) SM_ERR_AUTH) (\<lambda>_.
     ret parsed)))))))))))"

section \<open>Reference definitions\<close>

text \<open>
  The documented behaviour of the JSON library: an object whose strings have no NUL and whose
  numbers are integers that a \<open>double\<close> holds exactly is read back as it was printed.
\<close>

fun json_exact :: "json_value \<Rightarrow> bool" where
  "json_exact (JNumber x) \<longleftrightarrow> (\<exists>n :: int. x = of_int n \<and> 0 \<le> n \<and> n \<le> ACCESS_MAX_JSON_SECONDS)"
| "json_exact (JString s) \<longleftrightarrow> nul_free s"
| "json_exact JOther \<longleftrightarrow> False"

definition json_ok :: "json_lib \<Rightarrow> bool" where
  "json_ok J \<longleftrightarrow> (\<forall>items. list_all (\<lambda>(k, v). nul_free k \<and> json_exact v) items \<longrightarrow>
     parse_with_length J (str_bytes (print_unformatted J items)) = Some items \<and>
     print_unformatted J items \<noteq> [])"

text \<open>What a scope grants, clause by clause.\<close>

definition resource_grants :: "string \<Rightarrow> string \<Rightarrow> bool" where
  "resource_grants allowed required \<longleftrightarrow> allowed = ''*'' \<or>
     (allowed = required \<and> (allowed = [] \<or> last allowed \<noteq> CHR ''*'')) \<or>
     (\<exists>pre rest. allowed = pre @ ''*'' \<and> required = pre @ rest \<and>
       (last pre = CHR ''/'' \<or> rest = [] \<or> hd rest = CHR ''/''))"

definition scope_grants :: "string \<Rightarrow> string \<Rightarrow> bool" where
  "scope_grants one required \<longleftrightarrow> one = ''*'' \<or>
     (\<exists>act res ract rres. one = act @ '':'' @ res \<and> required = ract @ '':'' @ rres \<and>
       CHR '':'' \<notin> set act \<and> CHR '':'' \<notin> set ract \<and> act \<noteq> [] \<and> ract \<noteq> [] \<and>
       (act = ''*'' \<or> act = ract) \<and> resource_grants res rres)"

fun split_commas :: "string \<Rightarrow> string list" where
  "split_commas [] = [[]]"
| "split_commas (c # cs) =
     (if c = CHR '','' then [] # split_commas cs
      else case split_commas cs of p # ps \<Rightarrow> (c # p) # ps | [] \<Rightarrow> [[c]])"

section \<open>Scopes\<close>

declare access_scope_loop.simps [simp del]

lemma cut_at_first:
  "c \<in> set s \<Longrightarrow> s = takeWhile (\<lambda>x. x \<noteq> c) s @ c # drop (Suc (length (takeWhile (\<lambda>x. x \<noteq> c) s))) s"
  by (induction s) auto

lemma takeWhile_cut [simp]: "c \<notin> set a \<Longrightarrow> takeWhile (\<lambda>x. x \<noteq> c) (a @ c # b) = a"
  by (induction a) auto

lemma take_eq_prefix: "take (length p) s = p \<longleftrightarrow> (\<exists>rest. s = p @ rest)"
  by (metis append_eq_conv_conj append_take_drop_id)

lemma resource_matches_iff:
  assumes "nul_free required"
  shows "access_resource_matches allowed required \<longleftrightarrow> resource_grants allowed required"
proof (cases "allowed = [] \<or> last allowed \<noteq> CHR ''*''")
  case True
  then show ?thesis
    by (auto simp: access_resource_matches_def resource_grants_def last_conv_nth)
next
  case False
  then obtain pre where pre: "allowed = pre @ ''*''" by (metis append_butlast_last_id)
  have after: "char_at (pre @ rest) (length pre) = CHR 0x00 \<or> char_at (pre @ rest) (length pre) = CHR ''/'' \<longleftrightarrow>
      rest = [] \<or> hd rest = CHR ''/''" if "required = pre @ rest" for rest
    using assms that by (cases rest) (auto simp: char_at_def nul_free_def)
  show ?thesis
  proof (cases "pre = []")
    case True
    then show ?thesis by (simp add: pre access_resource_matches_def resource_grants_def)
  next
    case nonempty: False
    have pos: "length pre - 1 < length pre" using nonempty by simp
    have ends: "(pre @ ''*'') ! (length pre - 1) = last pre"
      by (simp only: nth_append_left [OF pos] last_conv_nth [OF nonempty])
    have "access_resource_matches allowed required \<longleftrightarrow> take (length pre) required = pre \<and>
        (last pre = CHR ''/'' \<or> char_at required (length pre) = CHR 0x00 \<or> char_at required (length pre) = CHR ''/'')"
      using nonempty ends
      by (simp add: pre access_resource_matches_def Let_def eq_commute [of pre "take (length pre) required"])
    also have "\<dots> \<longleftrightarrow> (\<exists>rest. required = pre @ rest \<and>
        (last pre = CHR ''/'' \<or> rest = [] \<or> hd rest = CHR ''/''))"
    proof (cases "\<exists>rest. required = pre @ rest")
      case True
      then obtain rest where r: "required = pre @ rest" by blast
      show ?thesis using after [OF r] by (simp add: r)
    next
      case False
      then show ?thesis by (simp add: take_eq_prefix)
    qed
    finally have "access_resource_matches allowed required \<longleftrightarrow> (\<exists>rest. required = pre @ rest \<and>
        (last pre = CHR ''/'' \<or> rest = [] \<or> hd rest = CHR ''/''))" .
    then show ?thesis using nonempty False by (auto simp: resource_grants_def pre)
  qed
qed

lemma one_scope_iff:
  assumes "nul_free required"
  shows "access_one_scope_allows one required \<longleftrightarrow> scope_grants one required"
proof (cases "one = ''*'' \<or> CHR '':'' \<notin> set one \<or> CHR '':'' \<notin> set required")
  case True
  then show ?thesis by (auto simp: access_one_scope_allows_def scope_grants_def)
next
  case False
  obtain act res where one: "one = act @ CHR '':'' # res" "CHR '':'' \<notin> set act"
    using False split_list_first [of "CHR '':''" one] by auto
  obtain ract rres where req: "required = ract @ CHR '':'' # rres" "CHR '':'' \<notin> set ract"
    using False split_list_first [of "CHR '':''" required] by auto
  have nul: "nul_free rres" using assms by (simp add: req nul_free_def)
  have star: "length act = 1 \<and> one ! 0 = CHR ''*'' \<longleftrightarrow> act = ''*''"
    by (cases act) (auto simp: one)
  have same: "length act = length ract \<and> take (length ract) one = take (length ract) required \<longleftrightarrow> act = ract"
    by (auto simp: one req)
  have "access_one_scope_allows one required \<longleftrightarrow>
      act \<noteq> [] \<and> ract \<noteq> [] \<and> (act = ''*'' \<or> act = ract) \<and> access_resource_matches res rres"
    using star same False one(2) req(2)
    unfolding access_one_scope_allows_def Let_def
    by (simp add: one(1) req(1))
  moreover have "scope_grants one required \<longleftrightarrow>
      act \<noteq> [] \<and> ract \<noteq> [] \<and> (act = ''*'' \<or> act = ract) \<and> resource_grants res rres"
    (is "_ \<longleftrightarrow> ?R")
  proof
    assume "scope_grants one required"
    then obtain act' res' ract' rres' where s: "one = act' @ CHR '':'' # res'" "required = ract' @ CHR '':'' # rres'"
        "CHR '':'' \<notin> set act'" "CHR '':'' \<notin> set ract'" "act' \<noteq> []" "ract' \<noteq> []" "act' = ''*'' \<or> act' = ract'"
        "resource_grants res' rres'"
      using False by (auto simp: scope_grants_def)
    have "act = act' \<and> res = res'" using split_at_first [OF one(2) s(3)] one(1) s(1) by metis
    moreover have "ract = ract' \<and> rres = rres'" using split_at_first [OF req(2) s(4)] req(1) s(2) by metis
    ultimately show ?R using s by simp
  next
    assume ?R
    then show "scope_grants one required" using one req unfolding scope_grants_def by auto
  qed
  ultimately show ?thesis using resource_matches_iff [OF nul] by simp
qed

lemma split_commas_first:
  "split_commas s = takeWhile (\<lambda>c. c \<noteq> CHR '','') s #
    (if CHR '','' \<in> set s then split_commas (drop (Suc (length (takeWhile (\<lambda>c. c \<noteq> CHR '','') s))) s) else [])"
  by (induction s) auto

lemma split_commas_single: "CHR '','' \<notin> set s \<Longrightarrow> s \<noteq> [] \<Longrightarrow> split_commas s = [s]"
proof (induction s)
  case (Cons c s)
  then show ?case by (cases s) auto
qed simp

lemma scope_loop_iff:
  "access_scope_loop cursor required \<longleftrightarrow> (\<exists>p \<in> set (split_commas cursor). access_one_scope_allows p required)"
proof (induction cursor required rule: access_scope_loop.induct)
  case (1 cursor required)
  show ?case
  proof (cases "cursor = []")
    case True
    then show ?thesis by (simp add: access_scope_loop.simps [of "[]"] access_one_scope_allows_def)
  next
    case False
    let ?one = "takeWhile (\<lambda>c. c \<noteq> CHR '','') cursor"
    show ?thesis
      using 1 [OF False refl] False
      by (auto simp: access_scope_loop.simps [of cursor] split_commas_first [of cursor] Let_def)
  qed
qed

text \<open>
  C36: What a token's scope grants. \<open>access_scope_allows\<close> holds exactly when one of the
  comma-separated scopes of the token grants the required scope: a lone star grants all;
  otherwise both have a non-empty action before their first colon, the token's action is a
  star or the same, and the resource is equal, is a star, or is a prefix followed by a star
  that ends with a slash or is followed in the required resource by a slash or its end.
\<close>

theorem scope_allows_spec:
  assumes "nul_free required"
  shows "access_scope_allows token_scope required \<longleftrightarrow>
    token_scope \<noteq> [] \<and> required \<noteq> [] \<and> (\<exists>one \<in> set (split_commas token_scope). scope_grants one required)"
  by (simp add: access_scope_allows_def scope_loop_iff one_scope_iff [OF assms])

section \<open>The token text\<close>

lemma extract_compose:
  assumes "access_compose_token p g len = Inr t" "CHR ''.'' \<notin> set p" "CHR ''.'' \<notin> set g" "p \<noteq> []" "g \<noteq> []"
    and "len \<le> Suc ACCESS_TOKEN_BUFFER_LEN"
  shows "access_extract_token_parts t = Inr (p, g)" "t \<noteq> []"
  using assms
  by (auto simp: access_compose_token_def access_extract_token_parts_def Let_def ACCESS_TOKEN_PREFIX_def
      split: if_splits)

lemma extract_Inr:
  "access_extract_token_parts t = Inr (p, g) \<longleftrightarrow>
    t = ACCESS_TOKEN_PREFIX @ p @ CHR ''.'' # g \<and> CHR ''.'' \<notin> set p \<and> CHR ''.'' \<notin> set g \<and> p \<noteq> [] \<and> g \<noteq> [] \<and>
    length t \<le> ACCESS_TOKEN_BUFFER_LEN" (is "?L \<longleftrightarrow> ?R")
proof
  assume L: ?L
  define rest where "rest = drop (length ACCESS_TOKEN_PREFIX) t"
  have "take (length ACCESS_TOKEN_PREFIX) t = ACCESS_TOKEN_PREFIX" and len: "length t \<le> ACCESS_TOKEN_BUFFER_LEN"
    using L by (auto simp: access_extract_token_parts_def split: if_splits)
  then have t: "t = ACCESS_TOKEN_PREFIX @ rest"
    unfolding rest_def by (metis append_take_drop_id)
  have dot: "CHR ''.'' \<in> set rest" and p: "p = takeWhile (\<lambda>c. c \<noteq> CHR ''.'') rest" "p \<noteq> []"
    and g: "g = drop (Suc (length p)) rest" "g \<noteq> []" "CHR ''.'' \<notin> set g"
    using L by (auto simp: access_extract_token_parts_def Let_def simp flip: rest_def split: if_splits)
  have "rest = p @ CHR ''.'' # g" using cut_at_first [OF dot] p g by simp
  moreover have "CHR ''.'' \<notin> set p" using p by (auto dest: set_takeWhileD)
  ultimately show ?R using t len p g by simp
next
  assume ?R
  then show ?L by (auto simp: access_extract_token_parts_def Let_def ACCESS_TOKEN_PREFIX_def)
qed

section \<open>Issued tokens verify\<close>

lemma b64_encode_alloc [simp]:
  "access_b64_encode_alloc E b = and_then (require_sodium E) (\<lambda>_. Inr (bin2base64 E b))"
  by (simp add: access_b64_encode_alloc_def utils_base64_encode_def)

lemma base64_law:
  assumes "base64_ok E"
  shows "base642bin E (bin2base64 E b) = Some b" "CHR ''.'' \<notin> set (bin2base64 E b)"
    "nul_free (bin2base64 E b)" "length (bin2base64 E b) = 4 * ((length b + 2) div 3)"
    "length b \<le> length (bin2base64 E b)" "bin2base64 E b = [] \<longleftrightarrow> b = []"
proof -
  show l: "base642bin E (bin2base64 E b) = Some b" "CHR ''.'' \<notin> set (bin2base64 E b)"
    "nul_free (bin2base64 E b)" "length (bin2base64 E b) = 4 * ((length b + 2) div 3)"
    using assms by (auto simp: base64_ok_def)
  show le: "length b \<le> length (bin2base64 E b)" unfolding l(4) by linarith
  show "bin2base64 E b = [] \<longleftrightarrow> b = []"
    using le l(4) by (cases b) (auto simp flip: length_greater_0_conv)
qed

lemma expiry_after_issue:
  fixes iat ttl :: "64 word"
  assumes "\<not> - 1 - iat < ttl" "ttl \<noteq> 0"
  shows "uint (iat + ttl) = uint iat + uint ttl" "\<not> iat + ttl \<le> iat"
proof -
  have "uint (- 1 - iat) = 2 ^ 64 - 1 - uint iat"
    using uint_minus_simple_alt [of iat "- 1"] by (simp add: unsigned_minus_1_eq_mask mask_eq_exp_minus_1)
  then have "uint iat + uint ttl < 2 ^ 64" using assms(1) by (simp add: word_less_def)
  then show u: "uint (iat + ttl) = uint iat + uint ttl" by (simp add: uint_word_ariths(1))
  have "0 < uint ttl" using assms(2) by (simp add: word_neq_0_conv word_less_def)
  then show "\<not> iat + ttl \<le> iat" using u by (simp add: word_le_def)
qed

lemma issue_Inr:
  assumes "access_issue_token E J sub sc ttl key len s = (Inr t, s')"
  obtains iat nonce where "ttl \<noteq> 0" "length key = 32" "sodium_init_ok E" "sub \<noteq> []" "length sub < 128"
    "sc \<noteq> []" "length sc < 256" "iat = of_int (clock E (tick s))" "\<not> - 1 - iat < ttl"
    "uint (iat + ttl) \<le> ACCESS_MAX_JSON_SECONDS" "nonce = randombytes E (Suc (tick s)) 16"
    "let payload = str_bytes (print_unformatted J (access_payload_items sub sc iat (iat + ttl) (bin2base64 E nonce))) in
      access_compose_token (bin2base64 E payload) (bin2base64 E (crypto_auth E key payload)) len = Inr t"
  using assms
  by (auto simp: access_issue_token_def andthen_eq_Inr Let_def access_validate_key_def access_copy_claim_def
      access_now_def access_build_payload_def access_make_nonce_b64_def utils_base64_encode_def and_then_eq_Inr
      ACCESS_SUBJECT_MAX_def ACCESS_SCOPE_MAX_def ACCESS_NONCE_BYTES_def not_less split: if_splits)

lemma json_uint64_exact:
  "json_item obj name = Some (JNumber (of_int n)) \<Longrightarrow> 0 \<le> n \<Longrightarrow> n \<le> ACCESS_MAX_JSON_SECONDS \<Longrightarrow>
    access_json_uint64 obj name = Inr (of_int n)"
  by (simp add: access_json_uint64_def)

lemma parse_claims_payload:
  assumes "json_ok J" "base64_ok E" "sodium_init_ok E" "nul_free sub" "nul_free sc" "length nonce = 16"
    and "sub \<noteq> []" "length sub < 128" "sc \<noteq> []" "length sc < 256"
    and "\<not> ex \<le> iat" "uint ex \<le> ACCESS_MAX_JSON_SECONDS"
  defines "items \<equiv> access_payload_items sub sc iat ex (bin2base64 E nonce)"
  shows "access_parse_claims E J (str_bytes (print_unformatted J items)) =
      Inr \<lparr>subject = sub, scope = sc, issued_at = iat, expires_at = ex\<rparr>"
    "print_unformatted J items \<noteq> []"
proof -
  have iat: "uint iat \<le> ACCESS_MAX_JSON_SECONDS" using assms(11,12) by (simp add: word_le_def)
  have num: "json_exact (JNumber (of_int (uint w)))" if "uint w \<le> ACCESS_MAX_JSON_SECONDS" for w :: "64 word"
    using that by (auto intro!: exI [of _ "uint w"] simp: of_nat_unat)
  have one: "json_exact (JNumber 1)"
    by (auto intro!: exI [of _ "1 :: int"] simp: ACCESS_MAX_JSON_SECONDS_def)
  have keys: "nul_free ''v''" "nul_free ''sub''" "nul_free ''scope''" "nul_free ''iat''" "nul_free ''exp''"
      "nul_free ''nonce''"
    by (simp_all add: nul_free_def)
  have "list_all (\<lambda>(k, v). nul_free k \<and> json_exact v) items"
    using assms(4,5) num [OF iat] num [OF assms(12)] one base64_law(3) [OF assms(2), of nonce] keys
    by (simp add: items_def access_payload_items_def del: json_exact.simps(1))
  then have ok: "parse_with_length J (str_bytes (print_unformatted J items)) = Some items"
      "print_unformatted J items \<noteq> []"
    using assms(1) by (auto simp: json_ok_def)
  show "print_unformatted J items \<noteq> []" by (rule ok(2))
  have "str_bytes (print_unformatted J items) \<noteq> []" using ok(2) by (simp add: str_bytes_def)
  moreover have "json_item items ''v'' = Some (JNumber 1)" "json_item items ''sub'' = Some (JString sub)"
      "json_item items ''scope'' = Some (JString sc)" "json_item items ''iat'' = Some (JNumber (of_int (uint iat)))"
      "json_item items ''exp'' = Some (JNumber (of_int (uint ex)))"
      "json_item items ''nonce'' = Some (JString (bin2base64 E nonce))"
    using keys by (simp_all add: json_item_def items_def access_payload_items_def)
  moreover have "json_valueint 1 = 1" by (simp add: json_valueint_def INT_MAX_def)
  moreover have "access_json_uint64 items name = Inr w"
    if "json_item items name = Some (JNumber (of_int (uint w)))" "uint w \<le> ACCESS_MAX_JSON_SECONDS" for name w
  proof -
    from json_uint64_exact [OF that(1) _ that(2)] show ?thesis by simp
  qed
  ultimately show "access_parse_claims E J (str_bytes (print_unformatted J items)) =
      Inr \<lparr>subject = sub, scope = sc, issued_at = iat, expires_at = ex\<rparr>"
    using ok(1) assms(3-12) iat base64_law [OF assms(2), of nonce]
    by (simp add: access_parse_claims_def access_check_version_def access_json_string_def access_copy_claim_def
        access_check_nonce_def require_sodium_def utils_base64_decode_def ACCESS_SUBJECT_MAX_def ACCESS_SCOPE_MAX_def ACCESS_NONCE_BYTES_def)
qed

lemma issued_token_result:
  assumes "access_issue_token E J sub sc ttl key len s = (Inr token, s')"
    and "json_ok J" "base64_ok E" "auth_ok E" "random_ok E" "nul_free sub" "nul_free sc"
    and "len \<le> ACCESS_TOKEN_BUFFER_LEN" "0 \<le> clock E (tick s2)"
  shows "fst (access_verify_token E J token req key s2) =
    (let issued = of_int (clock E (tick s)); now = of_int (clock E (tick s2)) in
     if issued + ttl \<le> now then Inl SM_ERR_AUTH
     else if (case req of None \<Rightarrow> True | Some r \<Rightarrow> r = [] \<or> access_scope_allows sc r)
     then Inr \<lparr>subject = sub, scope = sc, issued_at = issued, expires_at = issued + ttl\<rparr>
     else Inl SM_ERR_AUTH)"
proof -
  obtain iat nonce where i: "ttl \<noteq> 0" "length key = 32" "sodium_init_ok E" "sub \<noteq> []" "length sub < 128"
    "sc \<noteq> []" "length sc < 256" "iat = of_int (clock E (tick s))" "\<not> - 1 - iat < ttl"
    "uint (iat + ttl) \<le> ACCESS_MAX_JSON_SECONDS" "nonce = randombytes E (Suc (tick s)) 16"
    "let payload = str_bytes (print_unformatted J (access_payload_items sub sc iat (iat + ttl) (bin2base64 E nonce))) in
      access_compose_token (bin2base64 E payload) (bin2base64 E (crypto_auth E key payload)) len = Inr token"
    using issue_Inr [OF assms(1)] .
  have "length nonce = 16" using assms(5) i(11) by (simp add: random_ok_def)
  note p = parse_claims_payload [OF assms(2,3) i(3) assms(6,7) this i(4-7) expiry_after_issue(2) [OF i(9,1)] i(10)]
  define payload where "payload =
    str_bytes (print_unformatted J (access_payload_items sub sc iat (iat + ttl) (bin2base64 E nonce)))"
  define g where "g = crypto_auth E key payload"
  have g: "length g = 32" using assms(4) by (simp add: g_def auth_ok_def)
  have ne: "payload \<noteq> []" using p(2) by (simp add: payload_def str_bytes_def)
  have "g \<noteq> []" using g by auto
  with ne have b: "bin2base64 E payload \<noteq> []" "bin2base64 E g \<noteq> []"
    by (simp_all add: base64_law(6) [OF assms(3)])
  have tok: "access_compose_token (bin2base64 E payload) (bin2base64 E g) len = Inr token"
    using i(12) by (simp only: Let_def payload_def g_def)
  have ex: "access_extract_token_parts token = Inr (bin2base64 E payload, bin2base64 E g)" "token \<noteq> []"
    using extract_compose [OF tok base64_law(2) [OF assms(3)] base64_law(2) [OF assms(3)] b] assms(8) by simp_all
  have "length (bin2base64 E payload) \<le> ACCESS_TOKEN_BUFFER_LEN"
    using ex(1) by (auto simp: extract_Inr)
  then have "access_decode_payload E (bin2base64 E payload) = Inr payload"
    using b(1) i(3) base64_law [OF assms(3), of payload]
    by (simp add: access_decode_payload_def require_sodium_def utils_base64_decode_def)
  moreover have "access_decode_signature E (bin2base64 E g) = Inr g"
    using i(3) g base64_law [OF assms(3), of g] by (simp add: access_decode_signature_def require_sodium_def utils_base64_decode_def)
  moreover have "access_parse_claims E J payload =
      Inr \<lparr>subject = sub, scope = sc, issued_at = iat, expires_at = iat + ttl\<rparr>"
    using p(1) by (simp add: payload_def)
  ultimately show ?thesis
    using i(2,3) ex assms(9) i(8)
    by (simp add: access_verify_token_def andthen_def access_validate_key_def access_now_def guard_def Let_def require_sodium_def
        flip: g_def split: option.splits)
qed

text \<open>
  C34: An issued token is worth exactly what was asked for. Verified under the same key at any
  later state, it yields the subject, the scope and the lifetime it was issued with, until
  the clock reaches the expiry, and only for a required scope that its own scope allows;
  otherwise the verdict is \<open>SM_ERR_AUTH\<close>.
\<close>

theorem issued_token_verifies:
  assumes "access_issue_token E J sub sc ttl key len s = (Inr token, s')"
    and "json_ok J" "base64_ok E" "auth_ok E" "random_ok E" "nul_free sub" "nul_free sc"
    and "len \<le> ACCESS_TOKEN_BUFFER_LEN" "0 \<le> clock E (tick s2)"
  shows "fst (access_verify_token E J token req key s2) =
    (let issued = of_int (clock E (tick s)); now = of_int (clock E (tick s2)) in
     if issued + ttl \<le> now then Inl SM_ERR_AUTH
     else if (case req of None \<Rightarrow> True | Some r \<Rightarrow> r = [] \<or> access_scope_allows sc r)
     then Inr \<lparr>subject = sub, scope = sc, issued_at = issued, expires_at = issued + ttl\<rparr>
     else Inl SM_ERR_AUTH)"
  by (rule issued_token_result [OF assms])

lemma verify_token_Inr:
  assumes "access_verify_token E J token req key s = (Inr claims, s')"
  shows "\<exists>p g payload. token = ACCESS_TOKEN_PREFIX @ p @ ''.'' @ g \<and> base642bin E p = Some payload \<and>
    base642bin E g = Some (crypto_auth E key payload) \<and> access_parse_claims E J payload = Inr claims \<and>
    issued_at claims < expires_at claims \<and>
    0 \<le> clock E (tick s) \<and> of_int (clock E (tick s)) < expires_at claims \<and>
    (case req of None \<Rightarrow> True | Some r \<Rightarrow> r = [] \<or> access_scope_allows (scope claims) r)"
proof -
  from assms obtain p g payload where v:
      "access_extract_token_parts token = Inr (p, g)" "access_decode_payload E p = Inr payload"
      "access_decode_signature E g = Inr (crypto_auth E key payload)" "access_parse_claims E J payload = Inr claims"
      "0 \<le> clock E (tick s)" "of_int (clock E (tick s)) < expires_at claims"
      "case req of None \<Rightarrow> True | Some r \<Rightarrow> r = [] \<or> access_scope_allows (scope claims) r"
    by (auto simp: access_verify_token_def andthen_eq_Inr access_now_def not_le split: if_splits)
  have "base642bin E p = Some payload"
    using v(2) by (auto simp: access_decode_payload_def utils_base64_decode_def and_then_eq_Inr
        split: if_splits sum.splits option.splits)
  moreover have "base642bin E g = Some (crypto_auth E key payload)"
    using v(3) by (auto simp: access_decode_signature_def utils_base64_decode_def and_then_eq_Inr
        split: if_splits sum.splits option.splits)
  moreover have "issued_at claims < expires_at claims"
    using v(4) by (auto simp: access_parse_claims_def and_then_eq_Inr not_le split: if_splits option.splits)
  ultimately show ?thesis using v(1,4-7) by (auto simp: extract_Inr)
qed

text \<open>
  C35: What an accepted token proves. When \<open>access_verify_token\<close> accepts, the token is the
  prefix, a payload and a signature in base64 separated by a dot; the signature is the
  authenticator of the payload under the token key; the claims are those of the payload; the
  clock has not reached their expiry; and the required scope, if any, is allowed by theirs.
\<close>

theorem verify_token_sound:
  assumes "access_verify_token E J token req key s = (Inr claims, s')"
  shows "\<exists>p g payload. token = ACCESS_TOKEN_PREFIX @ p @ ''.'' @ g \<and> base642bin E p = Some payload \<and>
    base642bin E g = Some (crypto_auth E key payload) \<and> access_parse_claims E J payload = Inr claims \<and>
    issued_at claims < expires_at claims \<and>
    0 \<le> clock E (tick s) \<and> of_int (clock E (tick s)) < expires_at claims \<and>
    (case req of None \<Rightarrow> True | Some r \<Rightarrow> r = [] \<or> access_scope_allows (scope claims) r)"
  by (rule verify_token_Inr [OF assms])

section \<open>A sample JSON codec\<close>

text \<open>
  A small concrete printer and parser with the documented round trip, used to evaluate the
  model: every text is preceded by its length in unary.
\<close>

definition sample_text :: "string \<Rightarrow> string" where
  "sample_text s = replicate (length s) CHR ''x'' @ CHR ''.'' # s"

definition sample_untext :: "string \<Rightarrow> string \<times> string" where
  "sample_untext cs =
     (let n = length (takeWhile (\<lambda>c. c = CHR ''x'') cs); rest = drop (Suc n) cs in (take n rest, drop n rest))"

text \<open>Binary digits, the lowest first.\<close>

function sample_bits :: "int \<Rightarrow> string" where
  "sample_bits n = (if n \<le> 0 then [] else (if n mod 2 = 0 then CHR ''0'' else CHR ''1'') # sample_bits (n div 2))"
  by pat_completeness auto
termination
  by (relation "measure nat") auto

definition sample_unbits :: "string \<Rightarrow> int" where
  "sample_unbits s = foldr (\<lambda>c a. 2 * a + (if c = CHR ''1'' then 1 else 0)) s 0"

fun sample_print_value :: "json_value \<Rightarrow> string" where
  "sample_print_value (JNumber x) = CHR ''n'' # sample_text (sample_bits \<lfloor>x\<rfloor>)"
| "sample_print_value (JString s) = CHR ''s'' # sample_text s"
| "sample_print_value JOther = CHR ''o'' # sample_text []"

fun sample_print :: "json_object \<Rightarrow> string" where
  "sample_print [] = ''.''"
| "sample_print ((k, v) # items) = CHR '','' # sample_text k @ sample_print_value v @ sample_print items"

definition sample_parse_value :: "char \<Rightarrow> string \<Rightarrow> json_value" where
  "sample_parse_value tag text =
     (if tag = CHR ''n'' then JNumber (of_int (sample_unbits text))
      else if tag = CHR ''s'' then JString text else JOther)"

fun sample_parse :: "nat \<Rightarrow> string \<Rightarrow> json_object option" where
  "sample_parse 0 cs = None"
| "sample_parse (Suc n) cs =
     (if cs = [] then None
      else if hd cs = CHR ''.'' then Some []
      else
        let (k, rest) = sample_untext (tl cs); (t, rest') = sample_untext (tl rest) in
        map_option (\<lambda>items. (k, sample_parse_value (hd rest) t) # items) (sample_parse n rest'))"

definition sample_json :: json_lib where
  "sample_json = \<lparr>print_unformatted = sample_print,
     parse_with_length = (\<lambda>b. sample_parse (length b) (map (\<lambda>x. char_of (unat x)) b))\<rparr>"

declare sample_bits.simps [simp del]

lemma sample_untext_text [simp]: "sample_untext (sample_text s @ r) = (s, r)"
proof -
  have "takeWhile (\<lambda>c. c = CHR ''x'') (replicate (length s) CHR ''x'' @ CHR ''.'' # s @ r) =
      replicate (length s) CHR ''x''"
    by (simp add: takeWhile_append)
  then show ?thesis by (simp add: sample_untext_def sample_text_def Let_def)
qed

lemma sample_unbits_bits: "0 \<le> n \<Longrightarrow> sample_unbits (sample_bits n) = n"
proof (induction n rule: sample_bits.induct)
  case (1 n)
  show ?case
  proof (cases "n = 0")
    case True
    then show ?thesis by (simp add: sample_bits.simps [of 0] sample_unbits_def)
  next
    case False
    then have "sample_unbits (sample_bits (n div 2)) = n div 2" using 1 by simp
    then show ?thesis
      using False 1(2) by (simp add: sample_bits.simps [of n] sample_unbits_def) presburger
  qed
qed

lemma sample_value_back:
  assumes "json_exact v"
  shows "sample_print_value v \<noteq> [] \<and> sample_untext (tl (sample_print_value v) @ r) =
    (case v of JNumber x \<Rightarrow> sample_bits \<lfloor>x\<rfloor> | JString s \<Rightarrow> s | JOther \<Rightarrow> [], r) \<and>
    sample_parse_value (hd (sample_print_value v))
      (case v of JNumber x \<Rightarrow> sample_bits \<lfloor>x\<rfloor> | JString s \<Rightarrow> s | JOther \<Rightarrow> []) = v"
  using assms by (cases v) (auto simp: sample_parse_value_def sample_unbits_bits)

lemma sample_parse_print:
  "list_all (\<lambda>(k, v). nul_free k \<and> json_exact v) items \<Longrightarrow> length items < n \<Longrightarrow>
    sample_parse n (sample_print items) = Some items"
proof (induction items arbitrary: n)
  case Nil
  then show ?case by (cases n) auto
next
  case (Cons kv items)
  obtain k v m where kv: "kv = (k, v)" "n = Suc m" "length items < m"
    using Cons.prems(2) by (cases kv; cases n) auto
  then have "json_exact v" using Cons.prems(1) by simp
  note v = sample_value_back [OF this, of "sample_print items"]
  have "sample_parse m (sample_print items) = Some items" using Cons.IH Cons.prems(1) kv by simp
  then show ?case using v by (simp add: kv)
qed

lemma sample_print_length: "length items < length (sample_print items)"
  by (induction items rule: sample_print.induct) auto

lemma sample_json_ok: "json_ok sample_json"
proof -
  have "map (\<lambda>x. char_of (unat x)) (str_bytes s) = s" for s
    by (simp add: str_bytes_def comp_def)
  then show ?thesis
    using sample_parse_print sample_print_length
    by (auto simp: json_ok_def sample_json_def) (metis length_0_conv less_nat_zero_code)
qed

section \<open>Sample runs\<close>

theorem scope_allows_spec_witness:
  "nul_free ''read:db/prod'' \<and> access_scope_allows ''write:x,read:db/*'' ''read:db/prod'' \<and>
   (\<exists>one \<in> set (split_commas ''write:x,read:db/*''). scope_grants one ''read:db/prod'')"
proof -
  have n: "nul_free ''read:db/prod''" and a: "access_scope_allows ''write:x,read:db/*'' ''read:db/prod''"
    by code_simp+
  from a show ?thesis using n unfolding scope_allows_spec [OF n] by blast
qed

definition sample_issue :: "string result \<times> world" where
  "sample_issue = access_issue_token sample_env sample_json ''ci'' ''read:a'' 3600 (replicate 32 7) 2048 \<lparr>tick = 0\<rparr>"

lemma sample_payload_length:
  "length (print_unformatted sample_json (access_payload_items ''ci'' ''read:a'' 1719792000 1719795600
    (bin2base64 sample_env (randombytes sample_env (Suc 0) 16)))) = 255"
  by code_simp

lemma sample_clock_laws:
  "base64_ok (sample_env\<lparr>clock := c\<rparr>)" "auth_ok (sample_env\<lparr>clock := c\<rparr>)" "random_ok (sample_env\<lparr>clock := c\<rparr>)"
  using sample_base64_ok sample_hashes_ok(2) sample_random_ok by (simp_all add: base64_ok_def auth_ok_def random_ok_def)

lemma sample_issue_with:
  assumes "c 0 = 1719792000" "length key = 32" "sc \<noteq> []" "length sc < ACCESS_SCOPE_MAX"
    and "length (print_unformatted sample_json (access_payload_items ''ci'' sc 1719792000 1719795600
      (bin2base64 sample_env (randombytes sample_env (Suc 0) 16)))) < 300"
  obtains token s' where "access_issue_token (sample_env\<lparr>clock := c\<rparr>) sample_json ''ci'' sc 3600 key 2048 \<lparr>tick = 0\<rparr> =
    (Inr token, s')"
proof -
  let ?E = "sample_env\<lparr>clock := c\<rparr>"
  let ?p = "str_bytes (print_unformatted sample_json (access_payload_items ''ci'' sc 1719792000 1719795600
    (bin2base64 sample_env (randombytes sample_env (Suc 0) 16))))"
  have s: "sodium_init_ok ?E" "clock ?E 0 = 1719792000" using assms by (simp_all add: sample_env_def)
  have "length (bin2base64 sample_env ?p) < 404"
    using assms(5) by (simp add: base64_law(4) [OF sample_base64_ok])
  moreover have "length (bin2base64 sample_env (crypto_auth sample_env key ?p)) = 44"
    using sample_hashes_ok(2) by (simp add: base64_law(4) [OF sample_base64_ok] auth_ok_def)
  ultimately obtain token where
      "access_compose_token (bin2base64 sample_env ?p) (bin2base64 sample_env (crypto_auth sample_env key ?p)) 2048 = Inr token"
    by (simp add: access_compose_token_def ACCESS_TOKEN_PREFIX_def Let_def)
  then have "fst (access_issue_token ?E sample_json ''ci'' sc 3600 key 2048 \<lparr>tick = 0\<rparr>) = Inr token"
    using sample_random_ok s assms(2-4)
    by (simp add: access_issue_token_def andthen_def guard_def access_validate_key_def
        require_sodium_def access_copy_claim_def access_now_def access_build_payload_def access_make_nonce_b64_def
        utils_base64_encode_def Let_def ACCESS_SUBJECT_MAX_def ACCESS_SCOPE_MAX_def ACCESS_NONCE_BYTES_def
        ACCESS_MAX_JSON_SECONDS_def random_ok_def base64_encoded_len_def)
  then show ?thesis using that by (metis prod.collapse)
qed

lemma sample_issue_runs:
  assumes "c 0 = 1719792000"
  obtains token s' where "access_issue_token (sample_env\<lparr>clock := c\<rparr>) sample_json ''ci'' ''read:a'' 3600 (replicate 32 7) 2048 \<lparr>tick = 0\<rparr> =
    (Inr token, s')"
  by (rule sample_issue_with [of c "replicate 32 7" "''read:a''"])
     (simp_all add: assms sample_payload_length ACCESS_SCOPE_MAX_def)

lemma sample_issue_eq:
  obtains token s' where "sample_issue = (Inr token, s')"
proof -
  have "clock sample_env 0 = 1719792000" by (simp add: sample_env_def)
  then show ?thesis using sample_issue_runs [of "clock sample_env"] that unfolding sample_issue_def by auto
qed

lemma sample_verify:
  assumes "sample_issue = (Inr token, s')"
  shows "fst (access_verify_token sample_env sample_json token (Some ''read:a'') (replicate 32 7) \<lparr>tick = 10\<rparr>) =
      Inr \<lparr>subject = ''ci'', scope = ''read:a'', issued_at = 1719792000, expires_at = 1719795600\<rparr>"
proof -
  have n: "nul_free ''ci''" "nul_free ''read:a''" "access_scope_allows ''read:a'' ''read:a''" by code_simp+
  have c: "clock sample_env t = 1719792000 + int t" for t by (simp add: sample_env_def)
  show ?thesis
    using issued_token_result [OF assms [unfolded sample_issue_def] sample_json_ok sample_base64_ok
        sample_hashes_ok(2) sample_random_ok n(1,2), of "\<lparr>tick = 10\<rparr>" "Some ''read:a''"] n(3)
    by (simp add: c Let_def ACCESS_TOKEN_BUFFER_LEN_def)
qed

theorem issued_token_verifies_witness:
  "\<exists>token. fst sample_issue = Inr token \<and>
    fst (access_verify_token sample_env sample_json token (Some ''read:b'') (replicate 32 7) \<lparr>tick = 10\<rparr>) =
      Inl SM_ERR_AUTH \<and>
    fst (access_verify_token sample_env sample_json token None (replicate 32 7) \<lparr>tick = 3600\<rparr>) =
      Inl SM_ERR_AUTH \<and>
    fst (access_verify_token sample_env sample_json token None (replicate 32 7) \<lparr>tick = 3599\<rparr>) =
      Inr \<lparr>subject = ''ci'', scope = ''read:a'', issued_at = 1719792000, expires_at = 1719795600\<rparr>"
proof -
  obtain token s' where run: "sample_issue = (Inr token, s')" by (rule sample_issue_eq)
  have n: "nul_free ''ci''" "nul_free ''read:a''" "\<not> access_scope_allows ''read:a'' ''read:b''" by code_simp+
  have c: "clock sample_env t = 1719792000 + int t" for t by (simp add: sample_env_def)
  have "fst sample_issue = Inr token" using run by (metis fst_conv)
  note v = this issued_token_verifies [OF run [unfolded sample_issue_def] sample_json_ok sample_base64_ok
      sample_hashes_ok(2) sample_random_ok n(1,2)]
  show ?thesis
    using v(2) [of "\<lparr>tick = 10\<rparr>" "Some ''read:b''"] v(2) [of "\<lparr>tick = 3600\<rparr>" None]
      v(2) [of "\<lparr>tick = 3599\<rparr>" None] v(1) n(3)
    by (intro exI [of _ token]) (simp add: c Let_def ACCESS_TOKEN_BUFFER_LEN_def)
qed

theorem verify_token_sound_witness:
  "\<exists>token claims p g payload. fst (access_verify_token sample_env sample_json token (Some ''read:a'') (replicate 32 7)
      \<lparr>tick = 10\<rparr>) = Inr claims \<and> token = ACCESS_TOKEN_PREFIX @ p @ ''.'' @ g \<and> base642bin sample_env p = Some payload \<and>
    base642bin sample_env g = Some (crypto_auth sample_env (replicate 32 7) payload)"
proof -
  obtain token s' where run: "sample_issue = (Inr token, s')" by (rule sample_issue_eq)
  let ?v = "access_verify_token sample_env sample_json token (Some ''read:a'') (replicate 32 7) \<lparr>tick = 10\<rparr>"
  obtain claims s2 where v: "?v = (Inr claims, s2)" using sample_verify [OF run] by (metis prod.collapse)
  from verify_token_sound [OF this] obtain p g payload where "token = ACCESS_TOKEN_PREFIX @ p @ ''.'' @ g"
      "base642bin sample_env p = Some payload"
      "base642bin sample_env g = Some (crypto_auth sample_env (replicate 32 7) payload)" by blast
  moreover have "fst ?v = Inr claims" using v by simp
  ultimately show ?thesis by blast
qed

text \<open>
  A trailing star after a slash covers every depth. A scope whose resource is a path
  followed by \<open>/*\<close> allows its action on every resource below that path, whatever the rest of
  the resource is, further slashes included.
\<close>

theorem star_spans_segments:
  assumes "act \<noteq> []" "CHR '':'' \<notin> set act" "CHR '','' \<notin> set act" "CHR '','' \<notin> set path"
    and "nul_free (act @ '':'' @ path @ ''/'' @ below)"
  shows "access_scope_allows (act @ '':'' @ path @ ''/*'') (act @ '':'' @ path @ ''/'' @ below)"
proof -
  let ?one = "act @ '':'' @ path @ ''/*''" and ?req = "act @ '':'' @ path @ ''/'' @ below"
  have "resource_grants (path @ ''/*'') (path @ ''/'' @ below)"
    unfolding resource_grants_def by (intro disjI2 exI [of _ "path @ ''/''"] exI [of _ below]) simp
  then have "scope_grants ?one ?req"
    unfolding scope_grants_def using assms(1,2)
    by (intro disjI2 exI [of _ act] exI [of _ "path @ ''/*''"] exI [of _ act] exI [of _ "path @ ''/'' @ below"]) simp
  then have "access_one_scope_allows ?one ?req" by (simp only: one_scope_iff [OF assms(5)])
  moreover have "split_commas ?one = [?one]" by (rule split_commas_single) (use assms(3,4) in auto)
  ultimately show ?thesis
    by (simp add: access_scope_allows_def scope_loop_iff del: append_Cons append_assoc)
qed

theorem star_spans_segments_witness:
  "access_scope_allows ''read:db/*'' ''read:db/a/b''"
  using star_spans_segments [of "''read''" "''db''" "''a/b''"] by (simp add: nul_free_def)

end
