(* ===== verification/Fuin_Vault_Data.thy ===== *)
theory Fuin_Vault_Data
  imports Fuin_Keys Fuin_Access
begin

text \<open>
  The state of the vault and the data access layer of \<open>src/src/vault.c\<close>, lines 45 to 1557:
  name lookup and display names, the metadata table, credentials, and the queries and
  updates of the \<open>secrets\<close> table. The state extends the store by \<open>g_subkeys\<close> and
  \<open>g_unlocked\<close>. Static functions that read \<open>*g_subkeys\<close> take the subkeys as the argument
  \<open>k\<close>: their callers have passed \<open>vault_require_unlocked\<close>, so the pointer is not NULL.
\<close>

section \<open>State\<close>

record vault = store +
  g_subkeys :: "kdf_subkeys option"
  g_unlocked :: bool

definition VAULT_SECRET_NAME_MAX :: nat where "VAULT_SECRET_NAME_MAX = 256"
definition VAULT_NAME_NONCE_BYTES :: nat where "VAULT_NAME_NONCE_BYTES = 24"
definition XCHACHA_ABYTES :: nat where "XCHACHA_ABYTES = 16"
definition VAULT_ENCRYPTED_NAME_MAX :: nat where
  "VAULT_ENCRYPTED_NAME_MAX = VAULT_SECRET_NAME_MAX + XCHACHA_ABYTES"
definition VAULT_META_KEY_WRAP_AAD :: string where "VAULT_META_KEY_WRAP_AAD = ''vault:kek_meta:v1''"
definition VAULT_META_KEY_WRAP_BYTES :: nat where "VAULT_META_KEY_WRAP_BYTES = 48"
definition VAULT_METADATA_SALT :: string where "VAULT_METADATA_SALT = ''salt''"
definition VAULT_METADATA_VERIFIER :: string where "VAULT_METADATA_VERIFIER = ''password_verifier''"
definition VAULT_METADATA_TOKEN_NOT_BEFORE :: string where "VAULT_METADATA_TOKEN_NOT_BEFORE = ''token_not_before''"
definition VAULT_METADATA_META_KEY_NONCE :: string where "VAULT_METADATA_META_KEY_NONCE = ''meta_key_nonce''"
definition VAULT_METADATA_META_KEY_WRAPPED :: string where "VAULT_METADATA_META_KEY_WRAPPED = ''meta_key_wrapped''"

text \<open>\<open>vault_lock_state\<close>, and the check that guards every operation; it yields \<open>*g_subkeys\<close>.\<close>

definition vault_lock_state :: "(vault, unit) comp" where
  "vault_lock_state = modify (\<lambda>s. s\<lparr>g_subkeys := None, g_unlocked := False\<rparr>)"

definition vault_require_unlocked :: "(vault, kdf_subkeys) comp" where
  "vault_require_unlocked = (\<lambda>s.
     case g_subkeys s of
       Some k \<Rightarrow> if g_unlocked s then (Inr k, s) else (Inl SM_ERR_AUTH, s)
     | None \<Rightarrow> (Inl SM_ERR_AUTH, s))"

definition vault_log_success :: "env \<Rightarrow> kdf_subkeys \<Rightarrow> string \<Rightarrow> string \<Rightarrow> int \<Rightarrow> (vault, unit) comp" where
  "vault_log_success E k action target target_version =
     audit_log_event E (Some ''user:default'') action target target_version ''SUCCESS'' (kek_audit k)"

section \<open>Names\<close>

definition vault_build_name_lookup :: "env \<Rightarrow> kdf_subkeys \<Rightarrow> string \<Rightarrow> string result" where
  "vault_build_name_lookup E k name =
     (if name = [] then Inl SM_ERR_INVALID_ARGUMENT
      else Inr (bin2hex E (generichash E (kek_meta k) (str_bytes name))))"

text \<open>The nonce and the encrypted name.\<close>

definition vault_encrypt_display_name ::
  "env \<Rightarrow> kdf_subkeys \<Rightarrow> string \<Rightarrow> string \<Rightarrow> (vault, bytes \<times> bytes) comp" where
  "vault_encrypt_display_name E k name stored_name =
     andthen (guard (stored_name \<noteq> [] \<and> name \<noteq> [] \<and> length name \<le> VAULT_SECRET_NAME_MAX)
       SM_ERR_INVALID_ARGUMENT) (\<lambda>_.
     andthen (randombytes_buf E VAULT_NAME_NONCE_BYTES) (\<lambda>nonce.
     ret (nonce, aead_encrypt E XCHACHA20_POLY1305 (kek_meta k) nonce (str_bytes stored_name) (str_bytes name))))"

definition vault_decrypt_display_name ::
  "env \<Rightarrow> kdf_subkeys \<Rightarrow> string \<Rightarrow> bytes \<Rightarrow> bytes \<Rightarrow> nat \<Rightarrow> string result" where
  "vault_decrypt_display_name E k stored_name nonce encrypted_name name_len =
     (if stored_name = [] \<or> length nonce \<noteq> VAULT_NAME_NONCE_BYTES \<or>
         length encrypted_name \<le> XCHACHA_ABYTES \<or> VAULT_ENCRYPTED_NAME_MAX < length encrypted_name \<or> name_len = 0
      then Inl SM_ERR_INVALID_ARGUMENT
      else case aead_decrypt E XCHACHA20_POLY1305 (kek_meta k) nonce (str_bytes stored_name) encrypted_name of
        None \<Rightarrow> Inl SM_ERR_CRYPTO
      | Some b \<Rightarrow> if name_len \<le> length b then Inl SM_ERR_STORAGE
          else Inr (c_str (map (\<lambda>x. char_of (unat x)) b)))"

text \<open>Secret names are free of C0 control bytes and DEL.\<close>

definition vault_name_is_clean :: "string \<Rightarrow> bool" where
  "vault_name_is_clean name \<longleftrightarrow> name \<noteq> [] \<and> length name \<le> VAULT_SECRET_NAME_MAX \<and>
     list_all (\<lambda>c. \<not> (of_char c :: int) < 0x20 \<and> (of_char c :: int) \<noteq> 0x7F) name"

section \<open>Columns\<close>

definition vault_copy_text_column :: "string \<Rightarrow> nat \<Rightarrow> string result" where
  "vault_copy_text_column text output_len =
     (if output_len \<le> length (c_str text) then Inl SM_ERR_STORAGE else Inr (c_str text))"

definition vault_column_blob_size :: "bytes \<Rightarrow> nat result" where
  "vault_column_blob_size blob = (if blob = [] then Inl SM_ERR_STORAGE else Inr (length blob))"

definition vault_copy_blob_column :: "bytes \<Rightarrow> nat \<Rightarrow> bytes result" where
  "vault_copy_blob_column blob output_len =
     (if blob = [] \<or> length blob \<noteq> output_len then Inl SM_ERR_STORAGE else Inr blob)"

definition vault_copy_name_metadata :: "secret_row \<Rightarrow> (bytes \<times> bytes) result" where
  "vault_copy_name_metadata r =
     (if length (s_name_nonce r) \<noteq> VAULT_NAME_NONCE_BYTES \<or> length (s_encrypted_name r) \<le> XCHACHA_ABYTES \<or>
         VAULT_ENCRYPTED_NAME_MAX < length (s_encrypted_name r)
      then Inl SM_ERR_STORAGE else Inr (s_name_nonce r, s_encrypted_name r))"

section \<open>The metadata table\<close>

definition vault_get_metadata_blob :: "env \<Rightarrow> string \<Rightarrow> nat \<Rightarrow> ('a store_scheme, bytes option) comp" where
  "vault_get_metadata_blob E key output_len =
     andthen require_db (\<lambda>_.
     andthen (sql_select E (\<lambda>d. metadata d key)) (\<lambda>found.
     case found of
       None \<Rightarrow> ret None
     | Some blob \<Rightarrow> if output_len < length blob then raise SM_ERR_STORAGE else ret (Some blob)))"

definition vault_put_metadata_blob :: "env \<Rightarrow> string \<Rightarrow> bytes \<Rightarrow> ('a store_scheme, unit) comp" where
  "vault_put_metadata_blob E key value =
     andthen require_db (\<lambda>_.
     andthen (sql_prepare E) (\<lambda>_.
     andthen (guard (int (length value) \<le> INT_MAX) SM_ERR_INVALID_ARGUMENT) (\<lambda>_.
     sql_write E (\<lambda>d. Some (d\<lparr>metadata := (metadata d)(key \<mapsto> value)\<rparr>)))))"

definition vault_get_token_not_before :: "env \<Rightarrow> ('a store_scheme, 64 word) comp" where
  "vault_get_token_not_before E =
     andthen (vault_get_metadata_blob E VAULT_METADATA_TOKEN_NOT_BEFORE 8) (\<lambda>found.
     case found of
       None \<Rightarrow> ret 0
     | Some encoded \<Rightarrow> if length encoded \<noteq> 8 then raise SM_ERR_STORAGE else ret (read_le encoded))"

definition vault_put_token_not_before :: "env \<Rightarrow> 64 word \<Rightarrow> ('a store_scheme, unit) comp" where
  "vault_put_token_not_before E not_before =
     vault_put_metadata_blob E VAULT_METADATA_TOKEN_NOT_BEFORE (utils_write_u64_le not_before)"

definition vault_put_wrapped_meta_key :: "env \<Rightarrow> bytes \<Rightarrow> bytes \<Rightarrow> ('a store_scheme, unit) comp" where
  "vault_put_wrapped_meta_key E meta_key wrapping_key =
     andthen (randombytes_buf E (npub_bytes XCHACHA20_POLY1305)) (\<lambda>nonce.
     let wrapped = aead_encrypt E XCHACHA20_POLY1305 wrapping_key nonce (str_bytes VAULT_META_KEY_WRAP_AAD) meta_key in
     andthen (guard (length wrapped = VAULT_META_KEY_WRAP_BYTES) SM_ERR_CRYPTO) (\<lambda>_.
     andthen (vault_put_metadata_blob E VAULT_METADATA_META_KEY_NONCE nonce) (\<lambda>_.
     vault_put_metadata_blob E VAULT_METADATA_META_KEY_WRAPPED wrapped)))"

text \<open>The subkeys with the stored metadata key in place of the derived one.\<close>

definition vault_load_meta_key :: "env \<Rightarrow> kdf_subkeys \<Rightarrow> ('a store_scheme, kdf_subkeys) comp" where
  "vault_load_meta_key E k =
     andthen (vault_get_metadata_blob E VAULT_METADATA_META_KEY_NONCE (npub_bytes XCHACHA20_POLY1305)) (\<lambda>nonce.
     andthen (vault_get_metadata_blob E VAULT_METADATA_META_KEY_WRAPPED VAULT_META_KEY_WRAP_BYTES) (\<lambda>wrapped.
     case (nonce, wrapped) of
       (Some n, Some w) \<Rightarrow>
         if length n \<noteq> npub_bytes XCHACHA20_POLY1305 \<or> length w \<noteq> VAULT_META_KEY_WRAP_BYTES then raise SM_ERR_STORAGE
         else (case aead_decrypt E XCHACHA20_POLY1305 (kek_enc k) n (str_bytes VAULT_META_KEY_WRAP_AAD) w of
             None \<Rightarrow> raise SM_ERR_AUTH
           | Some meta_key \<Rightarrow>
               if length meta_key \<noteq> key_bytes XCHACHA20_POLY1305 then raise SM_ERR_STORAGE
               else ret (k\<lparr>kek_meta := meta_key\<rparr>))
     | _ \<Rightarrow> raise SM_ERR_STORAGE))"

definition vault_log_auth_failure_untrusted :: "env \<Rightarrow> ('a store_scheme, unit) comp" where
  "vault_log_auth_failure_untrusted E =
     andthen require_db (\<lambda>_.
     andthen (utils_now_iso8601 E UTILS_ISO8601_UTC_BUFFER_LEN) (\<lambda>now.
     sql_write E (\<lambda>d. Some (d\<lparr>auth_failures := auth_failures d @ [(now, ''FAILURE'')]\<rparr>))))"

text \<open>Salt and verifier, if the vault has been initialised.\<close>

definition vault_load_auth_metadata :: "env \<Rightarrow> ('a store_scheme, (bytes \<times> bytes) option) comp" where
  "vault_load_auth_metadata E =
     andthen (vault_get_metadata_blob E VAULT_METADATA_SALT KDF_SALT_BYTES) (\<lambda>salt.
     andthen (vault_get_metadata_blob E VAULT_METADATA_VERIFIER crypto_hash_sha256_BYTES) (\<lambda>verifier.
     case (salt, verifier) of
       (None, None) \<Rightarrow> ret None
     | (Some a, Some b) \<Rightarrow>
         if length a \<noteq> KDF_SALT_BYTES \<or> length b \<noteq> crypto_hash_sha256_BYTES then raise SM_ERR_STORAGE
         else ret (Some (a, b))
     | _ \<Rightarrow> raise SM_ERR_STORAGE))"

definition vault_store_auth_metadata :: "env \<Rightarrow> bytes \<Rightarrow> bytes \<Rightarrow> kdf_subkeys \<Rightarrow> ('a store_scheme, unit) comp" where
  "vault_store_auth_metadata E salt verifier k =
     andthen (storage_begin_transaction E) (\<lambda>_.
     finally_do
       (andthen (vault_put_metadata_blob E VAULT_METADATA_SALT salt) (\<lambda>_.
        andthen (vault_put_metadata_blob E VAULT_METADATA_VERIFIER verifier) (\<lambda>_.
        vault_put_wrapped_meta_key E (kek_meta k) (kek_enc k))))
       (commit_or_rollback E))"

text \<open>A fresh salt, the verifier and the subkeys of a new password.\<close>

definition vault_derive_credentials ::
  "env \<Rightarrow> string \<Rightarrow> ('a world_scheme, bytes \<times> bytes \<times> kdf_subkeys) comp" where
  "vault_derive_credentials E master_password =
     andthen (guard (master_password \<noteq> []) SM_ERR_INVALID_ARGUMENT) (\<lambda>_.
     andthen (kdf_generate_salt E) (\<lambda>salt.
     andthen (lift_result (fst (kdf_derive_master_key E master_password salt))) (\<lambda>master_key.
     let verifier = sha256 E master_key in
     andthen (lift_result (fst (kdf_derive_subkeys E master_key))) (\<lambda>k.
     ret (salt, verifier, k)))))"

section \<open>Queries on the secrets\<close>

text \<open>\<open>VAULT_SQL_ACTIVE_ROW\<close>: not archived, and no row of the same name has a higher version.\<close>

definition active_row :: "secret_row list \<Rightarrow> secret_row \<Rightarrow> bool" where
  "active_row rows r \<longleftrightarrow> \<not> s_is_archived r \<and>
     list_all (\<lambda>x. s_name x = s_name r \<longrightarrow> s_version x \<le> s_version r) rows"

record secret_metadata =
  md_id :: string
  md_version :: int
  md_nonce_counter :: int
  md_name_nonce :: bytes
  md_encrypted_name :: bytes
  md_created_at :: string
  md_expires_at :: "string option"
  md_rotation_interval :: int

text \<open>A nullable integer column, read as 0 when NULL, and a nullable text column.\<close>

definition column_int64 :: "int option \<Rightarrow> int" where
  "column_int64 c = (case c of None \<Rightarrow> 0 | Some i \<Rightarrow> i)"

definition copy_optional_text :: "string option \<Rightarrow> nat \<Rightarrow> string option result" where
  "copy_optional_text c n =
     (case c of None \<Rightarrow> Inr None | Some t \<Rightarrow> and_then (vault_copy_text_column t n) (\<lambda>u. Inr (Some u)))"

definition vault_read_metadata :: "secret_row \<Rightarrow> secret_metadata result" where
  "vault_read_metadata r =
     and_then (vault_copy_text_column (s_id r) UTILS_UUID_V4_BUFFER_LEN) (\<lambda>rid.
     and_then (vault_copy_name_metadata r) (\<lambda>(name_nonce, encrypted_name).
     and_then (vault_copy_text_column (s_created_at r) UTILS_ISO8601_UTC_BUFFER_LEN) (\<lambda>created.
     and_then (copy_optional_text (s_expires_at r) UTILS_ISO8601_UTC_BUFFER_LEN) (\<lambda>expires.
     let interval = column_int64 (s_rotation_interval r) in
     if interval < 0 then Inl SM_ERR_STORAGE
     else if c_int (s_version r) < 1 \<or> s_nonce_counter r < 0 then Inl SM_ERR_STORAGE
     else Inr \<lparr>md_id = rid, md_version = c_int (s_version r), md_nonce_counter = s_nonce_counter r,
        md_name_nonce = name_nonce, md_encrypted_name = encrypted_name, md_created_at = created,
        md_expires_at = expires, md_rotation_interval = interval\<rparr>))))"

definition vault_find_secret_metadata ::
  "env \<Rightarrow> string \<Rightarrow> ('a store_scheme, secret_metadata option) comp" where
  "vault_find_secret_metadata E name =
     andthen require_db (\<lambda>_.
     andthen (sql_select E (\<lambda>d. find (\<lambda>r. s_name r = name \<and> active_row (secrets d) r) (secrets d))) (\<lambda>found.
     case found of
       None \<Rightarrow> ret None
     | Some r \<Rightarrow> andthen (lift_result (vault_read_metadata r)) (\<lambda>m. ret (Some m))))"

definition vault_get_version_ttl :: "env \<Rightarrow> string \<Rightarrow> int \<Rightarrow> ('a store_scheme, int) comp" where
  "vault_get_version_ttl E name version =
     andthen require_db (\<lambda>_.
     andthen (guard (1 \<le> version) SM_ERR_INVALID_ARGUMENT) (\<lambda>_.
     andthen (sql_select E (\<lambda>d. find (\<lambda>r. s_name r = name \<and> s_version r = version) (secrets d))) (\<lambda>found.
     case found of
       None \<Rightarrow> ret 0
     | Some r \<Rightarrow> let interval = column_int64 (s_rotation_interval r) in
         if interval < 0 then raise SM_ERR_STORAGE else ret interval)))"

text \<open>The highest version and nonce counter of a name, if it has rows.\<close>

definition vault_find_secret_history_bounds ::
  "env \<Rightarrow> string \<Rightarrow> ('a store_scheme, (int \<times> int) option) comp" where
  "vault_find_secret_history_bounds E name =
     andthen require_db (\<lambda>_.
     andthen (sql_select E (\<lambda>d. filter (\<lambda>r. s_name r = name) (secrets d))) (\<lambda>rows.
     if 0 < c_int (int (length rows)) then
       let max_version = c_int (Max (set (map s_version rows)));
           max_nonce_counter = Max (set (map s_nonce_counter rows)) in
       if max_version < 1 \<or> max_nonce_counter < 0 then raise SM_ERR_STORAGE
       else ret (Some (max_version, max_nonce_counter))
     else ret None))"

text \<open>\<open>vault_bind_blob\<close>: a blob has at most \<open>INT_MAX\<close> bytes.\<close>

definition vault_bind_blob :: "bytes \<Rightarrow> unit result" where
  "vault_bind_blob data = check (int (length data) \<le> INT_MAX) SM_ERR_INVALID_ARGUMENT"

definition vault_bind_encrypted_secret :: "encrypted_secret \<Rightarrow> unit result" where
  "vault_bind_encrypted_secret es =
     and_then (vault_bind_blob (es_ciphertext es)) (\<lambda>_.
     and_then (vault_bind_blob (es_encrypted_dek es)) (\<lambda>_.
     and_then (vault_bind_blob (es_nonce es)) (\<lambda>_.
     and_then (vault_bind_blob (es_dek_nonce es)) (\<lambda>_.
     vault_bind_blob (es_key_commitment es)))))"

text \<open>The row an insertion adds.\<close>

definition secret_row_of ::
  "string \<Rightarrow> string \<Rightarrow> bytes \<Rightarrow> bytes \<Rightarrow> int \<Rightarrow> int \<Rightarrow> string \<Rightarrow> string \<Rightarrow> string option \<Rightarrow> int \<Rightarrow>
    encrypted_secret \<Rightarrow> secret_row" where
  "secret_row_of rid name name_nonce encrypted_name version nonce_counter created updated expires interval es =
     \<lparr>s_id = rid, s_name = name, s_name_nonce = name_nonce, s_encrypted_name = encrypted_name,
      s_version = version, s_algorithm = es_algorithm es, s_ciphertext = es_ciphertext es,
      s_encrypted_dek = es_encrypted_dek es, s_nonce = es_nonce es, s_dek_nonce = es_dek_nonce es,
      s_key_commitment = es_key_commitment es, s_nonce_counter = nonce_counter,
      s_created_at = created, s_updated_at = updated, s_expires_at = expires,
      s_rotation_interval = (if 0 < interval then Some interval else None), s_is_archived = False\<rparr>"

definition vault_insert_secret ::
  "env \<Rightarrow> string \<Rightarrow> string \<Rightarrow> bytes \<Rightarrow> bytes \<Rightarrow> int \<Rightarrow> int \<Rightarrow> string \<Rightarrow> string \<Rightarrow> string option \<Rightarrow> int \<Rightarrow>
    encrypted_secret \<Rightarrow> ('a store_scheme, unit) comp" where
  "vault_insert_secret E rid name name_nonce encrypted_name version nonce_counter created updated expires interval es =
     andthen (\<lambda>s. (if g_db s then Inr () else Inl SM_ERR_STORAGE, s)) (\<lambda>_.
     andthen (sql_prepare E) (\<lambda>_.
     andthen (lift_result (vault_bind_blob name_nonce)) (\<lambda>_.
     andthen (lift_result (vault_bind_blob encrypted_name)) (\<lambda>_.
     andthen (lift_result (vault_bind_encrypted_secret es)) (\<lambda>_.
     sql_write E (insert_secret_row
       (secret_row_of rid name name_nonce encrypted_name version nonce_counter created updated expires interval es)))))))"

definition archive_rows :: "string \<Rightarrow> string \<Rightarrow> db \<Rightarrow> db \<times> nat" where
  "archive_rows name updated d =
     (d\<lparr>secrets := map (\<lambda>r. if s_name r = name \<and> \<not> s_is_archived r
         then r\<lparr>s_is_archived := True, s_updated_at := updated\<rparr> else r) (secrets d)\<rparr>,
      length (filter (\<lambda>r. s_name r = name \<and> \<not> s_is_archived r) (secrets d)))"

definition vault_archive_active_secret ::
  "env \<Rightarrow> string \<Rightarrow> string \<Rightarrow> bool \<Rightarrow> ('a store_scheme, unit) comp" where
  "vault_archive_active_secret E name updated require_existing =
     andthen require_db (\<lambda>_.
     andthen (sql_change E (archive_rows name updated)) (\<lambda>changes.
     andthen (guard (\<not> 1 < changes) SM_ERR_STORAGE) (\<lambda>_.
     guard (\<not> (require_existing \<and> changes = 0)) SM_ERR_NOT_FOUND)))"

section \<open>Reading a secret\<close>

record vault_secret_row =
  vr_id :: string
  vr_version :: int
  vr_encrypted :: encrypted_secret

definition vault_copy_secret_row :: "secret_row \<Rightarrow> vault_secret_row result" where
  "vault_copy_secret_row r =
     and_then (vault_copy_text_column (s_id r) UTILS_UUID_V4_BUFFER_LEN) (\<lambda>rid.
     and_then (check (\<not> c_int (s_version r) < 1) SM_ERR_STORAGE) (\<lambda>_.
     and_then (vault_copy_text_column (s_algorithm r) CRYPTO_ENGINE_ALGORITHM_MAX) (\<lambda>algorithm.
     and_then (vault_column_blob_size (s_ciphertext r)) (\<lambda>ciphertext_len.
     and_then (vault_column_blob_size (s_encrypted_dek r)) (\<lambda>dek_len.
     and_then (vault_column_blob_size (s_nonce r)) (\<lambda>nonce_len.
     and_then (vault_column_blob_size (s_dek_nonce r)) (\<lambda>dek_nonce_len.
     and_then (check (nonce_len \<le> KEY_MANAGER_MAX_NONCE_BYTES \<and> dek_nonce_len \<le> KEY_MANAGER_MAX_NONCE_BYTES)
       SM_ERR_STORAGE) (\<lambda>_.
     and_then (vault_copy_blob_column (s_ciphertext r) ciphertext_len) (\<lambda>ciphertext.
     and_then (vault_copy_blob_column (s_encrypted_dek r) dek_len) (\<lambda>dek.
     and_then (vault_copy_blob_column (s_nonce r) nonce_len) (\<lambda>nonce.
     and_then (vault_copy_blob_column (s_dek_nonce r) dek_nonce_len) (\<lambda>dek_nonce.
     and_then (vault_copy_blob_column (s_key_commitment r) CRYPTO_ENGINE_COMMITMENT_BYTES) (\<lambda>commitment.
     Inr \<lparr>vr_id = rid, vr_version = c_int (s_version r),
        vr_encrypted = \<lparr>es_algorithm = algorithm, es_ciphertext = ciphertext, es_encrypted_dek = dek,
          es_nonce = nonce, es_dek_nonce = dek_nonce, es_key_commitment = commitment\<rparr>\<rparr>)))))))))))))"

text \<open>\<open>None\<close> asks for the active row, \<open>Some v\<close> for version \<open>v\<close>.\<close>

definition select_secret_row :: "string \<Rightarrow> int option \<Rightarrow> db \<Rightarrow> secret_row option" where
  "select_secret_row name version d =
     (case version of
        None \<Rightarrow> find (\<lambda>r. s_name r = name \<and> active_row (secrets d) r) (secrets d)
      | Some v \<Rightarrow> find (\<lambda>r. s_name r = name \<and> s_version r = v) (secrets d))"

definition vault_load_secret_row ::
  "env \<Rightarrow> string \<Rightarrow> int option \<Rightarrow> ('a store_scheme, vault_secret_row) comp" where
  "vault_load_secret_row E name version =
     andthen require_db (\<lambda>_.
     andthen (guard (name \<noteq> [] \<and> (case version of None \<Rightarrow> True | Some v \<Rightarrow> \<not> v < 1)) SM_ERR_INVALID_ARGUMENT) (\<lambda>_.
     andthen (sql_select E (select_secret_row name version)) (\<lambda>found.
     case found of
       None \<Rightarrow> raise SM_ERR_NOT_FOUND
     | Some r \<Rightarrow> lift_result (vault_copy_secret_row r))))"

definition vault_decrypt_secret_row ::
  "env \<Rightarrow> kdf_subkeys \<Rightarrow> vault_secret_row \<Rightarrow> string \<Rightarrow> nat \<Rightarrow> bytes result" where
  "vault_decrypt_secret_row E k row name output_len =
     (if name = [] then Inl SM_ERR_INVALID_ARGUMENT
      else
        and_then (crypto_engine_build_row_identity E (vr_id row) name CRYPTO_ENGINE_ROW_IDENTITY_HEX_LEN) (\<lambda>identity.
        crypto_engine_decrypt E (vr_encrypted row) (kek_enc k) identity (of_int (vr_version row)) output_len))"

definition vault_read_secret ::
  "env \<Rightarrow> kdf_subkeys \<Rightarrow> string \<Rightarrow> int option \<Rightarrow> nat \<Rightarrow> bool \<Rightarrow> (vault, bytes) comp" where
  "vault_read_secret E k name version output_len log_read =
     andthen (guard (name \<noteq> []) SM_ERR_INVALID_ARGUMENT) (\<lambda>_.
     andthen (lift_result (vault_build_name_lookup E k name)) (\<lambda>stored_name.
     andthen (vault_load_secret_row E stored_name version) (\<lambda>row.
     andthen (lift_result (vault_decrypt_secret_row E k row stored_name output_len)) (\<lambda>plaintext.
     andthen (when_ok log_read (vault_log_success E k ''READ'' stored_name (vr_version row))) (\<lambda>_.
     ret plaintext)))))"

text \<open>The plaintext and the stored algorithm name.\<close>

definition vault_decrypt_secret_alloc ::
  "env \<Rightarrow> kdf_subkeys \<Rightarrow> string \<Rightarrow> int \<Rightarrow> nat \<Rightarrow> ('a store_scheme, bytes \<times> string) comp" where
  "vault_decrypt_secret_alloc E k name version algorithm_len =
     andthen (guard (name \<noteq> [] \<and> \<not> version < 1 \<and> algorithm_len \<noteq> 0) SM_ERR_INVALID_ARGUMENT) (\<lambda>_.
     andthen (vault_load_secret_row E name (Some version)) (\<lambda>row.
     andthen (lift_result (vault_decrypt_secret_row E k row name (length (es_ciphertext (vr_encrypted row))))) (\<lambda>plaintext.
     andthen (guard (length (es_algorithm (vr_encrypted row)) < algorithm_len) SM_ERR_STORAGE) (\<lambda>_.
     ret (plaintext, es_algorithm (vr_encrypted row))))))"

definition vault_expiry_is_due :: "string \<Rightarrow> string \<Rightarrow> bool" where
  "vault_expiry_is_due expires now =
     (if expires = [] \<or> now = [] then False else strcmp expires now \<le> 0)"

end
