(* ===== verification/Fuin_Audit_Chain.thy ===== *)
theory Fuin_Audit_Chain
  imports Fuin_Audit
begin

text \<open>
  Properties of the audit log as a whole (\<open>audit_verify_chain\<close>, \<open>audit_resign_chain\<close>): what
  verification accepts, what the last hash of a log commits to, and that signing the log
  again under another key keeps it verifiable. The sample log of the last section evaluates
  the model on a concrete run.
\<close>

section \<open>Reference definitions\<close>

text \<open>The bytes whose SHA-256 is the entry hash, and the fields the program reads in a row.\<close>

definition audit_hashed :: "audit_row \<Rightarrow> bytes" where
  "audit_hashed r =
     (case audit_read_columns r of
        Inl _ \<Rightarrow> []
      | Inr e \<Rightarrow>
          (case audit_build_entry_bytes (e_timestamp e) (e_id e) (e_action e) (Some (e_actor e))
              (e_target e) (e_version e) (e_result e) (e_prev e) None of
             Inl _ \<Rightarrow> [] | Inr b \<Rightarrow> b))"

definition audit_view :: "audit_row \<Rightarrow> audit_entry option" where
  "audit_view r =
     (case audit_read_columns r of
        Inl _ \<Rightarrow> None
      | Inr e \<Rightarrow> Some (e\<lparr>e_actor := audit_actor_value (Some (e_actor e))\<rparr>))"

text \<open>A row with the signature that the list of new signatures gives its id.\<close>

definition resigned :: "(int \<times> bytes) list \<Rightarrow> audit_row \<Rightarrow> audit_row" where
  "resigned items r =
     (case map_of items (a_entry_id r) of None \<Rightarrow> r | Some sig \<Rightarrow> r\<lparr>a_hmac_signature := sig\<rparr>)"

section \<open>What verification accepts\<close>

text \<open>
  C29: \<open>audit_verify_chain\<close> returns \<open>SM_OK\<close> exactly when the database answers, the key has its
  length, and every row in \<open>entry_id\<close> order has readable columns, repeats the entry hash of
  the row before it (zeros for the first), carries the SHA-256 of its own canonical bytes and
  the MAC of these bytes and that hash under the key ratcheted once per preceding row.
\<close>

theorem verify_chain_spec:
  "fst (audit_verify_chain E key s) = Inr () \<longleftrightarrow>
    g_db s \<and> length key = 32 \<and> sodium_init_ok E \<and> sql_ok E (tick s) \<and>
    (\<forall>i < length (audit_log (tables s)).
       audit_row_ok E (last_hash zero_hash (take i (audit_rows (tables s)))) ((sha256 E ^^ i) key)
         (audit_rows (tables s) ! i))"
proof -
  have "fst (audit_verify_chain E key s) = Inr () \<longleftrightarrow> g_db s \<and> audit_validate_key E key = Inr () \<and>
      sql_ok E (tick s) \<and> audit_verify_rows E zero_hash key (audit_rows (tables s)) = Inr ()"
    by (auto simp: audit_verify_chain_def andthen_def require_db_def sql_select_def split: sum.splits)
  then show ?thesis by (auto simp: verify_rows_iff validate_key_Inr)
qed

section \<open>Tamper evidence\<close>

lemma row_ok_hashed:
  assumes "audit_row_ok E prev key r"
  shows "a_prev_hash r = prev \<and> a_entry_hash r = sha256 E (audit_hashed r)"
  using assms
  by (auto simp: audit_row_ok_def audit_hashed_def entry_hash_of_def audit_compute_entry_hash_def
      and_then_eq_Inr read_columns_Inr split: sum.splits)

lemma hashed_inject:
  assumes "audit_row_ok E prev key r" "audit_row_ok E prev' key' r'" "audit_hashed r = audit_hashed r'"
    and "a_entry_id r \<le> INT64_MAX" "a_entry_id r' \<le> INT64_MAX"
  shows "audit_view r = audit_view r'"
proof -
  obtain e b where e: "audit_read_columns r = Inr e" "audit_build_entry_bytes (e_timestamp e) (e_id e)
      (e_action e) (Some (e_actor e)) (e_target e) (e_version e) (e_result e) (e_prev e) None = Inr b"
      "e_hash e = sha256 E b"
    using assms(1) by (auto simp: audit_row_ok_def entry_hash_of_def audit_compute_entry_hash_def
        and_then_eq_Inr split: sum.splits)
  obtain e' b' where e': "audit_read_columns r' = Inr e'" "audit_build_entry_bytes (e_timestamp e') (e_id e')
      (e_action e') (Some (e_actor e')) (e_target e') (e_version e') (e_result e') (e_prev e') None = Inr b'"
      "e_hash e' = sha256 E b'"
    using assms(2) by (auto simp: audit_row_ok_def entry_hash_of_def audit_compute_entry_hash_def
        and_then_eq_Inr split: sum.splits)
  have b: "b' = b" using assms(3) e e' by (simp add: audit_hashed_def)
  have r: "e_id e \<le> INT64_MAX" "e_id e' \<le> INT64_MAX" "0 \<le> e_version e" "e_version e \<le> INT_MAX"
    "0 \<le> e_version e'" "e_version e' \<le> INT_MAX"
    using read_columns_Inr [OF e(1)] read_columns_Inr [OF e'(1)] assms(4,5) by auto
  from entry_bytes_inject [OF e(2) e'(2) [unfolded b]] r
  have "e\<lparr>e_actor := audit_actor_value (Some (e_actor e))\<rparr> =
      e'\<lparr>e_actor := audit_actor_value (Some (e_actor e'))\<rparr>"
    using e(3) e'(3) b by simp
  then show ?thesis by (simp add: audit_view_def e(1) e'(1))
qed

text \<open>
  C26: Tamper evidence. Two logs that both verify (under any keys) and end in the same entry
  hash show the same entries in the same order, unless two different canonical encodings in
  them have the same SHA-256 digest or one of them hashes to the all-zero genesis value. The
  collision and the preimage are exhibited among the entries themselves, so an altered,
  removed or inserted entry below a saved head is as hard as breaking SHA-256.
\<close>

theorem chain_head_binds:
  assumes "chain_ok E key rows" "chain_ok E key' rows'" "ids_in_range rows" "ids_in_range rows'"
    and "last_hash zero_hash rows = last_hash zero_hash rows'"
  shows "map audit_view rows = map audit_view rows' \<or>
    (\<exists>r \<in> set rows. \<exists>r' \<in> set rows'. audit_hashed r \<noteq> audit_hashed r' \<and>
       sha256 E (audit_hashed r) = sha256 E (audit_hashed r')) \<or>
    (\<exists>r \<in> set rows \<union> set rows'. sha256 E (audit_hashed r) = zero_hash)"
  using assms
proof (induction rows arbitrary: rows' rule: rev_induct)
  case Nil
  show ?case
  proof (cases rows' rule: rev_cases)
    case Nil
    then show ?thesis by simp
  next
    case (snoc xs r')
    then have "sha256 E (audit_hashed r') = zero_hash"
      using Nil.prems row_ok_hashed by (fastforce simp: chain_ok_def verify_rows_snoc last_hash_def)
    then show ?thesis using snoc by auto
  qed
next
  case (snoc r xs)
  have r: "audit_row_ok E (last_hash zero_hash xs) ((sha256 E ^^ length xs) key) r" "chain_ok E key xs"
    using snoc.prems(1) by (auto simp: chain_ok_def verify_rows_snoc)
  show ?case
  proof (cases rows' rule: rev_cases)
    case Nil
    then have "sha256 E (audit_hashed r) = zero_hash"
      using snoc.prems row_ok_hashed [OF r(1)] by (simp add: last_hash_def)
    then show ?thesis by auto
  next
    case (snoc ys r')
    have r': "audit_row_ok E (last_hash zero_hash ys) ((sha256 E ^^ length ys) key') r'" "chain_ok E key' ys"
      using snoc.prems(2) snoc by (auto simp: chain_ok_def verify_rows_snoc)
    have h: "sha256 E (audit_hashed r) = sha256 E (audit_hashed r')"
      using snoc.prems(5) snoc row_ok_hashed [OF r(1)] row_ok_hashed [OF r'(1)]
      by (simp add: last_hash_def)
    show ?thesis
    proof (cases "audit_hashed r = audit_hashed r'")
      case False
      then show ?thesis using h snoc by auto
    next
      case True
      have ids: "a_entry_id r \<le> INT64_MAX" "a_entry_id r' \<le> INT64_MAX" "ids_in_range xs" "ids_in_range ys"
        using snoc.prems(3,4) snoc by (auto simp: ids_in_range_def)
      have view: "audit_view r = audit_view r'"
        by (rule hashed_inject [OF r(1) r'(1) True ids(1,2)])
      obtain e e' where "audit_read_columns r = Inr e" "audit_read_columns r' = Inr e'"
        using r(1) r'(1) by (auto simp: audit_row_ok_def split: sum.splits)
      then have "a_prev_hash r = a_prev_hash r'"
        using view read_columns_Inr
        by (auto simp: audit_view_def) (metis audit_entry.select_convs(8) audit_entry.surjective audit_entry.update_convs(4))
      then have "last_hash zero_hash xs = last_hash zero_hash ys"
        using row_ok_hashed [OF r(1)] row_ok_hashed [OF r'(1)] by simp
      from snoc.IH [OF r(2) r'(2) ids(3,4) this] show ?thesis
        using view snoc by auto
    qed
  qed
qed

section \<open>Signing the log again\<close>

lemma resigned_id [simp]: "a_entry_id (resigned items r) = a_entry_id r"
  by (simp add: resigned_def split: option.splits)

lemma insort_map: "(\<And>x. f (g x) = f x) \<Longrightarrow> insort_key f (g x) (map g ys) = map g (insort_key f x ys)"
  by (induction ys) auto

lemma sort_key_map: "(\<And>x. f (g x) = f x) \<Longrightarrow> sort_key f (map g xs) = map g (sort_key f xs)"
  unfolding sort_key_def by (induction xs) (simp_all add: insort_map)

lemma resign_rows_ids: "audit_resign_rows E prev key rows = Inr items \<Longrightarrow> map fst items = map a_entry_id rows"
  by (induction rows arbitrary: prev key items) (auto simp: and_then_eq_Inr read_columns_Inr)

lemma resign_rows_pos:
  "audit_resign_rows E prev key rows = Inr items \<Longrightarrow> r \<in> set rows \<Longrightarrow> 1 \<le> a_entry_id r"
  by (induction rows arbitrary: prev key items) (auto simp: and_then_eq_Inr dest: read_columns_Inr)

lemma read_columns_signature [simp]:
  "audit_read_columns (r\<lparr>a_hmac_signature := sig\<rparr>) = audit_read_columns r"
  by (simp add: audit_read_columns_def)

lemma resign_rows_verify:
  assumes "auth_ok E" "audit_resign_rows E prev key rows = Inr items"
  shows "audit_verify_rows E prev key (map2 (\<lambda>r i. r\<lparr>a_hmac_signature := snd i\<rparr>) rows items) = Inr ()"
  using assms(2)
proof (induction rows arbitrary: prev key items)
  case Nil
  then show ?case by simp
next
  case (Cons r rows)
  from Cons.prems obtain e b its where
    1: "audit_read_columns r = Inr e" "audit_check_link E prev e = Inr ()" "entry_signed_bytes e = Inr b"
      "audit_resign_rows E (e_hash e) (audit_advance_ratchet_key E key) rows = Inr its"
      "items = (e_id e, crypto_auth E key b) # its"
    by (auto simp: and_then_eq_Inr)
  have "audit_row_ok E prev key (r\<lparr>a_hmac_signature := crypto_auth E key b\<rparr>)"
    using 1 assms(1)
    by (auto simp: audit_row_ok_def audit_check_link_def and_then_eq_Inr auth_ok_def crypto_auth_BYTES_def)
  then show ?case
    using Cons.IH [OF 1(4)] 1 by (simp add: verify_rows_Cons read_columns_Inr audit_advance_ratchet_key_def)
qed

lemma map2_resigned:
  assumes "map fst items = map a_entry_id rows" "distinct (map a_entry_id rows)"
  shows "map2 (\<lambda>r i. r\<lparr>a_hmac_signature := snd i\<rparr>) rows items = map (resigned items) rows"
proof (rule nth_equalityI)
  have len: "length items = length rows" using assms(1) by (metis length_map)
  then show "length (map2 (\<lambda>r i. r\<lparr>a_hmac_signature := snd i\<rparr>) rows items) = length (map (resigned items) rows)"
    by simp
  fix i
  assume "i < length (map2 (\<lambda>r i. r\<lparr>a_hmac_signature := snd i\<rparr>) rows items)"
  then have i: "i < length rows" using len by simp
  then have "fst (items ! i) = a_entry_id (rows ! i)" using assms(1) len by (metis nth_map)
  moreover have "map_of items (fst (items ! i)) = Some (snd (items ! i))"
    using assms i len by (intro map_of_is_SomeI) simp_all
  ultimately show "map2 (\<lambda>r i. r\<lparr>a_hmac_signature := snd i\<rparr>) rows items ! i = map (resigned items) rows ! i"
    using i len by (simp add: resigned_def)
qed

lemma update_signatures_log:
  assumes "audit_update_signatures E items s = (Inr (), s')"
    and "list_all (\<lambda>(i, _). 1 \<le> i \<and> i \<le> INT_MAX) items" "distinct (map fst items)"
  shows "tables s' = (tables s)\<lparr>audit_log := map (resigned items) (audit_log (tables s))\<rparr>"
  using assms
proof (induction items arbitrary: s)
  case Nil
  then show ?case by (simp add: resigned_def)
next
  case (Cons it items)
  obtain i sig where it: "it = (i, sig)" by fastforce
  have ci: "c_int i = i" using Cons.prems(2) it by simp
  let ?d = "fst (audit_update_signature sig i (tables s))"
  have rest: "audit_update_signatures E items (next_tick (s\<lparr>tables := ?d\<rparr>)) = (Inr (), s')"
    using Cons.prems(1) by (auto simp: it ci andthen_eq_Inr change_eq_Inr)
  have comp: "resigned items (if a_entry_id r = i then r\<lparr>a_hmac_signature := sig\<rparr> else r) =
      resigned ((i, sig) # items) r" for r
    using Cons.prems(3) it by (force simp: resigned_def map_of_eq_None_iff split: option.splits)
  show ?case
    using Cons.IH [OF rest] Cons.prems(2,3)
    by (simp add: it audit_update_signature_def comp)
qed

lemma resign_chain_ok:
  assumes "audit_resign_chain E key s = (Inr (), s')"
    and "distinct (map a_entry_id (audit_log (tables s)))"
    and "list_all (\<lambda>r. a_entry_id r \<le> INT_MAX) (audit_log (tables s))" "auth_ok E"
  shows "chain_ok E key (audit_rows (tables s')) \<and>
    (\<exists>sigs. tables s' = (tables s)\<lparr>audit_log := map (\<lambda>r. r\<lparr>a_hmac_signature := sigs (a_entry_id r)\<rparr>)
       (audit_log (tables s))\<rparr>)"
proof -
  obtain items s1 where 1: "audit_resign_rows E zero_hash key (audit_rows (tables s)) = Inr items"
      "audit_update_signatures E items s1 = (Inr (), s')" "tables s1 = tables s"
    using assms(1) by (auto simp: audit_resign_chain_def andthen_eq_Inr select_eq_Inr prepare_eq_Inr)
  have ids: "map fst items = map a_entry_id (audit_rows (tables s))" using 1(1) by (rule resign_rows_ids)
  have set_ids: "set (map fst items) = a_entry_id ` set (audit_log (tables s))" unfolding ids by simp
  have dist: "distinct (map a_entry_id (audit_rows (tables s)))"
    unfolding audit_rows_def using assms(2) by (simp add: distinct_map) 
  have pos: "1 \<le> a_entry_id r" if "r \<in> set (audit_log (tables s))" for r
    using resign_rows_pos [OF 1(1)] that by simp
  have "list_all (\<lambda>(i, _). 1 \<le> i \<and> i \<le> INT_MAX) items"
  proof -
    have "1 \<le> i \<and> i \<le> INT_MAX" if "i \<in> set (map fst items)" for i
      using that assms(3) pos unfolding set_ids by (auto simp: list_all_iff)
    then show ?thesis by (force simp: list_all_iff)
  qed
  with update_signatures_log [OF 1(2)] ids dist
  have tab: "tables s' = (tables s)\<lparr>audit_log := map (resigned items) (audit_log (tables s))\<rparr>"
    by (simp add: 1(3))
  then have rows: "audit_rows (tables s') = map (resigned items) (audit_rows (tables s))"
    by (simp add: audit_rows_def sort_key_map)
  have "chain_ok E key (audit_rows (tables s'))"
    unfolding rows chain_ok_def using resign_rows_verify [OF assms(4) 1(1)] map2_resigned [OF ids dist] by simp
  moreover have "resigned items r = r\<lparr>a_hmac_signature := the (map_of items (a_entry_id r))\<rparr>"
    if "r \<in> set (audit_log (tables s))" for r
  proof -
    have "a_entry_id r \<in> set (map fst items)" unfolding set_ids using that by simp
    then obtain sig where "map_of items (a_entry_id r) = Some sig"
      by (metis (no_types) map_of_eq_None_iff not_None_eq set_map)
    then show ?thesis by (simp add: resigned_def)
  qed
  then have "tables s' = (tables s)\<lparr>audit_log := map (\<lambda>r. r\<lparr>a_hmac_signature := the (map_of items (a_entry_id r))\<rparr>)
       (audit_log (tables s))\<rparr>"
    unfolding tab by simp
  ultimately show ?thesis by (auto intro!: exI [of _ "\<lambda>i. the (map_of items i)"])
qed

text \<open>
  C30: Signing the log again. When \<open>audit_resign_chain\<close> returns \<open>SM_OK\<close> the log verifies
  under the new key, and nothing but the signature column has changed, in any row or table.
  Ids must fit an \<open>int\<close>, which is all the update statement binds.
\<close>

theorem resign_chain_verifies:
  assumes "audit_resign_chain E key s = (Inr (), s')"
    and "distinct (map a_entry_id (audit_log (tables s)))"
    and "list_all (\<lambda>r. a_entry_id r \<le> INT_MAX) (audit_log (tables s))" "auth_ok E"
  shows "chain_ok E key (audit_rows (tables s')) \<and>
    (\<exists>sigs. tables s' = (tables s)\<lparr>audit_log := map (\<lambda>r. r\<lparr>a_hmac_signature := sigs (a_entry_id r)\<rparr>)
       (audit_log (tables s))\<rparr>)"
  by (rule resign_chain_ok [OF assms])

lemma verify_imp_resign:
  "audit_verify_rows E prev old rows = Inr () \<Longrightarrow> \<exists>items. audit_resign_rows E prev key rows = Inr items"
proof (induction rows arbitrary: prev old key)
  case Nil
  then show ?case by simp
next
  case (Cons r rows)
  then obtain e b where 1: "audit_read_columns r = Inr e" "audit_check_link E prev e = Inr ()"
      "entry_signed_bytes e = Inr b" "audit_verify_rows E (e_hash e) (sha256 E old) rows = Inr ()"
    by (auto simp: verify_rows_Cons audit_row_ok_def audit_check_link_def read_columns_Inr
        split: sum.splits)
  obtain items where "audit_resign_rows E (e_hash e) (audit_advance_ratchet_key E key) rows = Inr items"
    using Cons.IH [OF 1(4)] by blast
  then show ?case using 1 by simp
qed

lemma update_signatures_total:
  assumes "\<forall>t. sql_ok E t" "list_all (\<lambda>(i, _). 1 \<le> i \<and> i \<le> INT_MAX) items"
    and "\<forall>i \<in> set (map fst items). length (filter (\<lambda>r. a_entry_id r = i) (audit_log (tables s))) = 1"
  shows "\<exists>s'. audit_update_signatures E items s = (Inr (), s')"
  using assms(2,3)
proof (induction items arbitrary: s)
  case Nil
  then show ?case by simp
next
  case (Cons it items)
  obtain i sig where it: "it = (i, sig)" by fastforce
  have ci: "c_int i = i" using Cons.prems(1) it by simp
  let ?s = "next_tick (s\<lparr>tables := fst (audit_update_signature sig i (tables s))\<rparr>)"
  have "length (filter (\<lambda>r. a_entry_id r = j) (audit_log (tables ?s))) =
      length (filter (\<lambda>r. a_entry_id r = j) (audit_log (tables s)))" for j
    by (auto simp: audit_update_signature_def filter_map o_def if_distrib cong: if_cong)
  then obtain s' where "audit_update_signatures E items ?s = (Inr (), s')"
    using Cons.IH [of ?s] Cons.prems by auto
  moreover have "sql_change E (audit_update_signature sig i) s = (Inr 1, ?s)"
    using assms(1) Cons.prems(2) it by (simp add: sql_change_def audit_update_signature_def)
  ultimately show ?case by (simp add: it ci andthen_def guard_def)
qed

lemma distinct_filter_one:
  "distinct (map f xs) \<Longrightarrow> x \<in> set xs \<Longrightarrow> length (filter (\<lambda>y. f y = f x) xs) = 1"
proof (induction xs)
  case (Cons y ys)
  show ?case
  proof (cases "x = y")
    case True
    then have "f z \<noteq> f x" if "z \<in> set ys" for z
      using Cons.prems(1) that by (metis distinct.simps(2) image_eqI list.simps(9) set_map)
    then show ?thesis using True by (simp add: filter_empty_conv)
  next
    case False
    then have "x \<in> set ys" using Cons.prems by simp
    moreover from this have "f y \<noteq> f x"
      using Cons.prems(1) by (metis distinct.simps(2) image_eqI list.simps(9) set_map)
    ultimately show ?thesis using Cons by simp
  qed
qed simp

lemma resign_chain_succeeds:
  assumes "chain_ok E old (audit_rows (tables s))"
    and "distinct (map a_entry_id (audit_log (tables s)))"
    and "list_all (\<lambda>r. a_entry_id r \<le> INT_MAX) (audit_log (tables s))"
    and "g_db s" "length key = 32" "sodium_init_ok E" "\<forall>t. sql_ok E t"
  shows "\<exists>s'. audit_resign_chain E key s = (Inr (), s')"
proof -
  obtain items where items: "audit_resign_rows E zero_hash key (audit_rows (tables s)) = Inr items"
    using verify_imp_resign assms(1) unfolding chain_ok_def by blast
  have "set (map fst items) = a_entry_id ` set (audit_log (tables s))"
    unfolding resign_rows_ids [OF items] by simp
  then have ids: "\<forall>i \<in> set (map fst items). \<exists>r \<in> set (audit_log (tables s)). a_entry_id r = i" by auto
  then have one: "\<forall>i \<in> set (map fst items). length (filter (\<lambda>r. a_entry_id r = i) (audit_log (tables s))) = 1"
    using distinct_filter_one [OF assms(2)] by fastforce
  have range: "list_all (\<lambda>(i, _). 1 \<le> i \<and> i \<le> INT_MAX) items"
    using ids assms(3) resign_rows_pos [OF items] by (fastforce simp: list_all_iff)
  let ?s = "next_tick (next_tick s)"
  obtain s' where "audit_update_signatures E items ?s = (Inr (), s')"
    using update_signatures_total [OF assms(7) range, of ?s] one by auto
  moreover have "audit_validate_key E key = Inr ()" using assms(5,6) validate_key_Inr by simp
  ultimately show ?thesis
    using assms(4-7) items
    by (simp add: audit_resign_chain_def andthen_def require_db_def sql_select_def sql_prepare_def)
qed

text \<open>
  Signing again cannot get stuck on a good log: when the log verifies under some key,
  the new key has its length and SQLite answers, \<open>audit_resign_chain\<close> succeeds.
\<close>

theorem resign_chain_total:
  assumes "chain_ok E old (audit_rows (tables s))"
    and "distinct (map a_entry_id (audit_log (tables s)))"
    and "list_all (\<lambda>r. a_entry_id r \<le> INT_MAX) (audit_log (tables s))"
    and "g_db s" "length key = 32" "sodium_init_ok E" "\<forall>t. sql_ok E t"
  shows "\<exists>s'. audit_resign_chain E key s = (Inr (), s')"
  by (rule resign_chain_succeeds [OF assms])

text \<open>
  C40: The update of \<open>audit_resign_chain\<close> binds the 64-bit \<open>entry_id\<close> with
  \<open>sqlite3_bind_int\<close>. An id between \<open>INT_MAX + 1\<close> and \<open>UINT32_MAX\<close> becomes negative, the
  update changes no row and the loop ends with \<open>SM_ERR_STORAGE\<close>.
\<close>

theorem resign_id_truncated:
  assumes "INT_MAX < eid" "eid \<le> 4294967295" "list_all (\<lambda>r. 0 \<le> a_entry_id r) (audit_log (tables s))"
  shows "fst (audit_update_signatures E ((eid, sig) # items) s) = Inl SM_ERR_STORAGE"
proof -
  have "c_int eid < 0"
  proof -
    have "c_int eid = eid - 4294967296"
    proof -
      have "(eid + 2147483648) mod 4294967296 = eid - 2147483648"
        using assms(1,2) by (intro int_mod_pos_eq [of _ _ 1]) (simp_all add: INT_MAX_def)
      then show ?thesis
        unfolding c_int_def
        by (simp add: sint_sbintrunc' signed_take_bit_eq_take_bit_shift take_bit_eq_mod)
    qed
    then show ?thesis using assms(2) by simp
  qed
  then have "filter (\<lambda>r. a_entry_id r = c_int eid) (audit_log (tables s)) = []"
    using assms(3) by (auto simp: filter_empty_conv list_all_iff)
  then show ?thesis by (simp add: andthen_def sql_change_def audit_update_signature_def guard_def)
qed

section \<open>A sample run\<close>

definition sample_db :: db where
  "sample_db = \<lparr>secrets = [], audit_log = [], metadata = Map.empty, auth_failures = []\<rparr>"

definition sample_store :: store where
  "sample_store = \<lparr>tick = 0, g_db = True, tables = sample_db, saved = None\<rparr>"

definition sample_key :: bytes where "sample_key = replicate 32 7"

definition sample_run :: "unit result \<times> store" where
  "sample_run = audit_log_event sample_env None ''CREATE'' ''a'' 1 ''SUCCESS'' sample_key sample_store"

lemma sample_run_ok: "fst sample_run = Inr ()"
  by code_simp

lemma sample_run_chain: "chain_ok sample_env sample_key (audit_rows (tables (snd sample_run)))"
  by code_simp

lemma sample_run_ids: "map a_entry_id (audit_log (tables (snd sample_run))) = [1]"
  by code_simp

lemma sample_run_eq: "sample_run = (Inr (), snd sample_run)"
  using sample_run_ok by (metis prod.collapse)

theorem audit_entry_bytes_inject_witness:
  "audit_build_entry_bytes ''t'' 1 ''READ'' None ''a'' 0 ''SUCCESS'' [] None =
    audit_build_entry_bytes ''t'' 1 ''READ'' (Some []) ''a'' (-4) ''SUCCESS'' [] None \<and>
   audit_actor_value None = audit_actor_value (Some [])"
proof -
  have b: "audit_build_entry_bytes ''t'' 1 ''READ'' None ''a'' 0 ''SUCCESS'' [] None =
      Inr (concat (map audit_frame (audit_entry_fields ''t'' 1 ''READ'' None ''a'' 0 ''SUCCESS'' [] None)))"
    by code_simp
  have c: "audit_build_entry_bytes ''t'' 1 ''READ'' (Some []) ''a'' (-4) ''SUCCESS'' [] None =
      Inr (concat (map audit_frame (audit_entry_fields ''t'' 1 ''READ'' None ''a'' 0 ''SUCCESS'' [] None)))"
    by code_simp
  show ?thesis
    using audit_entry_bytes_inject [OF b c] by (simp add: b c INT64_MAX_def INT_MAX_def)
qed

theorem log_event_extends_chain_witness:
  "chain_ok sample_env sample_key (audit_rows (tables (snd sample_run))) \<and>
   length (audit_log (tables (snd sample_run))) = 1"
proof -
  have s: "tables sample_store = sample_db" "audit_log sample_db = []" "audit_rows sample_db = []"
    by (simp_all add: sample_store_def sample_db_def audit_rows_def)
  have "chain_ok sample_env sample_key []" "ids_in_range []"
    by (simp_all add: chain_ok_def ids_in_range_def)
  then show ?thesis
    using log_event_extends_chain [OF sample_run_eq [unfolded sample_run_def]] sample_hashes_ok
    by (auto simp: s sample_run_def audit_actor_value_def AUDIT_ACTOR_DEFAULT_def INT_MAX_def)
qed

theorem verify_chain_spec_witness:
  "fst (audit_verify_chain sample_env sample_key (snd sample_run)) = Inr () \<and>
   length (audit_log (tables (snd sample_run))) = 1"
proof -
  have len: "length (audit_log (tables (snd sample_run))) = 1"
    using arg_cong [OF sample_run_ids, of length] by simp
  have "g_db (snd sample_run)" by code_simp
  moreover have "length sample_key = 32" "sodium_init_ok sample_env" "sql_ok sample_env t" for t
    by (simp_all add: sample_key_def sample_env_def)
  moreover have "\<forall>i < length (audit_log (tables (snd sample_run))).
       audit_row_ok sample_env (last_hash zero_hash (take i (audit_rows (tables (snd sample_run)))))
         ((sha256 sample_env ^^ i) sample_key) (audit_rows (tables (snd sample_run)) ! i)"
    using sample_run_chain by (simp add: chain_ok_def verify_rows_iff)
  ultimately show ?thesis
    using verify_chain_spec [of sample_env sample_key "snd sample_run"] len by blast
qed

theorem chain_head_binds_witness:
  "map audit_view (audit_rows (tables (snd sample_run))) = map audit_view (audit_rows (tables (snd sample_run))) \<or>
    (\<exists>r \<in> set (audit_rows (tables (snd sample_run))). sha256 sample_env (audit_hashed r) = zero_hash)"
proof -
  have "ids_in_range (audit_rows (tables (snd sample_run)))"
    by code_simp
  then show ?thesis
    using chain_head_binds [OF sample_run_chain sample_run_chain] by auto
qed

theorem resign_chain_verifies_witness:
  "chain_ok sample_env (replicate 32 9)
     (audit_rows (tables (snd (audit_resign_chain sample_env (replicate 32 9) (snd sample_run)))))"
proof -
  have "fst (audit_resign_chain sample_env (replicate 32 9) (snd sample_run)) = Inr ()"
    by code_simp
  then have run: "audit_resign_chain sample_env (replicate 32 9) (snd sample_run) =
      (Inr (), snd (audit_resign_chain sample_env (replicate 32 9) (snd sample_run)))"
    by (metis prod.collapse)
  have "distinct (map a_entry_id (audit_log (tables (snd sample_run))))"
    by (simp add: sample_run_ids)
  moreover have "list_all (\<lambda>r. a_entry_id r \<le> INT_MAX) (audit_log (tables (snd sample_run)))"
    by code_simp
  ultimately show ?thesis
    using resign_chain_verifies [OF run] sample_hashes_ok by blast
qed

theorem resign_chain_total_witness:
  "\<exists>s'. audit_resign_chain sample_env (replicate 32 9) (snd sample_run) = (Inr (), s')"
proof (rule resign_chain_total [OF sample_run_chain])
  show "distinct (map a_entry_id (audit_log (tables (snd sample_run))))"
    by (simp add: sample_run_ids)
  show "list_all (\<lambda>r. a_entry_id r \<le> INT_MAX) (audit_log (tables (snd sample_run)))" "g_db (snd sample_run)"
    by code_simp+
qed (simp_all add: sample_env_def)

theorem resign_id_truncated_witness:
  "fst (audit_update_signatures sample_env [(2147483648, [])] sample_store) = Inl SM_ERR_STORAGE"
  by (rule resign_id_truncated) (simp_all add: INT_MAX_def sample_store_def sample_db_def)

end
