(* ===== verification/Fuin_Merkle.thy ===== *)
theory Fuin_Merkle
  imports Fuin_Audit
begin

text \<open>
  The Merkle tree over the audit log (\<open>src/src/audit.c\<close>): leaves and inner nodes are SHA-256
  with a domain byte, a level with an odd number of nodes pairs its last node with itself. A
  level is the list of its 32-byte hashes. The properties are completeness of the inclusion
  proofs, their length, and soundness up to an exhibited SHA-256 collision.
\<close>

section \<open>Model\<close>

definition AUDIT_MERKLE_ROOT_BYTES :: nat where "AUDIT_MERKLE_ROOT_BYTES = 32"
definition AUDIT_MERKLE_PROOF_MAX_BYTES :: nat where "AUDIT_MERKLE_PROOF_MAX_BYTES = 32 * 64"

definition audit_hash_merkle_leaf :: "env \<Rightarrow> bytes \<Rightarrow> bytes result" where
  "audit_hash_merkle_leaf E eh =
     (if length eh \<noteq> AUDIT_MERKLE_ROOT_BYTES then Inl SM_ERR_INVALID_ARGUMENT
      else Inr (sha256 E (0x00 # eh)))"

definition audit_hash_merkle_internal :: "env \<Rightarrow> bytes \<Rightarrow> bytes \<Rightarrow> bytes" where
  "audit_hash_merkle_internal E left right = sha256 E (0x01 # left @ right)"

text \<open>The loop over the rows: column check, leaf hash, position of the requested entry.\<close>

fun audit_leaf_loop ::
  "env \<Rightarrow> int \<Rightarrow> audit_row list \<Rightarrow> nat \<Rightarrow> nat option \<Rightarrow> (bytes list \<times> nat option) result" where
  "audit_leaf_loop E target_id [] index found = Inr ([], found)"
| "audit_leaf_loop E target_id (r # rows) index found =
     and_then (audit_column_hash (a_entry_hash r)) (\<lambda>eh.
     and_then (audit_hash_merkle_leaf E eh) (\<lambda>leaf.
     and_then (audit_leaf_loop E target_id rows (Suc index)
       (if 0 < target_id \<and> a_entry_id r = target_id then Some index else found)) (\<lambda>(level, found').
     Inr (leaf # level, found'))))"

definition audit_load_merkle_leaves :: "env \<Rightarrow> int \<Rightarrow> ('a store_scheme, bytes list \<times> nat) comp" where
  "audit_load_merkle_leaves E target_id =
     andthen require_db (\<lambda>_.
     andthen (audit_count_entries E) (\<lambda>count.
     if count = 0 then (if 0 < target_id then raise SM_ERR_NOT_FOUND else ret ([], 0))
     else
       andthen (sql_select E audit_rows) (\<lambda>rows.
       andthen (lift_result (audit_leaf_loop E target_id rows 0 None)) (\<lambda>(level, found).
       if length level \<noteq> count then raise SM_ERR_STORAGE
       else if 0 < target_id \<and> found = None then raise SM_ERR_NOT_FOUND
       else ret (level, case found of None \<Rightarrow> 0 | Some i \<Rightarrow> i)))))"

definition audit_reduce_merkle_level :: "env \<Rightarrow> bytes list \<Rightarrow> bytes list" where
  "audit_reduce_merkle_level E current =
     map (\<lambda>i. let left_index = i * 2;
                  right_index = (if length current \<le> left_index + 1 then left_index else left_index + 1)
              in audit_hash_merkle_internal E (current ! left_index) (current ! right_index))
       [0..<(length current + 1) div 2]"

lemma length_reduce [simp]: "length (audit_reduce_merkle_level E level) = (length level + 1) div 2"
  by (simp add: audit_reduce_merkle_level_def)

text \<open>The loop \<open>while (current.count > 1)\<close> of \<open>audit_compute_merkle_root\<close>.\<close>

function audit_root_loop :: "env \<Rightarrow> bytes list \<Rightarrow> bytes list" where
  "audit_root_loop E current =
     (if 1 < length current then audit_root_loop E (audit_reduce_merkle_level E current) else current)"
  by pat_completeness auto
termination by (relation "measure (\<lambda>(E, current). length current)") auto

declare audit_root_loop.simps [simp del]

definition audit_compute_merkle_root :: "env \<Rightarrow> ('a store_scheme, bytes \<times> nat) comp" where
  "audit_compute_merkle_root E =
     andthen (audit_load_merkle_leaves E 0) (\<lambda>(level, _).
     if level = [] then ret (replicate AUDIT_MERKLE_ROOT_BYTES 0, 0)
     else ret (hd (audit_root_loop E level), length level))"

function audit_proof_loop :: "env \<Rightarrow> nat \<Rightarrow> bytes list \<Rightarrow> nat \<Rightarrow> bytes \<Rightarrow> bytes result" where
  "audit_proof_loop E proof_capacity current index proof =
     (if 1 < length current then
        let sibling_index = (if index mod 2 = 0 then index + 1 else index - 1);
            sibling_index' = (if length current \<le> sibling_index then index else sibling_index)
        in if proof_capacity < length proof + AUDIT_MERKLE_ROOT_BYTES then Inl SM_ERR_INVALID_ARGUMENT
           else audit_proof_loop E proof_capacity (audit_reduce_merkle_level E current) (index div 2)
             (proof @ current ! sibling_index')
      else Inr proof)"
  by pat_completeness auto
termination by (relation "measure (\<lambda>(E, c, current, i, p). length current)") auto

declare audit_proof_loop.simps [simp del]

text \<open>The proof, the position of the entry and the number of leaves.\<close>

definition audit_build_merkle_proof :: "env \<Rightarrow> int \<Rightarrow> nat \<Rightarrow> ('a store_scheme, bytes \<times> nat \<times> nat) comp" where
  "audit_build_merkle_proof E eid proof_capacity =
     andthen (guard (1 \<le> eid) SM_ERR_INVALID_ARGUMENT) (\<lambda>_.
     andthen (audit_load_merkle_leaves E eid) (\<lambda>(level, index).
     andthen (lift_result (audit_proof_loop E proof_capacity level index [])) (\<lambda>proof.
     ret (proof, index, length level))))"

text \<open>The verifier's loop; \<open>proof\<close> is the part after \<open>offset\<close>.\<close>

function audit_verify_loop :: "env \<Rightarrow> bytes \<Rightarrow> bytes \<Rightarrow> nat \<Rightarrow> nat \<Rightarrow> (bytes \<times> bytes) result" where
  "audit_verify_loop E proof current index count =
     (if 1 < count then
        if length proof < AUDIT_MERKLE_ROOT_BYTES then Inl SM_ERR_INVALID_ARGUMENT
        else
          let sibling = take AUDIT_MERKLE_ROOT_BYTES proof;
              parent = (if index mod 2 = 0 then audit_hash_merkle_internal E current sibling
                        else audit_hash_merkle_internal E sibling current)
          in audit_verify_loop E (drop AUDIT_MERKLE_ROOT_BYTES proof) parent (index div 2) ((count + 1) div 2)
      else Inr (current, proof))"
  by pat_completeness auto
termination by (relation "measure (\<lambda>(E, p, c, i, n). n)") auto

declare audit_verify_loop.simps [simp del]

definition audit_verify_merkle_proof ::
  "env \<Rightarrow> bytes \<Rightarrow> nat \<Rightarrow> nat \<Rightarrow> bytes \<Rightarrow> bytes \<Rightarrow> unit result" where
  "audit_verify_merkle_proof E eh leaf_index leaf_count proof root =
     (if length eh \<noteq> AUDIT_MERKLE_ROOT_BYTES \<or> leaf_count = 0 \<or> leaf_count \<le> leaf_index \<or>
         length proof mod AUDIT_MERKLE_ROOT_BYTES \<noteq> 0 \<or> length root \<noteq> AUDIT_MERKLE_ROOT_BYTES
      then Inl SM_ERR_INVALID_ARGUMENT
      else
        and_then (audit_hash_merkle_leaf E eh) (\<lambda>leaf.
        and_then (audit_verify_loop E proof leaf leaf_index leaf_count) (\<lambda>(current, rest).
        if rest \<noteq> [] then Inl SM_ERR_INVALID_ARGUMENT
        else check (current = root) SM_ERR_CRYPTO)))"

section \<open>Reference definitions\<close>

text \<open>The number of levels above the leaves.\<close>

function merkle_depth :: "nat \<Rightarrow> nat" where
  "merkle_depth n = (if 1 < n then Suc (merkle_depth ((n + 1) div 2)) else 0)"
  by pat_completeness auto
termination by (relation "measure (\<lambda>n. n)") auto

declare merkle_depth.simps [simp del]

text \<open>The messages hashed for the inner nodes of a tree, and for the nodes on a proof's path.\<close>

definition level_messages :: "bytes list \<Rightarrow> bytes list" where
  "level_messages level =
     map (\<lambda>i. 0x01 # level ! (i * 2) @ level ! (if length level \<le> i * 2 + 1 then i * 2 else i * 2 + 1))
       [0..<(length level + 1) div 2]"

function tree_messages :: "env \<Rightarrow> bytes list \<Rightarrow> bytes list" where
  "tree_messages E level =
     (if 1 < length level then level_messages level @ tree_messages E (audit_reduce_merkle_level E level)
      else [])"
  by pat_completeness auto
termination by (relation "measure (\<lambda>(E, level). length level)") auto

declare tree_messages.simps [simp del]

function path_messages :: "env \<Rightarrow> bytes \<Rightarrow> bytes \<Rightarrow> nat \<Rightarrow> nat \<Rightarrow> bytes list" where
  "path_messages E proof current index count =
     (if 1 < count then
        let sibling = take 32 proof;
            m = 0x01 # (if index mod 2 = 0 then current @ sibling else sibling @ current)
        in m # path_messages E (drop 32 proof) (sha256 E m) (index div 2) ((count + 1) div 2)
      else [])"
  by pat_completeness auto
termination by (relation "measure (\<lambda>(E, p, c, i, n). n)") auto

declare path_messages.simps [simp del]

text \<open>The leaves of a log, and levels of well-formed hashes.\<close>

definition leaf_level :: "env \<Rightarrow> audit_row list \<Rightarrow> bytes list" where
  "leaf_level E rows = map (\<lambda>r. sha256 E (0x00 # a_entry_hash r)) rows"

definition hashes_32 :: "bytes list \<Rightarrow> bool" where
  "hashes_32 level \<longleftrightarrow> list_all (\<lambda>h. length h = 32) level"

section \<open>Levels\<close>

lemma reduce_nth:
  "i < (length level + 1) div 2 \<Longrightarrow> audit_reduce_merkle_level E level ! i = sha256 E (level_messages level ! i)"
  by (simp add: audit_reduce_merkle_level_def level_messages_def audit_hash_merkle_internal_def Let_def)

lemma half_index: "i < n \<Longrightarrow> i div 2 < (n + 1) div 2" for i n :: nat
  by simp

lemma level_message_path:
  assumes "i < length level"
  shows "level_messages level ! (i div 2) =
    0x01 # (let j = (if i mod 2 = 0 then i + 1 else i - 1); k = (if length level \<le> j then i else j) in
      if i mod 2 = 0 then level ! i @ level ! k else level ! k @ level ! i)"
proof -
  have h: "i div 2 < (length level + 1) div 2" using assms by (rule half_index)
  show ?thesis
  proof (cases "i mod 2 = 0")
    case True
    then have "i div 2 * 2 = i" by (simp add: minus_mod_eq_div_mult [symmetric])
    then show ?thesis using h True by (simp add: level_messages_def Let_def)
  next
    case False
    then have "i = i div 2 * 2 + 1" by (metis div_mult_mod_eq mod_2_eq_odd not_mod_2_eq_0_eq_1)
    then obtain m where m: "i = m * 2 + 1" "i div 2 = m" by simp
    then show ?thesis using h assms False by (simp add: level_messages_def Let_def)
  qed
qed

lemma set_reduce_32:
  "sha256_ok E \<Longrightarrow> x \<in> set (audit_reduce_merkle_level E level) \<Longrightarrow> length x = 32"
  by (auto simp: audit_reduce_merkle_level_def audit_hash_merkle_internal_def sha256_ok_def Let_def)

section \<open>Completeness\<close>

lemma hashes_32_reduce: "sha256_ok E \<Longrightarrow> hashes_32 (audit_reduce_merkle_level E level)"
  by (simp add: hashes_32_def list_all_iff set_reduce_32)

lemma hashes_32_nth: "hashes_32 level \<Longrightarrow> i < length level \<Longrightarrow> length (level ! i) = 32"
  by (simp add: hashes_32_def list_all_length)

lemma reduce_path:
  assumes "i < length level"
  shows "audit_reduce_merkle_level E level ! (i div 2) =
    (let j = (if i mod 2 = 0 then i + 1 else i - 1); k = (if length level \<le> j then i else j) in
      if i mod 2 = 0 then audit_hash_merkle_internal E (level ! i) (level ! k)
      else audit_hash_merkle_internal E (level ! k) (level ! i))"
  unfolding reduce_nth [OF half_index [OF assms]] level_message_path [OF assms]
  by (simp add: audit_hash_merkle_internal_def Let_def)

lemma proof_loop_complete:
  assumes "sha256_ok E" "audit_proof_loop E cap level i p = Inr q" "i < length level" "hashes_32 level"
  shows "\<exists>rest. q = p @ rest \<and> length rest = 32 * merkle_depth (length level) \<and>
    (\<forall>tail. audit_verify_loop E (rest @ tail) (level ! i) i (length level) =
       Inr (hd (audit_root_loop E level), tail))"
  using assms(2-4)
proof (induction "length level" arbitrary: level i p rule: less_induct)
  case less
  show ?case
  proof (cases "1 < length level")
    case False
    then have "i = 0" "level \<noteq> []" using less.prems(2) by auto
    then have "level ! i = hd level" by (simp add: hd_conv_nth)
    then show ?thesis using False less.prems(1)
      by (simp add: audit_proof_loop.simps [of _ _ level] merkle_depth.simps [of "length level"]
          audit_verify_loop.simps [of _ _ _ _ "length level"] audit_root_loop.simps [of _ level])
  next
    case True
    define j where "j = (if i mod 2 = 0 then i + 1 else i - 1)"
    define k where "k = (if length level \<le> j then i else j)"
    let ?up = "audit_reduce_merkle_level E level"
    have sib: "length (level ! k) = 32"
      using less.prems(2,3) by (intro hashes_32_nth) (auto simp: k_def)
    have step: "audit_proof_loop E cap ?up (i div 2) (p @ level ! k) = Inr q"
      using less.prems(1) True
      by (simp add: audit_proof_loop.simps [of _ _ level] Let_def j_def k_def split: if_splits)
    have shorter: "length ?up < length level" using True by simp
    obtain rest where rest: "q = (p @ level ! k) @ rest" "length rest = 32 * merkle_depth (length ?up)"
        "\<And>tail. audit_verify_loop E (rest @ tail) (?up ! (i div 2)) (i div 2) (length ?up) =
          Inr (hd (audit_root_loop E ?up), tail)"
      using less.hyps [OF shorter step] half_index [OF less.prems(2)] hashes_32_reduce [OF assms(1)] by auto
    have "audit_verify_loop E ((level ! k @ rest) @ tail) (level ! i) i (length level) =
        Inr (hd (audit_root_loop E level), tail)" for tail
    proof -
      have parent: "(if i mod 2 = 0 then audit_hash_merkle_internal E (level ! i) (level ! k)
          else audit_hash_merkle_internal E (level ! k) (level ! i)) = ?up ! (i div 2)"
        unfolding reduce_path [OF less.prems(2)] by (simp add: k_def j_def Let_def)
      show ?thesis
        using True sib rest(3) [of tail]
        by (subst audit_verify_loop.simps, subst audit_root_loop.simps [of _ level])
          (simp only: if_True Let_def AUDIT_MERKLE_ROOT_BYTES_def append_assoc take_append drop_append
            take_all drop_all order_refl diff_self_eq_0 take0 drop0 append_Nil append_Nil2 parent
            length_append length_reduce, simp)
    qed
    then show ?thesis
      using rest True by (intro exI [of _ "level ! k @ rest"])
        (simp add: merkle_depth.simps [of "length level"] sib)
  qed
qed

lemma proof_loop_total:
  assumes "sha256_ok E" "i < length level" "hashes_32 level"
    and "length p + 32 * merkle_depth (length level) \<le> cap"
  shows "\<exists>q. audit_proof_loop E cap level i p = Inr q"
  using assms(2-4)
proof (induction "length level" arbitrary: level i p rule: less_induct)
  case less
  show ?case
  proof (cases "1 < length level")
    case False
    then show ?thesis by (simp add: audit_proof_loop.simps [of _ _ level])
  next
    case True
    define j where "j = (if i mod 2 = 0 then i + 1 else i - 1)"
    define k where "k = (if length level \<le> j then i else j)"
    let ?up = "audit_reduce_merkle_level E level"
    have sib: "length (level ! k) = 32"
      using less.prems(1,2) by (intro hashes_32_nth) (auto simp: k_def)
    have depth: "merkle_depth (length level) = Suc (merkle_depth (length ?up))"
      using True by (simp add: merkle_depth.simps [of "length level"])
    have "\<exists>q. audit_proof_loop E cap ?up (i div 2) (p @ level ! k) = Inr q"
      by (rule less.hyps)
        (use True less.prems depth half_index [OF less.prems(1)] hashes_32_reduce [OF assms(1)] sib in auto)
    moreover have "audit_proof_loop E cap level i p = audit_proof_loop E cap ?up (i div 2) (p @ level ! k)"
      unfolding k_def j_def using True less.prems(3) depth
      by (subst audit_proof_loop.simps) (simp add: Let_def AUDIT_MERKLE_ROOT_BYTES_def)
    ultimately show ?thesis by simp
  qed
qed

lemma merkle_depth_bound: "n \<le> 2 ^ d \<Longrightarrow> merkle_depth n \<le> d"
proof (induction d arbitrary: n)
  case 0
  then show ?case by (simp add: merkle_depth.simps [of n])
next
  case (Suc d)
  then have "(n + 1) div 2 \<le> 2 ^ d" by simp
  then show ?case using Suc.IH by (simp add: merkle_depth.simps [of n])
qed

section \<open>Soundness\<close>

lemma verify_loop_sound:
  assumes "sha256_ok E" "hashes_32 level" "i < length level" "length cur = 32"
    and "audit_verify_loop E pf cur i (length level) = Inr (hd (audit_root_loop E level), rest)"
  shows "cur = level ! i \<or>
    (\<exists>m \<in> set (path_messages E pf cur i (length level)). \<exists>m' \<in> set (tree_messages E level).
       m \<noteq> m' \<and> sha256 E m = sha256 E m')"
  using assms(2-5)
proof (induction "length level" arbitrary: level i cur pf rule: less_induct)
  case less
  show ?case
  proof (cases "1 < length level")
    case False
    then have "i = 0" "level \<noteq> []" using less.prems(2) by auto
    then have "level ! i = hd level" by (simp add: hd_conv_nth)
    then show ?thesis using False less.prems(4)
      by (simp add: audit_verify_loop.simps [of _ _ _ _ "length level"] audit_root_loop.simps [of _ level])
  next
    case True
    let ?up = "audit_reduce_merkle_level E level"
    define sib where "sib = take 32 pf"
    define m where "m = 0x01 # (if i mod 2 = 0 then cur @ sib else sib @ cur)"
    have len: "length sib = 32" and
      run: "audit_verify_loop E (drop 32 pf) (sha256 E m) (i div 2) (length ?up) =
        Inr (hd (audit_root_loop E ?up), rest)"
      using less.prems(4) True
      by (auto simp: audit_verify_loop.simps [of _ pf] audit_root_loop.simps [of _ level]
          AUDIT_MERKLE_ROOT_BYTES_def audit_hash_merkle_internal_def Let_def sib_def m_def split: if_splits)
    have path: "path_messages E pf cur i (length level) =
        m # path_messages E (drop 32 pf) (sha256 E m) (i div 2) (length ?up)"
      using True by (simp add: path_messages.simps [of _ pf] Let_def sib_def m_def)
    have tree: "tree_messages E level = level_messages level @ tree_messages E ?up"
      using True by (simp add: tree_messages.simps [of _ level])
    have h: "i div 2 < (length level + 1) div 2" using less.prems(2) by (rule half_index)
    have "sha256 E m = ?up ! (i div 2) \<or>
      (\<exists>x \<in> set (path_messages E (drop 32 pf) (sha256 E m) (i div 2) (length ?up)).
        \<exists>y \<in> set (tree_messages E ?up). x \<noteq> y \<and> sha256 E x = sha256 E y)"
      by (rule less.hyps)
        (use True h run assms(1) hashes_32_reduce [OF assms(1)] in \<open>auto simp: sha256_ok_def\<close>)
    then show ?thesis
    proof
      assume eq: "sha256 E m = ?up ! (i div 2)"
      let ?m' = "level_messages level ! (i div 2)"
      have mem: "?m' \<in> set (level_messages level)"
        using h by (intro nth_mem) (simp add: level_messages_def)
      have "sha256 E m = sha256 E ?m'" using eq reduce_nth [OF h] by simp
      moreover have "cur = level ! i" if "m = ?m'"
        using that len less.prems(1-3) hashes_32_nth [OF less.prems(1)]
        unfolding level_message_path [OF less.prems(2)] m_def Let_def
        by (auto split: if_splits)
      ultimately show ?thesis using mem unfolding path tree by auto
    next
      assume "\<exists>x \<in> set (path_messages E (drop 32 pf) (sha256 E m) (i div 2) (length ?up)).
        \<exists>y \<in> set (tree_messages E ?up). x \<noteq> y \<and> sha256 E x = sha256 E y"
      then show ?thesis unfolding path tree by auto
    qed
  qed
qed

section \<open>The operations on the log\<close>

lemma length_leaf_level [simp]: "length (leaf_level E rows) = length rows"
  by (simp add: leaf_level_def)

lemma leaf_level_Nil [simp]: "leaf_level E rows = [] \<longleftrightarrow> rows = []"
  by (simp add: leaf_level_def)

lemma hashes_32_leaf_level: "sha256_ok E \<Longrightarrow> hashes_32 (leaf_level E rows)"
  by (simp add: leaf_level_def hashes_32_def sha256_ok_def list_all_iff)

lemma leaf_loop_Inr:
  "audit_leaf_loop E t rows n found = Inr (level, f) \<Longrightarrow>
    level = leaf_level E rows \<and> list_all (\<lambda>r. length (a_entry_hash r) = 32) rows \<and>
    (f = found \<or> (\<exists>j. f = Some j \<and> n \<le> j \<and> j < n + length rows \<and> a_entry_id (rows ! (j - n)) = t))"
proof (induction rows arbitrary: n found level f)
  case Nil
  then show ?case by (simp add: leaf_level_def)
next
  case (Cons r rows)
  from Cons.prems obtain level' where l: "length (a_entry_hash r) = 32"
      "level = sha256 E (0x00 # a_entry_hash r) # level'"
      "audit_leaf_loop E t rows (Suc n) (if 0 < t \<and> a_entry_id r = t then Some n else found) = Inr (level', f)"
    by (auto simp: and_then_eq_Inr audit_column_hash_def audit_hash_merkle_leaf_def
        crypto_hash_sha256_BYTES_def split: if_splits)
  from Cons.IH [OF l(3)] have rest: "level' = leaf_level E rows"
      "list_all (\<lambda>r. length (a_entry_hash r) = 32) rows"
      "f = (if 0 < t \<and> a_entry_id r = t then Some n else found) \<or>
        (\<exists>j. f = Some j \<and> Suc n \<le> j \<and> j < Suc n + length rows \<and> a_entry_id (rows ! (j - Suc n)) = t)"
    by auto
  have "f = found \<or> (\<exists>j. f = Some j \<and> n \<le> j \<and> j < n + length (r # rows) \<and> a_entry_id ((r # rows) ! (j - n)) = t)"
    using rest(3)
  proof
    assume "\<exists>j. f = Some j \<and> Suc n \<le> j \<and> j < Suc n + length rows \<and> a_entry_id (rows ! (j - Suc n)) = t"
    then obtain j where j: "f = Some j" "Suc n \<le> j" "j < Suc n + length rows" "a_entry_id (rows ! (j - Suc n)) = t"
      by blast
    then have "(r # rows) ! (j - n) = rows ! (j - Suc n)" by (simp add: nth_Cons' Suc_diff_le)
    then show ?thesis using j by auto
  qed (auto split: if_splits)
  then show ?case using l rest by (simp add: leaf_level_def)
qed

lemma leaf_loop_total:
  "list_all (\<lambda>r. length (a_entry_hash r) = 32) rows \<Longrightarrow>
    \<exists>f. audit_leaf_loop E t rows n found = Inr (leaf_level E rows, f) \<and>
      (found \<noteq> None \<or> (\<exists>r \<in> set rows. 0 < t \<and> a_entry_id r = t) \<longrightarrow> f \<noteq> None)"
proof (induction rows arbitrary: n found)
  case Nil
  then show ?case by (simp add: leaf_level_def)
next
  case (Cons r rows)
  let ?found = "if 0 < t \<and> a_entry_id r = t then Some n else found"
  obtain f where "audit_leaf_loop E t rows (Suc n) ?found = Inr (leaf_level E rows, f)"
      "?found \<noteq> None \<or> (\<exists>r \<in> set rows. 0 < t \<and> a_entry_id r = t) \<longrightarrow> f \<noteq> None"
    using Cons.IH [of "Suc n" ?found] Cons.prems by auto
  then show ?case using Cons.prems
    by (auto simp: audit_column_hash_def audit_hash_merkle_leaf_def crypto_hash_sha256_BYTES_def
        AUDIT_MERKLE_ROOT_BYTES_def leaf_level_def)
qed

lemma load_leaves_Inr:
  assumes "audit_load_merkle_leaves E t s = (Inr (level, i), s')"
  shows "level = leaf_level E (audit_rows (tables s)) \<and>
    list_all (\<lambda>r. length (a_entry_hash r) = 32) (audit_rows (tables s)) \<and>
    (0 < t \<longrightarrow> i < length (audit_rows (tables s)) \<and> a_entry_id (audit_rows (tables s) ! i) = t)"
proof (cases "audit_log (tables s) = []")
  case True
  then have rows: "audit_rows (tables s) = []" by simp
  show ?thesis unfolding rows using assms True
    by (auto simp: audit_load_merkle_leaves_def andthen_eq_Inr count_entries_Inr leaf_level_def split: if_splits)
next
  case False
  then obtain f where f: "audit_leaf_loop E t (audit_rows (tables s)) 0 None = Inr (level, f)"
      "0 < t \<longrightarrow> f \<noteq> None" "i = (case f of None \<Rightarrow> 0 | Some i \<Rightarrow> i)"
    using assms by (auto simp: audit_load_merkle_leaves_def andthen_eq_Inr count_entries_Inr select_eq_Inr
        split: if_splits)
  from leaf_loop_Inr [OF f(1)] f(2,3) show ?thesis by auto
qed

lemma compute_root_Inr:
  assumes "audit_compute_merkle_root E s = (Inr (root, n), s')"
  shows "n = length (audit_rows (tables s)) \<and>
    list_all (\<lambda>r. length (a_entry_hash r) = 32) (audit_rows (tables s)) \<and>
    (0 < n \<longrightarrow> root = hd (audit_root_loop E (leaf_level E (audit_rows (tables s)))))"
proof -
  obtain level i s1 where l: "audit_load_merkle_leaves E 0 s = (Inr (level, i), s1)"
      "(root, n) = (if level = [] then (replicate AUDIT_MERKLE_ROOT_BYTES 0, 0)
         else (hd (audit_root_loop E level), length level))"
    using assms by (auto simp: audit_compute_merkle_root_def andthen_eq_Inr split: if_splits)
  from load_leaves_Inr [OF l(1)] l(2) show ?thesis by (auto split: if_splits)
qed

lemma build_proof_Inr:
  assumes "audit_build_merkle_proof E eid cap s = (Inr (pf, i, n), s')"
  shows "1 \<le> eid \<and> n = length (audit_rows (tables s)) \<and> i < n \<and> a_entry_id (audit_rows (tables s) ! i) = eid \<and>
    list_all (\<lambda>r. length (a_entry_hash r) = 32) (audit_rows (tables s)) \<and>
    audit_proof_loop E cap (leaf_level E (audit_rows (tables s))) i [] = Inr pf"
proof -
  obtain level s1 where l: "1 \<le> eid" "audit_load_merkle_leaves E eid s = (Inr (level, i), s1)"
      "audit_proof_loop E cap level i [] = Inr pf" "n = length level"
    using assms by (auto simp: audit_build_merkle_proof_def andthen_eq_Inr)
  from load_leaves_Inr [OF l(2)] l(1,3,4) show ?thesis by auto
qed

lemma length_root_32:
  assumes "sha256_ok E" "hashes_32 level" "level \<noteq> []"
  shows "length (hd (audit_root_loop E level)) = 32"
  using assms(2,3)
proof (induction "length level" arbitrary: level rule: less_induct)
  case less
  show ?case
  proof (cases "1 < length level")
    case True
    then have "0 < length (audit_reduce_merkle_level E level)" by simp
    then have "audit_reduce_merkle_level E level \<noteq> []" by (rule length_greater_0_conv [THEN iffD1])
    then show ?thesis using less.hyps [of "audit_reduce_merkle_level E level"] True hashes_32_reduce [OF assms(1)]
      by (simp add: audit_root_loop.simps [of _ level])
  next
    case False
    then show ?thesis using less.prems hashes_32_nth [of level 0]
      by (simp add: audit_root_loop.simps [of _ level] hd_conv_nth)
  qed
qed

text \<open>
  C28: Inclusion proofs are complete. The proof that \<open>audit_build_merkle_proof\<close> gives for an
  entry is accepted by \<open>audit_verify_merkle_proof\<close> for that entry's hash against the root
  that \<open>audit_compute_merkle_root\<close> gives for the same log, at the reported index and count,
  and its length is 32 bytes per level of the tree.
\<close>

theorem merkle_proof_complete:
  assumes "audit_build_merkle_proof E eid cap s = (Inr (pf, i, n), s1)"
    and "audit_compute_merkle_root E s2 = (Inr (root, m), s3)" "tables s2 = tables s" "sha256_ok E"
  shows "m = n \<and> a_entry_id (audit_rows (tables s) ! i) = eid \<and> length pf = 32 * merkle_depth n \<and>
    audit_verify_merkle_proof E (a_entry_hash (audit_rows (tables s) ! i)) i n pf root = Inr ()"
proof -
  let ?rows = "audit_rows (tables s)" and ?level = "leaf_level E (audit_rows (tables s))"
  have b: "n = length ?rows" "i < n" "a_entry_id (?rows ! i) = eid"
      "list_all (\<lambda>r. length (a_entry_hash r) = 32) ?rows"
      "audit_proof_loop E cap ?level i [] = Inr pf"
    using build_proof_Inr [OF assms(1)] by auto
  have r: "m = n" "root = hd (audit_root_loop E ?level)"
    using compute_root_Inr [OF assms(2)] assms(3) b(1,2) by auto
  have h: "hashes_32 ?level" using assms(4) by (rule hashes_32_leaf_level)
  from proof_loop_complete [OF assms(4) b(5) _ h] b(1,2)
  obtain rest where rest: "pf = [] @ rest" "length rest = 32 * merkle_depth (length ?level)"
      "\<And>tail. audit_verify_loop E (rest @ tail) (?level ! i) i (length ?level) =
        Inr (hd (audit_root_loop E ?level), tail)" by auto
  have v: "length pf = 32 * merkle_depth n"
      "audit_verify_loop E pf (?level ! i) i n = Inr (hd (audit_root_loop E ?level), [])"
    using rest(1,2) rest(3) [of "[]"] b(1) by simp_all
  have "?level \<noteq> []" using b(1,2) by auto
  then have root: "length root = 32" unfolding r(2) by (rule length_root_32 [OF assms(4) h])
  have leaf: "length (a_entry_hash (?rows ! i)) = 32" "?level ! i = sha256 E (0x00 # a_entry_hash (?rows ! i))"
    using b(1,2,4) by (auto simp: list_all_length leaf_level_def)
  show ?thesis
    using r b(1-3) v root leaf
    by (auto simp: audit_verify_merkle_proof_def audit_hash_merkle_leaf_def AUDIT_MERKLE_ROOT_BYTES_def)
qed

text \<open>
  A buffer of \<open>AUDIT_MERKLE_PROOF_MAX_BYTES\<close> is always large enough: for every entry of a
  log of at most \<open>2 ^ 64\<close> rows with well-formed hashes the proof is built.
\<close>

theorem merkle_proof_fits:
  assumes "g_db s" "sha256_ok E" "\<forall>t. sql_ok E t"
    and "list_all (\<lambda>r. length (a_entry_hash r) = 32) (audit_log (tables s))"
    and "length (audit_log (tables s)) \<le> 2 ^ 64"
    and "r \<in> set (audit_log (tables s))" "1 \<le> a_entry_id r"
  shows "\<exists>pf i n s'. audit_build_merkle_proof E (a_entry_id r) AUDIT_MERKLE_PROOF_MAX_BYTES s = (Inr (pf, i, n), s')"
proof -
  let ?rows = "audit_rows (tables s)"
  have rows: "list_all (\<lambda>r. length (a_entry_hash r) = 32) ?rows" using assms(4) by (simp add: list_all_iff)
  obtain f where f: "audit_leaf_loop E (a_entry_id r) ?rows 0 None = Inr (leaf_level E ?rows, f)" "f \<noteq> None"
    using leaf_loop_total [OF rows, of E "a_entry_id r" 0 None] assms(6,7) by auto
  then obtain i where i: "f = Some i" by blast
  have il: "i < length ?rows" using leaf_loop_Inr [OF f(1)] i by auto
  have "merkle_depth (length (leaf_level E ?rows)) \<le> 64"
    using assms(5) by (intro merkle_depth_bound) simp
  then obtain pf where "audit_proof_loop E AUDIT_MERKLE_PROOF_MAX_BYTES (leaf_level E ?rows) i [] = Inr pf"
    using proof_loop_total [OF assms(2) _ hashes_32_leaf_level [OF assms(2)],
        of i ?rows "[]" AUDIT_MERKLE_PROOF_MAX_BYTES] il
    by (auto simp: AUDIT_MERKLE_PROOF_MAX_BYTES_def)
  moreover have "audit_log (tables s) \<noteq> []" using assms(6) by auto
  ultimately show ?thesis
    using f i assms(1,3,7)
    by (auto simp: audit_build_merkle_proof_def audit_load_merkle_leaves_def audit_count_entries_def
        andthen_def guard_def require_db_def sql_select_def)
qed

text \<open>
  C27: Inclusion proofs are sound. When \<open>audit_verify_merkle_proof\<close> accepts a hash at a
  position of a tree with the log's number of leaves against the log's root, the hash is the
  one stored at that position, or two different messages among those hashed by the verifier
  and by the tree have the same SHA-256 digest.
\<close>

theorem merkle_proof_sound:
  assumes "audit_compute_merkle_root E s = (Inr (root, n), s')" "sha256_ok E"
    and "audit_verify_merkle_proof E h i n pf root = Inr ()"
  shows "h = a_entry_hash (audit_rows (tables s) ! i) \<or>
    (\<exists>x \<in> set ((0x00 # h) # path_messages E pf (sha256 E (0x00 # h)) i n).
     \<exists>y \<in> set (map (\<lambda>r. 0x00 # a_entry_hash r) (audit_rows (tables s)) @
        tree_messages E (leaf_level E (audit_rows (tables s)))).
       x \<noteq> y \<and> sha256 E x = sha256 E y)"
proof -
  let ?rows = "audit_rows (tables s)" and ?level = "leaf_level E (audit_rows (tables s))"
  have v: "i < n" "audit_verify_loop E pf (sha256 E (0x00 # h)) i n = Inr (root, [])"
    using assms(3)
    by (auto simp: audit_verify_merkle_proof_def audit_hash_merkle_leaf_def and_then_eq_Inr split: if_splits)
  have r: "n = length ?level" "root = hd (audit_root_loop E ?level)"
    using compute_root_Inr [OF assms(1)] v(1) by auto
  have i: "i < length ?level" using v(1) r(1) by simp
  have leaf: "?level ! i = sha256 E (0x00 # a_entry_hash (?rows ! i))" "?rows ! i \<in> set ?rows"
    using i nth_mem [of i ?rows] by (simp_all add: leaf_level_def)
  have "sha256 E (0x00 # h) = ?level ! i \<or>
    (\<exists>x \<in> set (path_messages E pf (sha256 E (0x00 # h)) i (length ?level)).
      \<exists>y \<in> set (tree_messages E ?level). x \<noteq> y \<and> sha256 E x = sha256 E y)"
    using verify_loop_sound [OF assms(2) hashes_32_leaf_level [OF assms(2)] i _ v(2) [unfolded r]] assms(2)
    by (simp add: sha256_ok_def)
  then show ?thesis
  proof
    assume eq: "sha256 E (0x00 # h) = ?level ! i"
    show ?thesis
    proof (cases "h = a_entry_hash (?rows ! i)")
      case False
      then show ?thesis using eq leaf
        by (intro disjI2 bexI [of _ "0x00 # h"] bexI [of _ "0x00 # a_entry_hash (?rows ! i)"]) auto
    qed simp
  qed (use r(1) in auto)
qed

text \<open>
  The root alone does not fix the number of leaves: on a level with an odd number of
  nodes the last one is paired with itself, so repeating the last leaf of a log of odd
  length (three or more) gives the same root. Only the separately reported leaf count tells
  the two apart.
\<close>

theorem merkle_root_repeats_last:
  assumes "odd (length level)" "3 \<le> length level"
  shows "audit_root_loop E (level @ [last level]) = audit_root_loop E level"
proof -
  obtain k where k: "length level = 2 * k + 1" using assms(1) by (auto elim: oddE)
  have last: "last level = level ! (2 * k)" using k by (subst last_conv_nth) auto
  have "audit_reduce_merkle_level E (level @ [last level]) = audit_reduce_merkle_level E level"
  proof (rule nth_equalityI)
    show "length (audit_reduce_merkle_level E (level @ [last level])) = length (audit_reduce_merkle_level E level)"
      using k by simp
    fix i
    assume "i < length (audit_reduce_merkle_level E (level @ [last level]))"
    then have i: "i \<le> k" using k by simp
    show "audit_reduce_merkle_level E (level @ [last level]) ! i = audit_reduce_merkle_level E level ! i"
      using i k last
      by (cases "i = k") (auto simp: audit_reduce_merkle_level_def nth_append Let_def mult.commute)
  qed
  then show ?thesis
    using assms(2) by (auto simp add: audit_root_loop.simps [of E "level @ [last level]"]
        audit_root_loop.simps [of E level])
qed

section \<open>Witnesses\<close>

text \<open>A log of three rows; only the ids and the entry hashes matter here.\<close>

definition merkle_row :: "int \<Rightarrow> audit_row" where
  "merkle_row i = \<lparr>a_entry_id = i, a_timestamp = ''t'', a_action = ''READ'', a_actor = ''u'', a_target = ''a'',
     a_target_version = None, a_result = ''SUCCESS'', a_prev_hash = [], a_entry_hash = replicate 32 (of_int i),
     a_hmac_signature = []\<rparr>"

definition merkle_store :: store where
  "merkle_store = \<lparr>tick = 0, g_db = True,
     tables = \<lparr>secrets = [], audit_log = map merkle_row [1, 2, 3], metadata = Map.empty, auth_failures = []\<rparr>,
     saved = None\<rparr>"

definition merkle_sample_root :: bytes where
  "merkle_sample_root = (case fst (audit_compute_merkle_root sample_env merkle_store) of Inr (root, n) \<Rightarrow> root)"

definition merkle_sample_proof :: bytes where
  "merkle_sample_proof = (case fst (audit_build_merkle_proof sample_env 3 64 merkle_store) of Inr (pf, i, n) \<Rightarrow> pf)"

lemma merkle_sample_root_run:
  "fst (audit_compute_merkle_root sample_env merkle_store) = Inr (merkle_sample_root, 3)"
  by code_simp

lemma merkle_sample_proof_run:
  "fst (audit_build_merkle_proof sample_env 3 64 merkle_store) = Inr (merkle_sample_proof, 2, 3)"
  by code_simp

theorem merkle_proof_complete_witness:
  "audit_verify_merkle_proof sample_env (a_entry_hash (audit_rows (tables merkle_store) ! 2)) 2 3
     merkle_sample_proof merkle_sample_root = Inr () \<and> length merkle_sample_proof = 32 * merkle_depth 3"
  using merkle_proof_complete [OF _ _ refl sample_hashes_ok(1), of 3 64 merkle_store merkle_sample_proof 2 3
      "snd (audit_build_merkle_proof sample_env 3 64 merkle_store)" merkle_sample_root 3
      "snd (audit_compute_merkle_root sample_env merkle_store)"]
    merkle_sample_root_run merkle_sample_proof_run
  by (metis prod.collapse)

theorem merkle_proof_fits_witness:
  "\<exists>pf i n s'. audit_build_merkle_proof sample_env (a_entry_id (merkle_row 2)) AUDIT_MERKLE_PROOF_MAX_BYTES
     merkle_store = (Inr (pf, i, n), s')"
  by (rule merkle_proof_fits)
    (simp_all add: sample_hashes_ok merkle_store_def merkle_row_def, simp add: sample_env_def)

theorem merkle_proof_sound_witness:
  "\<exists>h. audit_verify_merkle_proof sample_env h 2 3 merkle_sample_proof merkle_sample_root = Inr () \<and>
   (h = a_entry_hash (audit_rows (tables merkle_store) ! 2) \<or>
    (\<exists>x \<in> set ((0x00 # h) # path_messages sample_env merkle_sample_proof (sha256 sample_env (0x00 # h)) 2 3).
     \<exists>y \<in> set (map (\<lambda>r. 0x00 # a_entry_hash r) (audit_rows (tables merkle_store)) @
        tree_messages sample_env (leaf_level sample_env (audit_rows (tables merkle_store)))).
       x \<noteq> y \<and> sha256 sample_env x = sha256 sample_env y))"
proof -
  have "audit_verify_merkle_proof sample_env (replicate 32 3) 2 3 merkle_sample_proof merkle_sample_root = Inr ()"
    by code_simp
  moreover have "audit_compute_merkle_root sample_env merkle_store =
      (Inr (merkle_sample_root, 3), snd (audit_compute_merkle_root sample_env merkle_store))"
    using merkle_sample_root_run by (metis prod.collapse)
  ultimately show ?thesis
    using merkle_proof_sound [OF _ sample_hashes_ok(1), of merkle_store merkle_sample_root 3 _ "replicate 32 3" 2
      merkle_sample_proof] by blast
qed

theorem merkle_root_repeats_last_witness:
  "audit_root_loop sample_env [[1], [2], [3], [3]] = audit_root_loop sample_env [[1], [2], [3]]"
  using merkle_root_repeats_last [of "[[1], [2], [3]]" sample_env] by simp

end
