(* ===== verification/Fuin_Vault.thy ===== *)
theory Fuin_Vault
  imports Fuin_Vault_Data Fuin_Audit_Chain Fuin_Merkle
begin

text \<open>
  The operations of the vault, \<open>src/src/vault.c\<close> from line 1559 on: unlocking, storing,
  reading, deleting and rolling back secrets, listing, the security report, the audit
  wrappers, key rotation, expiry and tokens. Each is a computation over the vault state
  that mirrors the order of the calls, the early returns and the closing commit or rollback
  of the C function. Callbacks are functions that answer with a status.
\<close>

section \<open>Expiry\<close>

definition expired_rows :: "string \<Rightarrow> db \<Rightarrow> secret_row list" where
  "expired_rows limit d =
     filter (\<lambda>r. active_row (secrets d) r \<and>
       (case s_expires_at r of None \<Rightarrow> False | Some t \<Rightarrow> strcmp t limit \<le> 0)) (secrets d)"

text \<open>\<open>ORDER BY expires_at ASC, name ASC\<close>, as two stable sorts.\<close>

definition order_expired :: "secret_row list \<Rightarrow> secret_row list" where
  "order_expired rows = sort_key (\<lambda>r. case s_expires_at r of None \<Rightarrow> [] | Some t \<Rightarrow> t) (sort_key s_name rows)"

definition vault_find_next_expired_secret :: "env \<Rightarrow> string \<Rightarrow> ('a store_scheme, string option) comp" where
  "vault_find_next_expired_secret E now =
     andthen require_db (\<lambda>_.
     andthen (sql_select E (\<lambda>d. order_expired (expired_rows now d))) (\<lambda>rows.
     case rows of
       [] \<Rightarrow> ret None
     | r # _ \<Rightarrow> if s_name r = [] then raise SM_ERR_STORAGE else ret (Some (c_str (s_name r)))))"

text \<open>The timestamp a lifetime leads to; no lifetime, no expiry.\<close>

definition vault_expiry_for :: "env \<Rightarrow> int \<Rightarrow> ('a world_scheme, string option) comp" where
  "vault_expiry_for E ttl =
     (if 0 < ttl then
        andthen (utils_now_plus_seconds_iso8601 E (of_int ttl) UTILS_ISO8601_UTC_BUFFER_LEN) (\<lambda>t. ret (Some t))
      else ret None)"

text \<open>
  The transaction that ends storing, rolling back and rotating: archive the active row, insert
  the new one, append the audit entry. \<open>archive\<close> is \<open>Some require_existing\<close> when the code archives.
\<close>

definition vault_replace_active ::
  "env \<Rightarrow> kdf_subkeys \<Rightarrow> bool option \<Rightarrow> string \<Rightarrow> string \<Rightarrow> string \<Rightarrow> bytes \<Rightarrow> bytes \<Rightarrow> int \<Rightarrow> int \<Rightarrow> string \<Rightarrow>
    string option \<Rightarrow> int \<Rightarrow> encrypted_secret \<Rightarrow> (vault, unit) comp" where
  "vault_replace_active E k archive action rid stored_name name_nonce encrypted_name version nonce_counter now
     expires interval es =
     finally_do
       (andthen (storage_begin_transaction E) (\<lambda>_.
        andthen (case archive of None \<Rightarrow> ret () | Some require_existing \<Rightarrow>
          vault_archive_active_secret E stored_name now require_existing) (\<lambda>_.
        andthen (vault_insert_secret E rid stored_name name_nonce encrypted_name version nonce_counter now now
          expires interval es) (\<lambda>_.
        vault_log_success E k action stored_name version))))
       (commit_or_rollback E)"

definition vault_rotate_expired_secret :: "env \<Rightarrow> kdf_subkeys \<Rightarrow> string \<Rightarrow> (vault, unit) comp" where
  "vault_rotate_expired_secret E k name =
     andthen (guard (name \<noteq> []) SM_ERR_INVALID_ARGUMENT) (\<lambda>_.
     andthen (utils_now_iso8601 E UTILS_ISO8601_UTC_BUFFER_LEN) (\<lambda>now.
     andthen (vault_find_secret_metadata E name) (\<lambda>found.
     case found of
       None \<Rightarrow> raise SM_ERR_STORAGE
     | Some m \<Rightarrow>
         if (case md_expires_at m of None \<Rightarrow> True | Some t \<Rightarrow> \<not> vault_expiry_is_due t now) then ret ()
         else
           andthen (vault_decrypt_secret_alloc E k name (md_version m) CRYPTO_ENGINE_ALGORITHM_MAX) (\<lambda>(plaintext, algorithm).
           andthen (vault_find_secret_history_bounds E name) (\<lambda>bounds.
           case bounds of
             None \<Rightarrow> raise SM_ERR_STORAGE
           | Some (max_version, max_nonce_counter) \<Rightarrow>
               andthen (guard (max_version \<noteq> INT_MAX \<and> max_nonce_counter \<noteq> INT64_MAX) SM_ERR_STORAGE) (\<lambda>_.
               andthen (utils_generate_uuid_v4 E UTILS_UUID_V4_BUFFER_LEN) (\<lambda>rid.
               andthen (lift_result (crypto_engine_build_row_identity E rid name CRYPTO_ENGINE_ROW_IDENTITY_HEX_LEN)) (\<lambda>identity.
               andthen (vault_expiry_for E (md_rotation_interval m)) (\<lambda>expires.
               andthen (crypto_engine_encrypt_with_algorithm E plaintext (kek_enc k) identity
                 (of_int (max_version + 1)) (of_int (max_nonce_counter + 1)) (Some algorithm)) (\<lambda>es.
               vault_replace_active E k (Some True) ''ROTATE_DEK'' rid name (md_name_nonce m) (md_encrypted_name m)
                 (max_version + 1) (max_nonce_counter + 1) now expires (md_rotation_interval m) es)))))))))) "

section \<open>Unlocking\<close>

text \<open>The part of \<open>vault_unlock_internal\<close> between the two calls of \<open>vault_lock_state\<close>.\<close>

definition vault_unlock_body :: "env \<Rightarrow> string \<Rightarrow> bool \<Rightarrow> (vault, kdf_subkeys) comp" where
  "vault_unlock_body E master_password allow_metadata_initialize =
     andthen (vault_load_auth_metadata E) (\<lambda>stored.
     andthen (guard (stored \<noteq> None \<or> allow_metadata_initialize) SM_ERR_NOT_FOUND) (\<lambda>_.
     andthen (case stored of Some (salt, _) \<Rightarrow> ret salt | None \<Rightarrow> kdf_generate_salt E) (\<lambda>salt.
     andthen (lift_result (fst (kdf_derive_master_key E master_password salt))) (\<lambda>master_key.
     let computed_verifier = sha256 E master_key in
     if (case stored of Some (_, verifier) \<Rightarrow> computed_verifier \<noteq> verifier | None \<Rightarrow> False)
     then andthen (vault_log_auth_failure_untrusted E) (\<lambda>_. raise SM_ERR_AUTH)
     else
       andthen (lift_result (fst (kdf_derive_subkeys E master_key))) (\<lambda>k.
       case stored of
         None \<Rightarrow> andthen (vault_store_auth_metadata E salt computed_verifier k) (\<lambda>_. ret k)
       | Some _ \<Rightarrow> vault_load_meta_key E k)))))"

definition vault_unlock_internal :: "env \<Rightarrow> string \<Rightarrow> bool \<Rightarrow> (vault, unit) comp" where
  "vault_unlock_internal E master_password allow_metadata_initialize =
     andthen (guard (master_password \<noteq> []) SM_ERR_INVALID_ARGUMENT) (\<lambda>_.
     andthen require_db (\<lambda>_.
     andthen vault_lock_state (\<lambda>_.
     finally_do (vault_unlock_body E master_password allow_metadata_initialize) (\<lambda>r.
       case r of
         Inr k \<Rightarrow> modify (\<lambda>s. s\<lparr>g_subkeys := Some k, g_unlocked := True\<rparr>)
       | Inl e \<Rightarrow> andthen vault_lock_state (\<lambda>_. raise e)))))"

definition vault_unlock :: "env \<Rightarrow> string \<Rightarrow> (vault, unit) comp" where
  "vault_unlock E master_password = vault_unlock_internal E master_password True"

definition vault_unlock_existing :: "env \<Rightarrow> string \<Rightarrow> (vault, unit) comp" where
  "vault_unlock_existing E master_password = vault_unlock_internal E master_password False"

section \<open>Storing and reading\<close>

definition vault_put_with_options ::
  "env \<Rightarrow> string \<Rightarrow> bytes \<Rightarrow> string option \<Rightarrow> 64 word \<Rightarrow> (vault, unit) comp" where
  "vault_put_with_options E name secret algorithm ttl_seconds =
     andthen vault_require_unlocked (\<lambda>k.
     andthen (guard (vault_name_is_clean name) SM_ERR_INVALID_ARGUMENT) (\<lambda>_.
     andthen (lift_result (vault_build_name_lookup E k name)) (\<lambda>stored_name.
     andthen (vault_encrypt_display_name E k name stored_name) (\<lambda>(name_nonce, encrypted_name).
     andthen (vault_find_secret_metadata E stored_name) (\<lambda>found.
     andthen (vault_find_secret_history_bounds E stored_name) (\<lambda>bounds.
     andthen (utils_now_iso8601 E UTILS_ISO8601_UTC_BUFFER_LEN) (\<lambda>now.
     andthen (guard (uint ttl_seconds \<le> INT64_MAX) SM_ERR_INVALID_ARGUMENT) (\<lambda>_.
     andthen (vault_expiry_for E (uint ttl_seconds)) (\<lambda>expires.
     andthen (case bounds of
         None \<Rightarrow> ret (1, 1)
       | Some (max_version, max_nonce_counter) \<Rightarrow>
           if max_version = INT_MAX \<or> max_nonce_counter = INT64_MAX then raise SM_ERR_STORAGE
           else ret (max_version + 1, max_nonce_counter + 1)) (\<lambda>(version, nonce_counter).
     andthen (utils_generate_uuid_v4 E UTILS_UUID_V4_BUFFER_LEN) (\<lambda>rid.
     andthen (lift_result (crypto_engine_build_row_identity E rid stored_name CRYPTO_ENGINE_ROW_IDENTITY_HEX_LEN)) (\<lambda>identity.
     andthen (crypto_engine_encrypt_with_algorithm E secret (kek_enc k) identity (of_int version)
       (of_int nonce_counter) algorithm) (\<lambda>es.
     vault_replace_active E k (if found \<noteq> None then Some True else None)
       (if found \<noteq> None then ''UPDATE'' else ''CREATE'') rid stored_name name_nonce encrypted_name
       version nonce_counter now expires (uint ttl_seconds) es)))))))))))))"

definition vault_put :: "env \<Rightarrow> string \<Rightarrow> bytes \<Rightarrow> (vault, unit) comp" where
  "vault_put E name secret = vault_put_with_options E name secret None 0"

definition vault_put_with_algorithm :: "env \<Rightarrow> string \<Rightarrow> bytes \<Rightarrow> string option \<Rightarrow> (vault, unit) comp" where
  "vault_put_with_algorithm E name secret algorithm = vault_put_with_options E name secret algorithm 0"

definition vault_get :: "env \<Rightarrow> string \<Rightarrow> nat \<Rightarrow> (vault, bytes) comp" where
  "vault_get E name output_len =
     andthen vault_require_unlocked (\<lambda>k. vault_read_secret E k name None output_len True)"

definition vault_get_version :: "env \<Rightarrow> string \<Rightarrow> int \<Rightarrow> nat \<Rightarrow> (vault, bytes) comp" where
  "vault_get_version E name version output_len =
     andthen vault_require_unlocked (\<lambda>k.
     andthen (guard (\<not> version < 1) SM_ERR_INVALID_ARGUMENT) (\<lambda>_.
     vault_read_secret E k name (Some version) output_len True))"

definition vault_delete :: "env \<Rightarrow> string \<Rightarrow> (vault, unit) comp" where
  "vault_delete E name =
     andthen vault_require_unlocked (\<lambda>k.
     andthen require_db (\<lambda>_.
     andthen (guard (name \<noteq> []) SM_ERR_INVALID_ARGUMENT) (\<lambda>_.
     andthen (lift_result (vault_build_name_lookup E k name)) (\<lambda>stored_name.
     andthen (utils_now_iso8601 E UTILS_ISO8601_UTC_BUFFER_LEN) (\<lambda>now.
     andthen (vault_find_secret_metadata E stored_name) (\<lambda>found.
     case found of
       None \<Rightarrow> raise SM_ERR_NOT_FOUND
     | Some m \<Rightarrow>
         andthen (storage_begin_transaction E) (\<lambda>_.
         finally_do
           (andthen (vault_archive_active_secret E stored_name now True) (\<lambda>_.
            vault_log_success E k ''DELETE'' stored_name (md_version m)))
           (commit_or_rollback E))))))))"

definition vault_rollback :: "env \<Rightarrow> string \<Rightarrow> int \<Rightarrow> (vault, unit) comp" where
  "vault_rollback E name version =
     andthen vault_require_unlocked (\<lambda>k.
     andthen (guard (name \<noteq> [] \<and> \<not> version < 1) SM_ERR_INVALID_ARGUMENT) (\<lambda>_.
     andthen (lift_result (vault_build_name_lookup E k name)) (\<lambda>stored_name.
     andthen (vault_encrypt_display_name E k name stored_name) (\<lambda>(name_nonce, encrypted_name).
     andthen (vault_decrypt_secret_alloc E k stored_name version CRYPTO_ENGINE_ALGORITHM_MAX) (\<lambda>(plaintext, algorithm).
     andthen (vault_get_version_ttl E stored_name version) (\<lambda>src_ttl.
     andthen (vault_find_secret_history_bounds E stored_name) (\<lambda>bounds.
     case bounds of
       None \<Rightarrow> raise SM_ERR_STORAGE
     | Some (max_version, max_nonce_counter) \<Rightarrow>
         andthen (guard (max_version \<noteq> INT_MAX \<and> max_nonce_counter \<noteq> INT64_MAX) SM_ERR_STORAGE) (\<lambda>_.
         andthen (utils_now_iso8601 E UTILS_ISO8601_UTC_BUFFER_LEN) (\<lambda>now.
         andthen (vault_expiry_for E src_ttl) (\<lambda>expires.
         andthen (utils_generate_uuid_v4 E UTILS_UUID_V4_BUFFER_LEN) (\<lambda>rid.
         andthen (lift_result (crypto_engine_build_row_identity E rid stored_name CRYPTO_ENGINE_ROW_IDENTITY_HEX_LEN)) (\<lambda>identity.
         andthen (crypto_engine_encrypt_with_algorithm E plaintext (kek_enc k) identity (of_int (max_version + 1))
           (of_int (max_nonce_counter + 1)) (Some algorithm)) (\<lambda>es.
         vault_replace_active E k (Some False) ''ROLLBACK'' rid stored_name name_nonce encrypted_name
           (max_version + 1) (max_nonce_counter + 1) now expires src_ttl es)))))))))))))"

definition vault_get_active_version :: "env \<Rightarrow> string \<Rightarrow> (vault, int) comp" where
  "vault_get_active_version E name =
     andthen vault_require_unlocked (\<lambda>k.
     andthen (guard (name \<noteq> []) SM_ERR_INVALID_ARGUMENT) (\<lambda>_.
     andthen (lift_result (vault_build_name_lookup E k name)) (\<lambda>stored_name.
     andthen (vault_find_secret_metadata E stored_name) (\<lambda>found.
     case found of None \<Rightarrow> raise SM_ERR_NOT_FOUND | Some m \<Rightarrow> ret (md_version m)))))"

definition vault_debug_name_lookup :: "env \<Rightarrow> string \<Rightarrow> (vault, string) comp" where
  "vault_debug_name_lookup E name =
     andthen vault_require_unlocked (\<lambda>k. lift_result (vault_build_name_lookup E k name))"

definition vault_close :: "env \<Rightarrow> (vault, unit) comp" where
  "vault_close E = andthen vault_lock_state (\<lambda>_. storage_close E)"

section \<open>Listing\<close>

record vault_list_item =
  li_name :: string
  li_version :: int
  li_algorithm :: string
  li_created_at :: string
  li_updated_at :: string
  li_expires_at :: "string option"
  li_rotation_interval :: int
  li_is_archived :: bool
  li_is_expired :: bool

definition vault_list_item_of :: "env \<Rightarrow> kdf_subkeys \<Rightarrow> string \<Rightarrow> secret_row \<Rightarrow> vault_list_item result" where
  "vault_list_item_of E k now r =
     (if s_name r = [] \<or> s_name_nonce r = [] \<or> s_encrypted_name r = [] then Inl SM_ERR_STORAGE
      else
        and_then (vault_decrypt_display_name E k (c_str (s_name r)) (s_name_nonce r) (s_encrypted_name r)
          (VAULT_SECRET_NAME_MAX + 1)) (\<lambda>display_name.
        let interval = column_int64 (s_rotation_interval r) in
        if interval < 0 then Inl SM_ERR_STORAGE
        else if c_int (s_version r) < 1 then Inl SM_ERR_STORAGE
        else Inr \<lparr>li_name = display_name, li_version = c_int (s_version r), li_algorithm = c_str (s_algorithm r),
          li_created_at = c_str (s_created_at r), li_updated_at = c_str (s_updated_at r),
          li_expires_at = map_option c_str (s_expires_at r), li_rotation_interval = interval,
          li_is_archived = s_is_archived r,
          li_is_expired = (\<not> s_is_archived r \<and>
            (case s_expires_at r of None \<Rightarrow> False | Some t \<Rightarrow> vault_expiry_is_due (c_str t) now))\<rparr>))"

text \<open>The items handed to the callback, whose answer can stop the loop.\<close>

fun vault_list_loop ::
  "env \<Rightarrow> kdf_subkeys \<Rightarrow> string \<Rightarrow> (vault_list_item \<Rightarrow> unit result) \<Rightarrow> secret_row list \<Rightarrow>
    (vault, vault_list_item list) comp" where
  "vault_list_loop E k now callback [] = andthen (sql_prepare E) (\<lambda>_. ret [])"
| "vault_list_loop E k now callback (r # rows) =
     andthen (sql_prepare E) (\<lambda>_.
     andthen (lift_result (vault_list_item_of E k now r)) (\<lambda>item.
     andthen (lift_result (callback item)) (\<lambda>_.
     andthen (vault_list_loop E k now callback rows) (\<lambda>items. ret (item # items)))))"

definition vault_list_secrets ::
  "env \<Rightarrow> bool \<Rightarrow> (vault_list_item \<Rightarrow> unit result) \<Rightarrow> (vault, vault_list_item list) comp" where
  "vault_list_secrets E include_archived callback =
     andthen vault_require_unlocked (\<lambda>k.
     andthen require_db (\<lambda>_.
     andthen (utils_now_iso8601 E UTILS_ISO8601_UTC_BUFFER_LEN) (\<lambda>now.
     andthen (sql_select E (\<lambda>d. sort_key s_name (sort_key s_version
       (filter (\<lambda>r. include_archived \<or> active_row (secrets d) r) (secrets d))))) (\<lambda>rows.
     vault_list_loop E k now callback rows))))"

text \<open>One row of \<open>vault_check_expiry\<close>: what its callback receives.\<close>

definition vault_expiry_item_of ::
  "env \<Rightarrow> kdf_subkeys \<Rightarrow> string \<Rightarrow> secret_row \<Rightarrow> (string \<times> int \<times> string \<times> bool) result" where
  "vault_expiry_item_of E k now r =
     (case s_expires_at r of
        None \<Rightarrow> Inl SM_ERR_STORAGE
      | Some t \<Rightarrow>
          if s_name r = [] \<or> s_name_nonce r = [] \<or> s_encrypted_name r = [] \<or> c_int (s_version r) < 1 then Inl SM_ERR_STORAGE
          else
            and_then (vault_decrypt_display_name E k (c_str (s_name r)) (s_name_nonce r) (s_encrypted_name r)
              (VAULT_SECRET_NAME_MAX + 1)) (\<lambda>display_name.
            Inr (display_name, c_int (s_version r), c_str t, vault_expiry_is_due (c_str t) now)))"

fun vault_expiry_loop ::
  "env \<Rightarrow> kdf_subkeys \<Rightarrow> string \<Rightarrow> (string \<times> int \<times> string \<times> bool \<Rightarrow> unit result) \<Rightarrow> secret_row list \<Rightarrow>
    (vault, (string \<times> int \<times> string \<times> bool) list) comp" where
  "vault_expiry_loop E k now callback [] = andthen (sql_prepare E) (\<lambda>_. ret [])"
| "vault_expiry_loop E k now callback (r # rows) =
     andthen (sql_prepare E) (\<lambda>_.
     andthen (lift_result (vault_expiry_item_of E k now r)) (\<lambda>item.
     andthen (lift_result (callback item)) (\<lambda>_.
     andthen (vault_expiry_loop E k now callback rows) (\<lambda>items. ret (item # items)))))"

definition vault_check_expiry ::
  "env \<Rightarrow> 64 word \<Rightarrow> (string \<times> int \<times> string \<times> bool \<Rightarrow> unit result) \<Rightarrow>
    (vault, (string \<times> int \<times> string \<times> bool) list) comp" where
  "vault_check_expiry E within_seconds callback =
     andthen vault_require_unlocked (\<lambda>k.
     andthen require_db (\<lambda>_.
     andthen (utils_now_iso8601 E UTILS_ISO8601_UTC_BUFFER_LEN) (\<lambda>now.
     andthen (if 0 < within_seconds
       then utils_now_plus_seconds_iso8601 E within_seconds UTILS_ISO8601_UTC_BUFFER_LEN else ret now) (\<lambda>threshold.
     andthen (sql_select E (\<lambda>d. order_expired (expired_rows threshold d))) (\<lambda>rows.
     vault_expiry_loop E k now callback rows)))))"

section \<open>The security report\<close>

record vault_security_report =
  distinct_names :: nat
  active_secrets :: nat
  archived_versions :: nat
  total_versions :: nat
  deleted_names :: nat
  ttl_active :: nat
  expired_active :: nat
  expiring_7d :: nat
  active_aes256gcm :: nat
  active_xchacha20poly1305 :: nat
  active_aegis256 :: nat
  audit_entries :: nat
  audit_leaf_count :: nat
  audit_root :: bytes

text \<open>The columns of \<open>report_sql\<close> over the classified rows.\<close>

definition report_counts :: "string \<Rightarrow> string \<Rightarrow> secret_row list \<Rightarrow> vault_security_report" where
  "report_counts now soon rows =
     (let active = filter (active_row rows) rows;
          count = (\<lambda>p. length (filter p active));
          due = (\<lambda>r limit. case s_expires_at r of None \<Rightarrow> False | Some t \<Rightarrow> strcmp t limit \<le> 0) in
      \<lparr>distinct_names = length (remdups (map s_name rows)),
       active_secrets = length active,
       archived_versions = length (filter (\<lambda>r. \<not> active_row rows r) rows),
       total_versions = length rows,
       deleted_names = 0,
       ttl_active = count (\<lambda>r. case s_rotation_interval r of None \<Rightarrow> False | Some i \<Rightarrow> 0 < i),
       expired_active = count (\<lambda>r. due r now),
       expiring_7d = count (\<lambda>r. s_expires_at r \<noteq> None \<and> \<not> due r now \<and> due r soon),
       active_aes256gcm = count (\<lambda>r. s_algorithm r = ''AES-256-GCM''),
       active_xchacha20poly1305 = count (\<lambda>r. s_algorithm r = ''XChaCha20-Poly1305''),
       active_aegis256 = count (\<lambda>r. s_algorithm r = ''AEGIS-256''),
       audit_entries = 0, audit_leaf_count = 0, audit_root = []\<rparr>)"

definition report_deleted :: "secret_row list \<Rightarrow> nat" where
  "report_deleted rows =
     length (filter (\<lambda>n. list_all (\<lambda>r. s_name r = n \<longrightarrow> \<not> active_row rows r) rows) (remdups (map s_name rows)))"

definition vault_security_report_for :: "env \<Rightarrow> (vault, vault_security_report) comp" where
  "vault_security_report_for E =
     andthen vault_require_unlocked (\<lambda>k.
     andthen require_db (\<lambda>_.
     andthen (utils_now_iso8601 E UTILS_ISO8601_UTC_BUFFER_LEN) (\<lambda>now.
     andthen (utils_now_plus_seconds_iso8601 E 604800 UTILS_ISO8601_UTC_BUFFER_LEN) (\<lambda>soon.
     andthen (sql_select E (\<lambda>d. report_counts now soon (secrets d))) (\<lambda>report.
     andthen (sql_select E (\<lambda>d. report_deleted (secrets d))) (\<lambda>deleted.
     andthen (sql_select E (\<lambda>d. length (audit_log d))) (\<lambda>entries.
     andthen (audit_verify_chain E (kek_audit k)) (\<lambda>_.
     andthen (audit_compute_merkle_root E) (\<lambda>(the_root, leaf_count).
     ret (report\<lparr>deleted_names := deleted, audit_entries := entries, audit_leaf_count := leaf_count,
       audit_root := the_root\<rparr>))))))))))"

section \<open>The audit log\<close>

definition vault_audit_verify :: "env \<Rightarrow> (vault, unit) comp" where
  "vault_audit_verify E = andthen vault_require_unlocked (\<lambda>k. audit_verify_chain E (kek_audit k))"

definition vault_audit_merkle_root :: "env \<Rightarrow> (vault, bytes \<times> nat) comp" where
  "vault_audit_merkle_root E =
     andthen vault_require_unlocked (\<lambda>k.
     andthen (audit_verify_chain E (kek_audit k)) (\<lambda>_.
     audit_compute_merkle_root E))"

text \<open>Entry hash, root, proof, leaf index and leaf count.\<close>

definition vault_audit_merkle_proof ::
  "env \<Rightarrow> int \<Rightarrow> nat \<Rightarrow> (vault, bytes \<times> bytes \<times> bytes \<times> nat \<times> nat) comp" where
  "vault_audit_merkle_proof E entry_id proof_capacity =
     andthen vault_require_unlocked (\<lambda>k.
     andthen (guard (\<not> entry_id < 1) SM_ERR_INVALID_ARGUMENT) (\<lambda>_.
     andthen (audit_verify_chain E (kek_audit k)) (\<lambda>_.
     andthen (audit_get_entry_hash E entry_id) (\<lambda>entry_hash.
     andthen (audit_compute_merkle_root E) (\<lambda>(the_root, root_leaf_count).
     andthen (audit_build_merkle_proof E entry_id proof_capacity) (\<lambda>(pf, leaf_index, leaf_count).
     andthen (guard (root_leaf_count = leaf_count) SM_ERR_STORAGE) (\<lambda>_.
     ret (entry_hash, the_root, pf, leaf_index, leaf_count))))))))"

definition vault_audit_verify_merkle_proof ::
  "env \<Rightarrow> int \<Rightarrow> bytes \<Rightarrow> bytes \<Rightarrow> nat \<Rightarrow> nat \<Rightarrow> (vault, unit) comp" where
  "vault_audit_verify_merkle_proof E entry_id the_root pf leaf_index leaf_count =
     andthen vault_require_unlocked (\<lambda>k.
     andthen (guard (\<not> entry_id < 1) SM_ERR_INVALID_ARGUMENT) (\<lambda>_.
     andthen (audit_verify_chain E (kek_audit k)) (\<lambda>_.
     andthen (audit_get_entry_hash E entry_id) (\<lambda>entry_hash.
     lift_result (audit_verify_merkle_proof E entry_hash leaf_index leaf_count pf the_root)))))"

section \<open>Rotation of the master password\<close>

text \<open>The statements between the start of the transaction and its end.\<close>

definition vault_rotate_kek_body ::
  "env \<Rightarrow> kdf_subkeys \<Rightarrow> kdf_subkeys \<Rightarrow> bytes \<Rightarrow> bytes \<Rightarrow> (vault, unit) comp" where
  "vault_rotate_kek_body E k new new_salt new_verifier =
     andthen (audit_verify_chain E (kek_audit k)) (\<lambda>_.
     andthen (key_manager_rotate_kek E (kek_enc k) (kek_enc new)) (\<lambda>_.
     andthen (vault_put_wrapped_meta_key E (kek_meta k) (kek_enc new)) (\<lambda>_.
     andthen (vault_put_metadata_blob E VAULT_METADATA_SALT new_salt) (\<lambda>_.
     andthen (vault_put_metadata_blob E VAULT_METADATA_VERIFIER new_verifier) (\<lambda>_.
     andthen (audit_resign_chain E (kek_audit new)) (\<lambda>_.
     audit_log_event E (Some ''user:default'') ''ROTATE_KEK'' ''vault'' 0 ''SUCCESS'' (kek_audit new)))))))"

definition vault_rotate_kek :: "env \<Rightarrow> string \<Rightarrow> (vault, unit) comp" where
  "vault_rotate_kek E new_master_password =
     andthen vault_require_unlocked (\<lambda>k.
     andthen (guard (new_master_password \<noteq> []) SM_ERR_INVALID_ARGUMENT) (\<lambda>_.
     andthen require_db (\<lambda>_.
     andthen (vault_derive_credentials E new_master_password) (\<lambda>(new_salt, new_verifier, new).
     andthen (storage_begin_transaction E) (\<lambda>_.
     andthen (finally_do (vault_rotate_kek_body E k new new_salt new_verifier) (commit_or_rollback E)) (\<lambda>_.
     modify (\<lambda>s. s\<lparr>g_subkeys := Some (new\<lparr>kek_meta := kek_meta k\<rparr>), g_unlocked := True\<rparr>)))))))"

section \<open>Automatic rotation\<close>

text \<open>The loop has no bound of its own: \<open>None\<close> is a run that does not end.\<close>

partial_function (option) vault_rotate_loop ::
  "env \<Rightarrow> kdf_subkeys \<Rightarrow> string \<Rightarrow> nat \<Rightarrow> vault \<Rightarrow> (nat result \<times> vault) option" where
  "vault_rotate_loop E k now rotated s =
     (case vault_find_next_expired_secret E now s of
        (r, s1) \<Rightarrow>
          (case r of
             Inl e \<Rightarrow> Some (Inl e, s1)
           | Inr found \<Rightarrow>
               (case found of
                  None \<Rightarrow> Some (Inr rotated, s1)
                | Some name \<Rightarrow>
                    (case vault_rotate_expired_secret E k name s1 of
                       (q, s2) \<Rightarrow>
                         (case q of
                            Inl e \<Rightarrow> Some (Inl e, s2)
                          | Inr u \<Rightarrow> vault_rotate_loop E k now (Suc rotated) s2)))))"

definition vault_auto_rotate_expired :: "env \<Rightarrow> vault \<Rightarrow> (nat result \<times> vault) option" where
  "vault_auto_rotate_expired E s =
     (case andthen vault_require_unlocked (\<lambda>k.
           andthen (utils_now_iso8601 E UTILS_ISO8601_UTC_BUFFER_LEN) (\<lambda>now. ret (k, now))) s of
        (Inl e, s1) \<Rightarrow> Some (Inl e, s1)
      | (Inr (k, now), s1) \<Rightarrow> vault_rotate_loop E k now 0 s1)"

section \<open>Tokens\<close>

definition vault_issue_token ::
  "env \<Rightarrow> json_lib \<Rightarrow> string \<Rightarrow> string \<Rightarrow> 64 word \<Rightarrow> nat \<Rightarrow> (vault, string) comp" where
  "vault_issue_token E J sub sc ttl_seconds token_len =
     andthen (guard (token_len \<noteq> 0) SM_ERR_INVALID_ARGUMENT) (\<lambda>_.
     andthen vault_require_unlocked (\<lambda>k.
     andthen (access_issue_token E J sub sc ttl_seconds (kek_token k) ACCESS_TOKEN_BUFFER_LEN) (\<lambda>issued.
     andthen (guard (\<not> token_len \<le> length issued) SM_ERR_INVALID_ARGUMENT) (\<lambda>_.
     andthen (vault_log_success E k ''TOKEN_ISSUE'' sub 0) (\<lambda>_.
     ret issued)))))"

definition vault_check_token :: "env \<Rightarrow> json_lib \<Rightarrow> string \<Rightarrow> string option \<Rightarrow> (vault, unit) comp" where
  "vault_check_token E J token required_scope =
     andthen vault_require_unlocked (\<lambda>k.
     andthen (access_verify_token E J token required_scope (kek_token k)) (\<lambda>claims.
     andthen (vault_get_token_not_before E) (\<lambda>not_before.
     guard (\<not> (0 < not_before \<and> issued_at claims \<le> not_before)) SM_ERR_AUTH)))"

definition vault_revoke_tokens :: "env \<Rightarrow> (vault, unit) comp" where
  "vault_revoke_tokens E =
     andthen vault_require_unlocked (\<lambda>k.
     andthen (sys_time E) (\<lambda>now.
     andthen (guard (\<not> now \<le> 0) SM_ERR_STORAGE) (\<lambda>_.
     finally_do
       (andthen (storage_begin_transaction E) (\<lambda>_.
        andthen (vault_put_token_not_before E (of_int now)) (\<lambda>_.
        vault_log_success E k ''TOKEN_REVOKE'' ''tokens'' 0)))
       (commit_or_rollback E))))"

end
