(* ===== verification/Fuin_Vault_Atomic.thy ===== *)
theory Fuin_Vault_Atomic
  imports Fuin_Vault
begin

text \<open>
  What every operation of the vault leaves alone: computations that only read, bodies that
  stay inside their transaction, and the consequence that a failing operation changes
  nothing durable. The operations are collected in a datatype with an interpreter, over
  which the theorems of this theory and the next ones quantify.
\<close>

section \<open>Computations that only read\<close>

named_theorems read_rules \<open>computations that keep every predicate the clock does not change\<close>

definition ticked :: "('a world_scheme \<Rightarrow> bool) \<Rightarrow> bool" where
  "ticked I \<longleftrightarrow> (\<forall>s. I s \<longrightarrow> I (next_tick s))"

definition reads :: "('a world_scheme, 'x) comp \<Rightarrow> bool" where
  "reads m \<longleftrightarrow> (\<forall>I. ticked I \<longrightarrow> preserves I m)"

lemma readsI: "(\<And>I. ticked I \<Longrightarrow> preserves I m) \<Longrightarrow> reads m"
  by (simp add: reads_def)

lemma readsD: "reads m \<Longrightarrow> ticked I \<Longrightarrow> preserves I m"
  by (simp add: reads_def)

lemma reads_basic [read_rules]:
  "reads (ret x)" "reads (raise e)" "reads (lift_result r)" "reads (guard b e)" "reads (gets f)"
  "reads (sys_time E)" "reads (randombytes_buf E n)"
  by (auto simp: reads_def preserves_def ticked_def guard_def)

lemma reads_store [read_rules]: "reads (sql_select E f)" "reads (sql_prepare E)" "reads require_db"
  by (auto simp: reads_def preserves_def ticked_def sql_select_def sql_prepare_def require_db_def)

lemma reads_same [read_rules]: "reads (\<lambda>s. (r s, s))"
  by (simp add: reads_def preserves_def)

lemma reads_andthen [read_rules]: "reads m \<Longrightarrow> (\<And>x. reads (f x)) \<Longrightarrow> reads (andthen m f)"
  by (simp add: reads_def preserves_andthen)

lemma reads_finally_do [read_rules]: "reads m \<Longrightarrow> (\<And>r. reads (f r)) \<Longrightarrow> reads (finally_do m f)"
  by (simp add: reads_def preserves_finally_do)

lemmas read_splits = Let_def if_split prod.split option.split sum.split

lemma reads_utils [read_rules]:
  "reads (utils_now_iso8601 E n)" "reads (utils_now_plus_seconds_iso8601 E w n)" "reads (utils_generate_uuid_v4 E n)"
  "reads (vault_expiry_for E t)"
  by (auto simp: utils_now_iso8601_def utils_now_plus_seconds_iso8601_def utils_generate_uuid_v4_def
      vault_expiry_for_def Let_def intro!: read_rules)

lemma reads_crypto [read_rules]:
  "reads (crypto_engine_encrypt_with_algorithm E p key sid v c a)" "reads (kdf_generate_salt E)"
  "reads (vault_derive_credentials E pw)" "reads (vault_encrypt_display_name E k name stored)"
  by (auto simp: crypto_engine_encrypt_with_algorithm_def crypto_engine_build_nonce_def kdf_generate_salt_def
      vault_derive_credentials_def vault_encrypt_display_name_def Let_def intro!: read_rules split: if_split)

lemma reads_vault_data [read_rules]:
  "reads (vault_find_secret_metadata E name)" "reads (vault_find_secret_history_bounds E name)"
  "reads (vault_get_version_ttl E name v)" "reads (vault_load_secret_row E name ver)"
  "reads (vault_decrypt_secret_alloc E k name v n)" "reads (vault_get_metadata_blob E key n)"
  "reads (vault_get_token_not_before E)" "reads (vault_load_meta_key E k)" "reads (vault_load_auth_metadata E)"
  "reads (vault_find_next_expired_secret E now)"
  by (auto simp: vault_find_secret_metadata_def vault_find_secret_history_bounds_def vault_get_version_ttl_def
      vault_load_secret_row_def vault_decrypt_secret_alloc_def vault_get_metadata_blob_def
      vault_get_token_not_before_def vault_load_meta_key_def vault_load_auth_metadata_def
      vault_find_next_expired_secret_def Let_def intro!: read_rules split: option.split prod.split list.split if_split)

lemma reads_require_unlocked [read_rules]: "reads vault_require_unlocked"
  by (auto simp: reads_def preserves_def vault_require_unlocked_def split: option.splits)

lemma reads_audit [read_rules]:
  "reads (audit_get_last_hash E)" "reads (audit_next_entry_id E)" "reads (audit_count_entries E)"
  "reads (audit_verify_chain E key)" "reads (audit_get_entry_hash E eid)"
  "reads (audit_compute_merkle_root E)" "reads (audit_build_merkle_proof E eid cap)"
  by (auto simp: audit_get_last_hash_def audit_next_entry_id_def audit_count_entries_def audit_verify_chain_def
      audit_get_entry_hash_def audit_compute_merkle_root_def audit_build_merkle_proof_def
      audit_load_merkle_leaves_def Let_def intro!: read_rules split: option.split prod.split if_split)

lemma reads_access [read_rules]:
  "reads (access_issue_token E J sub sc ttl key n)" "reads (access_verify_token E J token req key)"
  by (auto simp: access_issue_token_def access_verify_token_def access_now_def access_build_payload_def
      access_make_nonce_b64_def Let_def intro!: read_rules split: prod.split if_split)

lemma reads_list_loop [read_rules]: "reads (vault_list_loop E k now cb rows)"
  by (induction rows) (auto intro!: read_rules)

lemma reads_expiry_loop [read_rules]: "reads (vault_expiry_loop E k now cb rows)"
  by (induction rows) (auto intro!: read_rules)

lemma reads_operations [read_rules]:
  "reads (vault_list_secrets E inc cb)" "reads (vault_check_expiry E w ecb)" "reads (vault_security_report_for E)"
  "reads (vault_audit_verify E)" "reads (vault_audit_merkle_root E)" "reads (vault_audit_merkle_proof E eid cap)"
  "reads (vault_audit_verify_merkle_proof E eid rt pf i n)" "reads (vault_get_active_version E name)"
  "reads (vault_debug_name_lookup E name)" "reads (vault_check_token E J token req)"
  by (auto simp: vault_list_secrets_def vault_check_expiry_def vault_security_report_for_def vault_audit_verify_def
      vault_audit_merkle_root_def vault_audit_merkle_proof_def vault_audit_verify_merkle_proof_def
      vault_get_active_version_def vault_debug_name_lookup_def vault_check_token_def
      intro!: read_rules split: option.split prod.split if_split)

lemma ticked_txn_inv: "ticked (txn_inv d)"
  by (simp add: ticked_def)

lemma ticked_committed: "ticked (\<lambda>s. committed s = d)"
  by (simp add: ticked_def)

lemma reads_state:
  assumes "reads m" "m s = (r, s')"
  shows "tables s' = tables s \<and> saved s' = saved s \<and> g_db s' = g_db s \<and> committed s' = committed s \<and>
    in_txn s' = in_txn s"
proof -
  have "ticked (\<lambda>x. tables x = tables s \<and> saved x = saved s \<and> g_db x = g_db s)" by (simp add: ticked_def)
  then have "tables s' = tables s \<and> saved s' = saved s \<and> g_db s' = g_db s"
    using preservesD [OF readsD [OF assms(1)] _ assms(2)] by blast
  then show ?thesis by (auto simp: committed_def in_txn_def split: option.splits)
qed

lemma reads_vault:
  fixes s :: vault
  assumes "reads m" "m s = (r, s')"
  shows "g_subkeys s' = g_subkeys s \<and> g_unlocked s' = g_unlocked s"
proof -
  have "ticked (\<lambda>x. g_subkeys x = g_subkeys s \<and> g_unlocked x = g_unlocked s)"
    by (simp add: ticked_def next_tick_def)
  then show ?thesis using preservesD [OF readsD [OF assms(1)] _ assms(2)] by blast
qed

section \<open>Inside a transaction\<close>

lemma txn_reads: "reads m \<Longrightarrow> preserves (txn_inv d) m"
  by (rule readsD [OF _ ticked_txn_inv])

lemmas txn_leaf = reads_same [THEN txn_reads] reads_basic [THEN txn_reads] reads_store [THEN txn_reads] reads_utils [THEN txn_reads]
  reads_audit [THEN txn_reads]

lemmas txn_rules = preserves_write preserves_change preserves_andthen txn_leaf

lemma txn_log_event [preserves_rules]: "preserves (txn_inv d) (audit_log_event E actor act tgt tv res key)"
  unfolding audit_log_event_def Let_def by (intro txn_rules)

lemma txn_log_success [preserves_rules]: "preserves (txn_inv d) (vault_log_success E k act tgt tv)"
  unfolding vault_log_success_def by (rule txn_log_event)

lemma txn_metadata [preserves_rules]:
  "preserves (txn_inv d) (vault_put_metadata_blob E key v)" "preserves (txn_inv d) (vault_put_token_not_before E w)"
  "preserves (txn_inv d) (vault_put_wrapped_meta_key E mk wk)"
  unfolding vault_put_token_not_before_def vault_put_wrapped_meta_key_def vault_put_metadata_blob_def Let_def
  by (intro txn_rules)+

lemma txn_secrets [preserves_rules]:
  "preserves (txn_inv d) (vault_archive_active_secret E name t b)"
  "preserves (txn_inv d) (vault_insert_secret E rid name nn en v c cr up ex i es)"
  unfolding vault_archive_active_secret_def vault_insert_secret_def
  by (intro txn_rules)+

lemma txn_rotate_row: "preserves (txn_inv d) (key_manager_rotate_row E old new r)"
  by (auto simp: key_manager_rotate_row_def key_manager_rewrap_dek_def key_manager_wrap_dek_def
      key_manager_update_wrapped_dek_def Let_def intro!: txn_rules split: prod.split)

lemma txn_rotate_rows: "preserves (txn_inv d) (key_manager_rotate_rows E old new rows)"
  by (induction rows) (auto intro!: txn_rules txn_rotate_row)

lemma txn_rotate_kek [preserves_rules]: "preserves (txn_inv d) (key_manager_rotate_kek E old new)"
  unfolding key_manager_rotate_kek_def
  by (intro txn_rules txn_rotate_rows)

lemma txn_update_signatures: "preserves (txn_inv d) (audit_update_signatures E items)"
proof (induction items)
  case Nil
  then show ?case by (simp add: preserves_def)
next
  case (Cons i items)
  then show ?case by (cases i) (auto intro!: txn_rules)
qed

lemma txn_resign [preserves_rules]: "preserves (txn_inv d) (audit_resign_chain E key)"
  unfolding audit_resign_chain_def
  by (intro txn_rules txn_update_signatures)

section \<open>Atomicity\<close>

lemma andthen_assoc: "andthen (andthen m f) g = andthen m (\<lambda>x. andthen (f x) g)"
  by (rule ext) (auto simp: andthen_def split: prod.splits sum.splits)

named_theorems atomic_rules \<open>operations that leave the durable tables alone when they fail\<close>

text \<open>A failing run leaves the durable tables as they were.\<close>

definition atomic :: "('a store_scheme, 'x) comp \<Rightarrow> bool" where
  "atomic m \<longleftrightarrow> (\<forall>s e s'. m s = (Inl e, s') \<longrightarrow> committed s' = committed s)"

lemma atomic_reads [atomic_rules]: "reads m \<Longrightarrow> atomic m"
  unfolding atomic_def using reads_state by blast

lemma atomic_andthen [atomic_rules]:
  assumes "reads m" "\<And>x. atomic (f x)"
  shows "atomic (andthen m f)"
  unfolding atomic_def
proof (intro allI impI)
  fix s e s'
  assume run: "andthen m f s = (Inl e, s')"
  obtain q s1 where q: "m s = (q, s1)" by fastforce
  have "committed s1 = committed s" using reads_state [OF assms(1) q] by simp
  moreover have "committed s' = committed s1"
  proof (cases q)
    case (Inl e')
    then show ?thesis using run q by (simp add: andthen_def)
  next
    case (Inr x)
    then have "f x s1 = (Inl e, s')" using run q by (simp add: andthen_def)
    then show ?thesis using assms(2) by (simp add: atomic_def)
  qed
  ultimately show "committed s' = committed s" by simp
qed

text \<open>A last step that cannot fail, and a last write.\<close>

lemma atomic_then_total:
  assumes "atomic m" "\<And>x s. \<exists>y s'. f x s = (Inr y, s')"
  shows "atomic (andthen m f)"
  unfolding atomic_def andthen_def
  using assms by (auto simp: atomic_def split: prod.splits sum.splits) (metis Inl_Inr_False Pair_inject)

lemma atomic_write [atomic_rules]: "atomic (sql_write E f)"
  by (auto simp: atomic_def sql_write_def split: option.splits if_splits)

lemma atomic_log_event [atomic_rules]: "atomic (audit_log_event E actor act tgt tv res key)"
  unfolding audit_log_event_def Let_def by (intro atomic_rules read_rules)

lemma atomic_log_success [atomic_rules]: "atomic (vault_log_success E k act tgt tv)"
  unfolding vault_log_success_def by (rule atomic_log_event)

lemma atomic_block:
  assumes "\<And>d. preserves (txn_inv d) body"
  shows "atomic (andthen (storage_begin_transaction E) (\<lambda>_. finally_do body (commit_or_rollback E)))"
  unfolding atomic_def commit_or_rollback_finish using sq.block_failed [OF assms] by blast

lemma atomic_late_block:
  assumes "\<And>d. preserves (txn_inv d) body"
  shows "atomic (finally_do (andthen (storage_begin_transaction E) (\<lambda>_. body)) (commit_or_rollback E))"
  unfolding atomic_def commit_or_rollback_finish using sq.late_block_failed [OF assms] by blast

lemma atomic_replace_active [atomic_rules]:
  "atomic (vault_replace_active E k arch act rid name nn en v c now ex i es)"
  unfolding vault_replace_active_def
  by (intro atomic_late_block preserves_andthen txn_secrets txn_log_success)
     (auto split: option.split intro: txn_secrets preserves_ret)

lemmas atomic_leaf = reads_basic [THEN atomic_reads]

lemma atomic_log_then_ret [atomic_rules]: "atomic (andthen (vault_log_success E k act tgt tv) (\<lambda>_. ret x))"
  by (intro atomic_then_total atomic_log_success) simp

lemma atomic_read_secret [atomic_rules]: "atomic (vault_read_secret E k name v cap b)"
  unfolding vault_read_secret_def
  by (cases b; simp only: when_ok_True when_ok_False comp_simps)
     (intro atomic_log_then_ret atomic_andthen atomic_leaf read_rules)+

lemma atomic_operations:
  "atomic (vault_put_with_options E name sec alg ttl)" "atomic (vault_get E name cap)"
  "atomic (vault_get_version E name v cap)" "atomic (vault_rollback E name v)"
  "atomic (vault_rotate_expired_secret E k name)"
  unfolding vault_put_with_options_def vault_get_def vault_get_version_def vault_rollback_def
    vault_rotate_expired_secret_def
  by (auto intro!: atomic_andthen atomic_replace_active atomic_read_secret read_rules atomic_leaf
      split: prod.split option.split)

lemma atomic_delete: "atomic (vault_delete E name)"
  unfolding vault_delete_def
  by (auto intro!: atomic_andthen atomic_block txn_secrets txn_log_success preserves_andthen read_rules atomic_leaf
      split: option.split)

lemma atomic_tokens:
  "atomic (vault_issue_token E J sub sc w cap)" "atomic (vault_revoke_tokens E)"
  unfolding vault_issue_token_def vault_revoke_tokens_def
  by (auto intro!: atomic_andthen atomic_log_then_ret atomic_late_block txn_metadata txn_log_success
      preserves_andthen read_rules)

lemma txn_rotate_kek_body: "preserves (txn_inv d) (vault_rotate_kek_body E k new salt ver)"
  unfolding vault_rotate_kek_body_def
  by (intro txn_rules txn_metadata txn_rotate_kek txn_resign txn_log_event)

lemma atomic_rotate_kek: "atomic (vault_rotate_kek E pw)"
proof -
  define block where "block k new salt ver = andthen (storage_begin_transaction E) (\<lambda>_.
      andthen (finally_do (vault_rotate_kek_body E k new salt ver) (commit_or_rollback E)) (\<lambda>_.
      modify (\<lambda>s :: vault. s\<lparr>g_subkeys := Some (new\<lparr>kek_meta := kek_meta k\<rparr>), g_unlocked := True\<rparr>)))"
    for k new salt ver
  have "atomic (block k new salt ver)" for k new salt ver
    unfolding block_def andthen_assoc [symmetric]
    by (intro atomic_then_total atomic_block txn_rotate_kek_body) simp
  then show ?thesis
    unfolding vault_rotate_kek_def block_def [symmetric]
    by (auto intro!: atomic_andthen read_rules split: prod.split)
qed

section \<open>Operations as values\<close>

text \<open>
  The operations of an unlocked session that run at most one transaction. Automatic rotation, one
  transaction for each secret, is the subject of \<open>Fuin_Vault_Expiry\<close>; the signing of a Merkle root
  and the export of a backup, which also work on files, are in \<open>Fuin_Vault_Backup\<close>.
\<close>

datatype vault_op =
    Op_put string bytes "string option" "64 word"
  | Op_get string nat
  | Op_get_version string int nat
  | Op_get_active_version string
  | Op_delete string
  | Op_rollback string int
  | Op_list bool "vault_list_item \<Rightarrow> unit result"
  | Op_check_expiry "64 word" "string \<times> int \<times> string \<times> bool \<Rightarrow> unit result"
  | Op_security_report
  | Op_audit_verify
  | Op_audit_merkle_root
  | Op_audit_merkle_proof int nat
  | Op_rotate_kek string
  | Op_issue_token string string "64 word" nat
  | Op_check_token string "string option"
  | Op_revoke_tokens

definition void :: "('s, 'x) comp \<Rightarrow> ('s, unit) comp" where
  "void m = andthen m (\<lambda>_. ret ())"

fun run_op :: "env \<Rightarrow> json_lib \<Rightarrow> vault_op \<Rightarrow> (vault, unit) comp" where
  "run_op E J (Op_put name secret algorithm ttl) = vault_put_with_options E name secret algorithm ttl"
| "run_op E J (Op_get name cap) = void (vault_get E name cap)"
| "run_op E J (Op_get_version name version cap) = void (vault_get_version E name version cap)"
| "run_op E J (Op_get_active_version name) = void (vault_get_active_version E name)"
| "run_op E J (Op_delete name) = vault_delete E name"
| "run_op E J (Op_rollback name version) = vault_rollback E name version"
| "run_op E J (Op_list include_archived cb) = void (vault_list_secrets E include_archived cb)"
| "run_op E J (Op_check_expiry window cb) = void (vault_check_expiry E window cb)"
| "run_op E J Op_security_report = void (vault_security_report_for E)"
| "run_op E J Op_audit_verify = vault_audit_verify E"
| "run_op E J Op_audit_merkle_root = void (vault_audit_merkle_root E)"
| "run_op E J (Op_audit_merkle_proof entry_id cap) = void (vault_audit_merkle_proof E entry_id cap)"
| "run_op E J (Op_rotate_kek pw) = vault_rotate_kek E pw"
| "run_op E J (Op_issue_token sub sc ttl cap) = void (vault_issue_token E J sub sc ttl cap)"
| "run_op E J (Op_check_token token req) = vault_check_token E J token req"
| "run_op E J Op_revoke_tokens = vault_revoke_tokens E"

lemma atomic_void: "atomic m \<Longrightarrow> atomic (void m)"
  unfolding void_def by (rule atomic_then_total) simp_all

lemma run_op_atomic: "atomic (run_op E J op)"
  by (cases op)
     (auto intro!: atomic_void atomic_operations atomic_delete atomic_tokens atomic_rotate_kek
       reads_operations [THEN atomic_reads])

text \<open>
  C5: A failed operation leaves no trace. Whatever statement fails and wherever, the clock,
  the random source, a commit or a rollback included, an operation that does not return
  \<open>SM_OK\<close> leaves the durable tables exactly as they were.
\<close>

theorem failed_operation_atomic:
  assumes "run_op E J op s = (Inl e, s')"
  shows "committed s' = committed s"
  using run_op_atomic assms unfolding atomic_def by blast

lemma locked_run_op:
  assumes "g_subkeys s = None \<or> \<not> g_unlocked s"
  shows "run_op E J op s =
    (Inl (case op of Op_issue_token sub sc ttl cap \<Rightarrow> if cap = 0 then SM_ERR_INVALID_ARGUMENT else SM_ERR_AUTH
      | _ \<Rightarrow> SM_ERR_AUTH), s)"
proof -
  have "vault_require_unlocked s = (Inl SM_ERR_AUTH, s)"
    using assms by (auto simp: vault_require_unlocked_def split: option.splits)
  then show ?thesis
    by (cases op)
       (simp_all add: void_def andthen_def guard_def vault_put_with_options_def vault_get_def vault_get_version_def
         vault_get_active_version_def vault_delete_def vault_rollback_def vault_list_secrets_def
         vault_check_expiry_def vault_security_report_for_def vault_audit_verify_def vault_audit_merkle_root_def
         vault_audit_merkle_proof_def vault_rotate_kek_def vault_issue_token_def vault_check_token_def
         vault_revoke_tokens_def)
qed

text \<open>
  C6: A locked vault answers nothing. Without unlocked subkeys every operation returns
  \<open>SM_ERR_AUTH\<close>, or \<open>SM_ERR_INVALID_ARGUMENT\<close> for a token buffer of length 0, and neither
  the tables nor any other part of the state changes.
\<close>

theorem locked_vault_refuses:
  assumes "g_subkeys s = None \<or> \<not> g_unlocked s"
  shows "run_op E J op s =
    (Inl (case op of Op_issue_token sub sc ttl cap \<Rightarrow> if cap = 0 then SM_ERR_INVALID_ARGUMENT else SM_ERR_AUTH
      | _ \<Rightarrow> SM_ERR_AUTH), s)"
  by (rule locked_run_op [OF assms])

section \<open>Sample runs\<close>

definition sample_subkeys :: kdf_subkeys where
  "sample_subkeys = \<lparr>kek_enc = replicate 32 1, kek_audit = replicate 32 2, kek_token = replicate 32 3,
     kek_meta = replicate 32 4\<rparr>"

definition sample_vault :: vault where
  "sample_vault = \<lparr>tick = 0, g_db = True,
     tables = \<lparr>secrets = [], audit_log = [], metadata = Map.empty, auth_failures = []\<rparr>, saved = None,
     g_subkeys = Some sample_subkeys, g_unlocked = True\<rparr>"

text \<open>The audit statement of a first \<open>vault_put\<close> fails after the row was inserted.\<close>

definition sample_failing_env :: env where
  "sample_failing_env = sample_env\<lparr>sql_ok := (\<lambda>t. t \<noteq> 14)\<rparr>"

theorem failed_operation_atomic_witness:
  "\<exists>s'. run_op sample_failing_env sample_json (Op_put ''a'' [1, 2] None 0) sample_vault = (Inl SM_ERR_STORAGE, s') \<and>
    12 < tick s' \<and> committed s' = committed sample_vault"
proof -
  let ?run = "run_op sample_failing_env sample_json (Op_put ''a'' [1, 2] None 0) sample_vault"
  have "fst ?run = Inl SM_ERR_STORAGE" "12 < tick (snd ?run)" by code_simp+
  then obtain s' where run: "?run = (Inl SM_ERR_STORAGE, s')" "12 < tick s'" by (cases ?run) auto
  then show ?thesis using failed_operation_atomic [OF run(1)] by blast
qed

theorem locked_vault_refuses_witness:
  "run_op sample_env sample_json (Op_get ''a'' 64) (sample_vault\<lparr>g_unlocked := False\<rparr>) =
    (Inl SM_ERR_AUTH, sample_vault\<lparr>g_unlocked := False\<rparr>)"
  using locked_vault_refuses [of "sample_vault\<lparr>g_unlocked := False\<rparr>" sample_env sample_json "Op_get ''a'' 64"]
  by simp

end
