(* ===== verification/Fuin_Vault_Secrets.thy ===== *)
theory Fuin_Vault_Secrets
  imports Fuin_Vault_Atomic
begin

text \<open>
  The invariant of the \<open>secrets\<close> table and the step that storing, rolling back and rotating
  share. \<open>secrets_wf\<close> collects what the queries of \<open>src/src/vault.c\<close> rely on, and \<open>stores\<close>
  describes the effect of \<open>vault_replace_active\<close> on rows, plaintexts and the audit log.
\<close>

section \<open>What statements and transactions leave alone\<close>

text \<open>
  A computation that only moves the clock and works on the tables keeps every predicate that
  neither changes: the unlocked keys, the connection, a lower bound of the clock.
\<close>

definition steady :: "(vault \<Rightarrow> bool) \<Rightarrow> bool" where
  "steady I \<longleftrightarrow> ticked I \<and> (\<forall>s d v. I s \<longrightarrow> I (s\<lparr>tables := d\<rparr>) \<and> I (s\<lparr>saved := v\<rparr>))"

definition stateless :: "(vault, 'x) comp \<Rightarrow> bool" where
  "stateless m \<longleftrightarrow> (\<forall>I. steady I \<longrightarrow> preserves I m)"

named_theorems stateless_rules \<open>computations that keep every steady predicate\<close>

lemma stateless_reads: "reads m \<Longrightarrow> stateless m"
  by (simp add: stateless_def steady_def readsD)

lemma stateless_andthen [stateless_rules]: "stateless m \<Longrightarrow> (\<And>x. stateless (f x)) \<Longrightarrow> stateless (andthen m f)"
  by (simp add: stateless_def preserves_andthen)

lemma stateless_finally_do [stateless_rules]: "stateless m \<Longrightarrow> (\<And>r. stateless (f r)) \<Longrightarrow> stateless (finally_do m f)"
  by (simp add: stateless_def preserves_finally_do)

lemma steadyD: "steady I \<Longrightarrow> I s \<Longrightarrow> I (next_tick s) \<and> I (s\<lparr>tables := d\<rparr>) \<and> I (s\<lparr>saved := v\<rparr>)"
  by (simp add: steady_def ticked_def)

lemma stateless_storage [stateless_rules]:
  "stateless (sql_write E f)" "stateless (sql_change E g)" "stateless (storage_begin_transaction E)"
  "stateless (storage_commit_transaction E)" "stateless (storage_rollback_transaction E)"
  by (auto simp: stateless_def preserves_def sql_write_def sql_change_def storage_txn_defs dest: steadyD
      split: option.splits)

lemma stateless_commit_or_rollback [stateless_rules]: "stateless (commit_or_rollback E r)"
  unfolding stateless_def
proof (intro allI impI preservesI)
  fix I s assume I: "steady I" "I s"
  have "I (snd (storage_rollback_transaction E s))" "I (snd (storage_commit_transaction E s))" if "I s" for s
    using stateless_storage(4,5) [of E] I(1) that by (auto simp: stateless_def preserves_def)
  then show "I (snd (commit_or_rollback E r s))"
    using I(2) by (auto simp: commit_or_rollback_def split: sum.splits prod.splits) (metis snd_conv)+
qed

lemmas stateless_leaf = reads_basic [THEN stateless_reads] reads_store [THEN stateless_reads]
  reads_utils [THEN stateless_reads] reads_audit [THEN stateless_reads] reads_same [THEN stateless_reads]
  reads_crypto [THEN stateless_reads] reads_vault_data [THEN stateless_reads]
  reads_require_unlocked [THEN stateless_reads] reads_access [THEN stateless_reads]

lemma stateless_writes [stateless_rules]:
  "stateless (vault_archive_active_secret E name t b)"
  "stateless (vault_insert_secret E rid name nn en v c cr up ex i es)"
  "stateless (audit_log_event E actor act tgt tv res key)" "stateless (vault_log_success E k act tgt tv)"
  "stateless (vault_put_metadata_blob E mkey mv)" "stateless (vault_put_token_not_before E w)"
  unfolding vault_archive_active_secret_def vault_insert_secret_def vault_log_success_def audit_log_event_def
    vault_put_token_not_before_def vault_put_metadata_blob_def Let_def
  by (intro stateless_rules stateless_leaf)+

lemma stateless_replace_active [stateless_rules]:
  "stateless (vault_replace_active E k arch act rid name nn en v c now ex i es)"
  unfolding vault_replace_active_def
  by (intro stateless_rules) (auto split: option.split intro: stateless_rules stateless_leaf)

lemma stateless_operations [stateless_rules]:
  "stateless (vault_put_with_options E name sec alg ttl)" "stateless (vault_rollback E name v)"
  "stateless (vault_rotate_expired_secret E k name)" "stateless (vault_delete E name)"
  "stateless (vault_revoke_tokens E)" "stateless (vault_issue_token E J sub sc w cap)"
  unfolding vault_put_with_options_def vault_rollback_def vault_rotate_expired_secret_def vault_delete_def
    vault_revoke_tokens_def vault_issue_token_def
  by (auto intro!: stateless_rules stateless_leaf split: prod.split option.split)

lemma stateless_read_secret [stateless_rules]:
  "stateless (vault_read_secret E k name v cap b)" "stateless (vault_get E name cap)"
  "stateless (vault_get_version E name ver cap)"
  unfolding vault_read_secret_def vault_get_def vault_get_version_def
  by (cases b; simp only: when_ok_True when_ok_False comp_simps; intro stateless_rules stateless_leaf)+

text \<open>The unlocked keys.\<close>

definition session_of :: "vault \<Rightarrow> kdf_subkeys option \<times> bool" where
  "session_of s = (g_subkeys s, g_unlocked s)"

lemma stateless_state:
  assumes "stateless m" "m s = (r, s')"
  shows "session_of s' = session_of s" "g_db s' = g_db s" "tick s \<le> tick s'"
proof -
  have "steady (\<lambda>x. session_of x = session_of s)" "steady (\<lambda>x. g_db x = g_db s)" "steady (\<lambda>x. tick s \<le> tick x)"
    by (auto simp: steady_def ticked_def session_of_def next_tick_def)
  then have "preserves (\<lambda>x. session_of x = session_of s) m" "preserves (\<lambda>x. g_db x = g_db s) m"
      "preserves (\<lambda>x. tick s \<le> tick x) m"
    using assms(1) by (simp_all add: stateless_def)
  from this [THEN preservesD, OF _ assms(2)] show "session_of s' = session_of s" "g_db s' = g_db s" "tick s \<le> tick s'"
    by simp_all
qed

section \<open>Replacing the active row\<close>

abbreviation archived :: "string \<Rightarrow> string \<Rightarrow> secret_row list \<Rightarrow> secret_row list" where
  "archived name t rows \<equiv> map (\<lambda>r. if s_name r = name \<and> \<not> s_is_archived r
     then r\<lparr>s_is_archived := True, s_updated_at := t\<rparr> else r) rows"

lemma archive_Inr:
  "vault_archive_active_secret E name t b s = (Inr (), s') \<longleftrightarrow> g_db s \<and> sql_ok E (tick s) \<and>
    length (filter (\<lambda>r. s_name r = name \<and> \<not> s_is_archived r) (secrets (tables s))) \<le> 1 \<and>
    (b \<longrightarrow> (\<exists>r \<in> set (secrets (tables s)). s_name r = name \<and> \<not> s_is_archived r)) \<and>
    s' = next_tick (s\<lparr>tables := (tables s)\<lparr>secrets := archived name t (secrets (tables s))\<rparr>\<rparr>)"
  by (auto simp: vault_archive_active_secret_def andthen_eq_Inr change_eq_Inr archive_rows_def filter_empty_conv
      cong: map_cong)

lemma insert_Inr:
  "vault_insert_secret E rid name nn en v c cr up ex i es s = (Inr (), s') \<Longrightarrow>
    secrets_constraints (secrets (tables s)) (secret_row_of rid name nn en v c cr up ex i es) \<and>
    s' = next_tick (next_tick (s\<lparr>tables := (tables s)\<lparr>secrets := secrets (tables s) @
      [secret_row_of rid name nn en v c cr up ex i es]\<rparr>\<rparr>))"
  by (auto simp: vault_insert_secret_def andthen_eq_Inr prepare_eq_Inr write_eq_Inr insert_secret_row_def next_tick_def
      split: if_splits)

lemma block_begin:
  assumes "storage_begin_transaction E s = (Inr (), s1)"
  shows "\<not> in_txn s \<and> tables s1 = tables s"
  using sq.begin_closed [OF assms] sq.begin_open [OF assms] by simp

text \<open>What a successful replacement did: the rows, and the audit entry on top of them.\<close>

lemma replace_active_Inr:
  assumes "vault_replace_active E k arch act rid name nn en v c now ex i es s = (Inr (), s')"
  defines "row \<equiv> secret_row_of rid name nn en v c now now ex i es"
  obtains rows s1 s2 where "\<not> in_txn s" "\<not> in_txn s'" "tables s' = tables s2" "session_of s' = session_of s"
    "rows = (case arch of None \<Rightarrow> secrets (tables s) | Some b \<Rightarrow> archived name now (secrets (tables s)))"
    "arch = Some True \<longrightarrow> (\<exists>r \<in> set (secrets (tables s)). s_name r = name \<and> \<not> s_is_archived r)"
    "secrets_constraints rows row" "tables s1 = (tables s)\<lparr>secrets := rows @ [row]\<rparr>"
    "vault_log_success E k act name v s1 = (Inr (), s2)"
proof -
  let ?arch = "case arch of None \<Rightarrow> ret () | Some b \<Rightarrow> vault_archive_active_secret E name now b"
  let ?body = "andthen ?arch (\<lambda>_. andthen (vault_insert_secret E rid name nn en v c now now ex i es) (\<lambda>_.
    vault_log_success E k act name v))"
  let ?block = "finally_do (andthen (storage_begin_transaction E) (\<lambda>_. ?body)) (commit_or_rollback E)"
  have run: "?block s = (Inr (), s')" using assms(1) by (simp add: vault_replace_active_def)
  obtain s0 t where t: "storage_begin_transaction E s = (Inr (), s0)" "?body s0 = (Inr (), t)" "tables s' = tables t"
      "\<not> in_txn s'"
    using sq.late_block_done [OF run [unfolded commit_or_rollback_finish]] by auto
  have s0: "\<not> in_txn s" "tables s0 = tables s" using block_begin [OF t(1)] by auto
  obtain sa s1 where a: "?arch s0 = (Inr (), sa)"
      "vault_insert_secret E rid name nn en v c now now ex i es sa = (Inr (), s1)"
      "vault_log_success E k act name v s1 = (Inr (), t)"
    using t(2) by (auto simp: andthen_eq_Inr)
  define rows where "rows = (case arch of None \<Rightarrow> secrets (tables s) | Some b \<Rightarrow> archived name now (secrets (tables s)))"
  have sa: "tables sa = (tables s)\<lparr>secrets := rows\<rparr>"
    using a(1) s0 by (auto simp: rows_def archive_Inr split: option.splits)
  have ex: "arch = Some True \<longrightarrow> (\<exists>r \<in> set (secrets (tables s)). s_name r = name \<and> \<not> s_is_archived r)"
    using a(1) s0 by (auto simp: archive_Inr)
  have ins: "secrets_constraints rows row" "tables s1 = (tables s)\<lparr>secrets := rows @ [row]\<rparr>"
    using insert_Inr [OF a(2)] sa by (auto simp: row_def)
  have "session_of s' = session_of s" by (rule stateless_state(1) [OF stateless_replace_active assms(1)])
  from that [OF s0(1) t(4,3) this rows_def ex ins a(3)] show ?thesis .
qed

section \<open>The invariant of the secrets table\<close>

text \<open>
  A row that reads back as it was written, and a table of such rows: identifiers and
  (name, version) pairs are unique, a nonce counter is never used twice for a name, and the
  row that is not archived is the only one of its name and the latest.
\<close>

definition row_ok :: "secret_row \<Rightarrow> bool" where
  "row_ok r \<longleftrightarrow> row_columns_ok r \<and> s_name r \<noteq> [] \<and> s_algorithm r \<in> set schema_algorithms \<and>
     0 \<le> s_nonce_counter r \<and> s_nonce_counter r \<le> INT64_MAX \<and>
     vault_copy_secret_row r = Inr \<lparr>vr_id = s_id r, vr_version = s_version r, vr_encrypted = row_secret r\<rparr>"

definition secrets_wf :: "secret_row list \<Rightarrow> bool" where
  "secrets_wf rows \<longleftrightarrow> (\<forall>r \<in> set rows. row_ok r) \<and> distinct (map s_id rows) \<and>
     distinct (map (\<lambda>r. (s_name r, s_version r)) rows) \<and>
     distinct (map (\<lambda>r. (s_name r, s_nonce_counter r)) rows) \<and>
     (\<forall>r \<in> set rows. \<forall>x \<in> set rows. \<not> s_is_archived r \<longrightarrow> s_name x = s_name r \<longrightarrow> s_version x \<le> s_version r)"

lemma wfD:
  assumes "secrets_wf rows"
  shows "r \<in> set rows \<Longrightarrow> row_ok r" "distinct (map s_id rows)" "distinct (map (\<lambda>r. (s_name r, s_version r)) rows)"
    "distinct (map (\<lambda>r. (s_name r, s_nonce_counter r)) rows)"
    "r \<in> set rows \<Longrightarrow> x \<in> set rows \<Longrightarrow> \<not> s_is_archived r \<Longrightarrow> s_name x = s_name r \<Longrightarrow> s_version x \<le> s_version r"
  using assms by (auto simp: secrets_wf_def)

lemma wf_version_unique:
  assumes "secrets_wf rows" "r \<in> set rows" "x \<in> set rows" "s_name x = s_name r" "s_version x = s_version r"
  shows "x = r"
  using wfD(3) [OF assms(1)] assms(2-5) by (auto simp: distinct_map inj_on_def)

lemma wf_unique_active:
  assumes "secrets_wf rows" "r \<in> set rows" "x \<in> set rows" "\<not> s_is_archived r" "\<not> s_is_archived x" "s_name x = s_name r"
  shows "x = r"
proof -
  have "s_version x \<le> s_version r" "s_version r \<le> s_version x"
    using wfD(5) [OF assms(1) assms(2) assms(3)] wfD(5) [OF assms(1) assms(3) assms(2)] assms(4-6) by auto
  then show ?thesis using wf_version_unique [OF assms(1-3,6)] by simp
qed

lemma wf_active_row: "secrets_wf rows \<Longrightarrow> r \<in> set rows \<Longrightarrow> active_row rows r \<longleftrightarrow> \<not> s_is_archived r"
  by (auto simp: secrets_wf_def active_row_def list_all_iff)

lemma wf_Nil [simp]: "secrets_wf []"
  by (simp add: secrets_wf_def)

lemma wf_snoc:
  assumes "secrets_wf rows" "secrets_constraints rows r" "row_ok r"
    and "\<not> s_is_archived r"
    and "\<And>x. x \<in> set rows \<Longrightarrow> s_name x = s_name r \<Longrightarrow> s_version x < s_version r \<and> s_nonce_counter x < s_nonce_counter r"
  shows "secrets_wf (rows @ [r])"
proof -
  have c: "s_id x \<noteq> s_id r" "(s_name x, s_version x) \<noteq> (s_name r, s_version r)"
      "s_name x = s_name r \<Longrightarrow> \<not> s_is_archived r \<Longrightarrow> s_is_archived x" if "x \<in> set rows" for x
    using assms(2) that by (auto simp: secrets_constraints_def list_all_iff)
  have n: "(s_name x, s_nonce_counter x) \<noteq> (s_name r, s_nonce_counter r)" if "x \<in> set rows" for x
    using assms(5) [OF that] by auto
  have l: "s_version x \<le> s_version y"
    if "y \<in> set (rows @ [r])" "x \<in> set (rows @ [r])" "\<not> s_is_archived y" "s_name x = s_name y" for x y
  proof (cases "y = r")
    case True
    then show ?thesis using that assms(5) [of x] by fastforce
  next
    case False
    then have y: "y \<in> set rows" using that(1) by simp
    show ?thesis
    proof (cases "x \<in> set rows")
      case True
      from wfD(5) [OF assms(1) y this that(3,4)] show ?thesis .
    next
      case False
      then have "x = r" using that(2) by simp
      then have "s_name y = s_name r" using that(4) by simp
      then show ?thesis using c(3) [OF y] that(3) assms(4) by simp
    qed
  qed
  have "s_id r \<notin> s_id ` set rows" "(s_name r, s_version r) \<notin> (\<lambda>r. (s_name r, s_version r)) ` set rows"
      "(s_name r, s_nonce_counter r) \<notin> (\<lambda>r. (s_name r, s_nonce_counter r)) ` set rows"
    using c(1,2) n by (metis (no_types, lifting) imageE)+
  then have "distinct (map s_id (rows @ [r]))" "distinct (map (\<lambda>r. (s_name r, s_version r)) (rows @ [r]))"
      "distinct (map (\<lambda>r. (s_name r, s_nonce_counter r)) (rows @ [r]))"
    using wfD(2-4) [OF assms(1)] by simp_all
  moreover have "\<forall>x \<in> set (rows @ [r]). row_ok x" using wfD(1) [OF assms(1)] assms(3) by auto
  ultimately show ?thesis unfolding secrets_wf_def using l by blast
qed

lemma wf_map:
  assumes "secrets_wf rows" "\<And>r. r \<in> set rows \<Longrightarrow> row_ok (F r) \<and> s_id (F r) = s_id r \<and> s_name (F r) = s_name r \<and>
      s_version (F r) = s_version r \<and> s_nonce_counter (F r) = s_nonce_counter r \<and>
      (s_is_archived r \<longrightarrow> s_is_archived (F r))"
  shows "secrets_wf (map F rows)"
proof -
  have cols: "map s_id (map F rows) = map s_id rows"
    "map (\<lambda>r. (s_name r, s_version r)) (map F rows) = map (\<lambda>r. (s_name r, s_version r)) rows"
    "map (\<lambda>r. (s_name r, s_nonce_counter r)) (map F rows) = map (\<lambda>r. (s_name r, s_nonce_counter r)) rows"
    using assms(2) by simp_all
  have "s_version y \<le> s_version x"
    if "x \<in> set (map F rows)" "y \<in> set (map F rows)" "\<not> s_is_archived x" "s_name y = s_name x" for x y
  proof -
    obtain a b where "a \<in> set rows" "x = F a" "b \<in> set rows" "y = F b" using \<open>x \<in> _\<close> \<open>y \<in> _\<close> by auto
    then show ?thesis using wfD(5) [OF assms(1), of a b] assms(2) [of a] assms(2) [of b] that(3,4) by auto
  qed
  then show ?thesis
    unfolding secrets_wf_def cols using assms(2) wfD(2-4) [OF assms(1)] by auto
qed

lemma row_ok_archive: "row_ok (r\<lparr>s_is_archived := b, s_updated_at := t\<rparr>) = row_ok r"
  by (simp add: row_ok_def row_columns_ok_def vault_copy_secret_row_def row_secret_def)

lemma wf_archived: "secrets_wf rows \<Longrightarrow> secrets_wf (archived name t rows)"
  by (rule wf_map) (auto simp: row_ok_archive secrets_wf_def)

lemma wf_count:
  assumes "secrets_wf rows"
  shows "int (length (filter (\<lambda>r. s_name r = name) rows)) \<le> INT_MAX"
proof -
  let ?rs = "filter (\<lambda>r. s_name r = name) rows"
  have "distinct (map s_version ?rs)"
    using assms by (auto simp: secrets_wf_def distinct_map inj_on_def)
  moreover have "set (map s_version ?rs) \<subseteq> {1..INT_MAX}"
    using assms by (auto simp: secrets_wf_def row_ok_def row_columns_ok_def)
  ultimately have "length ?rs \<le> card {1..INT_MAX}"
    by (metis card_mono distinct_card finite_atLeastAtMost_int length_map)
  then show ?thesis by (simp add: INT_MAX_def)
qed

lemma bounds_Inr:
  assumes "vault_find_secret_history_bounds E name s = (Inr b, s')" "secrets_wf (secrets (tables s))"
  shows "case b of
      None \<Rightarrow> \<forall>r \<in> set (secrets (tables s)). s_name r \<noteq> name
    | Some (mv, mc) \<Rightarrow> 1 \<le> mv \<and> mv \<le> INT_MAX \<and> 0 \<le> mc \<and> mc \<le> INT64_MAX \<and>
        (\<forall>r \<in> set (secrets (tables s)). s_name r = name \<longrightarrow> s_version r \<le> mv \<and> s_nonce_counter r \<le> mc) \<and>
        (\<exists>r \<in> set (secrets (tables s)). s_name r = name \<and> s_version r = mv)"
proof -
  define rs where "rs = filter (\<lambda>r. s_name r = name) (secrets (tables s))"
  have len: "c_int (int (length rs)) = int (length rs)" using wf_count [OF assms(2)] by (simp add: rs_def)
  show ?thesis
  proof (cases "rs = []")
    case True
    then have "b = None"
      using assms(1) by (auto simp: vault_find_secret_history_bounds_def andthen_eq_Inr select_eq_Inr Let_def c_int_def
          simp flip: rs_def split: if_splits)
    then show ?thesis using True by (auto simp: rs_def filter_empty_conv)
  next
    case False
    let ?mv = "Max (set (map s_version rs))" and ?mc = "Max (set (map s_nonce_counter rs))"
    have ok: "\<forall>r \<in> set rs. 1 \<le> s_version r \<and> s_version r \<le> INT_MAX \<and> 0 \<le> s_nonce_counter r \<and> s_nonce_counter r \<le> INT64_MAX"
      using assms(2) by (auto simp: rs_def secrets_wf_def row_ok_def row_columns_ok_def)
    have mv: "?mv \<in> set (map s_version rs)" "?mc \<in> set (map s_nonce_counter rs)"
      using False by (auto intro!: Max_in simp del: set_map)
    then have bnd: "1 \<le> ?mv" "?mv \<le> INT_MAX" "0 \<le> ?mc" "?mc \<le> INT64_MAX"
      using ok by auto
    have "c_int ?mv = ?mv" using bnd by simp
    then have b: "b = Some (?mv, ?mc)"
      using assms(1) False len
      by (auto simp: vault_find_secret_history_bounds_def andthen_eq_Inr select_eq_Inr Let_def simp flip: rs_def
          split: if_splits)
    have "s_version r \<le> ?mv \<and> s_nonce_counter r \<le> ?mc" if "r \<in> set rs" for r
      using that by (auto intro!: Max_ge)
    then show ?thesis using b bnd mv(1) by (auto simp: rs_def)
  qed
qed

section \<open>A fresh row\<close>

text \<open>What a row decrypts to under a key-encryption key.\<close>

definition row_plain :: "env \<Rightarrow> bytes \<Rightarrow> secret_row \<Rightarrow> bytes option" where
  "row_plain E kek r = (case row_decrypt E kek r (length (s_ciphertext r)) of Inr p \<Rightarrow> Some p | Inl _ \<Rightarrow> None)"

lemma uuid_v4_nul_free:
  assumes "is_uuid_v4 t"
  shows "nul_free t"
proof -
  have "nul_free ys" if "list_all2 uuid_pattern_char xs ys" "CHR 0x00 \<notin> set xs" for xs ys
    using that by (induction rule: list_all2_induct) (auto simp: nul_free_def uuid_pattern_char_def split: if_splits)
  from this [OF assms [unfolded is_uuid_v4_def]] show ?thesis by simp
qed

lemma uuid_Inr:
  assumes "utils_generate_uuid_v4 E n s = (Inr rid, s')" "random_ok E"
  shows "nul_free rid \<and> length rid = 36"
proof -
  have "rid = uuid_string (uuid_v4_bits (randombytes E (tick s) 16))"
    using assms(1) by (auto simp: utils_generate_uuid_v4_def andthen_eq_Inr Let_def split: if_splits)
  moreover have "length (randombytes E (tick s) 16) = 16" using assms(2) by (simp add: random_ok_def)
  ultimately have "is_uuid_v4 rid" using uuid_string_v4 by simp
  then show ?thesis using uuid_v4_nul_free length_uuid_v4 by blast
qed

lemma lookup_Inr:
  assumes "vault_build_name_lookup E k name = Inr st" "crypto_ok E" "hex_ok E"
  shows "nul_free st \<and> length st = 64 \<and> st \<noteq> []"
proof -
  have "st = bin2hex E (generichash E (kek_meta k) (str_bytes name))"
    using assms(1) by (auto simp: vault_build_name_lookup_def split: if_splits)
  then have "nul_free st \<and> length st = 64"
    using assms(2,3) by (simp add: crypto_ok_def generichash_ok_def hex_ok_def)
  then show ?thesis by auto
qed

lemma schema_algorithm_text: "a \<in> set schema_algorithms \<Longrightarrow> nul_free a \<and> length a < 32"
  by (auto simp: schema_algorithms_def nul_free_def)

lemma npub_bounds: "0 < npub_bytes alg \<and> npub_bytes alg \<le> 32" "0 < tag_bytes alg"
  by (cases alg; simp)+

lemma new_row:
  assumes "crypto_engine_encrypt_with_algorithm E p kek identity (of_int v) c' alg s = (Inr es, s')" "crypto_ok E"
    and "crypto_engine_build_row_identity E rid name CRYPTO_ENGINE_ROW_IDENTITY_HEX_LEN = Inr identity"
    and "nul_free rid" "length rid = 36" "nul_free name" "name \<noteq> []" "1 \<le> v" "v \<le> INT_MAX" "0 \<le> c" "c \<le> INT64_MAX"
    and row_def: "row = secret_row_of rid name nn en v c cr up ex i es"
  shows "row_ok row" "row_plain E kek row = Some p"
proof -
  obtain a aad dek where e: "es_algorithm es \<in> set schema_algorithms" "length dek = 32"
    "length (es_nonce es) = npub_bytes a" "length (es_dek_nonce es) = npub_bytes a"
    "es_ciphertext es = aead_encrypt E a dek (es_nonce es) aad p"
    "es_encrypted_dek es = aead_encrypt E a kek (es_dek_nonce es) aad dek"
    "es_key_commitment es =
      crypto_engine_commitment E kek CRYPTO_ENGINE_COMMIT_DOMAIN_KEK (es_dek_nonce es) @
      crypto_engine_commitment E dek CRYPTO_ENGINE_COMMIT_DOMAIN_DEK (es_nonce es)"
    using encrypt_Inr [OF assms(1,2)] by metis
  have aead: "length (aead_encrypt E a k n ad m) = length m + tag_bytes a" for a k n ad m
    using assms(2) by (simp add: crypto_ok_def aead_ok_def)
  have com: "length (crypto_engine_commitment E k d n) = 32" for k d n
    using assms(2) by (simp add: crypto_ok_def generichash_ok_def crypto_engine_commitment_def)
  have len: "length (es_ciphertext es) = length p + tag_bytes a" "length (es_encrypted_dek es) = 32 + tag_bytes a"
      "length (es_key_commitment es) = 64"
    using e by (simp_all add: aead com)
  have ne: "es_ciphertext es \<noteq> []" "es_encrypted_dek es \<noteq> []" "es_nonce es \<noteq> []" "es_dek_nonce es \<noteq> []"
      "es_key_commitment es \<noteq> []"
    using len e(3,4) npub_bounds [of a] by auto
  have cols: "c_str rid = rid" "c_str (es_algorithm es) = es_algorithm es" "c_int v = v" "length (es_algorithm es) < 32"
    using assms(4,8,9) schema_algorithm_text [OF e(1)] by auto
  show "row_ok row"
    using assms(4-11) e(1,3,4) len ne cols npub_bounds [of a] schema_algorithm_text [OF e(1)]
    by (simp add: row_ok_def row_columns_ok_def row_def secret_row_of_def vault_copy_secret_row_def row_secret_def
        vault_copy_text_column_def vault_column_blob_size_def vault_copy_blob_column_def UTILS_UUID_V4_BUFFER_LEN_def
        CRYPTO_ENGINE_ALGORITHM_MAX_def KEY_MANAGER_MAX_NONCE_BYTES_def CRYPTO_ENGINE_COMMITMENT_BYTES_def)
  have "row_secret row = es" by (simp add: row_def secret_row_of_def row_secret_def)
  then have "row_decrypt E kek row cap = crypto_engine_decrypt E es kek identity (of_int v) cap" for cap
    using assms(3) by (simp add: row_decrypt_def row_def secret_row_of_def)
  then show "row_plain E kek row = Some p"
    using encrypt_decrypt [OF assms(1,2)] len(1) by (simp add: row_plain_def row_def secret_row_of_def)
qed

section \<open>Storing a version\<close>

definition next_version :: "string \<Rightarrow> secret_row list \<Rightarrow> int" where
  "next_version name rows = 1 + Max (insert 0 (set (map s_version (filter (\<lambda>r. s_name r = name) rows))))"

text \<open>
  The effect that storing, rolling back and rotating a secret share: the active row is
  archived, a row with the next version and the given content and expiry is added, and
  the event is logged, all in one committed transaction.
\<close>

definition stores ::
  "env \<Rightarrow> kdf_subkeys \<Rightarrow> string \<Rightarrow> bytes \<Rightarrow> string option \<Rightarrow> string \<Rightarrow> vault \<Rightarrow> vault \<Rightarrow> bool" where
  "stores E k name p ex act s s' \<longleftrightarrow> (\<exists>t row s1 s2.
     \<not> in_txn s \<and> \<not> in_txn s' \<and> session_of s' = session_of s \<and>
     s_name row = name \<and> \<not> s_is_archived row \<and> s_version row = next_version name (secrets (tables s)) \<and>
     s_expires_at row = ex \<and> row_plain E (kek_enc k) row = Some p \<and>
     secrets_wf (archived name t (secrets (tables s)) @ [row]) \<and>
     tables s1 = (tables s)\<lparr>secrets := archived name t (secrets (tables s)) @ [row]\<rparr> \<and>
     vault_log_success E k act name (s_version row) s1 = (Inr (), s2) \<and> tables s' = tables s2)"

lemma next_version_bounds:
  assumes "case b of None \<Rightarrow> \<forall>r \<in> set rows. s_name r \<noteq> name
    | Some (mv, mc) \<Rightarrow> 1 \<le> mv \<and> mv \<le> INT_MAX \<and> 0 \<le> mc \<and> mc \<le> INT64_MAX \<and>
        (\<forall>r \<in> set rows. s_name r = name \<longrightarrow> s_version r \<le> mv \<and> s_nonce_counter r \<le> mc) \<and>
        (\<exists>r \<in> set rows. s_name r = name \<and> s_version r = mv)"
  shows "next_version name rows = (case b of None \<Rightarrow> 1 | Some (mv, mc) \<Rightarrow> mv + 1)"
proof (cases b)
  case None
  then have "filter (\<lambda>r. s_name r = name) rows = []" using assms by (simp add: filter_empty_conv)
  then show ?thesis using None by (simp add: next_version_def)
next
  case (Some x)
  obtain mv mc where x: "x = (mv, mc)" by fastforce
  have "Max (insert 0 (set (map s_version (filter (\<lambda>r. s_name r = name) rows)))) = mv"
    using assms Some x by (intro Max_eqI) auto
  then show ?thesis using Some x by (simp add: next_version_def)
qed

lemma archived_none:
  "(\<And>r. r \<in> set rows \<Longrightarrow> s_name r = name \<Longrightarrow> s_is_archived r) \<Longrightarrow> archived name t rows = rows"
  by (rule map_idI) auto

lemma replace_stores:
  assumes rep: "vault_replace_active E k arch act rid name nn en v c now ex i es s = (Inr (), s')"
    and enc: "crypto_engine_encrypt_with_algorithm E p (kek_enc k) identity (of_int v) c' alg s0 = (Inr es, s0')"
    and ok: "crypto_ok E" "secrets_wf (secrets (tables s))"
    and idt: "crypto_engine_build_row_identity E rid name CRYPTO_ENGINE_ROW_IDENTITY_HEX_LEN = Inr identity"
    and texts: "nul_free rid" "length rid = 36" "nul_free name" "name \<noteq> []"
    and v: "v = next_version name (secrets (tables s))" "1 \<le> v" "v \<le> INT_MAX" "0 \<le> c" "c \<le> INT64_MAX"
    and fresh: "\<And>r. r \<in> set (secrets (tables s)) \<Longrightarrow> s_name r = name \<Longrightarrow> s_version r < v \<and> s_nonce_counter r < c"
    and arch: "\<And>r. arch = None \<Longrightarrow> r \<in> set (secrets (tables s)) \<Longrightarrow> s_name r = name \<Longrightarrow> s_is_archived r"
  shows "stores E k name p ex act s s'"
proof -
  define row where "row = secret_row_of rid name nn en v c now now ex i es"
  obtain rows s1 s2 where r: "\<not> in_txn s" "\<not> in_txn s'" "tables s' = tables s2" "session_of s' = session_of s"
    "rows = (case arch of None \<Rightarrow> secrets (tables s) | Some b \<Rightarrow> archived name now (secrets (tables s)))"
    "arch = Some True \<longrightarrow> (\<exists>r \<in> set (secrets (tables s)). s_name r = name \<and> \<not> s_is_archived r)"
    "secrets_constraints rows row" "tables s1 = (tables s)\<lparr>secrets := rows @ [row]\<rparr>"
    "vault_log_success E k act name v s1 = (Inr (), s2)"
    unfolding row_def by (rule replace_active_Inr [OF rep]) blast
  have rows: "rows = archived name now (secrets (tables s))"
    using r(5) by (cases arch) (simp_all add: archived_none arch)
  have new: "row_ok row" "row_plain E (kek_enc k) row = Some p"
    by (rule new_row [OF enc ok(1) idt texts v(2-5) row_def])+
  have row: "s_name row = name" "\<not> s_is_archived row" "s_version row = v" "s_expires_at row = ex"
      "s_nonce_counter row = c"
    by (simp_all add: row_def secret_row_of_def)
  have "secrets_wf (rows @ [row])"
  proof (rule wf_snoc [OF _ r(7) new(1) row(2)])
    show "secrets_wf rows" unfolding rows by (rule wf_archived [OF ok(2)])
    fix x assume x: "x \<in> set rows" "s_name x = s_name row"
    then obtain y where y: "y \<in> set (secrets (tables s))" "s_name x = s_name y" "s_version x = s_version y"
        "s_nonce_counter x = s_nonce_counter y"
      unfolding rows by (auto split: if_splits)
    show "s_version x < s_version row \<and> s_nonce_counter x < s_nonce_counter row"
      using fresh [OF y(1)] x(2) y by (simp add: row)
  qed
  then show ?thesis
    unfolding stores_def
    by (intro exI [of _ now] exI [of _ row] exI [of _ s1] exI [of _ s2])
       (use r(1-4,8,9) row new v(1) in \<open>simp add: rows\<close>)
qed

section \<open>Operations that store\<close>

text \<open>Everything of a state but the clock.\<close>

definition view :: "vault \<Rightarrow> db \<times> db option \<times> bool \<times> kdf_subkeys option \<times> bool" where
  "view s = (tables s, saved s, g_db s, session_of s)"

lemma viewD:
  assumes "view s' = view s"
  shows "tables s' = tables s" "in_txn s' = in_txn s" "session_of s' = session_of s" "committed s' = committed s"
    "g_db s' = g_db s"
  using assms by (auto simp: view_def in_txn_def committed_def split: option.splits)

lemma reads_view: "reads m \<Longrightarrow> m s = (r, s') \<Longrightarrow> view s' = view s"
  using reads_state [of m s r s'] reads_vault [of m s r s'] by (auto simp: view_def session_of_def)

lemma andthen_readsE:
  assumes "andthen m f s = (Inr y, s')" "reads m"
  obtains x s1 where "m s = (Inr x, s1)" "view s1 = view s" "f x s1 = (Inr y, s')"
  using assms by (auto simp: andthen_eq_Inr dest: reads_view)

lemma stores_view: "view s = view s0 \<Longrightarrow> stores E k name p ex act s s' \<Longrightarrow> stores E k name p ex act s0 s'"
  unfolding stores_def using viewD [of s s0] by simp

lemma require_unlocked_Inr:
  "vault_require_unlocked s = (Inr k, s') \<longleftrightarrow> g_subkeys s = Some k \<and> g_unlocked s \<and> s' = s"
  by (auto simp: vault_require_unlocked_def split: option.splits)

lemma find_metadata_Inr:
  assumes "vault_find_secret_metadata E name s = (Inr found, s')" "secrets_wf (secrets (tables s))"
  shows "found = None \<Longrightarrow> r \<in> set (secrets (tables s)) \<Longrightarrow> s_name r = name \<Longrightarrow> s_is_archived r"
    "found = Some m \<Longrightarrow> \<exists>r \<in> set (secrets (tables s)). s_name r = name \<and> \<not> s_is_archived r \<and> vault_read_metadata r = Inr m"
proof -
  let ?q = "find (\<lambda>r. s_name r = name \<and> active_row (secrets (tables s)) r) (secrets (tables s))"
  have f: "(?q = None \<and> found = None) \<or> (\<exists>r m. ?q = Some r \<and> vault_read_metadata r = Inr m \<and> found = Some m)"
    using assms(1) by (auto simp: vault_find_secret_metadata_def andthen_eq_Inr select_eq_Inr split: option.splits)
  show "s_is_archived r" if "found = None" "r \<in> set (secrets (tables s))" "s_name r = name"
  proof -
    have "?q = None" using f that(1) by auto
    then have "\<not> active_row (secrets (tables s)) r" using that(2,3) by (auto simp: find_None_iff)
    then show ?thesis using wf_active_row [OF assms(2) that(2)] by simp
  qed
  show "\<exists>r \<in> set (secrets (tables s)). s_name r = name \<and> \<not> s_is_archived r \<and> vault_read_metadata r = Inr m"
    if some: "found = Some m"
  proof -
    obtain r where r: "?q = Some r" "vault_read_metadata r = Inr m" using f some by auto
    then have "r \<in> set (secrets (tables s))" "s_name r = name" "active_row (secrets (tables s)) r"
      by (auto simp: find_Some_iff)
    then show ?thesis using r wf_active_row [OF assms(2)] by blast
  qed
qed

end
