(* ===== verification/Fuin_Vault_Effects.thy ===== *)
theory Fuin_Vault_Effects
  imports Fuin_Vault_Secrets
begin

text \<open>
  What the operations of the vault do when they return \<open>SM_OK\<close>: storing, rolling back and
  rotating a secret, deleting and reading it, and replacing the master password, each as a
  relation between the tables before and after.
\<close>

section \<open>Storing operations\<close>

lemmas view_steps = reads_crypto [THEN reads_view] reads_utils [THEN reads_view] reads_vault_data [THEN reads_view]

lemmas tick_steps = stateless_leaf [THEN stateless_state(3)]

text \<open>The numbers of the new row, and the end of the three operations from there on.\<close>

definition next_numbers :: "(int \<times> int) option \<Rightarrow> int \<times> int" where
  "next_numbers b = (case b of None \<Rightarrow> (1, 1) | Some (mv, mc) \<Rightarrow> (mv + 1, mc + 1))"

lemma next_numbers_fresh:
  assumes "case b of
      None \<Rightarrow> \<forall>r \<in> set rows. s_name r \<noteq> name
    | Some (mv, mc) \<Rightarrow> 1 \<le> mv \<and> mv \<le> INT_MAX \<and> 0 \<le> mc \<and> mc \<le> INT64_MAX \<and>
        (\<forall>r \<in> set rows. s_name r = name \<longrightarrow> s_version r \<le> mv \<and> s_nonce_counter r \<le> mc) \<and>
        (\<exists>r \<in> set rows. s_name r = name \<and> s_version r = mv)"
    and "next_numbers b = (v, c)" "\<And>mv mc. b = Some (mv, mc) \<Longrightarrow> mv \<noteq> INT_MAX \<and> mc \<noteq> INT64_MAX"
  shows "v = next_version name rows" "1 \<le> v" "v \<le> INT_MAX" "0 \<le> c" "c \<le> INT64_MAX"
    "\<And>r. r \<in> set rows \<Longrightarrow> s_name r = name \<Longrightarrow> s_version r < v \<and> s_nonce_counter r < c"
  using assms next_version_bounds [OF assms(1)]
  by (force simp: next_numbers_def INT_MAX_def INT64_MAX_def split: option.splits prod.splits)+

lemma renew_stores:
  assumes bounds: "vault_find_secret_history_bounds E st sb = (Inr b, sb')" "view sb = view s"
    and num: "next_numbers b = (v, c)" "\<And>mv mc. b = Some (mv, mc) \<Longrightarrow> mv \<noteq> INT_MAX \<and> mc \<noteq> INT64_MAX"
    and uuid: "utils_generate_uuid_v4 E UTILS_UUID_V4_BUFFER_LEN su = (Inr rid, su')"
    and idt: "crypto_engine_build_row_identity E rid st CRYPTO_ENGINE_ROW_IDENTITY_HEX_LEN = Inr identity"
    and enc: "crypto_engine_encrypt_with_algorithm E p (kek_enc k) identity (of_int v) c' alg se = (Inr es, se')"
    and rep: "vault_replace_active E k arch act rid st nn en v c now ex i es sr = (Inr (), s')" "view sr = view s"
    and arch: "\<And>r. arch = None \<Longrightarrow> r \<in> set (secrets (tables s)) \<Longrightarrow> s_name r = st \<Longrightarrow> s_is_archived r"
    and ok: "crypto_ok E" "secrets_wf (secrets (tables s))" "nul_free st" "st \<noteq> []"
  shows "stores E k st p ex act s s'"
proof -
  note n = next_numbers_fresh [OF bounds_Inr [OF bounds(1), unfolded viewD(1) [OF bounds(2)], OF ok(2)] num]
  have rid: "nul_free rid" "length rid = 36" using uuid_Inr [OF uuid] ok(1) by (auto simp: crypto_ok_def)
  have "stores E k st p ex act sr s'"
    by (rule replace_stores [OF rep(1) enc ok(1) _ idt rid ok(3,4)], unfold viewD(1) [OF rep(2)])
       (use ok(2) n arch in auto)
  then show ?thesis by (rule stores_view [OF rep(2)])
qed

lemma put_stores:
  assumes "vault_put_with_options E name sec alg ttl s = (Inr (), s')"
    and ok: "crypto_ok E" "hex_ok E" "secrets_wf (secrets (tables s))"
  shows "\<exists>k st ex act. g_subkeys s = Some k \<and> g_unlocked s \<and> vault_build_name_lookup E k name = Inr st \<and>
    stores E k st sec ex act s s'"
proof -
  obtain k st nn en s1 found s2 b s3 now s4 ex s5 v c s6 rid s7 identity es s8 where
    k: "g_subkeys s = Some k" "g_unlocked s" and st: "vault_build_name_lookup E k name = Inr st"
    and 1: "vault_encrypt_display_name E k name st s = (Inr (nn, en), s1)"
    and 2: "vault_find_secret_metadata E st s1 = (Inr found, s2)"
    and 3: "vault_find_secret_history_bounds E st s2 = (Inr b, s3)"
    and 4: "utils_now_iso8601 E UTILS_ISO8601_UTC_BUFFER_LEN s3 = (Inr now, s4)"
    and 5: "vault_expiry_for E (uint ttl) s4 = (Inr ex, s5)"
    and 6: "(case b of None \<Rightarrow> ret (1, 1) | Some (mv, mc) \<Rightarrow>
      if mv = INT_MAX \<or> mc = INT64_MAX then raise SM_ERR_STORAGE else ret (mv + 1, mc + 1)) s5 = (Inr (v, c), s6)"
    and 7: "utils_generate_uuid_v4 E UTILS_UUID_V4_BUFFER_LEN s6 = (Inr rid, s7)"
    and idt: "crypto_engine_build_row_identity E rid st CRYPTO_ENGINE_ROW_IDENTITY_HEX_LEN = Inr identity"
    and enc: "crypto_engine_encrypt_with_algorithm E sec (kek_enc k) identity (of_int v) (of_int c) alg s7 = (Inr es, s8)"
    and rep: "vault_replace_active E k (if found \<noteq> None then Some True else None)
       (if found \<noteq> None then ''UPDATE'' else ''CREATE'') rid st nn en v c now ex (uint ttl) es s8 = (Inr (), s')"
    using assms(1) unfolding vault_put_with_options_def
    by (auto simp: andthen_eq_Inr require_unlocked_Inr)
  have view: "view s1 = view s" "view s2 = view s1" "view s3 = view s2" "view s4 = view s3" "view s5 = view s4"
      "view s7 = view s6" "view s8 = view s7"
    by (rule view_steps, rule 1 2 3 4 5 7 enc)+
  then have t: "tables s1 = tables s" using viewD(1) by blast
  have num: "next_numbers b = (v, c)" "\<And>mv mc. b = Some (mv, mc) \<Longrightarrow> mv \<noteq> INT_MAX \<and> mc \<noteq> INT64_MAX" "s6 = s5"
    using 6 by (auto simp: next_numbers_def split: option.splits if_splits)
  have arch: "s_is_archived r"
    if "(if found \<noteq> None then Some True else None) = None" "r \<in> set (secrets (tables s))" "s_name r = st" for r
    using find_metadata_Inr(1) [OF 2, unfolded t, OF ok(3)] that by (auto split: if_splits)
  have "view s2 = view s" "view s8 = view s" using view num(3) by simp_all
  from renew_stores [OF 3 this(1) num(1,2) 7 idt enc rep this(2) arch ok(1,3)] lookup_Inr [OF st ok(1,2)]
  show ?thesis using k st by blast
qed

text \<open>Reading a stored version, as the rolling back and rotating operations do.\<close>

lemma decrypt_row_plain:
  assumes "row_ok r" "s_name r = name"
  shows "vault_decrypt_secret_row E k \<lparr>vr_id = s_id r, vr_version = s_version r, vr_encrypted = row_secret r\<rparr> name cap =
    row_decrypt E (kek_enc k) r cap"
  using assms by (auto simp: vault_decrypt_secret_row_def row_decrypt_def row_ok_def)

lemma row_plain_Some: "row_plain E kek r = Some p \<longleftrightarrow> row_decrypt E kek r (length (s_ciphertext r)) = Inr p"
  by (auto simp: row_plain_def split: sum.splits)

lemma load_row_Inr:
  assumes "vault_load_secret_row E name ver s = (Inr w, s')" "secrets_wf (secrets (tables s))"
  obtains r where "r \<in> set (secrets (tables s))" "s_name r = name"
    "case ver of None \<Rightarrow> \<not> s_is_archived r | Some v \<Rightarrow> s_version r = v"
    "w = \<lparr>vr_id = s_id r, vr_version = s_version r, vr_encrypted = row_secret r\<rparr>"
proof -
  obtain r where r: "select_secret_row name ver (tables s) = Some r" "vault_copy_secret_row r = Inr w"
    using assms(1) by (auto simp: vault_load_secret_row_def andthen_eq_Inr select_eq_Inr split: option.splits)
  then have *: "r \<in> set (secrets (tables s)) \<and> s_name r = name \<and>
      (case ver of None \<Rightarrow> active_row (secrets (tables s)) r | Some v \<Rightarrow> s_version r = v)"
    by (auto simp: select_secret_row_def find_Some_iff split: option.splits)
  then have "w = \<lparr>vr_id = s_id r, vr_version = s_version r, vr_encrypted = row_secret r\<rparr>"
    using wfD(1) [OF assms(2)] r(2) by (auto simp: row_ok_def)
  then show ?thesis using that * wf_active_row [OF assms(2)] by (auto split: option.splits)
qed

lemma decrypt_alloc_Inr:
  assumes "vault_decrypt_secret_alloc E k name v n s = (Inr (p, alg), s')" "secrets_wf (secrets (tables s))"
  obtains r where "r \<in> set (secrets (tables s))" "s_name r = name" "s_version r = v"
    "row_plain E (kek_enc k) r = Some p"
proof -
  obtain w s1 where w: "vault_load_secret_row E name (Some v) s = (Inr w, s1)"
      "vault_decrypt_secret_row E k w name (length (es_ciphertext (vr_encrypted w))) = Inr p"
    using assms(1) by (auto simp: vault_decrypt_secret_alloc_def andthen_eq_Inr)
  obtain r where r: "r \<in> set (secrets (tables s))" "s_name r = name" "s_version r = v"
      "w = \<lparr>vr_id = s_id r, vr_version = s_version r, vr_encrypted = row_secret r\<rparr>"
    using load_row_Inr [OF w(1) assms(2)] by auto
  then have "row_plain E (kek_enc k) r = Some p"
    using w(2) decrypt_row_plain [OF wfD(1) [OF assms(2) r(1)] r(2)]
    by (simp add: row_plain_Some row_secret_def)
  with r that show ?thesis by blast
qed

lemma rollback_stores:
  assumes "vault_rollback E name version s = (Inr (), s')"
    and ok: "crypto_ok E" "hex_ok E" "secrets_wf (secrets (tables s))"
  shows "\<exists>k st r p ex. g_subkeys s = Some k \<and> g_unlocked s \<and> vault_build_name_lookup E k name = Inr st \<and>
    r \<in> set (secrets (tables s)) \<and> s_name r = st \<and> s_version r = version \<and> row_plain E (kek_enc k) r = Some p \<and>
    stores E k st p ex ''ROLLBACK'' s s'"
proof -
  obtain k st nn en s1 p alg s2 ttl s3 mv mc s4 now s5 ex s6 rid s7 identity es s8 where
    k: "g_subkeys s = Some k" "g_unlocked s" and st: "vault_build_name_lookup E k name = Inr st"
    and 1: "vault_encrypt_display_name E k name st s = (Inr (nn, en), s1)"
    and 2: "vault_decrypt_secret_alloc E k st version CRYPTO_ENGINE_ALGORITHM_MAX s1 = (Inr (p, alg), s2)"
    and 3: "vault_get_version_ttl E st version s2 = (Inr ttl, s3)"
    and 4: "vault_find_secret_history_bounds E st s3 = (Inr (Some (mv, mc)), s4)"
    and mv: "mv \<noteq> INT_MAX" "mc \<noteq> INT64_MAX"
    and 5: "utils_now_iso8601 E UTILS_ISO8601_UTC_BUFFER_LEN s4 = (Inr now, s5)"
    and 6: "vault_expiry_for E ttl s5 = (Inr ex, s6)"
    and 7: "utils_generate_uuid_v4 E UTILS_UUID_V4_BUFFER_LEN s6 = (Inr rid, s7)"
    and idt: "crypto_engine_build_row_identity E rid st CRYPTO_ENGINE_ROW_IDENTITY_HEX_LEN = Inr identity"
    and enc: "crypto_engine_encrypt_with_algorithm E p (kek_enc k) identity (of_int (mv + 1)) (of_int (mc + 1)) (Some alg) s7 =
      (Inr es, s8)"
    and rep: "vault_replace_active E k (Some False) ''ROLLBACK'' rid st nn en (mv + 1) (mc + 1) now ex ttl es s8 = (Inr (), s')"
    using assms(1) unfolding vault_rollback_def
    by (auto simp: andthen_eq_Inr require_unlocked_Inr split: option.splits)
  have view: "view s1 = view s" "view s2 = view s1" "view s3 = view s2" "view s4 = view s3" "view s5 = view s4"
      "view s6 = view s5" "view s7 = view s6" "view s8 = view s7"
    by (rule view_steps, rule 1 2 3 4 5 6 7 enc)+
  then have v: "view s3 = view s" "view s8 = view s" and t: "tables s1 = tables s" using viewD(1) [of s1 s] by simp_all
  have num: "next_numbers (Some (mv, mc)) = (mv + 1, mc + 1)" by (simp add: next_numbers_def)
  have "stores E k st p ex ''ROLLBACK'' s s'"
    by (rule renew_stores [OF 4 v(1) num _ 7 idt enc rep v(2) _ ok(1,3)]) (use mv lookup_Inr [OF st ok(1,2)] in auto)
  moreover obtain r where "r \<in> set (secrets (tables s))" "s_name r = st" "s_version r = version"
      "row_plain E (kek_enc k) r = Some p"
    using decrypt_alloc_Inr [OF 2, unfolded t, OF ok(3)] by blast
  ultimately show ?thesis using k st by blast
qed


lemma read_metadata_Inr:
  assumes "vault_read_metadata r = Inr m" "row_ok r"
  shows "md_version m = s_version r \<and> md_expires_at m = map_option c_str (s_expires_at r) \<and> 0 \<le> md_rotation_interval m"
  using assms
  by (auto simp: vault_read_metadata_def copy_optional_text_def vault_copy_text_column_def and_then_eq_Inr Let_def
      row_ok_def row_columns_ok_def split: if_splits option.splits)

text \<open>A due row that its operation renews, and what the new expiry is computed from.\<close>

lemma rotate_expired_stores:
  assumes "vault_rotate_expired_secret E k name s = (Inr (), s')" "nul_free name"
    and ok: "crypto_ok E" "secrets_wf (secrets (tables s))"
  shows "\<exists>r m now (s1 :: vault). r \<in> set (secrets (tables s)) \<and> s_name r = name \<and> \<not> s_is_archived r \<and> vault_read_metadata r = Inr m \<and>
    utils_now_iso8601 E UTILS_ISO8601_UTC_BUFFER_LEN s = (Inr now, s1) \<and>
    (if (case md_expires_at m of None \<Rightarrow> True | Some t \<Rightarrow> \<not> vault_expiry_is_due t now) then view s' = view s
     else \<exists>p ex (se :: vault) se'. row_plain E (kek_enc k) r = Some p \<and> stores E k name p ex ''ROTATE_DEK'' s s' \<and>
       tick s \<le> tick se \<and> vault_expiry_for E (md_rotation_interval m) se = (Inr ex, se'))"
proof -
  obtain now s1 found s2 where ne: "name \<noteq> []"
    and 1: "utils_now_iso8601 E UTILS_ISO8601_UTC_BUFFER_LEN s = (Inr now, s1)"
    and found: "vault_find_secret_metadata E name s1 = (Inr found, s2)"
    using assms(1) unfolding vault_rotate_expired_secret_def by (auto simp: andthen_eq_Inr)
  note run = assms(1) [unfolded vault_rotate_expired_secret_def]
  obtain m where 2: "vault_find_secret_metadata E name s1 = (Inr (Some m), s2)"
    using run ne 1 found by (cases found) (simp_all add: andthen_def guard_def)
  have v: "view s1 = view s" "view s2 = view s1" by (rule view_steps, rule 1 2)+
  then have t: "tables s1 = tables s" "tables s2 = tables s" using viewD(1) by metis+
  obtain r where r: "r \<in> set (secrets (tables s))" "s_name r = name" "\<not> s_is_archived r" "vault_read_metadata r = Inr m"
    using find_metadata_Inr(2) [OF 2, unfolded t, OF ok(2)] by blast
  show ?thesis
  proof (cases "case md_expires_at m of None \<Rightarrow> True | Some t \<Rightarrow> \<not> vault_expiry_is_due t now")
    case True
    then have "s' = s2" using run 1 2 by (simp add: andthen_def guard_def ne)
    then show ?thesis using True r 1 v by auto
  next
    case False
    obtain p alg s3 mv mc s4 rid s5 identity ex s6 es s7 where
        3: "vault_decrypt_secret_alloc E k name (md_version m) CRYPTO_ENGINE_ALGORITHM_MAX s2 = (Inr (p, alg), s3)"
        and 4: "vault_find_secret_history_bounds E name s3 = (Inr (Some (mv, mc)), s4)"
        and mv: "mv \<noteq> INT_MAX" "mc \<noteq> INT64_MAX"
        and 5: "utils_generate_uuid_v4 E UTILS_UUID_V4_BUFFER_LEN s4 = (Inr rid, s5)"
        and idt: "crypto_engine_build_row_identity E rid name CRYPTO_ENGINE_ROW_IDENTITY_HEX_LEN = Inr identity"
        and 6: "vault_expiry_for E (md_rotation_interval m) s5 = (Inr ex, s6)"
        and enc: "crypto_engine_encrypt_with_algorithm E p (kek_enc k) identity (of_int (mv + 1)) (of_int (mc + 1))
          (Some alg) s6 = (Inr es, s7)"
        and rep: "vault_replace_active E k (Some True) ''ROTATE_DEK'' rid name (md_name_nonce m) (md_encrypted_name m)
          (mv + 1) (mc + 1) now ex (md_rotation_interval m) es s7 = (Inr (), s')"
      using run 1 2 False ne by (auto simp: andthen_eq_Inr split: option.splits)
    have "view s3 = view s2" "view s4 = view s3" "view s5 = view s4" "view s6 = view s5" "view s7 = view s6"
      by (rule view_steps, rule 3 4 5 6 enc)+
    then have vv: "view s3 = view s" "view s7 = view s" using v by simp_all
    have num: "next_numbers (Some (mv, mc)) = (mv + 1, mc + 1)" by (simp add: next_numbers_def)
    have "stores E k name p ex ''ROTATE_DEK'' s s'"
      by (rule renew_stores [OF 4 vv(1) num _ 5 idt enc rep vv(2) _ ok assms(2) ne]) (use mv in auto)
    moreover obtain x where x: "x \<in> set (secrets (tables s))" "s_name x = name" "s_version x = md_version m"
        "row_plain E (kek_enc k) x = Some p"
      using decrypt_alloc_Inr [OF 3, unfolded t, OF ok(2)] by blast
    moreover have "s_version r = md_version m" using read_metadata_Inr [OF r(4) wfD(1) [OF ok(2) r(1)]] by simp
    then have "x = r" using wf_version_unique [OF ok(2) r(1) x(1)] x r(2) by simp
    moreover have "tick s \<le> tick s1" "tick s1 \<le> tick s2" "tick s2 \<le> tick s3" "tick s3 \<le> tick s4" "tick s4 \<le> tick s5"
      by (rule tick_steps, rule 1 2 3 4 5)+
    then have "tick s \<le> tick s5" by simp
    ultimately show ?thesis
      by (intro exI [of _ r] exI [of _ m] exI [of _ now] exI [of _ s1]) (use False r 1 6 in auto)
  qed
qed

section \<open>Reading and deleting\<close>

lemma read_secret_Inr:
  assumes "vault_read_secret E k name ver cap True s = (Inr p, s')" "secrets_wf (secrets (tables s))"
  obtains st r s1 where "vault_build_name_lookup E k name = Inr st" "r \<in> set (secrets (tables s))" "s_name r = st"
    "case ver of None \<Rightarrow> \<not> s_is_archived r | Some v \<Rightarrow> s_version r = v"
    "row_decrypt E (kek_enc k) r cap = Inr p" "view s1 = view s"
    "vault_log_success E k ''READ'' st (s_version r) s1 = (Inr (), s')"
proof -
  obtain st w s1 where st: "vault_build_name_lookup E k name = Inr st"
    and 1: "vault_load_secret_row E st ver s = (Inr w, s1)" and p: "vault_decrypt_secret_row E k w st cap = Inr p"
    and log: "vault_log_success E k ''READ'' st (vr_version w) s1 = (Inr (), s')"
    using assms(1) by (auto simp: vault_read_secret_def andthen_eq_Inr)
  have v: "view s1 = view s" by (rule view_steps, rule 1)
  obtain r where r: "r \<in> set (secrets (tables s))" "s_name r = st"
    "case ver of None \<Rightarrow> \<not> s_is_archived r | Some v \<Rightarrow> s_version r = v"
    "w = \<lparr>vr_id = s_id r, vr_version = s_version r, vr_encrypted = row_secret r\<rparr>"
    using load_row_Inr [OF 1 assms(2)] by blast
  have "row_decrypt E (kek_enc k) r cap = Inr p"
    using p decrypt_row_plain [OF wfD(1) [OF assms(2) r(1)] r(2)] r(4) by simp
  with that [OF st r(1-3) _ v] log r(4) show ?thesis by simp
qed

lemma delete_Inr:
  assumes "vault_delete E name s = (Inr (), s')" "secrets_wf (secrets (tables s))"
  obtains k st r t s1 s2 where "g_subkeys s = Some k" "g_unlocked s" "vault_build_name_lookup E k name = Inr st"
    "\<not> in_txn s" "\<not> in_txn s'" "r \<in> set (secrets (tables s))" "s_name r = st" "\<not> s_is_archived r"
    "tables s1 = (tables s)\<lparr>secrets := archived st t (secrets (tables s))\<rparr>"
    "vault_log_success E k ''DELETE'' st (s_version r) s1 = (Inr (), s2)" "tables s' = tables s2"
proof -
  obtain k st now s1 m s2 where k: "g_subkeys s = Some k" "g_unlocked s" and st: "vault_build_name_lookup E k name = Inr st"
    and 1: "utils_now_iso8601 E UTILS_ISO8601_UTC_BUFFER_LEN s = (Inr now, s1)"
    and 2: "vault_find_secret_metadata E st s1 = (Inr (Some m), s2)"
    and run: "andthen (storage_begin_transaction E) (\<lambda>_. finally_do
        (andthen (vault_archive_active_secret E st now True) (\<lambda>_. vault_log_success E k ''DELETE'' st (md_version m)))
        (commit_or_rollback E)) s2 = (Inr (), s')"
    using assms(1) unfolding vault_delete_def
    by (auto simp: andthen_eq_Inr require_unlocked_Inr split: option.splits)
  have v: "view s1 = view s" "view s2 = view s1" by (rule view_steps, rule 1 2)+
  then have t: "tables s1 = tables s" "tables s2 = tables s" "in_txn s2 = in_txn s" using viewD by metis+
  obtain r where r: "r \<in> set (secrets (tables s))" "s_name r = st" "\<not> s_is_archived r" "vault_read_metadata r = Inr m"
    using find_metadata_Inr(2) [OF 2, unfolded t, OF assms(2)] by blast
  have ver: "md_version m = s_version r" using read_metadata_Inr [OF r(4) wfD(1) [OF assms(2) r(1)]] by simp
  obtain s3 s4 where b: "storage_begin_transaction E s2 = (Inr (), s3)"
      "andthen (vault_archive_active_secret E st now True) (\<lambda>_. vault_log_success E k ''DELETE'' st (md_version m)) s3 =
        (Inr (), s4)" "tables s' = tables s4" "\<not> in_txn s'"
    using sq.block_done [OF run [unfolded commit_or_rollback_finish]] by auto
  have "\<not> in_txn s" "tables s3 = tables s" using block_begin [OF b(1)] t by auto
  moreover obtain s5 where "vault_archive_active_secret E st now True s3 = (Inr (), s5)"
      "vault_log_success E k ''DELETE'' st (s_version r) s5 = (Inr (), s4)"
    using b(2) ver by (auto simp: andthen_eq_Inr)
  moreover from this have "tables s5 = (tables s3)\<lparr>secrets := archived st now (secrets (tables s3))\<rparr>"
    by (simp add: archive_Inr)
  ultimately show ?thesis using that [OF k st _ b(4) r(1-3) _ _ b(3)] by simp
qed

section \<open>The audit log of a vault\<close>

text \<open>
  The log verifies under the audit key, its ids are distinct and do not run ahead of its
  length. \<open>log_room\<close> bounds the length, so that the next id is an \<open>int\<close> as well.
\<close>

definition audit_wf :: "env \<Rightarrow> bytes \<Rightarrow> db \<Rightarrow> bool" where
  "audit_wf E key d \<longleftrightarrow> chain_ok E key (audit_rows d) \<and> distinct (map a_entry_id (audit_log d)) \<and>
     (\<forall>r \<in> set (audit_log d). a_entry_id r \<le> int (length (audit_log d)))"

definition log_room :: "db \<Rightarrow> bool" where
  "log_room d \<longleftrightarrow> int (length (audit_log d)) < INT_MAX"

lemma audit_wf_log: "audit_log d' = audit_log d \<Longrightarrow> audit_wf E key d' = audit_wf E key d"
  by (simp add: audit_wf_def audit_rows_def)

lemma max_entry_id_le: "(\<forall>r \<in> set rows. a_entry_id r \<le> n) \<Longrightarrow> 0 \<le> n \<Longrightarrow> max_entry_id rows \<le> n"
  by (auto simp: max_entry_id_def)

lemma log_event_wf:
  assumes "audit_log_event E actor act tgt tv res key s = (Inr (), s')"
    and "audit_wf E key (tables s)" "log_room (tables s)"
    and "nul_free tgt" "nul_free (audit_actor_value actor)" "tv \<le> INT_MAX" "crypto_ok E"
  shows "\<exists>r. tables s' = (tables s)\<lparr>audit_log := audit_log (tables s) @ [r]\<rparr> \<and> audit_wf E key (tables s') \<and>
    a_action r = act \<and> a_target r = tgt \<and> a_result r = res \<and> a_target_version r = (if 0 < tv then Some tv else None)"
proof -
  let ?log = "audit_log (tables s)"
  have ids: "chain_ok E key (audit_rows (tables s))" "\<forall>r \<in> set ?log. a_entry_id r \<le> int (length ?log)"
      "distinct (map a_entry_id ?log)" "ids_in_range ?log"
    using assms(2,3) by (auto simp: audit_wf_def ids_in_range_def log_room_def list_all_iff INT_MAX_def INT64_MAX_def)
  obtain r where r: "tables s' = (tables s)\<lparr>audit_log := ?log @ [r]\<rparr>" "chain_ok E key (audit_rows (tables s'))"
      "a_action r = act" "a_target r = tgt" "a_result r = res" "a_target_version r = (if 0 < tv then Some tv else None)"
    using log_event_chain [OF assms(1) ids(1,4) assms(4-6)] assms(7) by (auto simp: crypto_ok_def)
  obtain ts x d where x: "new_audit_row E ts actor act tgt tv res key (tables s) = Inr x"
      "insert_audit_row x (tables s) = Some d" "s' = s\<lparr>tables := d, tick := tick s + 5\<rparr>"
    using assms(1) by (rule log_event_Inr)
  have "audit_log (tables s') = ?log @ [x]" using x(3) insert_audit_row_Some [OF x(2)] by simp
  moreover have "audit_log (tables s') = ?log @ [r]" using r(1) by simp
  ultimately have "x = r" by simp
  then have new: "a_entry_id r = min (max_entry_id ?log + 1) INT64_MAX" "\<forall>x \<in> set ?log. a_entry_id x \<noteq> a_entry_id r"
    using x(1,2) by (auto simp: new_audit_row_def Let_def and_then_eq_Inr insert_audit_row_def list_all_iff split: if_splits)
  then have "a_entry_id r \<le> int (length ?log) + 1" using max_entry_id_le [OF ids(2)] by simp
  then have "audit_wf E key (tables s')"
    using r(1,2) ids(2,3) new(2) by (force simp: audit_wf_def)
  then show ?thesis using r by blast
qed

lemma log_success_wf:
  assumes "vault_log_success E k act tgt tv s = (Inr (), s')"
    and "audit_wf E (kek_audit k) (tables s)" "log_room (tables s)" "nul_free tgt" "tv \<le> INT_MAX" "crypto_ok E"
  shows "\<exists>r. tables s' = (tables s)\<lparr>audit_log := audit_log (tables s) @ [r]\<rparr> \<and> audit_wf E (kek_audit k) (tables s') \<and>
    a_action r = act \<and> a_target r = tgt \<and> a_result r = ''SUCCESS'' \<and>
    a_target_version r = (if 0 < tv then Some tv else None)"
proof -
  have "nul_free (audit_actor_value (Some ''user:default''))"
    by (simp add: audit_actor_value_def nul_free_def)
  from log_event_wf [OF assms(1) [unfolded vault_log_success_def] assms(2-4) this assms(5,6)] show ?thesis .
qed

section \<open>Replacing the master password\<close>

lemma put_metadata_Inr:
  assumes "vault_put_metadata_blob E key v s = (Inr (), s')"
  shows "tables s' = (tables s)\<lparr>metadata := (metadata (tables s))(key \<mapsto> v)\<rparr>"
  using assms by (auto simp: vault_put_metadata_blob_def andthen_eq_Inr prepare_eq_Inr write_eq_Inr)

lemma put_wrapped_Inr:
  assumes "vault_put_wrapped_meta_key E mk wk s = (Inr (), s')" "random_ok E"
  shows "\<exists>n w. length n = 24 \<and> length w = 48 \<and>
    w = aead_encrypt E XCHACHA20_POLY1305 wk n (str_bytes VAULT_META_KEY_WRAP_AAD) mk \<and>
    tables s' = (tables s)\<lparr>metadata := (metadata (tables s))(VAULT_METADATA_META_KEY_NONCE \<mapsto> n,
      VAULT_METADATA_META_KEY_WRAPPED \<mapsto> w)\<rparr>"
proof -
  let ?n = "randombytes E (tick s) 24"
  have "length ?n = 24" using assms(2) by (simp add: random_ok_def)
  then show ?thesis
    using assms(1)
    by (intro exI [of _ ?n] exI [of _ "aead_encrypt E XCHACHA20_POLY1305 wk ?n (str_bytes VAULT_META_KEY_WRAP_AAD) mk"])
       (auto simp: vault_put_wrapped_meta_key_def andthen_eq_Inr Let_def VAULT_META_KEY_WRAP_BYTES_def
         dest!: put_metadata_Inr)
qed

text \<open>
  Unlocking a vault with these tables by the password \<open>pw\<close> yields the keys \<open>k\<close>: salt, verifier
  and wrapped metadata key are those of \<open>pw\<close> and \<open>k\<close>.
\<close>

definition opens :: "env \<Rightarrow> string \<Rightarrow> kdf_subkeys \<Rightarrow> db \<Rightarrow> bool" where
  "opens E pw k d \<longleftrightarrow> pw \<noteq> [] \<and> (\<exists>salt mk k0 n w.
     metadata d VAULT_METADATA_SALT = Some salt \<and> length salt = KDF_SALT_BYTES \<and>
     fst (kdf_derive_master_key E pw salt) = Inr mk \<and>
     metadata d VAULT_METADATA_VERIFIER = Some (sha256 E mk) \<and>
     fst (kdf_derive_subkeys E mk) = Inr k0 \<and>
     metadata d VAULT_METADATA_META_KEY_NONCE = Some n \<and> length n = 24 \<and>
     metadata d VAULT_METADATA_META_KEY_WRAPPED = Some w \<and> length w = VAULT_META_KEY_WRAP_BYTES \<and>
     aead_decrypt E XCHACHA20_POLY1305 (kek_enc k0) n (str_bytes VAULT_META_KEY_WRAP_AAD) w = Some (kek_meta k) \<and>
     length (kek_meta k) = 32 \<and> k = k0\<lparr>kek_meta := kek_meta k\<rparr>)"

lemmas credential_keys = VAULT_METADATA_SALT_def VAULT_METADATA_VERIFIER_def VAULT_METADATA_META_KEY_NONCE_def
  VAULT_METADATA_META_KEY_WRAPPED_def

lemma opens_cong:
  assumes "\<And>key. key \<in> {VAULT_METADATA_SALT, VAULT_METADATA_VERIFIER, VAULT_METADATA_META_KEY_NONCE,
      VAULT_METADATA_META_KEY_WRAPPED} \<Longrightarrow> metadata d' key = metadata d key"
  shows "opens E pw k d' = opens E pw k d"
  using assms by (simp add: opens_def)

lemma opens_new:
  assumes "fst (kdf_derive_master_key E pw salt) = Inr mk" "fst (kdf_derive_subkeys E mk) = Inr k0" "pw \<noteq> []"
    and "length salt = KDF_SALT_BYTES" "length n = 24" "length w = 48" "aead_ok E" "length mkey = 32"
    and "w = aead_encrypt E XCHACHA20_POLY1305 (kek_enc k0) n (str_bytes VAULT_META_KEY_WRAP_AAD) mkey"
    and "metadata d VAULT_METADATA_SALT = Some salt" "metadata d VAULT_METADATA_VERIFIER = Some (sha256 E mk)"
    and "metadata d VAULT_METADATA_META_KEY_NONCE = Some n" "metadata d VAULT_METADATA_META_KEY_WRAPPED = Some w"
  shows "opens E pw (k0\<lparr>kek_meta := mkey\<rparr>) d"
  unfolding opens_def
  by (intro conjI exI [of _ salt] exI [of _ mk] exI [of _ k0] exI [of _ n] exI [of _ w])
     (use assms in \<open>auto simp: aead_ok_def VAULT_META_KEY_WRAP_BYTES_def\<close>)

lemma derive_credentials_Inr:
  assumes "vault_derive_credentials E pw s = (Inr (salt, ver, k0), s')" "random_ok E"
  shows "\<exists>mk. fst (kdf_derive_master_key E pw salt) = Inr mk \<and> fst (kdf_derive_subkeys E mk) = Inr k0 \<and>
    ver = sha256 E mk \<and> pw \<noteq> [] \<and> length salt = KDF_SALT_BYTES"
  using assms by (auto simp: vault_derive_credentials_def andthen_eq_Inr Let_def kdf_generate_salt_def random_ok_def)

lemma rotate_kek_body_Inr:
  assumes run: "vault_rotate_kek_body E k new salt ver s = (Inr (), s')"
    and ok: "crypto_ok E" "secrets_wf (secrets (tables s))"
    and log: "distinct (map a_entry_id (audit_log (tables s)))" "log_room (tables s)"
      "\<forall>r \<in> set (audit_log (tables s)). a_entry_id r \<le> int (length (audit_log (tables s)))"
  shows "list_all2 (rewrapped E (kek_enc k) (kek_enc new)) (secrets (tables s)) (secrets (tables s')) \<and>
    audit_wf E (kek_audit new) (tables s') \<and>
    (\<exists>n w. length n = 24 \<and> length w = 48 \<and>
      w = aead_encrypt E XCHACHA20_POLY1305 (kek_enc new) n (str_bytes VAULT_META_KEY_WRAP_AAD) (kek_meta k) \<and>
      metadata (tables s') = (metadata (tables s))(VAULT_METADATA_META_KEY_NONCE \<mapsto> n, VAULT_METADATA_META_KEY_WRAPPED \<mapsto> w,
        VAULT_METADATA_SALT \<mapsto> salt, VAULT_METADATA_VERIFIER \<mapsto> ver))"
proof -
  obtain s1 s2 s3 s4 s5 s6 where
      1: "audit_verify_chain E (kek_audit k) s = (Inr (), s1)"
    and 2: "key_manager_rotate_kek E (kek_enc k) (kek_enc new) s1 = (Inr (), s2)"
    and 3: "vault_put_wrapped_meta_key E (kek_meta k) (kek_enc new) s2 = (Inr (), s3)"
    and 4: "vault_put_metadata_blob E VAULT_METADATA_SALT salt s3 = (Inr (), s4)"
    and 5: "vault_put_metadata_blob E VAULT_METADATA_VERIFIER ver s4 = (Inr (), s5)"
    and 6: "audit_resign_chain E (kek_audit new) s5 = (Inr (), s6)"
    and 7: "audit_log_event E (Some ''user:default'') ''ROTATE_KEK'' ''vault'' 0 ''SUCCESS'' (kek_audit new) s6 = (Inr (), s')"
    using run by (auto simp: vault_rotate_kek_body_def andthen_eq_Inr)
  have rnd: "random_ok E" using ok(1) by (simp add: crypto_ok_def)
  have t1: "tables s1 = tables s" using reads_audit(4) 1 viewD(1) reads_view by blast
  have rows: "distinct (map s_id (secrets (tables s1)))" "list_all row_columns_ok (secrets (tables s1))"
    using ok(2) t1 by (auto simp: secrets_wf_def row_ok_def list_all_iff)
  obtain rs where rs: "tables s2 = (tables s1)\<lparr>secrets := rs\<rparr>"
      "list_all2 (rewrapped E (kek_enc k) (kek_enc new)) (secrets (tables s1)) rs"
    using rotate_kek_rewraps [OF 2 rnd rows] by blast
  obtain n w where w: "length n = 24" "length w = 48"
      "w = aead_encrypt E XCHACHA20_POLY1305 (kek_enc new) n (str_bytes VAULT_META_KEY_WRAP_AAD) (kek_meta k)"
      "tables s3 = (tables s2)\<lparr>metadata := (metadata (tables s2))(VAULT_METADATA_META_KEY_NONCE \<mapsto> n,
        VAULT_METADATA_META_KEY_WRAPPED \<mapsto> w)\<rparr>"
    using put_wrapped_Inr [OF 3 rnd] by blast
  note t5 = put_metadata_Inr [OF 4] put_metadata_Inr [OF 5]
  have log5: "audit_log (tables s5) = audit_log (tables s)" "secrets (tables s5) = rs"
      "metadata (tables s5) = (metadata (tables s))(VAULT_METADATA_META_KEY_NONCE \<mapsto> n, VAULT_METADATA_META_KEY_WRAPPED \<mapsto> w,
        VAULT_METADATA_SALT \<mapsto> salt, VAULT_METADATA_VERIFIER \<mapsto> ver)"
    using t1 rs(1) w(4) t5 by simp_all
  have small: "list_all (\<lambda>r. a_entry_id r \<le> INT_MAX) (audit_log (tables s5))"
    using log(2,3) log5(1) by (auto simp: list_all_iff log_room_def)
  have auth: "auth_ok E" using ok(1) by (simp add: crypto_ok_def)
  obtain sigs where sigs: "chain_ok E (kek_audit new) (audit_rows (tables s6))"
      "tables s6 = (tables s5)\<lparr>audit_log := map (\<lambda>r. r\<lparr>a_hmac_signature := sigs (a_entry_id r)\<rparr>) (audit_log (tables s5))\<rparr>"
    using resign_chain_ok [OF 6 _ small auth] log(1) log5(1) by auto
  have wf6: "audit_wf E (kek_audit new) (tables s6)" "log_room (tables s6)"
    using sigs log log5(1) by (auto simp: audit_wf_def log_room_def comp_def)
  have nf: "nul_free ''vault''" "nul_free (audit_actor_value (Some ''user:default''))"
    by (simp_all add: audit_actor_value_def nul_free_def)
  obtain r where r: "tables s' = (tables s6)\<lparr>audit_log := audit_log (tables s6) @ [r]\<rparr>" "audit_wf E (kek_audit new) (tables s')"
    using log_event_wf [OF 7 wf6 nf _ ok(1)] by (auto simp: INT_MAX_def)
  have "secrets (tables s') = rs" "metadata (tables s') = metadata (tables s5)" using r(1) sigs(2) log5(2) by simp_all
  then show ?thesis using r(2) rs(2) t1 w(1-3) log5(3) by auto
qed

end
