(* ===== verification/Fuin_Vault_Inv.thy ===== *)
theory Fuin_Vault_Inv
  imports Fuin_Vault_Effects
begin

text \<open>
  The invariant of a vault and that every operation keeps it, whether it succeeds or fails:
  the durable tables belong to the keys that some password opens the vault with.
\<close>

section \<open>The invariant\<close>

text \<open>
  Tables that belong to the keys \<open>k\<close>: the secrets are well formed, every version of every
  secret can be decrypted, and the audit log verifies.
\<close>

definition keys_ok :: "env \<Rightarrow> kdf_subkeys \<Rightarrow> db \<Rightarrow> bool" where
  "keys_ok E k d \<longleftrightarrow> secrets_wf (secrets d) \<and> (\<forall>r \<in> set (secrets d). row_plain E (kek_enc k) r \<noteq> None) \<and>
     audit_wf E (kek_audit k) d"

text \<open>
  A vault whose durable tables belong to the keys some password opens it with, and whose
  unlocked keys, if any, are these.
\<close>

definition vault_inv :: "env \<Rightarrow> vault \<Rightarrow> bool" where
  "vault_inv E s \<longleftrightarrow> (\<exists>pw k. opens E pw k (committed s) \<and> keys_ok E k (committed s) \<and>
     (g_subkeys s = None \<or> g_subkeys s = Some k))"

lemma row_plain_archive [simp]: "row_plain E kek (r\<lparr>s_is_archived := b, s_updated_at := t\<rparr>) = row_plain E kek r"
  by (simp add: row_plain_def row_decrypt_def row_secret_def)

lemma committed_closed: "\<not> in_txn s \<Longrightarrow> committed s = tables s"
  by (simp add: committed_def in_txn_def)

text \<open>An entry on top of tables that differ from the old ones in the secrets only.\<close>

lemma logged_keys_ok:
  assumes "vault_log_success E k act tgt tv s1 = (Inr (), s2)" "tables s1 = d\<lparr>secrets := rows\<rparr>"
    and "keys_ok E k d" "log_room d" "nul_free tgt" "tv \<le> INT_MAX" "crypto_ok E"
    and "secrets_wf rows" "\<forall>r \<in> set rows. row_plain E (kek_enc k) r \<noteq> None"
  shows "keys_ok E k (tables s2)" "secrets (tables s2) = rows" "metadata (tables s2) = metadata d"
    "auth_failures (tables s2) = auth_failures d"
    "\<exists>r. audit_log (tables s2) = audit_log d @ [r] \<and> a_action r = act \<and> a_target r = tgt \<and> a_result r = ''SUCCESS'' \<and>
      a_target_version r = (if 0 < tv then Some tv else None)"
proof -
  have "audit_wf E (kek_audit k) (tables s1)" "log_room (tables s1)"
    using assms(2-4) by (simp_all add: keys_ok_def log_room_def audit_wf_log [of "d\<lparr>secrets := rows\<rparr>" d])
  from log_success_wf [OF assms(1) this assms(5-7)] obtain r where
      r: "tables s2 = (tables s1)\<lparr>audit_log := audit_log (tables s1) @ [r]\<rparr>" "audit_wf E (kek_audit k) (tables s2)"
      "a_action r = act" "a_target r = tgt" "a_result r = ''SUCCESS''" "a_target_version r = (if 0 < tv then Some tv else None)"
    by blast
  show "keys_ok E k (tables s2)" using r(1,2) assms(2,8,9) by (simp add: keys_ok_def)
  show "secrets (tables s2) = rows" "metadata (tables s2) = metadata d" "auth_failures (tables s2) = auth_failures d"
    using r(1) assms(2) by simp_all
  show "\<exists>r. audit_log (tables s2) = audit_log d @ [r] \<and> a_action r = act \<and> a_target r = tgt \<and> a_result r = ''SUCCESS'' \<and>
      a_target_version r = (if 0 < tv then Some tv else None)"
    using r assms(2) by auto
qed

lemma stores_keys_ok:
  assumes "stores E k name p ex act s s'" "keys_ok E k (tables s)" "log_room (tables s)" "crypto_ok E"
  shows "keys_ok E k (tables s') \<and> metadata (tables s') = metadata (tables s) \<and> \<not> in_txn s \<and> \<not> in_txn s' \<and>
    session_of s' = session_of s"
proof -
  obtain t row s1 s2 where st: "\<not> in_txn s" "\<not> in_txn s'" "session_of s' = session_of s" "s_name row = name"
      "row_plain E (kek_enc k) row = Some p" "secrets_wf (archived name t (secrets (tables s)) @ [row])"
      "tables s1 = (tables s)\<lparr>secrets := archived name t (secrets (tables s)) @ [row]\<rparr>"
      "vault_log_success E k act name (s_version row) s1 = (Inr (), s2)" "tables s' = tables s2"
    using assms(1) unfolding stores_def by blast
  have row: "nul_free name" "s_version row \<le> INT_MAX"
    using wfD(1) [OF st(6), of row] st(4) by (auto simp: row_ok_def row_columns_ok_def)
  have "\<forall>r \<in> set (archived name t (secrets (tables s)) @ [row]). row_plain E (kek_enc k) r \<noteq> None"
    using assms(2) st(5) by (auto simp: keys_ok_def)
  note logged_keys_ok [OF st(8,7) assms(2,3) row assms(4) st(6) this]
  then show ?thesis using st by simp
qed

lemma delete_keys_ok:
  assumes "vault_delete E name s = (Inr (), s')" "keys_ok E k (tables s)" "g_subkeys s = Some k" "log_room (tables s)"
    and "crypto_ok E"
  shows "keys_ok E k (tables s') \<and> metadata (tables s') = metadata (tables s) \<and> \<not> in_txn s \<and> \<not> in_txn s'"
proof -
  have wf: "secrets_wf (secrets (tables s))" using assms(2) by (simp add: keys_ok_def)
  obtain k' st r t s1 s2 where d: "\<not> in_txn s" "\<not> in_txn s'" "r \<in> set (secrets (tables s))" "s_name r = st"
    "tables s1 = (tables s)\<lparr>secrets := archived st t (secrets (tables s))\<rparr>" "g_subkeys s = Some k'"
    "vault_log_success E k' ''DELETE'' st (s_version r) s1 = (Inr (), s2)" "tables s' = tables s2"
    by (rule delete_Inr [OF assms(1) wf]) blast
  have k': "k' = k" using d(6) assms(3) by simp
  have row: "nul_free st" "s_version r \<le> INT_MAX" using wfD(1) [OF wf d(3)] d(4) by (auto simp: row_ok_def row_columns_ok_def)
  have "\<forall>r \<in> set (archived st t (secrets (tables s))). row_plain E (kek_enc k) r \<noteq> None"
    using assms(2) by (auto simp: keys_ok_def)
  note logged_keys_ok [OF d(7) [unfolded k'] d(5) assms(2,4) row assms(5) wf_archived [OF wf] this]
  then show ?thesis using d by simp
qed

lemma read_keys_ok:
  assumes "vault_read_secret E k name ver cap True s = (Inr p, s')" "keys_ok E k (tables s)" "log_room (tables s)"
    and "crypto_ok E"
  shows "keys_ok E k (tables s') \<and> metadata (tables s') = metadata (tables s)"
proof -
  have wf: "secrets_wf (secrets (tables s))" using assms(2) by (simp add: keys_ok_def)
  obtain st r s1 where d: "r \<in> set (secrets (tables s))" "s_name r = st" "view s1 = view s"
    "vault_log_success E k ''READ'' st (s_version r) s1 = (Inr (), s')"
    by (rule read_secret_Inr [OF assms(1) wf]) blast
  have row: "nul_free st" "s_version r \<le> INT_MAX" using wfD(1) [OF wf d(1)] d(2) by (auto simp: row_ok_def row_columns_ok_def)
  have t1: "tables s1 = (tables s)\<lparr>secrets := secrets (tables s)\<rparr>" using viewD(1) [OF d(3)] by simp
  have "\<forall>r \<in> set (secrets (tables s)). row_plain E (kek_enc k) r \<noteq> None" using assms(2) by (auto simp: keys_ok_def)
  note logged_keys_ok [OF d(4) t1 assms(2,3) row assms(4) wf this]
  then show ?thesis by simp
qed

text \<open>Rewrapped rows.\<close>

lemma list_all2_as_map:
  assumes "list_all2 P xs ys" "distinct xs"
  shows "\<exists>F. ys = map F xs \<and> (\<forall>x \<in> set xs. P x (F x))"
proof -
  have len: "length xs = length ys" using assms(1) by (rule list_all2_lengthD)
  have F: "the (map_of (zip xs ys) (xs ! i)) = ys ! i" if "i < length xs" for i
    using map_of_zip_nth [OF len assms(2) that [unfolded len]] by simp
  have "ys = map (\<lambda>x. the (map_of (zip xs ys) x)) xs" by (rule nth_equalityI) (simp_all add: len F)
  moreover have "P x (the (map_of (zip xs ys) x))" if "x \<in> set xs" for x
    using that F assms(1) by (auto simp: in_set_conv_nth list_all2_conv_all_nth)
  ultimately show ?thesis by blast
qed

lemma rewrapped_row:
  assumes "rewrapped E old new r r'" "crypto_ok E" "row_ok r"
  shows "row_ok r' \<and> s_id r' = s_id r \<and> s_name r' = s_name r \<and> s_version r' = s_version r \<and>
    s_nonce_counter r' = s_nonce_counter r \<and> s_is_archived r' = s_is_archived r \<and> s_expires_at r' = s_expires_at r \<and>
    (row_plain E old r = Some p \<longrightarrow> row_plain E new r' = Some p)"
proof -
  obtain alg aad dek n w c where r': "r' = r\<lparr>s_encrypted_dek := w, s_dek_nonce := n, s_key_commitment := c\<rparr>"
      "w = aead_encrypt E alg new n aad dek" "length dek = 32" "length n = npub_bytes alg"
      "c = crypto_engine_commitment E new CRYPTO_ENGINE_COMMIT_DOMAIN_KEK n @ drop 32 (s_key_commitment r)"
      "length (s_key_commitment r) = 64"
    using assms(1) unfolding rewrapped_def by blast
  have "length w = 32 + tag_bytes alg"
    using assms(2) r'(2,3) by (simp add: crypto_ok_def aead_ok_def)
  then have w: "w \<noteq> []" by auto
  have "length (crypto_engine_commitment E new CRYPTO_ENGINE_COMMIT_DOMAIN_KEK n) = 32"
    using assms(2) by (simp add: crypto_ok_def generichash_ok_def crypto_engine_commitment_def)
  then have c: "length c = 64" "c \<noteq> []" using r'(5,6) by auto
  have n: "n \<noteq> []" "length n \<le> 32" using r'(4) npub_bounds [of alg] by auto
  have "row_ok r'"
    using assms(3) w c n
    by (auto simp: row_ok_def row_columns_ok_def r'(1) vault_copy_secret_row_def row_secret_def and_then_eq_Inr
        vault_copy_text_column_def vault_column_blob_size_def vault_copy_blob_column_def
        CRYPTO_ENGINE_COMMITMENT_BYTES_def KEY_MANAGER_MAX_NONCE_BYTES_def split: if_splits)
  moreover have "row_plain E new r' = Some p" if "row_plain E old r = Some p"
    using rewrapped_decrypt [OF assms(1,2)] that by (simp add: row_plain_Some r'(1))
  ultimately show ?thesis by (simp add: r'(1))
qed

lemma rewrapped_wf:
  assumes "list_all2 (rewrapped E old new) rows rows'" "crypto_ok E" "secrets_wf rows"
    and "\<forall>r \<in> set rows. row_plain E old r \<noteq> None"
  shows "secrets_wf rows' \<and> (\<forall>r \<in> set rows'. row_plain E new r \<noteq> None)"
proof -
  have "distinct rows" using wfD(2) [OF assms(3)] by (simp add: distinct_map)
  then obtain F where F: "rows' = map F rows" "\<forall>r \<in> set rows. rewrapped E old new r (F r)"
    using list_all2_as_map [OF assms(1)] by blast
  note row = rewrapped_row [OF F(2) [rule_format] assms(2) wfD(1) [OF assms(3)]]
  have "secrets_wf (map F rows)" by (rule wf_map [OF assms(3)]) (use row in blast)
  then show ?thesis using F(1) row assms(4) by fastforce
qed

lemma rotate_kek_Inr:
  assumes "vault_rotate_kek E pw s = (Inr (), s')" "keys_ok E k (tables s)" "g_subkeys s = Some k" "log_room (tables s)"
    and "crypto_ok E" "length (kek_meta k) = 32"
  shows "\<exists>new. g_subkeys s' = Some (new\<lparr>kek_meta := kek_meta k\<rparr>) \<and> g_unlocked s' \<and> \<not> in_txn s \<and> \<not> in_txn s' \<and>
    list_all2 (rewrapped E (kek_enc k) (kek_enc new)) (secrets (tables s)) (secrets (tables s')) \<and>
    opens E pw (new\<lparr>kek_meta := kek_meta k\<rparr>) (tables s') \<and> keys_ok E (new\<lparr>kek_meta := kek_meta k\<rparr>) (tables s')"
proof -
  obtain salt ver new s1 s2 s3 where
      1: "vault_derive_credentials E pw s = (Inr (salt, ver, new), s1)"
    and 2: "storage_begin_transaction E s1 = (Inr (), s2)"
    and 3: "finally_do (vault_rotate_kek_body E k new salt ver) (commit_or_rollback E) s2 = (Inr (), s3)"
    and s': "s' = s3\<lparr>g_subkeys := Some (new\<lparr>kek_meta := kek_meta k\<rparr>), g_unlocked := True\<rparr>"
    using assms(1,3) by (auto simp: vault_rotate_kek_def andthen_eq_Inr require_unlocked_Inr)
  have ok: "aead_ok E" "random_ok E" using assms(5) by (simp_all add: crypto_ok_def)
  have v: "view s1 = view s" by (rule view_steps, rule 1)
  have run: "andthen (storage_begin_transaction E) (\<lambda>_. finally_do (vault_rotate_kek_body E k new salt ver)
      (commit_or_rollback E)) s1 = (Inr (), s3)"
    using 2 3 by (simp add: andthen_def)
  obtain s2 t where b: "storage_begin_transaction E s1 = (Inr (), s2)" "vault_rotate_kek_body E k new salt ver s2 = (Inr (), t)"
      "tables s3 = tables t" "\<not> in_txn s3"
    using sq.block_done [OF run [unfolded commit_or_rollback_finish]] by auto
  have t2: "tables s2 = tables s" "\<not> in_txn s" using block_begin [OF b(1)] viewD [OF v] by simp_all
  have body: "list_all2 (rewrapped E (kek_enc k) (kek_enc new)) (secrets (tables s)) (secrets (tables t))"
      "audit_wf E (kek_audit new) (tables t)"
      "\<exists>n w. length n = 24 \<and> length w = 48 \<and>
        w = aead_encrypt E XCHACHA20_POLY1305 (kek_enc new) n (str_bytes VAULT_META_KEY_WRAP_AAD) (kek_meta k) \<and>
        metadata (tables t) = (metadata (tables s))(VAULT_METADATA_META_KEY_NONCE \<mapsto> n, VAULT_METADATA_META_KEY_WRAPPED \<mapsto> w,
          VAULT_METADATA_SALT \<mapsto> salt, VAULT_METADATA_VERIFIER \<mapsto> ver)"
    using rotate_kek_body_Inr [OF b(2) assms(5)] assms(2,4) by (auto simp: t2 keys_ok_def audit_wf_def)
  obtain mk where mk: "fst (kdf_derive_master_key E pw salt) = Inr mk" "fst (kdf_derive_subkeys E mk) = Inr new"
      "ver = sha256 E mk" "pw \<noteq> []" "length salt = KDF_SALT_BYTES"
    using derive_credentials_Inr [OF 1 ok(2)] by blast
  have "opens E pw (new\<lparr>kek_meta := kek_meta k\<rparr>) (tables t)"
    using body(3) opens_new [OF mk(1,2,4,5) _ _ ok(1) assms(6)] mk(3) by (auto simp: credential_keys)
  moreover have "keys_ok E (new\<lparr>kek_meta := kek_meta k\<rparr>) (tables t)"
    using rewrapped_wf [OF body(1) assms(5)] body(2) assms(2) by (simp add: keys_ok_def)
  ultimately show ?thesis using s' b(3,4) t2(2) body(1) by (auto simp: in_txn_def)
qed

section \<open>Every operation keeps the invariant\<close>

text \<open>Outside a transaction an entry of the log is durable at once, inside it is not.\<close>

lemma log_success_saved:
  assumes "vault_log_success E k act tgt tv s = (r, s')"
  shows "saved s' = saved s"
proof -
  have leaf: "preserves (\<lambda>x :: vault. saved x = v) m" if "reads m" for m v
    by (rule readsD [OF that]) (simp add: ticked_def)
  have wr: "preserves (\<lambda>x :: vault. saved x = v) (sql_write E f)" for v f
    by (auto simp: preserves_def sql_write_def split: option.splits)
  have "preserves (\<lambda>x :: vault. saved x = v) (vault_log_success E k act tgt tv)" for v
    unfolding vault_log_success_def audit_log_event_def Let_def
    by (intro preserves_andthen wr leaf read_rules)
  from preservesD [OF this _ assms] show ?thesis by blast
qed

lemma logged_committed:
  assumes "view s1 = view s" "vault_log_success E k act tgt tv s1 = (r, s')"
  shows "if in_txn s then committed s' = committed s else committed s' = tables s' \<and> committed s = tables s"
proof -
  have "saved s' = saved s" using log_success_saved [OF assms(2)] assms(1) by (simp add: view_def)
  then show ?thesis by (auto simp: in_txn_def committed_def split: option.splits)
qed

lemma issue_token_Inr:
  assumes "vault_issue_token E J sub sc ttl cap s = (Inr token, s')"
  shows "\<exists>k s1. g_subkeys s = Some k \<and> view s1 = view s \<and> vault_log_success E k ''TOKEN_ISSUE'' sub 0 s1 = (Inr (), s')"
proof -
  obtain k issued s1 where "g_subkeys s = Some k"
      "access_issue_token E J sub sc ttl (kek_token k) ACCESS_TOKEN_BUFFER_LEN s = (Inr issued, s1)"
      "vault_log_success E k ''TOKEN_ISSUE'' sub 0 s1 = (Inr (), s')"
    using assms by (auto simp: vault_issue_token_def andthen_eq_Inr require_unlocked_Inr)
  then show ?thesis using reads_view [OF reads_access(1)] by blast
qed

lemma revoke_tokens_Inr:
  assumes "vault_revoke_tokens E s = (Inr (), s')"
  shows "\<exists>k now s1 s2. g_subkeys s = Some k \<and> \<not> in_txn s \<and> \<not> in_txn s' \<and> 0 < now \<and> now = clock E (tick s) \<and>
    tables s1 = (tables s)\<lparr>metadata := (metadata (tables s))(VAULT_METADATA_TOKEN_NOT_BEFORE \<mapsto> utils_write_u64_le (of_int now))\<rparr> \<and>
    vault_log_success E k ''TOKEN_REVOKE'' ''tokens'' 0 s1 = (Inr (), s2) \<and> tables s' = tables s2"
proof -
  obtain k where k: "g_subkeys s = Some k" "0 < clock E (tick s)"
    and run: "finally_do (andthen (storage_begin_transaction E) (\<lambda>_.
        andthen (vault_put_token_not_before E (of_int (clock E (tick s)))) (\<lambda>_.
        vault_log_success E k ''TOKEN_REVOKE'' ''tokens'' 0))) (commit_or_rollback E) (next_tick s) = (Inr (), s')"
    using assms by (auto simp: vault_revoke_tokens_def andthen_eq_Inr require_unlocked_Inr)
  obtain s0 t where t: "storage_begin_transaction E (next_tick s) = (Inr (), s0)"
      "andthen (vault_put_token_not_before E (of_int (clock E (tick s)))) (\<lambda>_.
        vault_log_success E k ''TOKEN_REVOKE'' ''tokens'' 0) s0 = (Inr (), t)" "tables s' = tables t" "\<not> in_txn s'"
    using sq.late_block_done [OF run [unfolded commit_or_rollback_finish]] by auto
  have s0: "\<not> in_txn s" "tables s0 = tables s" using block_begin [OF t(1)] by (auto simp: in_txn_def)
  obtain s1 where "vault_put_token_not_before E (of_int (clock E (tick s))) s0 = (Inr (), s1)"
      "vault_log_success E k ''TOKEN_REVOKE'' ''tokens'' 0 s1 = (Inr (), t)"
    using t(2) by (auto simp: andthen_eq_Inr)
  moreover from this(1) have "tables s1 = (tables s0)\<lparr>metadata := (metadata (tables s0))
      (VAULT_METADATA_TOKEN_NOT_BEFORE \<mapsto> utils_write_u64_le (of_int (clock E (tick s))))\<rparr>"
    unfolding vault_put_token_not_before_def by (rule put_metadata_Inr)
  ultimately show ?thesis using k s0 t(3,4)
    by (intro exI [of _ k] exI [of _ "clock E (tick s)"] exI [of _ s1] exI [of _ t]) simp
qed

text \<open>While a transaction is open, an operation that starts one fails.\<close>

definition blocked :: "(vault, 'x) comp \<Rightarrow> bool" where
  "blocked m \<longleftrightarrow> (\<forall>s x s'. m s = (Inr x, s') \<longrightarrow> \<not> in_txn s)"

lemma blockedD: "blocked m \<Longrightarrow> m s = (Inr x, s') \<Longrightarrow> \<not> in_txn s"
  by (auto simp: blocked_def)

named_theorems blocked_rules \<open>operations that fail while a transaction is open\<close>

lemma blocked_raise [blocked_rules]: "blocked (raise e)"
  by (simp add: blocked_def)

lemma blocked_andthen [blocked_rules]:
  assumes "reads m" "\<And>x. blocked (f x)"
  shows "blocked (andthen m f)"
  unfolding blocked_def
proof (intro allI impI)
  fix s x s' assume "andthen m f s = (Inr x, s')"
  then obtain y s1 where 1: "m s = (Inr y, s1)" "f y s1 = (Inr x, s')" by (auto simp: andthen_eq_Inr)
  then have "\<not> in_txn s1" using assms(2) by (auto simp: blocked_def)
  then show "\<not> in_txn s" using reads_state [OF assms(1) 1(1)] by simp
qed

lemma blocked_begin: "blocked (andthen (storage_begin_transaction E) f)"
  using block_begin by (auto simp: blocked_def andthen_eq_Inr)

lemma blocked_late: "blocked (finally_do (andthen (storage_begin_transaction E) f) (commit_or_rollback E))"
  unfolding blocked_def
proof (intro allI impI)
  fix s x s' assume "finally_do (andthen (storage_begin_transaction E) f) (commit_or_rollback E) s = (Inr x, s')"
  then obtain y s1 where "andthen (storage_begin_transaction E) f s = (Inr y, s1)"
    by (auto simp: finally_do_def commit_or_rollback_def split: prod.splits sum.splits)
  then show "\<not> in_txn s" using block_begin by (auto simp: andthen_eq_Inr)
qed

lemma blocked_operations:
  "blocked (vault_put_with_options E name sec alg ttl)" "blocked (vault_rollback E name v)"
  "blocked (vault_delete E name)" "blocked (vault_rotate_kek E pw)" "blocked (vault_revoke_tokens E)"
  unfolding vault_put_with_options_def vault_rollback_def vault_delete_def vault_rotate_kek_def
    vault_revoke_tokens_def vault_replace_active_def
  by (auto intro!: blocked_begin blocked_late blocked_rules read_rules split: prod.split option.split)

lemma stateless_void: "stateless m \<Longrightarrow> stateless (void m)"
  unfolding void_def by (intro stateless_rules stateless_leaf)

lemma run_op_stateless: "(\<And>pw. op \<noteq> Op_rotate_kek pw) \<Longrightarrow> stateless (run_op E J op)"
  by (cases op)
     (auto intro!: stateless_void stateless_operations stateless_read_secret reads_operations [THEN stateless_reads])

lemma stateless_rotate_row: "stateless (key_manager_rotate_row E old new r)"
  by (auto simp: key_manager_rotate_row_def key_manager_rewrap_dek_def key_manager_wrap_dek_def
      key_manager_update_wrapped_dek_def Let_def intro!: stateless_rules stateless_leaf split: prod.split)

lemma stateless_rotate_rows: "stateless (key_manager_rotate_rows E old new rows)"
  by (induction rows) (auto intro!: stateless_rules stateless_leaf stateless_rotate_row)

lemma stateless_update_signatures: "stateless (audit_update_signatures E items)"
proof (induction items)
  case Nil
  then show ?case by (simp add: stateless_def preserves_def)
next
  case (Cons i items)
  then show ?case by (cases i) (auto intro!: stateless_rules stateless_leaf)
qed

lemma stateless_rotate_block:
  "stateless (finally_do (vault_rotate_kek_body E k new salt ver) (commit_or_rollback E))"
  unfolding vault_rotate_kek_body_def key_manager_rotate_kek_def audit_resign_chain_def vault_put_wrapped_meta_key_def Let_def
  by (intro stateless_rules stateless_rotate_rows stateless_update_signatures stateless_leaf)

text \<open>A run that fails keeps the unlocked keys.\<close>

definition keeps_session :: "(vault, 'x) comp \<Rightarrow> bool" where
  "keeps_session m \<longleftrightarrow> (\<forall>s e s'. m s = (Inl e, s') \<longrightarrow> session_of s' = session_of s)"

lemma keeps_session_stateless: "stateless m \<Longrightarrow> keeps_session m"
  using stateless_state(1) by (auto simp: keeps_session_def)

lemma keeps_session_andthen:
  assumes "stateless m" "\<And>x. keeps_session (f x)"
  shows "keeps_session (andthen m f)"
  unfolding keeps_session_def
proof (intro allI impI)
  fix s e s' assume run: "andthen m f s = (Inl e, s')"
  obtain q s1 where q: "m s = (q, s1)" by fastforce
  then have "session_of s' = session_of s1"
    using run assms(2) by (cases q) (auto simp: andthen_def keeps_session_def)
  then show "session_of s' = session_of s" using stateless_state(1) [OF assms(1) q] by simp
qed

lemma run_op_keeps_session: "keeps_session (run_op E J op)"
proof (cases "\<exists>pw. op = Op_rotate_kek pw")
  case True
  have "keeps_session (modify f)" for f by (simp add: keeps_session_def)
  then have "keeps_session (vault_rotate_kek E pw)" for pw
    unfolding vault_rotate_kek_def
    by (auto intro!: keeps_session_andthen stateless_rotate_block stateless_storage stateless_leaf split: prod.split)
  then show ?thesis using True by auto
next
  case False
  then show ?thesis by (intro keeps_session_stateless run_op_stateless) blast
qed

text \<open>C strings hold no NUL; the subject of a token is the one that reaches the audit log.\<close>

definition op_ok :: "vault_op \<Rightarrow> bool" where
  "op_ok op = (case op of Op_issue_token sub sc ttl cap \<Rightarrow> nul_free sub | _ \<Rightarrow> True)"

lemma opens_meta: "metadata d' = metadata d \<Longrightarrow> opens E pw k d' = opens E pw k d"
  by (rule opens_cong) simp

lemma opens_meta_length: "opens E pw k d \<Longrightarrow> length (kek_meta k) = 32"
  by (auto simp: opens_def)

text \<open>
  What the operations other than the rotation of the master password keep: the durable tables
  still belong to the keys, and the credentials stay.
\<close>

definition same_keys :: "env \<Rightarrow> kdf_subkeys \<Rightarrow> vault \<Rightarrow> vault \<Rightarrow> bool" where
  "same_keys E k s s' \<longleftrightarrow> keys_ok E k (committed s') \<and> session_of s' = session_of s \<and>
     (\<forall>pw k. opens E pw k (committed s) \<longrightarrow> opens E pw k (committed s'))"

lemma same_keysI:
  assumes "keys_ok E k (tables s')" "metadata (tables s') = metadata (tables s)" "\<not> in_txn s" "\<not> in_txn s'"
    and "stateless m" "m s = (r, s')"
  shows "same_keys E k s s'"
  using assms opens_meta [OF assms(2)] stateless_state(1) [OF assms(5,6)]
  by (simp add: same_keys_def committed_closed)

lemma same_keys_read:
  assumes "reads m" "m s = (r, s')" "keys_ok E k (committed s)"
  shows "same_keys E k s s'"
  using reads_state [OF assms(1,2)] reads_view [OF assms(1,2)] assms(3) by (simp add: same_keys_def view_def)

lemma put_same_keys:
  assumes "vault_put_with_options E name sec alg ttl s = (Inr (), s')" "keys_ok E k (committed s)"
    and "g_subkeys s = None \<or> g_subkeys s = Some k" "log_room (committed s)" "crypto_ok E" "hex_ok E"
  shows "same_keys E k s s'"
proof -
  have txn: "\<not> in_txn s" by (rule blockedD [OF blocked_operations(1) assms(1)])
  note t = committed_closed [OF txn]
  have "secrets_wf (secrets (tables s))" using assms(2) t by (simp add: keys_ok_def)
  from put_stores [OF assms(1,5,6) this] obtain st ex act where "stores E k st sec ex act s s'" using assms(3) by auto
  from stores_keys_ok [OF this] assms(2,4,5) t same_keysI [OF _ _ _ _ stateless_operations(1) assms(1)]
  show ?thesis by simp
qed

lemma rollback_same_keys:
  assumes "vault_rollback E name v s = (Inr (), s')" "keys_ok E k (committed s)"
    and "g_subkeys s = None \<or> g_subkeys s = Some k" "log_room (committed s)" "crypto_ok E" "hex_ok E"
  shows "same_keys E k s s'"
proof -
  have txn: "\<not> in_txn s" by (rule blockedD [OF blocked_operations(2) assms(1)])
  note t = committed_closed [OF txn]
  have "secrets_wf (secrets (tables s))" using assms(2) t by (simp add: keys_ok_def)
  from rollback_stores [OF assms(1,5,6) this] obtain st p ex where "stores E k st p ex ''ROLLBACK'' s s'" using assms(3) by auto
  from stores_keys_ok [OF this] assms(2,4,5) t same_keysI [OF _ _ _ _ stateless_operations(2) assms(1)]
  show ?thesis by simp
qed

lemma delete_same_keys:
  assumes "vault_delete E name s = (Inr (), s')" "keys_ok E k (committed s)"
    and "g_subkeys s = None \<or> g_subkeys s = Some k" "log_room (committed s)" "crypto_ok E"
  shows "same_keys E k s s'"
proof -
  have txn: "\<not> in_txn s" by (rule blockedD [OF blocked_operations(3) assms(1)])
  note t = committed_closed [OF txn]
  have "g_subkeys s = Some k"
    using assms(1,3) by (auto simp: vault_delete_def andthen_eq_Inr require_unlocked_Inr)
  from delete_keys_ok [OF assms(1) _ this] assms(2,4,5) t same_keysI [OF _ _ _ _ stateless_operations(4) assms(1)]
  show ?thesis by simp
qed

text \<open>Reading and issuing tokens log outside a transaction of their own.\<close>

lemma read_same_keys:
  assumes "vault_read_secret E k name ver cap True s = (Inr p, s')" "keys_ok E k (committed s)" "log_room (committed s)"
    and "crypto_ok E"
  shows "same_keys E k s s'"
proof (cases "in_txn s")
  case True
  have "preserves (txn_inv d) (vault_read_secret E k name ver cap True)" for d
    unfolding vault_read_secret_def when_ok_True
    by (intro preserves_andthen txn_log_success reads_vault_data [THEN txn_reads] txn_leaf)
  from preservesD [OF this _ assms(1)] True have "committed s' = committed s" by blast
  then show ?thesis
    using assms(2) stateless_state(1) [OF stateless_read_secret(1) assms(1)] by (simp add: same_keys_def)
next
  case False
  note c = committed_closed [OF False]
  have wf: "secrets_wf (secrets (tables s))" using assms(2) c by (simp add: keys_ok_def)
  obtain st v s1 where "view s1 = view s" "vault_log_success E k ''READ'' st v s1 = (Inr (), s')"
    by (rule read_secret_Inr [OF assms(1) wf]) blast
  then have "\<not> in_txn s'" using log_success_saved False by (auto simp: in_txn_def view_def)
  then show ?thesis
    using read_keys_ok [OF assms(1) _ _ assms(4)] assms(2,3) c False same_keysI [OF _ _ _ _ stateless_read_secret(1) assms(1)]
    by simp
qed

lemma issue_same_keys:
  assumes "vault_issue_token E J sub sc ttl cap s = (Inr token, s')" "keys_ok E k (committed s)" "log_room (committed s)"
    and "g_subkeys s = None \<or> g_subkeys s = Some k" "crypto_ok E" "nul_free sub"
  shows "same_keys E k s s'"
proof -
  obtain s1 where s1: "view s1 = view s" "vault_log_success E k ''TOKEN_ISSUE'' sub 0 s1 = (Inr (), s')"
    using issue_token_Inr [OF assms(1)] assms(4) by auto
  have ses: "session_of s' = session_of s" by (rule stateless_state(1) [OF stateless_operations(6) assms(1)])
  show ?thesis
  proof (cases "in_txn s")
    case True
    then show ?thesis using logged_committed [OF s1] assms(2) ses by (simp add: same_keys_def)
  next
    case False
    then have c: "committed s' = tables s'" "committed s = tables s" using logged_committed [OF s1] by simp_all
    have t1: "tables s1 = (tables s)\<lparr>secrets := secrets (tables s)\<rparr>" using viewD(1) [OF s1(1)] by simp
    have ok: "secrets_wf (secrets (tables s))" "\<forall>r \<in> set (secrets (tables s)). row_plain E (kek_enc k) r \<noteq> None"
      using assms(2) c by (auto simp: keys_ok_def)
    have int: "0 \<le> INT_MAX" by (simp add: INT_MAX_def)
    note logged_keys_ok [OF s1(2) t1 assms(2,3) [unfolded c] assms(6) int assms(5) ok]
    then show ?thesis using ses c opens_meta [of "tables s'" "tables s"] by (simp add: same_keys_def)
  qed
qed

lemma revoke_same_keys:
  assumes "vault_revoke_tokens E s = (Inr (), s')" "keys_ok E k (committed s)" "log_room (committed s)"
    and "g_subkeys s = None \<or> g_subkeys s = Some k" "crypto_ok E"
  shows "same_keys E k s s'"
proof -
  obtain now s1 s2 where r: "\<not> in_txn s" "\<not> in_txn s'"
    "tables s1 = (tables s)\<lparr>metadata := (metadata (tables s))(VAULT_METADATA_TOKEN_NOT_BEFORE \<mapsto> utils_write_u64_le (of_int now))\<rparr>"
    "vault_log_success E k ''TOKEN_REVOKE'' ''tokens'' 0 s1 = (Inr (), s2)" "tables s' = tables s2"
    using revoke_tokens_Inr [OF assms(1)] assms(4) by auto
  note c = committed_closed [OF r(1)] committed_closed [OF r(2)]
  have ok: "keys_ok E k (tables s1)" "log_room (tables s1)"
    using assms(2,3) c r(3) by (simp_all add: keys_ok_def log_room_def audit_wf_def audit_rows_def)
  have t1: "tables s1 = (tables s1)\<lparr>secrets := secrets (tables s1)\<rparr>" by simp
  have rows: "secrets_wf (secrets (tables s1))" "\<forall>r \<in> set (secrets (tables s1)). row_plain E (kek_enc k) r \<noteq> None"
    using ok(1) by (auto simp: keys_ok_def)
  have tgt: "nul_free ''tokens''" "0 \<le> INT_MAX" by (simp_all add: nul_free_def INT_MAX_def)
  note logged = logged_keys_ok [OF r(4) t1 ok tgt assms(5) rows]
  have "opens E pw k' (tables s2) = opens E pw k' (tables s)" for pw k'
    by (rule opens_cong) (use logged(3) r(3) in \<open>auto simp: credential_keys VAULT_METADATA_TOKEN_NOT_BEFORE_def\<close>)
  then show ?thesis
    using logged(1) r(5) c stateless_state(1) [OF stateless_operations(5) assms(1)] by (simp add: same_keys_def)
qed

lemma void_Inr: "void m s = (Inr (), s') \<longleftrightarrow> (\<exists>x. m s = (Inr x, s'))"
  by (auto simp: void_def andthen_eq_Inr)

lemma get_Inr:
  "vault_get E name cap s = (Inr p, s') \<Longrightarrow> \<exists>k. g_subkeys s = Some k \<and> vault_read_secret E k name None cap True s = (Inr p, s')"
  "vault_get_version E name v cap s = (Inr p, s') \<Longrightarrow>
    \<exists>k. g_subkeys s = Some k \<and> vault_read_secret E k name (Some v) cap True s = (Inr p, s')"
  by (auto simp: vault_get_def vault_get_version_def andthen_eq_Inr require_unlocked_Inr)

lemma run_op_same_keys:
  assumes "run_op E J op s = (Inr (), s')" "\<And>pw. op \<noteq> Op_rotate_kek pw" "keys_ok E k (committed s)"
    and "g_subkeys s = None \<or> g_subkeys s = Some k" "log_room (committed s)" "op_ok op" "crypto_ok E" "hex_ok E"
  shows "same_keys E k s s'"
  using assms
  by (cases op)
     (auto simp: void_Inr op_ok_def
       dest!: get_Inr
       intro: put_same_keys rollback_same_keys delete_same_keys read_same_keys issue_same_keys revoke_same_keys
         same_keys_read [OF reads_operations(1)] same_keys_read [OF reads_operations(2)]
         same_keys_read [OF reads_operations(3)] same_keys_read [OF reads_operations(4)]
         same_keys_read [OF reads_operations(5)] same_keys_read [OF reads_operations(6)]
         same_keys_read [OF reads_operations(8)] same_keys_read [OF reads_operations(10)])

lemma run_op_inv:
  assumes run: "run_op E J op s = (r, s')" and inv: "vault_inv E s" "log_room (committed s)" "op_ok op"
    and env: "crypto_ok E" "hex_ok E"
  shows "vault_inv E s'"
proof (cases r)
  case (Inl e)
  then have "committed s' = committed s" "session_of s' = session_of s"
    using run run_op_atomic run_op_keeps_session unfolding atomic_def keeps_session_def by blast+
  then show ?thesis using inv(1) by (simp add: vault_inv_def session_of_def)
next
  case (Inr u)
  obtain pw k where k: "opens E pw k (committed s)" "keys_ok E k (committed s)" "g_subkeys s = None \<or> g_subkeys s = Some k"
    using inv(1) unfolding vault_inv_def by blast
  show ?thesis
  proof (cases "\<exists>new. op = Op_rotate_kek new")
    case True
    then obtain new where new: "vault_rotate_kek E new s = (Inr (), s')" using run Inr by auto
    note t = committed_closed [OF blockedD [OF blocked_operations(4) new]]
    have g: "g_subkeys s = Some k"
      using new k(3) by (auto simp: vault_rotate_kek_def andthen_eq_Inr require_unlocked_Inr)
    from rotate_kek_Inr [OF new _ g _ env(1) opens_meta_length [OF k(1)]] k(2) inv(2) t
    show ?thesis by (auto simp: vault_inv_def committed_closed)
  next
    case False
    then have "same_keys E k s s'" using run_op_same_keys run Inr k inv env by auto
    then show ?thesis using k by (auto simp: vault_inv_def same_keys_def session_of_def)
  qed
qed

end
