(* ===== verification/Fuin_Vault_Runs.thy ===== *)
theory Fuin_Vault_Runs
  imports Fuin_Vault_Inv
begin

text \<open>
  Unlocking, and runs of a vault from its creation on: operations, unlocking, rotation of
  expired secrets, closing and crashes in any order and with any failures. The invariant of
  \<open>Fuin_Vault_Inv\<close> holds in every state such a run reaches.
\<close>

section \<open>Unlocking\<close>

text \<open>Different master keys have different verifiers: SHA-256 on 32 bytes, taken as free of collisions.\<close>

definition verifier_binds :: "env \<Rightarrow> bool" where
  "verifier_binds E \<longleftrightarrow> (\<forall>a b. length a = 32 \<longrightarrow> length b = 32 \<longrightarrow> sha256 E a = sha256 E b \<longrightarrow> a = b)"

lemma get_metadata_Inr:
  "vault_get_metadata_blob E key n s = (Inr v, s') \<longleftrightarrow> g_db s \<and> sql_ok E (tick s) \<and> s' = next_tick s \<and>
    v = metadata (tables s) key \<and> (\<forall>b. v = Some b \<longrightarrow> length b \<le> n)"
  by (auto simp: vault_get_metadata_blob_def andthen_eq_Inr select_eq_Inr split: option.splits if_splits)

lemma load_auth_Inr:
  assumes "vault_load_auth_metadata E s = (Inr a, s')"
  shows "tables s' = tables s \<and> a = (case metadata (tables s) VAULT_METADATA_SALT of None \<Rightarrow> None
    | Some salt \<Rightarrow> map_option (\<lambda>v. (salt, v)) (metadata (tables s) VAULT_METADATA_VERIFIER))"
  using assms
  by (auto simp: vault_load_auth_metadata_def andthen_eq_Inr get_metadata_Inr split: option.splits if_splits)

lemma load_meta_key_Inr:
  assumes "vault_load_meta_key E k0 s = (Inr k, s')"
  shows "\<exists>n w. metadata (tables s) VAULT_METADATA_META_KEY_NONCE = Some n \<and>
    metadata (tables s) VAULT_METADATA_META_KEY_WRAPPED = Some w \<and>
    aead_decrypt E XCHACHA20_POLY1305 (kek_enc k0) n (str_bytes VAULT_META_KEY_WRAP_AAD) w = Some (kek_meta k) \<and>
    k = k0\<lparr>kek_meta := kek_meta k\<rparr>"
  using assms
  by (auto simp: vault_load_meta_key_def andthen_eq_Inr get_metadata_Inr split: option.splits if_splits)

lemma store_auth_Inr:
  assumes "vault_store_auth_metadata E salt ver k s = (Inr (), s')" "random_ok E"
  shows "\<not> in_txn s \<and> \<not> in_txn s' \<and> (\<exists>n w. length n = 24 \<and> length w = 48 \<and>
      w = aead_encrypt E XCHACHA20_POLY1305 (kek_enc k) n (str_bytes VAULT_META_KEY_WRAP_AAD) (kek_meta k) \<and>
      tables s' = (tables s)\<lparr>metadata := (metadata (tables s))(VAULT_METADATA_SALT \<mapsto> salt, VAULT_METADATA_VERIFIER \<mapsto> ver,
        VAULT_METADATA_META_KEY_NONCE \<mapsto> n, VAULT_METADATA_META_KEY_WRAPPED \<mapsto> w)\<rparr>)"
proof -
  let ?body = "andthen (vault_put_metadata_blob E VAULT_METADATA_SALT salt) (\<lambda>_.
        andthen (vault_put_metadata_blob E VAULT_METADATA_VERIFIER ver) (\<lambda>_.
        vault_put_wrapped_meta_key E (kek_meta k) (kek_enc k)))"
  obtain s1 t where b: "storage_begin_transaction E s = (Inr (), s1)" "?body s1 = (Inr (), t)"
      "tables s' = tables t" "\<not> in_txn s'"
    using sq.block_done [OF assms(1) [unfolded vault_store_auth_metadata_def commit_or_rollback_finish]] by auto
  obtain s2 s3 where p: "vault_put_metadata_blob E VAULT_METADATA_SALT salt s1 = (Inr (), s2)"
      "vault_put_metadata_blob E VAULT_METADATA_VERIFIER ver s2 = (Inr (), s3)"
      "vault_put_wrapped_meta_key E (kek_meta k) (kek_enc k) s3 = (Inr (), t)"
    using b(2) by (auto simp: andthen_eq_Inr)
  have s1: "\<not> in_txn s" "tables s1 = tables s" using block_begin [OF b(1)] by auto
  show ?thesis
    using put_wrapped_Inr [OF p(3) assms(2)] put_metadata_Inr [OF p(1)] put_metadata_Inr [OF p(2)] s1 b(3,4) by auto
qed

text \<open>Key lengths, as libsodium documents them.\<close>

definition kdf_ok :: "env \<Rightarrow> bool" where
  "kdf_ok E \<longleftrightarrow> (\<forall>pw salt mk. pwhash E pw salt = Some mk \<longrightarrow> length mk = 32) \<and>
     (\<forall>i ctx mk k. kdf_derive_from_key E i ctx mk = Some k \<longrightarrow> length k = 32)"

lemma master_key_length: "kdf_ok E \<Longrightarrow> fst (kdf_derive_master_key E pw salt) = Inr mk \<Longrightarrow> length mk = 32"
  by (auto simp: kdf_ok_def kdf_derive_master_key_def and_then_eq_Inr split: option.splits)

lemma subkeys_length: "kdf_ok E \<Longrightarrow> fst (kdf_derive_subkeys E mk) = Inr k \<Longrightarrow> length (kek_meta k) = 32"
  by (auto simp: kdf_ok_def kdf_derive_subkeys_def kdf_derive_subkey_def and_then_eq_Inr split: option.splits)

text \<open>A successful unlocking of a vault that has credentials yields its keys and changes nothing.\<close>

lemma unlock_body_existing:
  assumes run: "vault_unlock_body E pw' b s = (Inr k', s')" and opens: "opens E pw k (tables s)"
    and env: "verifier_binds E" "kdf_ok E"
  shows "k' = k \<and> view s' = view s"
proof -
  obtain salt mk k0 n w where o: "metadata (tables s) VAULT_METADATA_SALT = Some salt"
    "fst (kdf_derive_master_key E pw salt) = Inr mk" "metadata (tables s) VAULT_METADATA_VERIFIER = Some (sha256 E mk)"
    "fst (kdf_derive_subkeys E mk) = Inr k0" "metadata (tables s) VAULT_METADATA_META_KEY_NONCE = Some n"
    "metadata (tables s) VAULT_METADATA_META_KEY_WRAPPED = Some w"
    "aead_decrypt E XCHACHA20_POLY1305 (kek_enc k0) n (str_bytes VAULT_META_KEY_WRAP_AAD) w = Some (kek_meta k)"
    "k = k0\<lparr>kek_meta := kek_meta k\<rparr>"
    using opens unfolding opens_def by blast
  obtain a s1 where a: "vault_load_auth_metadata E s = (Inr a, s1)"
    using run by (auto simp: vault_unlock_body_def andthen_eq_Inr)
  have v1: "view s1 = view s" by (rule view_steps, rule a)
  have "a = Some (salt, sha256 E mk)" using load_auth_Inr [OF a] o(1,3) by simp
  then obtain mk' k1 where m: "fst (kdf_derive_master_key E pw' salt) = Inr mk'" "sha256 E mk' = sha256 E mk"
      "fst (kdf_derive_subkeys E mk') = Inr k1" "vault_load_meta_key E k1 s1 = (Inr k', s')"
    using run a by (auto simp: vault_unlock_body_def andthen_eq_Inr Let_def split: if_splits)
  have "mk' = mk"
    using m(1,2) o(2) env master_key_length unfolding verifier_binds_def by blast
  then have "k1 = k0" using m(3) o(4) by simp
  then have "kek_meta k' = kek_meta k" "k' = k0\<lparr>kek_meta := kek_meta k'\<rparr>"
    using load_meta_key_Inr [OF m(4)] o(5-7) viewD(1) [OF v1] by auto
  then have "k' = k" using o(8) by simp
  moreover have "view s' = view s1" by (rule view_steps, rule m(4))
  ultimately show ?thesis using v1 by simp
qed

text \<open>The first unlocking of a vault without credentials creates them.\<close>

lemma unlock_body_fresh:
  assumes run: "vault_unlock_body E pw b s = (Inr k, s')" "pw \<noteq> []"
    and fresh: "metadata (tables s) VAULT_METADATA_SALT = None" and env: "crypto_ok E" "kdf_ok E"
  shows "b \<and> \<not> in_txn s \<and> \<not> in_txn s' \<and> opens E pw k (tables s') \<and>
    (\<exists>salt ver n w. tables s' = (tables s)\<lparr>metadata := (metadata (tables s))(VAULT_METADATA_SALT \<mapsto> salt,
      VAULT_METADATA_VERIFIER \<mapsto> ver, VAULT_METADATA_META_KEY_NONCE \<mapsto> n, VAULT_METADATA_META_KEY_WRAPPED \<mapsto> w)\<rparr>)"
proof -
  obtain a s1 where a: "vault_load_auth_metadata E s = (Inr a, s1)"
    using run by (auto simp: vault_unlock_body_def andthen_eq_Inr)
  have v1: "view s1 = view s" by (rule view_steps, rule a)
  have "a = None" using load_auth_Inr [OF a] fresh by simp
  then obtain salt s2 mk where m: "b" "kdf_generate_salt E s1 = (Inr salt, s2)"
      "fst (kdf_derive_master_key E pw salt) = Inr mk" "fst (kdf_derive_subkeys E mk) = Inr k"
      "vault_store_auth_metadata E salt (sha256 E mk) k s2 = (Inr (), s')"
    using run a by (auto simp: vault_unlock_body_def andthen_eq_Inr Let_def split: if_splits)
  have v2: "view s2 = view s1" by (rule view_steps, rule m(2))
  have ok: "random_ok E" "aead_ok E" using env by (simp_all add: crypto_ok_def)
  have salt: "length salt = KDF_SALT_BYTES"
    using m(2) ok(1) by (auto simp: kdf_generate_salt_def andthen_eq_Inr random_ok_def)
  from store_auth_Inr [OF m(5) ok(1)] obtain n w where w: "\<not> in_txn s2" "\<not> in_txn s'" "length n = 24" "length w = 48"
      "w = aead_encrypt E XCHACHA20_POLY1305 (kek_enc k) n (str_bytes VAULT_META_KEY_WRAP_AAD) (kek_meta k)"
      "tables s' = (tables s2)\<lparr>metadata := (metadata (tables s2))(VAULT_METADATA_SALT \<mapsto> salt,
        VAULT_METADATA_VERIFIER \<mapsto> sha256 E mk, VAULT_METADATA_META_KEY_NONCE \<mapsto> n, VAULT_METADATA_META_KEY_WRAPPED \<mapsto> w)\<rparr>"
    by blast
  have "opens E pw (k\<lparr>kek_meta := kek_meta k\<rparr>) (tables s')"
    by (rule opens_new [OF m(3,4) assms(2) salt w(3,4) ok(2) subkeys_length [OF env(2) m(4)] w(5)])
       (simp_all add: w(6) credential_keys)
  then show ?thesis using m(1) w(1,2,6) v1 v2 viewD [of s2 s] by auto
qed

text \<open>A failing one may add a row to \<open>auth_failures\<close> and nothing else.\<close>

definition quiet :: "db \<Rightarrow> db \<Rightarrow> bool" where
  "quiet d d' \<longleftrightarrow> secrets d' = secrets d \<and> audit_log d' = audit_log d \<and> metadata d' = metadata d"

definition harmless :: "(vault, 'x) comp \<Rightarrow> bool" where
  "harmless m \<longleftrightarrow> (\<forall>s e s'. m s = (Inl e, s') \<longrightarrow> quiet (committed s) (committed s'))"

lemma harmlessD: "harmless m \<Longrightarrow> m s = (Inl e, s') \<Longrightarrow> quiet (committed s) (committed s')"
  by (auto simp: harmless_def)

lemma harmless_atomic: "atomic m \<Longrightarrow> harmless m"
  unfolding harmless_def atomic_def quiet_def by metis

lemma harmless_andthen:
  assumes "reads m" "\<And>x. harmless (f x)"
  shows "harmless (andthen m f)"
  unfolding harmless_def
proof (intro allI impI)
  fix s e s' assume run: "andthen m f s = (Inl e, s')"
  obtain q s1 where q: "m s = (q, s1)" by fastforce
  have c: "committed s1 = committed s" using reads_state [OF assms(1) q] by simp
  have "quiet (committed s1) (committed s')"
  proof (cases q)
    case (Inl e')
    then show ?thesis using run q by (simp add: andthen_def quiet_def)
  next
    case (Inr x)
    then have "f x s1 = (Inl e, s')" using run q by (simp add: andthen_def)
    then show ?thesis using assms(2) by (auto simp: harmless_def)
  qed
  then show "quiet (committed s) (committed s')" using c by simp
qed

lemma harmless_log_failure: "harmless (andthen (vault_log_auth_failure_untrusted E) (\<lambda>_. raise e))"
proof -
  have wr: "harmless (andthen (sql_write E (\<lambda>d. Some (d\<lparr>auth_failures := f d\<rparr>))) (\<lambda>_. raise e))" for f
    by (auto simp: harmless_def andthen_def sql_write_def quiet_def committed_def split: option.splits if_splits prod.splits sum.splits)
  show ?thesis
    unfolding vault_log_auth_failure_untrusted_def andthen_assoc
    by (intro harmless_andthen wr read_rules)
qed

lemma atomic_store_auth: "atomic (vault_store_auth_metadata E salt ver k)"
  unfolding vault_store_auth_metadata_def by (intro atomic_block preserves_andthen txn_metadata)

lemma harmless_unlock_body: "harmless (vault_unlock_body E pw b)"
proof -
  have s: "harmless (andthen (vault_store_auth_metadata E salt ver k) (\<lambda>_. ret k))" for salt ver k
    by (intro harmless_atomic atomic_then_total atomic_store_auth) simp
  have r: "harmless (vault_load_meta_key E k)" for k
    by (intro harmless_atomic atomic_reads read_rules)
  show ?thesis
    unfolding vault_unlock_body_def Let_def
    by (auto intro!: harmless_andthen harmless_log_failure s r read_rules split: option.split prod.split)
qed

lemma committed_session [simp]:
  "committed (g_subkeys_update f s) = committed s" "committed (g_unlocked_update g s) = committed s"
  "in_txn (g_subkeys_update f s) = in_txn s" "in_txn (g_unlocked_update g s) = in_txn s"
  by (simp_all add: committed_def in_txn_def split: option.split)

lemma unlock_cases:
  assumes "vault_unlock_internal E pw b s = (r, s')"
  obtains (early) e where "r = Inl e" "s' = s"
  | (failed) e where "r = Inl e" "g_subkeys s' = None" "\<not> g_unlocked s'" "quiet (committed s) (committed s')"
  | (unlocked) k s0 s1 where "r = Inr ()" "pw \<noteq> []" "committed s0 = committed s" "tables s0 = tables s" "in_txn s0 = in_txn s"
      "vault_unlock_body E pw b s0 = (Inr k, s1)" "s' = s1\<lparr>g_subkeys := Some k, g_unlocked := True\<rparr>"
proof -
  let ?s0 = "s\<lparr>g_subkeys := None, g_unlocked := False\<rparr>"
  have c: "committed ?s0 = committed s" "tables ?s0 = tables s" "in_txn ?s0 = in_txn s"
    by simp_all
  show ?thesis
  proof (cases "pw \<noteq> [] \<and> g_db s")
    case False
    then have "s' = s \<and> (\<exists>e. r = Inl e)"
      using assms(1) by (auto simp: vault_unlock_internal_def andthen_def guard_def require_db_def split: if_splits)
    then show ?thesis using early by blast
  next
    case True
    obtain q s1 where q: "vault_unlock_body E pw b ?s0 = (q, s1)" by fastforce
    have run: "(r, s') = (case q of Inr k \<Rightarrow> (Inr (), s1\<lparr>g_subkeys := Some k, g_unlocked := True\<rparr>)
        | Inl e \<Rightarrow> (Inl e, s1\<lparr>g_subkeys := None, g_unlocked := False\<rparr>))"
      using assms(1) True q
      by (auto simp: vault_unlock_internal_def andthen_def guard_def require_db_def vault_lock_state_def finally_do_def
          split: sum.splits)
    show ?thesis
    proof (cases q)
      case (Inl e)
      then have "quiet (committed s) (committed s1)" using harmlessD [OF harmless_unlock_body] q c(1) by metis
      then show ?thesis using failed run Inl by simp
    next
      case (Inr k)
      then show ?thesis using unlocked [of ?s0 k s1] run True c q by simp
    qed
  qed
qed

section \<open>Runs of a vault\<close>

text \<open>
  A created vault has empty tables. A crash, or the end of the process, loses the open
  transaction and the keys; the vault is then opened again.
\<close>

definition fresh_tables :: "db \<Rightarrow> bool" where
  "fresh_tables d \<longleftrightarrow> secrets d = [] \<and> audit_log d = [] \<and> metadata d VAULT_METADATA_SALT = None"

definition reopened :: "vault \<Rightarrow> vault" where
  "reopened s = s\<lparr>g_db := True, tables := committed s, saved := None, g_subkeys := None, g_unlocked := False\<rparr>"

inductive vault_step :: "env \<Rightarrow> json_lib \<Rightarrow> vault \<Rightarrow> vault \<Rightarrow> bool" for E J where
  step_op: "run_op E J op s = (r, s') \<Longrightarrow> op_ok op \<Longrightarrow> log_room (committed s) \<Longrightarrow> vault_step E J s s'"
| step_unlock: "vault_unlock E pw s = (r, s') \<Longrightarrow> \<not> in_txn s \<Longrightarrow> vault_step E J s s'"
| step_unlock_existing: "vault_unlock_existing E pw s = (r, s') \<Longrightarrow> \<not> in_txn s \<Longrightarrow> vault_step E J s s'"
| step_rotate: "g_subkeys s = Some k \<Longrightarrow> nul_free name \<Longrightarrow> vault_rotate_expired_secret E k name s = (r, s') \<Longrightarrow>
    log_room (committed s) \<Longrightarrow> vault_step E J s s'"
| step_close: "vault_close E s = (r, s') \<Longrightarrow> vault_step E J s s'"
| step_crash: "vault_step E J s (reopened s)"

inductive_cases vault_stepE: "vault_step E J s s'"

inductive vault_reachable :: "env \<Rightarrow> json_lib \<Rightarrow> vault \<Rightarrow> bool" for E J where
  created: "fresh_tables (tables s) \<Longrightarrow> saved s = None \<Longrightarrow> g_subkeys s = None \<Longrightarrow> vault_reachable E J s"
| step: "vault_reachable E J s \<Longrightarrow> vault_step E J s s' \<Longrightarrow> vault_reachable E J s'"

definition run_inv :: "env \<Rightarrow> vault \<Rightarrow> bool" where
  "run_inv E s \<longleftrightarrow> vault_inv E s \<or> (fresh_tables (committed s) \<and> g_subkeys s = None)"

lemma quiet_inv:
  assumes "run_inv E s" "quiet (committed s) (committed s')" "g_subkeys s' = None"
  shows "run_inv E s'"
proof -
  have "keys_ok E k (committed s') = keys_ok E k (committed s)" "opens E pw k (committed s') = opens E pw k (committed s)"
      "fresh_tables (committed s') = fresh_tables (committed s)" for k pw
    using assms(2) opens_meta [of "committed s'" "committed s"]
    by (simp_all add: quiet_def keys_ok_def audit_wf_def audit_rows_def fresh_tables_def)
  then show ?thesis using assms(1,3) by (auto simp: run_inv_def vault_inv_def)
qed

text \<open>While a transaction is left open, rotating a secret does nothing durable.\<close>

definition idle :: "(vault, 'x) comp \<Rightarrow> bool" where
  "idle m \<longleftrightarrow> (\<forall>s r s'. in_txn s \<longrightarrow> m s = (r, s') \<longrightarrow> committed s' = committed s)"

lemma idleD: "idle m \<Longrightarrow> in_txn s \<Longrightarrow> m s = (r, s') \<Longrightarrow> committed s' = committed s"
  by (auto simp: idle_def)

lemma idle_blocked: "blocked m \<Longrightarrow> atomic m \<Longrightarrow> idle m"
  unfolding idle_def atomic_def blocked_def by (metis sum.exhaust)

lemma idle_reads: "reads m \<Longrightarrow> idle m"
  using reads_state unfolding idle_def by blast

lemma idle_andthen:
  assumes "reads m" "\<And>x. idle (f x)"
  shows "idle (andthen m f)"
  unfolding idle_def
proof (intro allI impI)
  fix s r s' assume txn: "in_txn s" and run: "andthen m f s = (r, s')"
  obtain q s1 where q: "m s = (q, s1)" by fastforce
  have c: "committed s1 = committed s" "in_txn s1" using reads_state [OF assms(1) q] txn by simp_all
  show "committed s' = committed s"
  proof (cases q)
    case (Inl e')
    then show ?thesis using run q c(1) by (simp add: andthen_def)
  next
    case (Inr x)
    then have "f x s1 = (r, s')" using run q by (simp add: andthen_def)
    then show ?thesis using idleD [OF assms(2) c(2)] c(1) by simp
  qed
qed

lemma idle_replace_active: "idle (vault_replace_active E k arch act rid name nn en v c now ex i es)"
  by (intro idle_blocked atomic_replace_active) (simp add: vault_replace_active_def blocked_late)

lemma idle_rotate: "idle (vault_rotate_expired_secret E k name)"
  unfolding vault_rotate_expired_secret_def
  by (auto intro!: idle_andthen idle_replace_active read_rules reads_basic [THEN idle_reads] split: prod.split option.split)

lemma unlock_inv:
  assumes "vault_unlock_internal E pw b s = (r, s')" "\<not> in_txn s" "run_inv E s"
    and env: "crypto_ok E" "kdf_ok E" "verifier_binds E"
  shows "run_inv E s'"
  using assms(1)
proof (cases rule: unlock_cases)
  case (early e)
  then show ?thesis using assms(3) by simp
next
  case (failed e)
  then show ?thesis using quiet_inv [OF assms(3)] by simp
next
  case (unlocked k s0 s1)
  have t: "committed s = tables s" using assms(2) by (rule committed_closed)
  show ?thesis
  proof (cases "vault_inv E s")
    case True
    then obtain pw' k' where k': "opens E pw' k' (tables s)" "keys_ok E k' (tables s)" unfolding vault_inv_def t by blast
    have b: "k = k'" "view s1 = view s0"
      using unlock_body_existing [OF unlocked(6)] unlocked(4) k'(1) env(2,3) by auto
    then have "committed s' = tables s" using viewD(4) [OF b(2)] unlocked(3,7) t by simp
    then show ?thesis using k' b(1) unlocked(7) by (auto simp: run_inv_def vault_inv_def)
  next
    case False
    then have fresh: "fresh_tables (tables s)" using assms(3) t by (simp add: run_inv_def)
    then have "metadata (tables s0) VAULT_METADATA_SALT = None" using unlocked(4) by (simp add: fresh_tables_def)
    from unlock_body_fresh [OF unlocked(6,2) this env(1,2)] obtain m where
        m: "\<not> in_txn s1" "opens E pw k (tables s1)" "tables s1 = (tables s)\<lparr>metadata := m\<rparr>"
      using unlocked(4) by auto
    then have "keys_ok E k (tables s1)"
      using fresh by (simp add: keys_ok_def fresh_tables_def audit_wf_def audit_rows_def chain_ok_def)
    then show ?thesis using m unlocked(7) committed_closed [OF m(1)] by (auto simp: run_inv_def vault_inv_def)
  qed
qed

lemma rotate_inv:
  assumes run: "vault_rotate_expired_secret E k name s = (r, s')" "g_subkeys s = Some k" "nul_free name"
    and inv: "vault_inv E s" "log_room (committed s)" and env: "crypto_ok E"
  shows "vault_inv E s'"
proof -
  have ses: "session_of s' = session_of s" by (rule stateless_state(1) [OF stateless_operations(3) run(1)])
  then have sub: "g_subkeys s' = Some k" using run(2) by (simp add: session_of_def)
  obtain pw where k: "opens E pw k (committed s)" "keys_ok E k (committed s)"
    using inv(1) run(2) unfolding vault_inv_def by auto
  have same: "vault_inv E s'" if "committed s' = committed s" using that k sub by (auto simp: vault_inv_def)
  show ?thesis
  proof (cases "in_txn s \<or> r \<noteq> Inr ()")
    case True
    then have "committed s' = committed s"
    proof
      assume "r \<noteq> Inr ()"
      then obtain e where "r = Inl e" by (cases r) auto
      then show ?thesis using run(1) atomic_operations(5) unfolding atomic_def by blast
    qed (use idleD [OF idle_rotate _ run(1)] in simp)
    then show ?thesis by (rule same)
  next
    case False
    then have t: "committed s = tables s" and run': "vault_rotate_expired_secret E k name s = (Inr (), s')"
      using run(1) by (auto simp: committed_closed)
    have wf: "secrets_wf (secrets (tables s))" using k(2) t by (simp add: keys_ok_def)
    from rotate_expired_stores [OF run' run(3) env wf] consider "view s' = view s"
      | p ex where "stores E k name p ex ''ROTATE_DEK'' s s'" by (auto split: if_splits)
    then show ?thesis
    proof cases
      case 1
      then show ?thesis using same viewD(4) by blast
    next
      case (2 p ex)
      from stores_keys_ok [OF this] k(2) inv(2) env t have
        "keys_ok E k (committed s')" "metadata (committed s') = metadata (committed s)" by (auto simp: committed_closed)
      then show ?thesis using k(1) sub opens_meta [of "committed s'" "committed s"] by (auto simp: vault_inv_def)
    qed
  qed
qed

lemma close_inv:
  assumes "vault_close E s = (r, s')" "run_inv E s"
  shows "run_inv E s'"
proof (rule quiet_inv [OF assms(2)])
  show "g_subkeys s' = None" "quiet (committed s) (committed s')"
    using assms(1)
    by (auto simp: vault_close_def vault_lock_state_def andthen_def storage_close_def next_tick_def quiet_def committed_def
        split: if_splits option.splits)
qed

lemma crash_inv: "run_inv E s \<Longrightarrow> run_inv E (reopened s)"
  by (rule quiet_inv) (simp_all add: reopened_def quiet_def committed_def)

lemma locked_op:
  assumes "g_subkeys s = None" "run_op E J op s = (r, s')"
  shows "s' = s"
  using locked_run_op [of s E J op] assms by simp

lemma step_inv:
  assumes "vault_step E J s s'" "run_inv E s" "crypto_ok E" "hex_ok E" "kdf_ok E" "verifier_binds E"
  shows "run_inv E s'"
  using assms(1)
proof (cases rule: vault_step.cases)
  case (step_op op r)
  show ?thesis
  proof (cases "vault_inv E s")
    case True
    then show ?thesis using run_op_inv [OF step_op(1) _ step_op(3,2) assms(3,4)] by (simp add: run_inv_def)
  next
    case False
    then have "g_subkeys s = None" using assms(2) by (simp add: run_inv_def)
    then show ?thesis using locked_op [OF _ step_op(1)] assms(2) by simp
  qed
next
  case (step_unlock pw r)
  then show ?thesis using unlock_inv assms by (auto simp: vault_unlock_def)
next
  case (step_unlock_existing pw r)
  then show ?thesis using unlock_inv assms by (auto simp: vault_unlock_existing_def)
next
  case (step_rotate k name r)
  then have "vault_inv E s" using assms(2) by (auto simp: run_inv_def)
  then show ?thesis using rotate_inv [OF step_rotate(3,1,2) _ step_rotate(4) assms(3)] by (simp add: run_inv_def)
next
  case (step_close r)
  then show ?thesis using close_inv assms(2) by blast
next
  case step_crash
  then show ?thesis using crash_inv assms(2) by simp
qed

end
