(* ===== verification/Fuin_Vault_Spec.thy ===== *)
theory Fuin_Vault_Spec
  imports Fuin_Vault_Runs
begin

text \<open>
  The contract of the vault as an abstract machine over histories of contents, and that the
  operations of \<open>src/src/vault.c\<close> implement it: the abstraction decrypts every row.
\<close>

section \<open>The abstract vault\<close>

text \<open>
  What a user of the vault sees: for every name the versions with their contents, and the
  version that is active, if the secret was not deleted.
\<close>

type_synonym secret_history = "(int \<rightharpoonup> bytes) \<times> int option"
type_synonym abstract_vault = "string \<Rightarrow> secret_history"

definition spec_store :: "bytes \<Rightarrow> secret_history \<Rightarrow> secret_history" where
  "spec_store p h = (let v = 1 + Max (insert 0 (dom (fst h))) in ((fst h)(v \<mapsto> p), Some v))"

definition spec_active :: "secret_history \<Rightarrow> bytes option" where
  "spec_active h = (case snd h of None \<Rightarrow> None | Some v \<Rightarrow> fst h v)"

text \<open>The effect of an operation; \<open>None\<close> when the specification does not allow it to succeed.\<close>

fun spec_op :: "(string \<Rightarrow> string) \<Rightarrow> vault_op \<Rightarrow> abstract_vault \<Rightarrow> abstract_vault option" where
  "spec_op l (Op_put name secret algorithm ttl) a = Some (a(l name := spec_store secret (a (l name))))"
| "spec_op l (Op_rollback name v) a =
     (case fst (a (l name)) v of None \<Rightarrow> None | Some p \<Rightarrow> Some (a(l name := spec_store p (a (l name)))))"
| "spec_op l (Op_delete name) a =
     (case snd (a (l name)) of None \<Rightarrow> None | Some v \<Rightarrow> Some (a(l name := (fst (a (l name)), None))))"
| "spec_op l (Op_get name cap) a = (case spec_active (a (l name)) of None \<Rightarrow> None | Some p \<Rightarrow> Some a)"
| "spec_op l (Op_get_version name v cap) a = (case fst (a (l name)) v of None \<Rightarrow> None | Some p \<Rightarrow> Some a)"
| "spec_op l (Op_get_active_version name) a = (case snd (a (l name)) of None \<Rightarrow> None | Some v \<Rightarrow> Some a)"
| "spec_op l op a = Some a"

text \<open>The abstraction of tables under the key-encryption key, and the stored form of a name.\<close>

definition abs_vault :: "env \<Rightarrow> bytes \<Rightarrow> secret_row list \<Rightarrow> abstract_vault" where
  "abs_vault E kek rows name =
     (\<lambda>v. case find (\<lambda>r. s_name r = name \<and> s_version r = v) rows of None \<Rightarrow> None | Some r \<Rightarrow> row_plain E kek r,
      map_option s_version (find (\<lambda>r. s_name r = name \<and> \<not> s_is_archived r) rows))"

definition lookup_name :: "env \<Rightarrow> kdf_subkeys \<Rightarrow> string \<Rightarrow> string" where
  "lookup_name E k name = (case vault_build_name_lookup E k name of Inr st \<Rightarrow> st | Inl e \<Rightarrow> [])"

section \<open>The tables as an abstract vault\<close>

lemma find_SomeD: "find P xs = Some x \<Longrightarrow> x \<in> set xs \<and> P x"
  by (auto simp: find_Some_iff)

lemma find_unique:
  assumes "x \<in> set xs" "P x" "\<And>y. y \<in> set xs \<Longrightarrow> P y \<Longrightarrow> y = x"
  shows "find P xs = Some x"
proof (cases "find P xs")
  case None
  then show ?thesis using assms(1,2) by (auto simp: find_None_iff)
next
  case (Some y)
  then show ?thesis using find_SomeD [OF Some] assms(3) by simp
qed

lemma abs_version:
  assumes "secrets_wf rows" "r \<in> set rows"
  shows "fst (abs_vault E kek rows (s_name r)) (s_version r) = row_plain E kek r"
  using find_unique [of r rows "\<lambda>x. s_name x = s_name r \<and> s_version x = s_version r"] assms wf_version_unique [OF assms(1)]
  by (auto simp: abs_vault_def)

lemma abs_no_version:
  "(\<And>r. r \<in> set rows \<Longrightarrow> s_name r = name \<Longrightarrow> s_version r \<noteq> v) \<Longrightarrow> fst (abs_vault E kek rows name) v = None"
  by (auto simp: abs_vault_def split: option.splits dest!: find_SomeD)

lemma abs_active:
  assumes "secrets_wf rows" "r \<in> set rows" "\<not> s_is_archived r"
  shows "snd (abs_vault E kek rows (s_name r)) = Some (s_version r)"
  using find_unique [of r rows "\<lambda>x. s_name x = s_name r \<and> \<not> s_is_archived x"] assms wf_unique_active [OF assms(1,2)]
  by (auto simp: abs_vault_def)

lemma abs_inactive:
  "(\<And>r. r \<in> set rows \<Longrightarrow> s_name r = name \<Longrightarrow> s_is_archived r) \<Longrightarrow> snd (abs_vault E kek rows name) = None"
  by (auto simp: abs_vault_def find_None_iff)

lemma abs_dom:
  assumes "secrets_wf rows" "\<forall>r \<in> set rows. row_plain E kek r \<noteq> None"
  shows "dom (fst (abs_vault E kek rows name)) = set (map s_version (filter (\<lambda>r. s_name r = name) rows))"
proof (intro set_eqI iffI)
  fix v assume "v \<in> dom (fst (abs_vault E kek rows name))"
  then show "v \<in> set (map s_version (filter (\<lambda>r. s_name r = name) rows))"
    using abs_no_version [of rows name v E kek] by fastforce
next
  fix v assume "v \<in> set (map s_version (filter (\<lambda>r. s_name r = name) rows))"
  then obtain r where "r \<in> set rows" "s_name r = name" "s_version r = v" by auto
  then show "v \<in> dom (fst (abs_vault E kek rows name))" using abs_version [OF assms(1)] assms(2) by auto
qed

text \<open>Two tables with corresponding rows are the same abstract vault.\<close>

lemma find_map_some:
  assumes "\<And>x. x \<in> set xs \<Longrightarrow> P (F x) = Q x"
  shows "find P (map F xs) = map_option F (find Q xs)"
  using assms by (induction xs) auto

lemma abs_map:
  assumes "\<And>r. r \<in> set rows \<Longrightarrow> s_name (F r) = s_name r \<and> s_version (F r) = s_version r \<and>
      row_plain E kek' (F r) = row_plain E kek r"
  shows "fst (abs_vault E kek' (map F rows) name) = fst (abs_vault E kek rows name)"
proof
  fix v
  have "find (\<lambda>r. s_name r = name \<and> s_version r = v) (map F rows) =
      map_option F (find (\<lambda>r. s_name r = name \<and> s_version r = v) rows)"
    by (rule find_map_some) (simp add: assms)
  then show "fst (abs_vault E kek' (map F rows) name) v = fst (abs_vault E kek rows name) v"
    using assms by (cases "find (\<lambda>r. s_name r = name \<and> s_version r = v) rows")
      (auto simp: abs_vault_def dest!: find_SomeD)
qed

lemma abs_snd_map:
  assumes "\<And>r. r \<in> set rows \<Longrightarrow> s_name (F r) = s_name r \<and> s_version (F r) = s_version r \<and> s_is_archived (F r) = s_is_archived r"
  shows "snd (abs_vault E kek' (map F rows) name) = snd (abs_vault E kek rows name)"
proof -
  have "find (\<lambda>r. s_name r = name \<and> \<not> s_is_archived r) (map F rows) =
      map_option F (find (\<lambda>r. s_name r = name \<and> \<not> s_is_archived r) rows)"
    by (rule find_map_some) (simp add: assms)
  then show ?thesis
    using assms by (cases "find (\<lambda>r. s_name r = name \<and> \<not> s_is_archived r) rows")
      (auto simp: abs_vault_def dest!: find_SomeD)
qed

lemma abs_archived_fst [simp]:
  "fst (abs_vault E kek (archived st t rows) name) = fst (abs_vault E kek rows name)"
  by (rule abs_map) simp

lemma abs_archived_snd:
  "snd (abs_vault E kek (archived st t rows) name) = (if name = st then None else snd (abs_vault E kek rows name))"
proof (cases "name = st")
  case True
  have "s_is_archived r" if r: "r \<in> set (archived st t rows)" "s_name r = st" for r
  proof -
    obtain x where "r = (if s_name x = st \<and> \<not> s_is_archived x then x\<lparr>s_is_archived := True, s_updated_at := t\<rparr> else x)"
      using r(1) by (auto simp only: set_map image_iff)
    then show ?thesis using r(2) by (cases "s_name x = st \<and> \<not> s_is_archived x") auto
  qed
  then have "snd (abs_vault E kek (archived st t rows) st) = None" by (rule abs_inactive)
  then show ?thesis using True by simp
next
  case False
  have "find (\<lambda>r. s_name r = name \<and> \<not> s_is_archived r) (archived st t rows) =
      map_option (\<lambda>r. if s_name r = st \<and> \<not> s_is_archived r then r\<lparr>s_is_archived := True, s_updated_at := t\<rparr> else r)
        (find (\<lambda>r. s_name r = name \<and> \<not> s_is_archived r) rows)"
    by (rule find_map_some) (use False in auto)
  then show ?thesis using False by (simp add: abs_vault_def option.map_comp comp_def if_distrib cong: if_cong)
qed

text \<open>Adding the next version.\<close>

lemma find_append: "find P (xs @ ys) = (case find P xs of None \<Rightarrow> find P ys | Some x \<Rightarrow> Some x)"
  by (induction xs) auto

lemma abs_snoc:
  assumes "secrets_wf (rows @ [row])" "\<not> s_is_archived row" "row_plain E kek row = Some p"
  shows "abs_vault E kek (rows @ [row]) =
    (abs_vault E kek rows)(s_name row := ((fst (abs_vault E kek rows (s_name row)))(s_version row \<mapsto> p), Some (s_version row)))"
proof
  fix name
  have rows: "s_version r \<noteq> s_version row" if "r \<in> set rows" "s_name r = s_name row" for r
    using wfD(3) [OF assms(1)] that by (auto simp: image_iff)
  show "abs_vault E kek (rows @ [row]) name =
    ((abs_vault E kek rows)(s_name row := ((fst (abs_vault E kek rows (s_name row)))(s_version row \<mapsto> p), Some (s_version row)))) name"
  proof (cases "name = s_name row")
    case True
    have "fst (abs_vault E kek (rows @ [row]) name) v = ((fst (abs_vault E kek rows name))(s_version row \<mapsto> p)) v" for v
    proof (cases "v = s_version row")
      case True
      then show ?thesis using abs_version [OF assms(1), of row E kek] assms(3) \<open>name = s_name row\<close> by simp
    next
      case False
      then show ?thesis by (auto simp: abs_vault_def find_append split: option.splits)
    qed
    moreover have "snd (abs_vault E kek (rows @ [row]) name) = Some (s_version row)"
      using abs_active [OF assms(1) _ assms(2)] True by simp
    ultimately show ?thesis using True by (auto simp: prod_eq_iff)
  next
    case False
    then show ?thesis by (auto simp: abs_vault_def find_append split: option.splits)
  qed
qed

lemma stores_abs:
  assumes "stores E k name p ex act s s'" "keys_ok E k (tables s)" "log_room (tables s)" "crypto_ok E"
  shows "abs_vault E (kek_enc k) (secrets (tables s')) = (abs_vault E (kek_enc k) (secrets (tables s)))
    (name := spec_store p (abs_vault E (kek_enc k) (secrets (tables s)) name))"
proof -
  let ?abs = "abs_vault E (kek_enc k)" and ?rows = "secrets (tables s)"
  obtain t row s1 s2 where st: "s_name row = name" "\<not> s_is_archived row" "s_version row = next_version name ?rows"
      "row_plain E (kek_enc k) row = Some p" "secrets_wf (archived name t ?rows @ [row])"
      "tables s1 = (tables s)\<lparr>secrets := archived name t ?rows @ [row]\<rparr>"
      "vault_log_success E k act name (s_version row) s1 = (Inr (), s2)" "tables s' = tables s2"
    using assms(1) unfolding stores_def by blast
  have ok: "secrets_wf ?rows" "\<forall>r \<in> set ?rows. row_plain E (kek_enc k) r \<noteq> None"
    using assms(2) by (auto simp: keys_ok_def)
  have row: "nul_free name" "s_version row \<le> INT_MAX"
    using wfD(1) [OF st(5), of row] st(1) by (auto simp: row_ok_def row_columns_ok_def)
  have "\<forall>r \<in> set (archived name t ?rows @ [row]). row_plain E (kek_enc k) r \<noteq> None" using ok(2) st(4) by auto
  from logged_keys_ok(2) [OF st(7,6) assms(2,3) row assms(4) st(5) this]
  have sec: "secrets (tables s') = archived name t ?rows @ [row]" using st(8) by simp
  have v: "1 + Max (insert 0 (dom (fst (?abs ?rows name)))) = s_version row"
    by (simp only: abs_dom [OF ok] st(3) next_version_def)
  have "?abs (secrets (tables s')) = (?abs (archived name t ?rows))
      (name := ((fst (?abs ?rows name))(s_version row \<mapsto> p), Some (s_version row)))"
    using abs_snoc [OF st(5,2,4)] sec st(1) by simp
  also have "\<dots> = (?abs ?rows)(name := spec_store p (?abs ?rows name))"
    by (rule ext) (simp add: spec_store_def v Let_def prod_eq_iff abs_archived_snd)
  finally show ?thesis .
qed

section \<open>Refinement\<close>

text \<open>The content of a row under any capacity of the output buffer.\<close>

lemma row_decrypt_cap:
  assumes "row_plain E kek r = Some p" "crypto_ok E"
  shows "row_decrypt E kek r cap = (if length p \<le> cap then Inr p else Inl SM_ERR_INVALID_ARGUMENT)"
proof -
  have pay: "crypto_engine_decrypt_payload E a c ad n k = Inr m \<longleftrightarrow> aead_decrypt E a k n ad c = Some m" for a c ad n k m
    by (simp add: crypto_engine_decrypt_payload_def split: option.splits)
  obtain identity alg aad dek where d:
      "crypto_engine_build_row_identity E (s_id r) (s_name r) CRYPTO_ENGINE_ROW_IDENTITY_HEX_LEN = Inr identity"
      "identity \<noteq> []" "sodium_init_ok E" "crypto_engine_algorithm_from_name E (s_algorithm r) = Inr alg"
      "crypto_engine_algorithm_is_available E alg = Inr ()"
      "crypto_engine_build_aad identity (of_int (s_version r)) CRYPTO_ENGINE_AAD_MAX = Inr aad"
      "tag_bytes alg \<le> length (s_ciphertext r)" "length (s_encrypted_dek r) = CRYPTO_ENGINE_DEK_BYTES + tag_bytes alg"
      "length (s_nonce r) = crypto_engine_nonce_bytes alg" "length (s_dek_nonce r) = length (s_nonce r)"
      "length (s_key_commitment r) = CRYPTO_ENGINE_COMMITMENT_BYTES"
      "crypto_engine_commitment E kek CRYPTO_ENGINE_COMMIT_DOMAIN_KEK (s_dek_nonce r) =
         take CRYPTO_ENGINE_COMMITMENT_HALF_BYTES (s_key_commitment r)"
      "aead_decrypt E alg kek (s_dek_nonce r) aad (s_encrypted_dek r) = Some dek" "length dek = CRYPTO_ENGINE_DEK_BYTES"
      "crypto_engine_commitment E dek CRYPTO_ENGINE_COMMIT_DOMAIN_DEK (s_nonce r) =
         drop CRYPTO_ENGINE_COMMITMENT_HALF_BYTES (s_key_commitment r)"
      "aead_decrypt E alg dek (s_nonce r) aad (s_ciphertext r) = Some p"
    using assms(1)
    by (auto simp: row_plain_Some row_decrypt_def crypto_engine_decrypt_def and_then_eq_Inr Let_def row_secret_def pay
        crypto_engine_tag_bytes_def)
  have "length (s_ciphertext r) - tag_bytes alg = length p"
    using assms(2) d(16) by (auto simp: crypto_ok_def aead_ok_def)
  then show ?thesis
    using d by (simp add: row_decrypt_def crypto_engine_decrypt_def Let_def row_secret_def crypto_engine_tag_bytes_def
        require_sodium_def crypto_engine_decrypt_payload_def)
qed

abbreviation vault_abs :: "env \<Rightarrow> kdf_subkeys \<Rightarrow> db \<Rightarrow> abstract_vault" where
  "vault_abs E k d \<equiv> abs_vault E (kek_enc k) (secrets d)"

lemma lookup_name_eq: "vault_build_name_lookup E k name = Inr st \<Longrightarrow> lookup_name E k name = st"
  by (simp add: lookup_name_def)

text \<open>An entry of the log leaves the secrets alone.\<close>

lemma logged_secrets:
  assumes "vault_log_success E k act tgt tv s1 = (Inr (), s2)" "keys_ok E k (tables s1)" "log_room (tables s1)"
    and "nul_free tgt" "tv \<le> INT_MAX" "crypto_ok E"
  shows "secrets (tables s2) = secrets (tables s1)"
proof -
  have "tables s1 = (tables s1)\<lparr>secrets := secrets (tables s1)\<rparr>" by simp
  from logged_keys_ok(2) [OF assms(1) this assms(2-6)] assms(2) show ?thesis by (simp add: keys_ok_def)
qed

lemma put_refines:
  assumes "vault_put_with_options E name sec alg ttl s = (Inr (), s')" "g_subkeys s = Some k"
    and "keys_ok E k (tables s)" "log_room (tables s)" "crypto_ok E" "hex_ok E"
  shows "spec_op (lookup_name E k) (Op_put name sec alg ttl) (vault_abs E k (tables s)) = Some (vault_abs E k (tables s'))"
proof -
  have "secrets_wf (secrets (tables s))" using assms(3) by (simp add: keys_ok_def)
  from put_stores [OF assms(1,5,6) this] assms(2) obtain st ex act where
    "vault_build_name_lookup E k name = Inr st" "stores E k st sec ex act s s'" by auto
  then show ?thesis using stores_abs [OF _ assms(3-5)] lookup_name_eq by simp
qed

lemma rollback_refines:
  assumes "vault_rollback E name v s = (Inr (), s')" "g_subkeys s = Some k"
    and "keys_ok E k (tables s)" "log_room (tables s)" "crypto_ok E" "hex_ok E"
  shows "spec_op (lookup_name E k) (Op_rollback name v) (vault_abs E k (tables s)) = Some (vault_abs E k (tables s'))"
proof -
  have wf: "secrets_wf (secrets (tables s))" using assms(3) by (simp add: keys_ok_def)
  from rollback_stores [OF assms(1,5,6) wf] assms(2) obtain st r p ex where r: "vault_build_name_lookup E k name = Inr st"
      "r \<in> set (secrets (tables s))" "s_name r = st" "s_version r = v" "row_plain E (kek_enc k) r = Some p"
      "stores E k st p ex ''ROLLBACK'' s s'" by auto
  have "fst (vault_abs E k (tables s) st) v = Some p" using abs_version [OF wf r(2)] r(3-5) by simp
  then show ?thesis using stores_abs [OF r(6) assms(3-5)] lookup_name_eq [OF r(1)] by simp
qed

lemma delete_refines:
  assumes "vault_delete E name s = (Inr (), s')" "g_subkeys s = Some k"
    and "keys_ok E k (tables s)" "log_room (tables s)" "crypto_ok E"
  shows "spec_op (lookup_name E k) (Op_delete name) (vault_abs E k (tables s)) = Some (vault_abs E k (tables s'))"
proof -
  have wf: "secrets_wf (secrets (tables s))" using assms(3) by (simp add: keys_ok_def)
  obtain k' st r t s1 s2 where d: "g_subkeys s = Some k'" "vault_build_name_lookup E k' name = Inr st"
    "r \<in> set (secrets (tables s))" "s_name r = st" "\<not> s_is_archived r"
    "tables s1 = (tables s)\<lparr>secrets := archived st t (secrets (tables s))\<rparr>"
    "vault_log_success E k' ''DELETE'' st (s_version r) s1 = (Inr (), s2)" "tables s' = tables s2"
    by (rule delete_Inr [OF assms(1) wf]) blast
  have k': "k' = k" using d(1) assms(2) by simp
  have row: "nul_free st" "s_version r \<le> INT_MAX" using wfD(1) [OF wf d(3)] d(4) by (auto simp: row_ok_def row_columns_ok_def)
  have "\<forall>r \<in> set (archived st t (secrets (tables s))). row_plain E (kek_enc k) r \<noteq> None"
    using assms(3) by (auto simp: keys_ok_def)
  from logged_keys_ok(2) [OF d(7) [unfolded k'] d(6) assms(3,4) row assms(5) wf_archived [OF wf] this]
  have "secrets (tables s') = archived st t (secrets (tables s))" using d(8) by simp
  then have "vault_abs E k (tables s') = (vault_abs E k (tables s))(st := (fst (vault_abs E k (tables s) st), None))"
    by (auto simp: fun_eq_iff prod_eq_iff abs_archived_snd)
  moreover have "snd (vault_abs E k (tables s) st) = Some (s_version r)" using abs_active [OF wf d(3,5)] d(4) by simp
  ultimately show ?thesis using lookup_name_eq [OF d(2)] k' by simp
qed

lemma read_refines:
  assumes "vault_read_secret E k name ver cap True s = (Inr p, s')" "keys_ok E k (tables s)" "log_room (tables s)" "crypto_ok E"
  shows "vault_abs E k (tables s') = vault_abs E k (tables s)"
    "case ver of None \<Rightarrow> spec_active (vault_abs E k (tables s) (lookup_name E k name)) = Some p
     | Some v \<Rightarrow> fst (vault_abs E k (tables s) (lookup_name E k name)) v = Some p"
proof -
  have wf: "secrets_wf (secrets (tables s))" using assms(2) by (simp add: keys_ok_def)
  obtain st r s1 where d: "vault_build_name_lookup E k name = Inr st" "r \<in> set (secrets (tables s))" "s_name r = st"
    "case ver of None \<Rightarrow> \<not> s_is_archived r | Some v \<Rightarrow> s_version r = v"
    "row_decrypt E (kek_enc k) r cap = Inr p" "view s1 = view s"
    "vault_log_success E k ''READ'' st (s_version r) s1 = (Inr (), s')"
    by (rule read_secret_Inr [OF assms(1) wf]) blast
  have row: "nul_free st" "s_version r \<le> INT_MAX" using wfD(1) [OF wf d(2)] d(3) by (auto simp: row_ok_def row_columns_ok_def)
  have "keys_ok E k (tables s1)" "log_room (tables s1)" using viewD(1) [OF d(6)] assms(2,3) by simp_all
  from logged_secrets [OF d(7) this row assms(4)] show "vault_abs E k (tables s') = vault_abs E k (tables s)"
    using viewD(1) [OF d(6)] by simp
  obtain q where q: "row_plain E (kek_enc k) r = Some q" using assms(2) d(2) by (auto simp: keys_ok_def)
  have "q = p" using row_decrypt_cap [OF q assms(4)] d(5) by (simp split: if_splits)
  then have plain: "fst (vault_abs E k (tables s) st) (s_version r) = Some p" using abs_version [OF wf d(2)] q d(3) by simp
  show "case ver of None \<Rightarrow> spec_active (vault_abs E k (tables s) (lookup_name E k name)) = Some p
     | Some v \<Rightarrow> fst (vault_abs E k (tables s) (lookup_name E k name)) v = Some p"
    using plain d(3,4) lookup_name_eq [OF d(1)] abs_active [OF wf d(2)]
    by (auto simp: spec_active_def split: option.splits)
qed

lemma rotate_kek_refines:
  assumes "vault_rotate_kek E pw s = (Inr (), s')" "g_subkeys s = Some k" "keys_ok E k (tables s)" "log_room (tables s)"
    and "crypto_ok E" "length (kek_meta k) = 32"
  shows "\<exists>k'. g_subkeys s' = Some k' \<and> kek_meta k' = kek_meta k \<and> vault_abs E k' (tables s') = vault_abs E k (tables s)"
proof -
  obtain new where new: "g_subkeys s' = Some (new\<lparr>kek_meta := kek_meta k\<rparr>)"
    "list_all2 (rewrapped E (kek_enc k) (kek_enc new)) (secrets (tables s)) (secrets (tables s'))"
    using rotate_kek_Inr [OF assms(1,3,2,4-6)] by blast
  have wf: "secrets_wf (secrets (tables s))" "\<And>r. r \<in> set (secrets (tables s)) \<Longrightarrow> row_plain E (kek_enc k) r \<noteq> None"
    using assms(3) by (auto simp: keys_ok_def)
  have "distinct (secrets (tables s))" using wfD(2) [OF wf(1)] by (simp add: distinct_map)
  then obtain F where F: "secrets (tables s') = map F (secrets (tables s))"
      "\<forall>r \<in> set (secrets (tables s)). rewrapped E (kek_enc k) (kek_enc new) r (F r)"
    using list_all2_as_map [OF new(2)] by blast
  note row = rewrapped_row [OF F(2) [rule_format] assms(5) wfD(1) [OF wf(1)]]
  have "s_name (F r) = s_name r \<and> s_version (F r) = s_version r \<and> s_is_archived (F r) = s_is_archived r \<and>
      row_plain E (kek_enc new) (F r) = row_plain E (kek_enc k) r" if "r \<in> set (secrets (tables s))" for r
    using row [OF that that] wf(2) [OF that] by auto
  then have "fst (abs_vault E (kek_enc new) (map F (secrets (tables s))) n) = fst (vault_abs E k (tables s) n)"
      "snd (abs_vault E (kek_enc new) (map F (secrets (tables s))) n) = snd (vault_abs E k (tables s) n)" for n
    by (auto intro!: abs_map simp: abs_snd_map)
  then show ?thesis using new(1) F(1) by (auto simp: fun_eq_iff prod_eq_iff)
qed

text \<open>The remaining operations.\<close>

lemma active_version_refines:
  assumes "vault_get_active_version E name s = (Inr v, s')" "g_subkeys s = Some k" "secrets_wf (secrets (tables s))"
  shows "snd (vault_abs E k (tables s) (lookup_name E k name)) = Some v"
proof -
  obtain st m s1 where m: "vault_build_name_lookup E k name = Inr st" "vault_find_secret_metadata E st s = (Inr (Some m), s1)"
      "v = md_version m"
    using assms(1,2) by (auto simp: vault_get_active_version_def andthen_eq_Inr require_unlocked_Inr split: option.splits)
  obtain r where r: "r \<in> set (secrets (tables s))" "s_name r = st" "\<not> s_is_archived r" "vault_read_metadata r = Inr m"
    using find_metadata_Inr(2) [OF m(2) assms(3)] by blast
  then show ?thesis
    using abs_active [OF assms(3) r(1,3)] read_metadata_Inr [OF r(4) wfD(1) [OF assms(3) r(1)]] m(3) lookup_name_eq [OF m(1)]
    by simp
qed

lemma issue_refines:
  assumes "vault_issue_token E J sub sc ttl cap s = (Inr token, s')" "g_subkeys s = Some k"
    and "keys_ok E k (tables s)" "log_room (tables s)" "crypto_ok E" "nul_free sub"
  shows "secrets (tables s') = secrets (tables s)"
proof -
  obtain s1 where s1: "view s1 = view s" "vault_log_success E k ''TOKEN_ISSUE'' sub 0 s1 = (Inr (), s')"
    using issue_token_Inr [OF assms(1)] assms(2) by auto
  then show ?thesis
    using logged_secrets [OF s1(2) _ _ assms(6) _ assms(5)] viewD(1) [OF s1(1)] assms(3,4) by (simp add: INT_MAX_def)
qed

lemma revoke_refines:
  assumes "vault_revoke_tokens E s = (Inr (), s')" "g_subkeys s = Some k"
    and "keys_ok E k (tables s)" "log_room (tables s)" "crypto_ok E"
  shows "secrets (tables s') = secrets (tables s)"
proof -
  obtain now s1 s2 where r:
    "tables s1 = (tables s)\<lparr>metadata := (metadata (tables s))(VAULT_METADATA_TOKEN_NOT_BEFORE \<mapsto> utils_write_u64_le (of_int now))\<rparr>"
    "vault_log_success E k ''TOKEN_REVOKE'' ''tokens'' 0 s1 = (Inr (), s2)" "tables s' = tables s2"
    using revoke_tokens_Inr [OF assms(1)] assms(2) by auto
  have "keys_ok E k (tables s1)" "log_room (tables s1)"
    using assms(3,4) r(1) by (simp_all add: keys_ok_def log_room_def audit_wf_def audit_rows_def)
  from logged_secrets [OF r(2) this _ _ assms(5)] r show ?thesis by (simp add: INT_MAX_def nul_free_def)
qed

lemma run_op_refines:
  assumes run: "run_op E J op s = (Inr (), s')" and k: "g_subkeys s = Some k" "keys_ok E k (tables s)" "length (kek_meta k) = 32"
    and side: "log_room (tables s)" "op_ok op" "crypto_ok E" "hex_ok E"
  shows "\<exists>k'. g_subkeys s' = Some k' \<and> kek_meta k' = kek_meta k \<and>
    spec_op (lookup_name E k) op (vault_abs E k (tables s)) = Some (vault_abs E k' (tables s'))"
proof -
  have wf: "secrets_wf (secrets (tables s))" using k(2) by (simp add: keys_ok_def)
  have keep: "g_subkeys s' = Some k" if "\<And>pw. op \<noteq> Op_rotate_kek pw"
    using stateless_state(1) [OF run_op_stateless [OF that] run] k(1) by (simp add: session_of_def)
  have same: ?thesis if "spec_op (lookup_name E k) op (vault_abs E k (tables s)) = Some (vault_abs E k (tables s'))"
      "\<And>pw. op \<noteq> Op_rotate_kek pw"
    using that keep by blast
  have quiet: "tables s' = tables s" if "reads m" "void m s = (Inr (), s')" for m :: "(vault, 'z) comp"
    using that reads_state by (auto simp: void_Inr)
  show ?thesis
  proof (cases op)
    case (Op_put name sec alg ttl)
    then show ?thesis using same put_refines [OF _ k(1,2) side(1,3,4)] run by simp
  next
    case (Op_get name cap)
    then show ?thesis
      using same run read_refines [OF _ k(2) side(1,3), where ver = None] k(1) by (auto simp: void_Inr dest!: get_Inr)
  next
    case (Op_get_version name v cap)
    then show ?thesis
      using same run read_refines [OF _ k(2) side(1,3), where ver = "Some v"] k(1) by (auto simp: void_Inr dest!: get_Inr)
  next
    case (Op_get_active_version name)
    then show ?thesis
      using same run active_version_refines [OF _ k(1) wf] quiet [OF reads_operations(8)] by (auto simp: void_Inr)
  next
    case (Op_delete name)
    then show ?thesis using same delete_refines [OF _ k(1,2) side(1,3)] run by simp
  next
    case (Op_rollback name v)
    then show ?thesis using same rollback_refines [OF _ k(1,2) side(1,3,4)] run by simp
  next
    case (Op_rotate_kek pw)
    then have "vault_rotate_kek E pw s = (Inr (), s')" using run by simp
    from rotate_kek_refines [OF this k(1,2) side(1,3) k(3)] obtain k' where
      "g_subkeys s' = Some k'" "kek_meta k' = kek_meta k" "vault_abs E k' (tables s') = vault_abs E k (tables s)" by blast
    then show ?thesis using Op_rotate_kek by (intro exI [of _ k']) simp
  next
    case (Op_issue_token sub sc ttl cap)
    then show ?thesis
      using same run issue_refines [OF _ k(1,2) side(1,3)] side(2) by (auto simp: void_Inr op_ok_def)
  next
    case Op_revoke_tokens
    then show ?thesis using same run revoke_refines [OF _ k(1,2) side(1,3)] by simp
  next
    case (Op_list inc cb)
    then show ?thesis using same run quiet [OF reads_operations(1)] by simp
  next
    case (Op_check_expiry w cb)
    then show ?thesis using same run quiet [OF reads_operations(2)] by simp
  next
    case Op_security_report
    then show ?thesis using same run quiet [OF reads_operations(3)] by simp
  next
    case Op_audit_verify
    then show ?thesis using same run reads_state [OF reads_operations(4)] by auto
  next
    case Op_audit_merkle_root
    then show ?thesis using same run quiet [OF reads_operations(5)] by simp
  next
    case (Op_audit_merkle_proof i cap)
    then show ?thesis using same run quiet [OF reads_operations(6)] by simp
  next
    case (Op_check_token tok req)
    then show ?thesis using same run reads_state [OF reads_operations(10)] by auto
  qed
qed

section \<open>Reading is looking up\<close>

lemma find_cong_set: "(\<And>x. x \<in> set xs \<Longrightarrow> P x = Q x) \<Longrightarrow> find P xs = find Q xs"
  by (induction xs) auto

text \<open>The row a version refers to, \<open>None\<close> being the active one.\<close>

definition wanted_row :: "string \<Rightarrow> int option \<Rightarrow> secret_row list \<Rightarrow> secret_row option" where
  "wanted_row st ver rows = (case ver of
     None \<Rightarrow> find (\<lambda>r. s_name r = st \<and> \<not> s_is_archived r) rows
   | Some v \<Rightarrow> find (\<lambda>r. s_name r = st \<and> s_version r = v) rows)"

lemma select_wanted: "secrets_wf (secrets d) \<Longrightarrow> select_secret_row st ver d = wanted_row st ver (secrets d)"
  unfolding select_secret_row_def wanted_row_def
  by (cases ver) (auto intro: find_cong_set simp: wf_active_row)

lemma wanted_abs:
  assumes "secrets_wf rows"
  shows "(case ver of None \<Rightarrow> spec_active (abs_vault E kek rows st) | Some v \<Rightarrow> fst (abs_vault E kek rows st) v) =
    (case wanted_row st ver rows of None \<Rightarrow> None | Some r \<Rightarrow> row_plain E kek r)"
proof (cases ver)
  case None
  show ?thesis
  proof (cases "find (\<lambda>r. s_name r = st \<and> \<not> s_is_archived r) rows")
    case none: None
    then show ?thesis using None by (simp add: wanted_row_def spec_active_def abs_vault_def)
  next
    case (Some r)
    then have "r \<in> set rows" "s_name r = st" by (auto dest: find_SomeD)
    then show ?thesis
      using None Some abs_version [OF assms, of r E kek] by (simp add: wanted_row_def spec_active_def abs_vault_def)
  qed
next
  case (Some v)
  then show ?thesis by (simp add: wanted_row_def abs_vault_def)
qed

lemma read_secret_exact:
  assumes "keys_ok E k (tables s)" "crypto_ok E" "hex_ok E" "name \<noteq> []" "case ver of None \<Rightarrow> True | Some v \<Rightarrow> 1 \<le> v"
    and "g_db s" "sql_ok E (tick s)"
  defines "st \<equiv> lookup_name E k name"
  shows "vault_read_secret E k name ver cap True s =
    (case wanted_row st ver (secrets (tables s)) of
       None \<Rightarrow> (Inl SM_ERR_NOT_FOUND, next_tick s)
     | Some r \<Rightarrow> (case row_plain E (kek_enc k) r of None \<Rightarrow> (Inl SM_ERR_NOT_FOUND, next_tick s)
        | Some p \<Rightarrow> if length p \<le> cap
            then andthen (vault_log_success E k ''READ'' st (s_version r)) (\<lambda>_. ret p) (next_tick s)
            else (Inl SM_ERR_INVALID_ARGUMENT, next_tick s)))"
proof -
  have wf: "secrets_wf (secrets (tables s))" using assms(1) by (simp add: keys_ok_def)
  have st: "vault_build_name_lookup E k name = Inr st"
    using assms(4) by (simp add: st_def lookup_name_def vault_build_name_lookup_def)
  have ne: "st \<noteq> []" using lookup_Inr [OF st assms(2,3)] by simp
  have sel: "sql_select E (select_secret_row st ver) s = (Inr (wanted_row st ver (secrets (tables s))), next_tick s)"
    using assms(7) by (simp add: sql_select_def select_wanted [OF wf])
  have load: "vault_load_secret_row E st ver s = (case wanted_row st ver (secrets (tables s)) of
      None \<Rightarrow> (Inl SM_ERR_NOT_FOUND, next_tick s) | Some r \<Rightarrow> (vault_copy_secret_row r, next_tick s))"
    using assms(5,6) ne sel
    by (auto simp: vault_load_secret_row_def andthen_def require_db_def guard_def split: option.splits)
  show ?thesis
  proof (cases "wanted_row st ver (secrets (tables s))")
    case None
    then show ?thesis
      using assms(4) st load by (simp add: vault_read_secret_def andthen_def guard_def)
  next
    case (Some r)
    then have r: "r \<in> set (secrets (tables s))" "s_name r = st"
      by (auto simp: wanted_row_def split: option.splits dest: find_SomeD)
    obtain p where p: "row_plain E (kek_enc k) r = Some p" using assms(1) r(1) by (auto simp: keys_ok_def)
    have copy: "vault_copy_secret_row r = Inr \<lparr>vr_id = s_id r, vr_version = s_version r, vr_encrypted = row_secret r\<rparr>"
      using wfD(1) [OF wf r(1)] by (simp add: row_ok_def)
    have "vault_decrypt_secret_row E k \<lparr>vr_id = s_id r, vr_version = s_version r, vr_encrypted = row_secret r\<rparr> st cap =
        (if length p \<le> cap then Inr p else Inl SM_ERR_INVALID_ARGUMENT)"
      using decrypt_row_plain [OF wfD(1) [OF wf r(1)] r(2)] row_decrypt_cap [OF p assms(2)] by simp
    then show ?thesis
      using assms(4) st load Some p copy by (simp add: vault_read_secret_def andthen_def guard_def)
  qed
qed

end
