(* ===== verification/Fuin_Vault_Live.thy ===== *)
theory Fuin_Vault_Live
  imports Fuin_Vault_Spec
begin

text \<open>
  What the vault does when nothing fails: with working primitives, statements and clock,
  logging an event, reading and storing succeed, so the results of \<open>src/src/vault.c\<close> are
  determined by the abstract vault.
\<close>

section \<open>An environment in which nothing fails\<close>

definition healthy :: "env \<Rightarrow> bool" where
  "healthy E \<longleftrightarrow> sodium_init_ok E \<and> (\<forall>t. sql_ok E t) \<and> (\<forall>t. 0 \<le> clock E t \<and> clock E t < 253402300800)"

lemma format_total:
  assumes "0 \<le> t" "t < 253402300800"
  shows "\<exists>ts. utils_format_iso8601 t UTILS_ISO8601_UTC_BUFFER_LEN = Inr ts"
proof -
  define d where "d = t div 86400"
  have d: "0 \<le> d" "d < 2932897" using assms by (simp_all add: d_def div_less_iff_less_mult)
  have lo: "1970 \<le> year_of_day d"
    using year_of_day_mono [OF d(1)] by (simp add: year_of_day_def year_search.simps [of 0 1970] days_before_year_def)
  have hi: "year_of_day d < 10000"
  proof (rule ccontr)
    assume "\<not> year_of_day d < 10000"
    then have "days_before_year 10000 \<le> days_before_year (year_of_day d)" using days_before_year_mono [of 9999 "year_of_day d"] by simp
    then show False using year_of_day_bounds(1) [of d] d(2) by (simp add: days_before_year_def)
  qed
  obtain u where u: "gmtime t = Some u" "tm_year u + 1900 = year_of_day d"
    using lo hi
    by (cases "month_split (month_lengths (year_of_day d)) (d - days_before_year (year_of_day d))")
       (simp add: gmtime_def Let_def d_def [symmetric] INT_MAX_def)
  have r: "tm_in_range u" by (rule gmtime_in_range [OF u(1) assms(1)])
  have "length (fmt_0u 4 (nat (year_of_day d))) = 4" using lo hi by (intro length_fmt_0u) (auto simp: nat_less_iff)
  then have "length (iso8601_string u) = 20" using length_iso8601 [OF r] u(2) by simp
  then show ?thesis using u(1) by (simp add: utils_format_iso8601_def UTILS_ISO8601_UTC_BUFFER_LEN_def)
qed

lemma now_total:
  assumes "healthy E"
  obtains ts where "utils_now_iso8601 E UTILS_ISO8601_UTC_BUFFER_LEN s = (Inr ts, next_tick s)" "ts \<noteq> []"
    "nul_free ts" "length ts < 21"
proof -
  have c: "0 \<le> clock E (tick s)" "clock E (tick s) < 253402300800" using assms by (simp_all add: healthy_def)
  obtain ts where ts: "utils_format_iso8601 (clock E (tick s)) UTILS_ISO8601_UTC_BUFFER_LEN = Inr ts"
    using format_total [OF c] by blast
  have run: "utils_now_iso8601 E UTILS_ISO8601_UTC_BUFFER_LEN s = (Inr ts, next_tick s)"
    using ts c by (simp add: utils_now_iso8601_def andthen_def guard_def sys_time_def)
  from now_iso8601_c_string [OF run] that [OF run] show ?thesis by (simp add: UTILS_ISO8601_UTC_BUFFER_LEN_def)
qed

lemma fits_short: "length f \<le> 1000 \<Longrightarrow> audit_fits f"
  by (simp add: audit_fits_def UINT32_MAX_def)

lemma valid_action_short: "act \<in> set schema_actions \<Longrightarrow> audit_valid_action act \<and> length act \<le> 1000"
  by (auto simp: schema_actions_def audit_valid_action_def nul_free_def)

lemma chain_ids:
  assumes "chain_ok E key rows" "r \<in> set rows"
  shows "1 \<le> a_entry_id r"
proof -
  obtain i where "i < length rows" "r = rows ! i" using assms(2) by (auto simp: in_set_conv_nth)
  then have "audit_row_ok E (last_hash zero_hash (take i rows)) ((sha256 E ^^ i) key) r"
    using assms(1) by (simp add: chain_ok_def verify_rows_iff)
  then show ?thesis using read_columns_Inr by (fastforce simp: audit_row_ok_def split: sum.splits)
qed

lemma last_hash_length:
  assumes "chain_ok E key rows"
  shows "length (last_hash zero_hash rows) = 32"
  using assms
proof (cases rows rule: rev_cases)
  case Nil
  then show ?thesis by (simp add: last_hash_def zero_hash_def crypto_hash_sha256_BYTES_def)
next
  case (snoc xs r)
  then have "audit_row_ok E (last_hash zero_hash xs) ((sha256 E ^^ length xs) key) r"
    using assms by (simp add: chain_ok_def verify_rows_snoc)
  then show ?thesis using snoc read_columns_Inr
    by (fastforce simp: audit_row_ok_def last_hash_def split: sum.splits)
qed

lemma entry_bytes_total:
  assumes "ts \<noteq> []" "length ts < 21" "1 \<le> eid" "act \<in> set schema_actions" "tgt \<noteq> []" "length tgt \<le> 1000"
    and "length prev = 32" "case eh of None \<Rightarrow> True | Some h \<Rightarrow> length h = 32"
  shows "\<exists>b. audit_build_entry_bytes ts eid act (Some ''user:default'') tgt tv ''SUCCESS'' prev eh = Inr b"
proof -
  have "list_all audit_fits (audit_entry_fields ts eid act (Some ''user:default'') tgt tv ''SUCCESS'' prev eh)"
    using assms valid_action_short [OF assms(4)]
    by (auto simp: audit_entry_fields_def fits_short audit_actor_value_def u64.width_enc split: option.splits)
  moreover have "entry_args_ok ts eid act tgt ''SUCCESS''"
    using assms valid_action_short [OF assms(4)] by (simp add: entry_args_ok_def audit_valid_result_def)
  ultimately show ?thesis using audit_build_entry_bytes_Inr by blast
qed

lemma log_success_total:
  assumes E: "healthy E" "crypto_ok E" and s: "g_db s" "audit_wf E (kek_audit k) (tables s)" "log_room (tables s)"
    and k: "length (kek_audit k) = 32" and a: "act \<in> set schema_actions" "tgt \<noteq> []" "length tgt \<le> 1000"
  shows "\<exists>s'. vault_log_success E k act tgt tv s = (Inr (), s') \<and> view s' = view (s\<lparr>tables := tables s'\<rparr>)"
proof -
  let ?log = "audit_log (tables s)" and ?a = "''user:default''"
  obtain ts where ts: "utils_now_iso8601 E UTILS_ISO8601_UTC_BUFFER_LEN s = (Inr ts, next_tick s)" "ts \<noteq> []" "length ts < 21"
    using now_total [OF E(1)] by metis
  define prev where "prev = last_hash zero_hash (audit_rows (tables s))"
  define eid where "eid = min (max_entry_id ?log + 1) INT64_MAX"
  have prev: "length prev = 32" using s(2) last_hash_length unfolding prev_def audit_wf_def by blast
  have max: "max_entry_id ?log \<le> int (length ?log)" using s(2) max_entry_id_le [of ?log "int (length ?log)"] by (simp add: audit_wf_def)
  have pos: "0 \<le> max_entry_id ?log"
  proof (cases "?log = []")
    case False
    then have r: "hd ?log \<in> set ?log" by simp
    then have "1 \<le> a_entry_id (hd ?log)" using s(2) chain_ids [of E "kek_audit k" "audit_rows (tables s)" "hd ?log"] by (simp add: audit_wf_def)
    then show ?thesis using le_max_entry_id [OF r] by simp
  qed (simp add: max_entry_id_def)
  have eid: "1 \<le> eid" "\<forall>r \<in> set ?log. a_entry_id r \<noteq> eid"
    using pos max s(3) le_max_entry_id [of _ ?log] by (fastforce simp: eid_def log_room_def INT64_MAX_def INT_MAX_def)+
  have actor: "audit_actor_value (Some ?a) = ?a" by (simp add: audit_actor_value_def)
  obtain b where b: "audit_build_entry_bytes ts eid act (Some ?a) tgt tv ''SUCCESS'' prev None = Inr b"
    using entry_bytes_total [OF ts(2,3) eid(1) a prev, of None] by auto
  define eh where "eh = sha256 E b"
  have "length eh = 32" using E(2) by (simp add: eh_def crypto_ok_def sha256_ok_def)
  then obtain c where c: "audit_build_entry_bytes ts eid act (Some ?a) tgt tv ''SUCCESS'' prev (Some eh) = Inr c"
    using entry_bytes_total [OF ts(2,3) eid(1) a prev, of "Some eh"] by auto
  have ok: "sodium_init_ok E" "\<And>t. sql_ok E t" using E(1) by (simp_all add: healthy_def)
  let ?key = "(sha256 E ^^ length ?log) (kek_audit k)"
  let ?row = "\<lparr>a_entry_id = eid, a_timestamp = ts, a_action = act, a_actor = ?a, a_target = tgt,
        a_target_version = (if 0 < tv then Some tv else None), a_result = ''SUCCESS'', a_prev_hash = prev,
        a_entry_hash = eh, a_hmac_signature = crypto_auth E ?key c\<rparr>"
  let ?d = "(tables s)\<lparr>audit_log := ?log @ [?row]\<rparr>"
  have 1: "audit_validate_key E (kek_audit k) = Inr ()" using k ok(1) by (simp add: validate_key_Inr)
  have 2: "audit_get_last_hash E (next_tick s) = (Inr prev, next_tick (next_tick s))"
    using s(1) ok prev by (simp add: get_last_hash_Inr prev_def)
  have 3: "audit_next_entry_id E (next_tick (next_tick s)) = (Inr eid, next_tick (next_tick (next_tick s)))"
    using s(1) ok eid(1) by (simp add: next_entry_id_Inr eid_def)
  have 4: "audit_count_entries E (next_tick (next_tick (next_tick s))) =
      (Inr (length ?log), next_tick (next_tick (next_tick (next_tick s))))"
    using s(1) ok by (simp add: count_entries_Inr)
  have 5: "audit_derive_ratchet_key E (kek_audit k) (length ?log) = Inr ?key" by (simp add: derive_ratchet_key_Inr 1)
  have 6: "insert_audit_row ?row (tables s) = Some ?d"
    using eid(2) a(1) by (auto simp: insert_audit_row_def list_all_iff schema_results_def)
  let ?s4 = "next_tick (next_tick (next_tick (next_tick s)))"
  have 7: "sql_write E (insert_audit_row ?row) ?s4 = (Inr (), next_tick (?s4\<lparr>tables := ?d\<rparr>))"
    using 6 ok by (simp add: sql_write_def)
  have "vault_log_success E k act tgt tv s = (Inr (), next_tick (?s4\<lparr>tables := ?d\<rparr>))"
    using s(1) 7 by (simp add: vault_log_success_def audit_log_event_def andthen_def require_db_def 1 2 3 4 5 ts(1) actor Let_def
        audit_compute_entry_hash_def audit_compute_signature_def b c eh_def [symmetric])
  then show ?thesis by (intro exI conjI, assumption) (simp add: view_def session_of_def next_tick_def)
qed

section \<open>Reading returns the stored content\<close>

lemma read_total:
  assumes E: "healthy E" "crypto_ok E" "hex_ok E" and s: "keys_ok E k (tables s)" "g_db s" "log_room (tables s)"
    and k: "length (kek_audit k) = 32" and n: "name \<noteq> []" "case ver of None \<Rightarrow> True | Some v \<Rightarrow> 1 \<le> v"
  shows "fst (vault_read_secret E k name ver cap True s) =
    (case (case ver of None \<Rightarrow> spec_active (vault_abs E k (tables s) (lookup_name E k name))
         | Some v \<Rightarrow> fst (vault_abs E k (tables s) (lookup_name E k name)) v) of
       None \<Rightarrow> Inl SM_ERR_NOT_FOUND
     | Some p \<Rightarrow> if length p \<le> cap then Inr p else Inl SM_ERR_INVALID_ARGUMENT)"
proof -
  let ?st = "lookup_name E k name"
  have wf: "secrets_wf (secrets (tables s))" using s(1) by (simp add: keys_ok_def)
  have ok: "sql_ok E (tick s)" using E(1) by (simp add: healthy_def)
  have st: "vault_build_name_lookup E k name = Inr ?st"
    using n(1) by (simp add: lookup_name_def vault_build_name_lookup_def)
  have tgt: "?st \<noteq> []" "length ?st \<le> 1000" using lookup_Inr [OF st E(2,3)] by simp_all
  have log: "fst (vault_log_success E k ''READ'' ?st v (next_tick s)) = Inr ()" for v
    using log_success_total [OF E(1,2), where s = "next_tick s" and k = k and act = "''READ''" and tgt = ?st and tv = v]
      s k tgt by (auto simp: keys_ok_def schema_actions_def)
  have logged: "fst (andthen (vault_log_success E k ''READ'' ?st v) (\<lambda>_. ret p) (next_tick s)) = Inr p" for v p
    using log [of v] by (cases "vault_log_success E k ''READ'' ?st v (next_tick s)") (simp add: andthen_def)
  show ?thesis
    unfolding wanted_abs [OF wf]
    using logged read_secret_exact [OF s(1) E(2,3) n s(2) ok] by (auto split: option.splits)
qed

section \<open>A new secret can be stored\<close>

lemma expiry_total:
  assumes "healthy E" "\<forall>t. clock E t + uint (ttl :: 64 word) < 253402300800"
  shows "\<exists>ex s'. vault_expiry_for E (uint ttl) s = (Inr ex, s')"
proof (cases "0 < uint ttl")
  case True
  have c: "0 \<le> clock E (tick s)" "clock E (tick s) + uint ttl < 253402300800" using assms by (simp_all add: healthy_def)
  then have small: "uint ttl < 253402300800" by simp
  have off: "sint ttl = uint ttl"
    unfolding sint_uint by (rule signed_take_bit_int_eq_self) (use small in \<open>auto intro: order_trans [of _ 0]\<close>)
  have add: "time_add (clock E (tick s)) (uint ttl) = clock E (tick s) + uint ttl"
    unfolding time_add_def sint_sbintrunc'
    by (rule trans [OF _ signed_take_bit_int_eq_self]) (use c True in \<open>auto intro: order_trans [of _ 0] less_trans [of _ 253402300800]\<close>)
  obtain ts where "utils_format_iso8601 (clock E (tick s) + uint ttl) UTILS_ISO8601_UTC_BUFFER_LEN = Inr ts"
    using format_total [of "clock E (tick s) + uint ttl"] c True by auto
  then show ?thesis
    using c True small off add
    by (simp add: vault_expiry_for_def utils_now_plus_seconds_iso8601_def andthen_def guard_def sys_time_def INT64_MAX_def Let_def)
next
  case False
  then show ?thesis by (simp add: vault_expiry_for_def)
qed

lemma encrypt_total:
  assumes "sodium_init_ok E" "crypto_engine_select_algorithm E alg = Inr a" "sid \<noteq> []" "length sid = 64" "length p \<le> 1000000000"
  shows "\<exists>es s'. crypto_engine_encrypt_with_algorithm E p kek sid 1 c alg s = (Inr es, s')"
proof -
  obtain aad where aad: "crypto_engine_build_aad sid 1 CRYPTO_ENGINE_AAD_MAX = Inr aad"
    using assms(4) by (simp add: crypto_engine_build_aad_def CRYPTO_ENGINE_AAD_MAX_def dec_digits.simps)
  obtain n where n: "crypto_engine_set_algorithm_name a = Inr n"
    by (cases a) (simp_all add: crypto_engine_set_algorithm_name_def CRYPTO_ENGINE_ALGORITHM_MAX_def)
  have len: "int (length p) \<le> SIZE_MAX - int (crypto_engine_tag_bytes a)"
    using assms(5) by (cases a) (simp_all add: crypto_engine_tag_bytes_def SIZE_MAX_def)
  obtain nonce s1 where "crypto_engine_build_nonce E a sid c s = (Inr nonce, s1)"
    by (cases a) (auto simp: crypto_engine_build_nonce_def)
  then show ?thesis
    using assms(1-3) aad n len
    by (simp add: crypto_engine_encrypt_with_algorithm_def andthen_def guard_def require_sodium_def)
qed

lemma encrypt_bind:
  assumes "crypto_engine_encrypt_with_algorithm E p kek sid v c name s = (Inr es, s')" "crypto_ok E" "length p \<le> 1000000000"
  shows "vault_bind_encrypted_secret es = Inr ()" "es_algorithm es \<in> set schema_algorithms"
proof -
  obtain alg aad dek where e: "length dek = 32" "es_algorithm es \<in> set schema_algorithms"
    "length (es_nonce es) = npub_bytes alg" "length (es_dek_nonce es) = npub_bytes alg"
    "es_ciphertext es = aead_encrypt E alg dek (es_nonce es) aad p"
    "es_encrypted_dek es = aead_encrypt E alg kek (es_dek_nonce es) aad dek"
    "es_key_commitment es =
      crypto_engine_commitment E kek CRYPTO_ENGINE_COMMIT_DOMAIN_KEK (es_dek_nonce es) @
      crypto_engine_commitment E dek CRYPTO_ENGINE_COMMIT_DOMAIN_DEK (es_nonce es)"
    using encrypt_Inr [OF assms(1,2)] by metis
  have "tag_bytes alg \<le> 32" "npub_bytes alg \<le> 32" by (cases alg; simp)+
  then show "vault_bind_encrypted_secret es = Inr ()"
    using e assms(2,3)
    by (simp add: vault_bind_encrypted_secret_def vault_bind_blob_def crypto_ok_def aead_ok_def generichash_ok_def
        crypto_engine_commitment_def INT_MAX_def)
  show "es_algorithm es \<in> set schema_algorithms" by (rule e(2))
qed

text \<open>What the random generator must not repeat: an identifier in use.\<close>

definition fresh_ids :: "env \<Rightarrow> secret_row list \<Rightarrow> bool" where
  "fresh_ids E rows \<longleftrightarrow> (\<forall>t. \<forall>r \<in> set rows. s_id r \<noteq> uuid_string (uuid_v4_bits (randombytes E t 16)))"

lemma uuid_total:
  assumes "healthy E" "random_ok E"
  obtains rid where "utils_generate_uuid_v4 E UTILS_UUID_V4_BUFFER_LEN s = (Inr rid, next_tick s)"
    "rid = uuid_string (uuid_v4_bits (randombytes E (tick s) 16))" "length rid = 36"
proof -
  have "length (uuid_string (uuid_v4_bits (randombytes E (tick s) 16))) = 36"
    using uuid_string_v4 length_uuid_v4 assms(2) by (simp add: random_ok_def)
  then show ?thesis
    using that assms(1)
    by (simp add: utils_generate_uuid_v4_def andthen_def guard_def healthy_def Let_def UTILS_UUID_V4_BUFFER_LEN_def require_sodium_def)
qed

lemma insert_total:
  assumes E: "healthy E" "crypto_ok E" and s: "g_db s" "secrets_constraints (secrets (tables s))
      (secret_row_of rid st nn en v c now now ex i es)"
    and small: "length nn \<le> 1000" "length en \<le> 1000" "vault_bind_encrypted_secret es = Inr ()"
  shows "vault_insert_secret E rid st nn en v c now now ex i es s = (Inr (), next_tick ((next_tick s)\<lparr>tables :=
    (tables s)\<lparr>secrets := secrets (tables s) @ [secret_row_of rid st nn en v c now now ex i es]\<rparr>\<rparr>))"
proof -
  have ok: "sql_ok E t" for t using E(1) by (simp add: healthy_def)
  have "vault_bind_blob nn = Inr ()" "vault_bind_blob en = Inr ()"
    using small(1,2) by (simp_all add: vault_bind_blob_def INT_MAX_def)
  then show ?thesis
    using s small(3) ok
    by (simp add: vault_insert_secret_def andthen_def sql_prepare_def sql_select_def sql_write_def insert_secret_row_def)
qed

lemma replace_total:
  assumes E: "healthy E" "crypto_ok E" and s: "g_db s" "\<not> in_txn s" "audit_wf E (kek_audit k) (tables s)" "log_room (tables s)"
    and k: "length (kek_audit k) = 32" and act: "act \<in> set schema_actions" and st: "st \<noteq> []" "length st \<le> 1000"
    and row: "secrets_constraints (secrets (tables s)) (secret_row_of rid st nn en v c now now ex i es)"
    and small: "length nn \<le> 1000" "length en \<le> 1000" "vault_bind_encrypted_secret es = Inr ()"
  shows "\<exists>s'. vault_replace_active E k None act rid st nn en v c now ex i es s = (Inr (), s')"
proof -
  have ok: "sql_ok E t" for t using E(1) by (simp add: healthy_def)
  let ?s1 = "next_tick (s\<lparr>saved := Some (tables s)\<rparr>)"
  have 1: "storage_begin_transaction E s = (Inr (), ?s1)"
    using s(1,2) ok by (simp add: storage_begin_transaction_def andthen_def require_db_def in_txn_def)
  let ?d = "(tables s)\<lparr>secrets := secrets (tables s) @ [secret_row_of rid st nn en v c now now ex i es]\<rparr>"
  let ?s2 = "next_tick ((next_tick ?s1)\<lparr>tables := ?d\<rparr>)"
  have 2: "vault_insert_secret E rid st nn en v c now now ex i es ?s1 = (Inr (), ?s2)"
    using insert_total [OF E, of ?s1] s(1) row small by simp
  have "audit_wf E (kek_audit k) (tables ?s2)" "log_room (tables ?s2)"
    using s(3,4) by (simp_all add: audit_wf_log [of ?d "tables s"] log_room_def)
  then obtain s3 where 3: "vault_log_success E k act st v ?s2 = (Inr (), s3)" "view s3 = view (?s2\<lparr>tables := tables s3\<rparr>)"
    using log_success_total [OF E, of ?s2 k act st v] s(1) k act st by auto
  have "g_db s3" "saved s3 \<noteq> None" using 3(2) s(1) by (auto simp: view_def)
  then have "storage_commit_transaction E s3 = (Inr (), next_tick (s3\<lparr>saved := None\<rparr>))"
    using ok by (auto simp: storage_commit_transaction_def andthen_def require_db_def)
  then show ?thesis
    using 1 2 3(1)
    by (simp add: vault_replace_active_def finally_do_def andthen_def commit_or_rollback_def)
qed

lemma put_total:
  assumes E: "healthy E" "crypto_ok E" "hex_ok E" and s: "g_db s" "\<not> in_txn s" "keys_ok E k (tables s)" "log_room (tables s)"
    and k: "g_subkeys s = Some k" "g_unlocked s" "length (kek_audit k) = 32"
    and name: "vault_name_is_clean name" "\<forall>r \<in> set (secrets (tables s)). s_name r \<noteq> lookup_name E k name"
    and arg: "crypto_engine_select_algorithm E alg = Inr a" "length secret \<le> 1000000000"
      "\<forall>t. clock E t + uint ttl < 253402300800"
    and ids: "fresh_ids E (secrets (tables s))"
  shows "\<exists>s'. vault_put_with_options E name secret alg ttl s = (Inr (), s')"
proof -
  have ok: "sql_ok E t" "sodium_init_ok E" for t using E(1) by (simp_all add: healthy_def)
  have rnd: "random_ok E" using E(2) by (simp add: crypto_ok_def)
  let ?st = "lookup_name E k name"
  have n: "name \<noteq> []" "length name \<le> 256" using name(1) by (auto simp: vault_name_is_clean_def VAULT_SECRET_NAME_MAX_def)
  have st: "vault_build_name_lookup E k name = Inr ?st"
    using n(1) by (simp add: lookup_name_def vault_build_name_lookup_def)
  have st': "?st \<noteq> []" "length ?st = 64" using lookup_Inr [OF st E(2,3)] by simp_all
  obtain nn en where 1: "vault_encrypt_display_name E k name ?st s = (Inr (nn, en), next_tick s)" "length nn = 24" "length en \<le> 272"
    using n st' rnd E(2)
    by (simp add: vault_encrypt_display_name_def andthen_def guard_def VAULT_SECRET_NAME_MAX_def VAULT_NAME_NONCE_BYTES_def
        random_ok_def crypto_ok_def aead_ok_def)
  let ?s1 = "next_tick s" let ?s2 = "next_tick ?s1" let ?s3 = "next_tick ?s2" let ?s4 = "next_tick ?s3"
  have none: "find (\<lambda>r. s_name r = ?st \<and> active_row (secrets (tables s)) r) (secrets (tables s)) = None"
      "filter (\<lambda>r. s_name r = ?st) (secrets (tables s)) = []"
    using name(2) by (auto simp: find_None_iff filter_empty_conv)
  have 2: "vault_find_secret_metadata E ?st ?s1 = (Inr None, ?s2)"
    using s(1) ok none by (simp add: vault_find_secret_metadata_def andthen_def require_db_def sql_select_def)
  have 3: "vault_find_secret_history_bounds E ?st ?s2 = (Inr None, ?s3)"
    using s(1) ok none by (simp add: vault_find_secret_history_bounds_def andthen_def require_db_def sql_select_def c_int_def)
  obtain now where 4: "utils_now_iso8601 E UTILS_ISO8601_UTC_BUFFER_LEN ?s3 = (Inr now, ?s4)"
    using now_total [OF E(1)] by metis
  have ttl: "uint ttl \<le> INT64_MAX"
    using arg(3) E(1) by (auto simp: healthy_def INT64_MAX_def dest!: spec [of _ 0])
  obtain ex s5 where 5: "vault_expiry_for E (uint ttl) ?s4 = (Inr ex, s5)"
    using expiry_total [OF E(1) arg(3)] by blast
  obtain rid where 6: "utils_generate_uuid_v4 E UTILS_UUID_V4_BUFFER_LEN s5 = (Inr rid, next_tick s5)" "length rid = 36"
      "rid = uuid_string (uuid_v4_bits (randombytes E (tick s5) 16))"
    using uuid_total [OF E(1) rnd] by metis
  have ne: "rid \<noteq> []" using 6(2) by auto
  obtain identity where 7: "crypto_engine_build_row_identity E rid ?st CRYPTO_ENGINE_ROW_IDENTITY_HEX_LEN = Inr identity"
      "length identity = 64"
    using ne st' E(2,3) by (auto simp: crypto_engine_build_row_identity_def crypto_ok_def sha256_ok_def hex_ok_def)
  obtain es s8 where 8: "crypto_engine_encrypt_with_algorithm E secret (kek_enc k) identity (of_int 1) (of_int 1) alg (next_tick s5) =
      (Inr es, s8)"
    using encrypt_total [OF ok(2) arg(1) _ 7(2) arg(2)] 7(2) by fastforce
  have "view s5 = view ?s4" "view s8 = view (next_tick s5)" by (rule view_steps, rule 5 8)+
  then have v: "view s5 = view s" "view s8 = view s" by (simp_all add: view_def session_of_def next_tick_def)
  then have t: "tables s8 = tables s" "g_db s8" "\<not> in_txn s8" using viewD s(1,2) by metis+
  have bind: "vault_bind_encrypted_secret es = Inr ()" "es_algorithm es \<in> set schema_algorithms"
    using encrypt_bind [OF 8 E(2) arg(2)] by simp_all
  have row: "secrets_constraints (secrets (tables s8)) (secret_row_of rid ?st nn en 1 1 now now ex (uint ttl) es)"
    using name(2) ids 6(3) bind(2) t
    by (auto simp: secrets_constraints_def secret_row_of_def list_all_iff fresh_ids_def)
  have "\<exists>s'. vault_replace_active E k None ''CREATE'' rid ?st nn en 1 1 now ex (uint ttl) es s8 = (Inr (), s')"
    by (rule replace_total [OF E(1,2)]) (use t s k st' 1 bind row in \<open>auto simp: keys_ok_def schema_actions_def\<close>)
  then show ?thesis
    using k(1,2) name(1) st 1 2 3 4 ttl 5 6 7 8
    by (simp add: vault_put_with_options_def andthen_def guard_def vault_require_unlocked_def)
qed

section \<open>Reading, and storing then reading\<close>

lemma opens_lengths:
  assumes "opens E pw k d" "kdf_ok E"
  shows "length (kek_audit k) = 32" "length (kek_meta k) = 32"
proof -
  obtain mk k0 where "fst (kdf_derive_subkeys E mk) = Inr k0" "length (kek_meta k) = 32" "k = k0\<lparr>kek_meta := kek_meta k\<rparr>"
    using assms(1) by (auto simp: opens_def)
  moreover from this have "length (kek_audit k0) = 32"
    using assms(2) by (auto simp: kdf_ok_def kdf_derive_subkeys_def kdf_derive_subkey_def and_then_eq_Inr split: option.splits)
  ultimately show "length (kek_audit k) = 32" "length (kek_meta k) = 32" by (metis kdf_subkeys.select_convs(2) kdf_subkeys.surjective kdf_subkeys.update_convs(4), simp)
qed

lemma unlocked_keys:
  assumes "vault_inv E s" "g_subkeys s = Some k" "kdf_ok E" "\<not> in_txn s"
  shows "keys_ok E k (tables s)" "length (kek_audit k) = 32" "length (kek_meta k) = 32"
  using assms opens_lengths by (auto simp: vault_inv_def)

text \<open>
  C11: Reading is looking up. In an unlocked vault whose tables belong to its keys, and when
  no call fails, \<open>vault_get\<close> returns the content of the active version of the name, and
  \<open>vault_get_version\<close> that of the version asked for; \<open>SM_ERR_NOT_FOUND\<close> when there is none,
  \<open>SM_ERR_INVALID_ARGUMENT\<close> when the buffer is too small for it.
\<close>

theorem read_returns_content:
  assumes "vault_inv E s" "g_subkeys s = Some k" "g_unlocked s" "g_db s" "\<not> in_txn s" "log_room (tables s)"
    and "healthy E" "crypto_ok E" "hex_ok E" "kdf_ok E" "name \<noteq> []"
  defines "history \<equiv> abs_vault E (kek_enc k) (secrets (tables s)) (lookup_name E k name)"
    and "answer \<equiv> \<lambda>content cap. case content of None \<Rightarrow> Inl SM_ERR_NOT_FOUND
      | Some p \<Rightarrow> if length p \<le> cap then Inr p else Inl SM_ERR_INVALID_ARGUMENT"
  shows "fst (vault_get E name cap s) = answer (spec_active history) cap \<and>
    fst (vault_get_version E name v cap s) =
      (if v < 1 then Inl SM_ERR_INVALID_ARGUMENT else answer (fst history v) cap)"
proof -
  note k = unlocked_keys [OF assms(1,2,10,5)]
  note read = read_total [OF assms(7-9) k(1) assms(4,6) k(2) assms(11)]
  have "fst (vault_get E name cap s) = answer (spec_active history) cap"
    using read [of None] assms(2,3)
    by (simp add: vault_get_def andthen_def vault_require_unlocked_def history_def answer_def)
  moreover have "fst (vault_get_version E name v cap s) =
      (if v < 1 then Inl SM_ERR_INVALID_ARGUMENT else answer (fst history v) cap)"
    using read [of "Some v"] assms(2,3)
    by (simp add: vault_get_version_def andthen_def vault_require_unlocked_def history_def answer_def guard_def)
  ultimately show ?thesis by blast
qed

lemma stores_log:
  assumes "stores E k name p ex act s s'" "keys_ok E k (tables s)" "log_room (tables s)" "crypto_ok E"
  shows "\<exists>r. audit_log (tables s') = audit_log (tables s) @ [r] \<and> a_action r = act \<and> a_target r = name"
    "\<exists>r \<in> set (secrets (tables s')). s_name r = name \<and> \<not> s_is_archived r \<and> row_plain E (kek_enc k) r = Some p"
proof -
  obtain t row s1 s2 where st: "s_name row = name" "\<not> s_is_archived row"
      "row_plain E (kek_enc k) row = Some p" "secrets_wf (archived name t (secrets (tables s)) @ [row])"
      "tables s1 = (tables s)\<lparr>secrets := archived name t (secrets (tables s)) @ [row]\<rparr>"
      "vault_log_success E k act name (s_version row) s1 = (Inr (), s2)" "tables s' = tables s2"
    using assms(1) unfolding stores_def by blast
  have row: "nul_free name" "s_version row \<le> INT_MAX"
    using wfD(1) [OF st(4), of row] st(1) by (auto simp: row_ok_def row_columns_ok_def)
  have "\<forall>r \<in> set (archived name t (secrets (tables s)) @ [row]). row_plain E (kek_enc k) r \<noteq> None"
    using assms(2) st(3) by (auto simp: keys_ok_def)
  note log = logged_keys_ok [OF st(6,5) assms(2,3) row assms(4) st(4) this]
  show "\<exists>r. audit_log (tables s') = audit_log (tables s) @ [r] \<and> a_action r = act \<and> a_target r = name"
    using log(5) st(7) by auto
  show "\<exists>r \<in> set (secrets (tables s')). s_name r = name \<and> \<not> s_is_archived r \<and> row_plain E (kek_enc k) r = Some p"
    using log(2) st(1-3,7) by (intro bexI [of _ row]) auto
qed

text \<open>What storing leaves: the tables still belong to the keys, and the name shows the new content.\<close>

lemma put_keeps:
  assumes put: "vault_put_with_options E name sec alg ttl s = (Inr (), s')"
    and s: "g_subkeys s = Some k" "keys_ok E k (tables s)" "log_room (tables s)" and E: "crypto_ok E" "hex_ok E"
  shows "keys_ok E k (tables s')" "session_of s' = session_of s" "g_db s' = g_db s" "\<not> in_txn s'" "name \<noteq> []"
    "spec_active (vault_abs E k (tables s') (lookup_name E k name)) = Some sec"
    "length (audit_log (tables s')) = Suc (length (audit_log (tables s)))"
    "secrets (tables s') \<noteq> []" "metadata (tables s') = metadata (tables s)"
proof -
  have wf: "secrets_wf (secrets (tables s))" using s(2) by (simp add: keys_ok_def)
  obtain st ex act where st: "vault_build_name_lookup E k name = Inr st" "stores E k st sec ex act s s'"
    using put_stores [OF put E wf] s(1) by auto
  note keep = stores_keys_ok [OF st(2) s(2,3) E(1)]
  show "keys_ok E k (tables s')" "session_of s' = session_of s" "\<not> in_txn s'" "metadata (tables s') = metadata (tables s)"
    using keep by simp_all
  have "stateless (run_op E undefined (Op_put name sec alg ttl))" by (rule run_op_stateless) simp
  then show "g_db s' = g_db s" by (rule stateless_state(2)) (use put in simp)
  show "name \<noteq> []" using st(1) by (auto simp: vault_build_name_lookup_def)
  show "spec_active (vault_abs E k (tables s') (lookup_name E k name)) = Some sec"
    using stores_abs [OF st(2) s(2,3) E(1)] lookup_name_eq [OF st(1)] by (simp add: spec_active_def spec_store_def Let_def)
  show "length (audit_log (tables s')) = Suc (length (audit_log (tables s)))" "secrets (tables s') \<noteq> []"
    using stores_log [OF st(2) s(2,3) E(1)] by auto
qed

text \<open>
  C3: What was stored is read back. After a successful storing, whatever was there before,
  \<open>vault_get\<close> returns the secret to the byte, or \<open>SM_ERR_INVALID_ARGUMENT\<close> when the buffer is
  too small; every other name reads as before.
\<close>

theorem put_get_roundtrip:
  assumes "vault_put_with_options E name secret alg ttl s = (Inr (), s')"
    and "vault_inv E s" "g_subkeys s = Some k" "g_unlocked s" "g_db s" "\<not> in_txn s"
    and "int (length (audit_log (tables s))) + 1 < INT_MAX" "healthy E" "crypto_ok E" "hex_ok E" "kdf_ok E"
  shows "fst (vault_get E name cap s') = (if length secret \<le> cap then Inr secret else Inl SM_ERR_INVALID_ARGUMENT) \<and>
    (other \<noteq> [] \<and> lookup_name E k other \<noteq> lookup_name E k name \<longrightarrow>
      fst (vault_get E other cap s') = fst (vault_get E other cap s))"
proof -
  note k = unlocked_keys [OF assms(2,3,11,6)]
  have room: "log_room (tables s)" using assms(7) by (simp add: log_room_def)
  note put = put_keeps [OF assms(1,3) k(1) room assms(9,10)]
  have room': "log_room (tables s')" using assms(7) put(7) by (simp add: log_room_def)
  have s': "g_subkeys s' = Some k" "g_unlocked s'" "g_db s'"
    using put(2,3) assms(3-5) by (auto simp: session_of_def)
  have get: "fst (vault_get E n cap x) = fst (vault_read_secret E k n None cap True x)"
    if "g_subkeys x = Some k" "g_unlocked x" for n x
    using that by (simp add: vault_get_def andthen_def vault_require_unlocked_def)
  note read = read_total [OF assms(8-10) _ _ _ k(2), where ver = None, simplified]
  have "fst (vault_get E name cap s') = (if length secret \<le> cap then Inr secret else Inl SM_ERR_INVALID_ARGUMENT)"
    using get [OF s'(1,2)] read [OF put(1) s'(3) room' put(5)] put(6) by simp
  moreover have "fst (vault_get E other cap s') = fst (vault_get E other cap s)"
    if "other \<noteq> []" "lookup_name E k other \<noteq> lookup_name E k name"
  proof -
    have "(vault_abs E k (tables s)) (lookup_name E k name := spec_store secret (vault_abs E k (tables s) (lookup_name E k name))) =
        vault_abs E k (tables s')"
      using put_refines [OF assms(1,3) k(1) room assms(9,10)] by simp
    from this [symmetric] that(2)
    have "vault_abs E k (tables s') (lookup_name E k other) = vault_abs E k (tables s) (lookup_name E k other)" by simp
    then show ?thesis
      using get [OF s'(1,2)] get [OF assms(3,4)] read [OF put(1) s'(3) room' that(1)] read [OF k(1) assms(5) room that(1)]
      by simp
  qed
  ultimately show ?thesis by blast
qed

text \<open>
  C12: A new secret can be stored. In an unlocked vault, when no call fails, the clock and the
  expiry stay within the years of the timestamp format and the random identifiers do not
  repeat, \<open>vault_put_with_options\<close> returns \<open>SM_OK\<close> for every clean name that has no row yet,
  every available algorithm and every secret of up to a gigabyte, and the secret is there.
\<close>

theorem create_succeeds:
  assumes "vault_inv E s" "g_subkeys s = Some k" "g_unlocked s" "g_db s" "\<not> in_txn s" "log_room (tables s)"
    and "healthy E" "crypto_ok E" "hex_ok E" "kdf_ok E"
    and "vault_name_is_clean name" "\<forall>r \<in> set (secrets (tables s)). s_name r \<noteq> lookup_name E k name"
    and "crypto_engine_select_algorithm E alg = Inr a" "length secret \<le> 1000000000"
    and "\<forall>t. clock E t + uint ttl < 253402300800" "fresh_ids E (secrets (tables s))"
  shows "\<exists>s'. vault_put_with_options E name secret alg ttl s = (Inr (), s') \<and> \<not> in_txn s' \<and>
    spec_active (abs_vault E (kek_enc k) (secrets (committed s')) (lookup_name E k name)) = Some secret"
proof -
  note k = unlocked_keys [OF assms(1,2,10,5)]
  obtain s' where put: "vault_put_with_options E name secret alg ttl s = (Inr (), s')"
    using put_total [OF assms(7-9,4,5) k(1) assms(6,2,3) k(2) assms(11-16)] by blast
  note kept = put_keeps [OF put assms(2) k(1) assms(6,8,9)]
  show ?thesis using put kept(4,6) by (intro exI [of _ s']) simp
qed


end
