(* ===== verification/Fuin_Vault_Reach.thy ===== *)
theory Fuin_Vault_Reach
  imports Fuin_Vault_Live
begin

text \<open>
  The theorems about whole runs of the vault, \<open>src/src/vault.c\<close>: the operations implement the
  abstract vault, and every reachable state is consistent; with a sample run that the
  theorems on the vault are evaluated on.
\<close>

section \<open>The vault implements its specification\<close>

lemma read_secret_closed:
  assumes "vault_read_secret E k name ver cap True s = (Inr p, s')" "secrets_wf (secrets (tables s))" "\<not> in_txn s"
  shows "\<not> in_txn s'"
proof -
  obtain st v s1 where "view s1 = view s" "vault_log_success E k ''READ'' st v s1 = (Inr (), s')"
    using read_secret_Inr [OF assms(1,2)] by metis
  then show ?thesis using log_success_saved assms(3) by (auto simp: in_txn_def view_def)
qed

lemma run_op_closed:
  assumes run: "run_op E J op s = (Inr (), s')" and k: "g_subkeys s = Some k" "keys_ok E k (tables s)" "length (kek_meta k) = 32"
    and side: "log_room (tables s)" "crypto_ok E" "hex_ok E" "\<not> in_txn s"
  shows "\<not> in_txn s'"
proof -
  have wf: "secrets_wf (secrets (tables s))" using k(2) by (simp add: keys_ok_def)
  have quiet': "\<not> in_txn s'" if "reads m" "m s = (Inr x, s')" for m :: "(vault, 'z) comp" and x
    using side(4) viewD(2) [OF reads_view [OF that]] by simp
  have quiet: "\<not> in_txn s'" if "reads m" "void m s = (Inr (), s')" for m :: "(vault, 'z) comp"
    using that(2) quiet' [OF that(1)] by (auto simp: void_Inr)
  show ?thesis
  proof (cases op)
    case (Op_put name sec alg ttl)
    then show ?thesis using run put_stores [OF _ side(2,3) wf] unfolding stores_def by fastforce
  next
    case (Op_get name cap)
    then show ?thesis using run read_secret_closed [OF _ wf side(4)] by (auto simp: void_Inr dest!: get_Inr)
  next
    case (Op_get_version name v cap)
    then show ?thesis using run read_secret_closed [OF _ wf side(4)] by (auto simp: void_Inr dest!: get_Inr)
  next
    case (Op_delete name)
    then show ?thesis using run by (auto elim!: delete_Inr [OF _ wf])
  next
    case (Op_rollback name v)
    then show ?thesis using run rollback_stores [OF _ side(2,3) wf] unfolding stores_def by fastforce
  next
    case (Op_rotate_kek pw)
    then show ?thesis using run rotate_kek_Inr [OF _ k(2,1) side(1,2) k(3)] by auto
  next
    case (Op_issue_token sub sc ttl cap)
    then show ?thesis
      using run log_success_saved side(4) by (force simp: void_Inr in_txn_def view_def dest!: issue_token_Inr)
  next
    case Op_revoke_tokens
    then show ?thesis using run revoke_tokens_Inr by auto
  next
    case (Op_get_active_version name)
    then show ?thesis using run quiet [OF reads_operations(8)] by simp
  next
    case (Op_list inc cb)
    then show ?thesis using run quiet [OF reads_operations(1)] by simp
  next
    case (Op_check_expiry w cb)
    then show ?thesis using run quiet [OF reads_operations(2)] by simp
  next
    case Op_security_report
    then show ?thesis using run quiet [OF reads_operations(3)] by simp
  next
    case Op_audit_verify
    then show ?thesis using run quiet' [OF reads_operations(4)] by simp
  next
    case Op_audit_merkle_root
    then show ?thesis using run quiet [OF reads_operations(5)] by simp
  next
    case (Op_audit_merkle_proof i cap)
    then show ?thesis using run quiet [OF reads_operations(6)] by simp
  next
    case (Op_check_token tok req)
    then show ?thesis using run quiet' [OF reads_operations(10)] by simp
  qed
qed

text \<open>
  C1: The vault implements its specification. Seen through decryption under the unlocked
  keys, every operation that returns \<open>SM_OK\<close> does to the durable tables exactly what the
  abstract vault does: storing and rolling back add the next version, deleting hides the
  active one, and everything else, rotating the master password included, changes no
  content. The keys may be new afterwards, the stored form of the names is not.
\<close>

theorem operation_refines_spec:
  assumes "run_op E J op s = (Inr (), s')" "vault_inv E s" "g_subkeys s = Some k" "\<not> in_txn s" "log_room (committed s)"
    and "op_ok op" "crypto_ok E" "hex_ok E" "kdf_ok E"
  shows "\<exists>k'. g_subkeys s' = Some k' \<and> lookup_name E k' = lookup_name E k \<and> \<not> in_txn s' \<and>
    spec_op (lookup_name E k) op (abs_vault E (kek_enc k) (secrets (committed s))) =
      Some (abs_vault E (kek_enc k') (secrets (committed s')))"
proof -
  note k = unlocked_keys [OF assms(2,3,9,4)]
  have room: "log_room (tables s)" using assms(4,5) by simp
  obtain k' where k': "g_subkeys s' = Some k'" "kek_meta k' = kek_meta k"
      "spec_op (lookup_name E k) op (vault_abs E k (tables s)) = Some (vault_abs E k' (tables s'))"
    using run_op_refines [OF assms(1,3) k(1,3) room assms(6-8)] by blast
  have "lookup_name E k' = lookup_name E k"
    using k'(2) by (simp add: fun_eq_iff lookup_name_def vault_build_name_lookup_def)
  then show ?thesis
    using k'(1,3) assms(4) run_op_closed [OF assms(1,3) k(1,3) room assms(7,8,4)] by (intro exI [of _ k']) simp
qed

section \<open>Every reachable vault is consistent\<close>

lemma reachable_inv:
  assumes "vault_reachable E J s" "crypto_ok E" "hex_ok E" "kdf_ok E" "verifier_binds E"
  shows "run_inv E s"
  using assms(1)
proof (induction rule: vault_reachable.induct)
  case (created s)
  then show ?case by (simp add: run_inv_def committed_def)
next
  case (step s s')
  then show ?case using step_inv assms(2-5) by blast
qed

text \<open>
  C2: A vault stays consistent over every run. Whatever sequence of operations, unlockings,
  rotations, closings and crashes led to a state, and whatever statements failed on the way, the
  durable tables are either those of a vault that was never unlocked, or there is a password
  that opens them with keys under which every version of every secret decrypts and the audit
  log verifies, and unlocked keys are these keys.
\<close>

theorem reachable_vault_consistent:
  assumes "vault_reachable E J s" "crypto_ok E" "hex_ok E" "kdf_ok E" "verifier_binds E"
  shows "(g_subkeys s = None \<and> secrets (committed s) = [] \<and> audit_log (committed s) = []) \<or>
    (\<exists>pw k. opens E pw k (committed s) \<and> (g_subkeys s = None \<or> g_subkeys s = Some k) \<and>
      (\<forall>r \<in> set (secrets (committed s)). \<exists>p. row_plain E (kek_enc k) r = Some p) \<and>
      audit_verify_rows E zero_hash (kek_audit k) (audit_rows (committed s)) = Inr ())"
  using reachable_inv [OF assms]
  by (fastforce simp: run_inv_def vault_inv_def keys_ok_def fresh_tables_def audit_wf_def chain_ok_def)

lemma row_ok_typed:
  "row_ok r \<Longrightarrow> 1 \<le> s_version r \<and> s_version r \<le> INT_MAX \<and> 0 \<le> s_nonce_counter r \<and> s_nonce_counter r \<le> INT64_MAX \<and>
      s_algorithm r \<in> set schema_algorithms \<and> s_name r \<noteq> [] \<and> length (s_id r) < UTILS_UUID_V4_BUFFER_LEN \<and>
      s_ciphertext r \<noteq> [] \<and> s_encrypted_dek r \<noteq> [] \<and> length (s_nonce r) \<le> 32 \<and> length (s_dek_nonce r) \<le> 32 \<and>
      length (s_key_commitment r) = 64"
  by (auto simp: row_ok_def row_columns_ok_def vault_copy_secret_row_def and_then_eq_Inr vault_copy_text_column_def
      vault_column_blob_size_def vault_copy_blob_column_def CRYPTO_ENGINE_COMMITMENT_BYTES_def
      KEY_MANAGER_MAX_NONCE_BYTES_def split: if_splits)

text \<open>
  C13: The rows of a reachable vault keep their types and their order. Versions and nonce
  counters are in range and used once per name, identifiers are unique, the algorithm is one
  the schema admits, no column of the envelope is empty or too long for the buffer it is read
  into, and the row that is not archived is the only one of its name and carries its highest
  version.
\<close>

theorem reachable_rows_typed:
  assumes "vault_reachable E J s" "crypto_ok E" "hex_ok E" "kdf_ok E" "verifier_binds E"
  defines "rows \<equiv> secrets (committed s)"
  shows "(\<forall>r \<in> set rows. 1 \<le> s_version r \<and> s_version r \<le> INT_MAX \<and> 0 \<le> s_nonce_counter r \<and> s_nonce_counter r \<le> INT64_MAX \<and>
      s_algorithm r \<in> set schema_algorithms \<and> s_name r \<noteq> [] \<and> length (s_id r) < UTILS_UUID_V4_BUFFER_LEN \<and>
      s_ciphertext r \<noteq> [] \<and> s_encrypted_dek r \<noteq> [] \<and> length (s_nonce r) \<le> 32 \<and> length (s_dek_nonce r) \<le> 32 \<and>
      length (s_key_commitment r) = 64) \<and>
    distinct (map s_id rows) \<and> distinct (map (\<lambda>r. (s_name r, s_version r)) rows) \<and>
    distinct (map (\<lambda>r. (s_name r, s_nonce_counter r)) rows) \<and>
    (\<forall>r \<in> set rows. \<forall>x \<in> set rows. \<not> s_is_archived r \<and> s_name x = s_name r \<longrightarrow>
      s_version x \<le> s_version r \<and> (\<not> s_is_archived x \<longrightarrow> x = r))"
proof -
  have wf: "secrets_wf rows"
    using reachable_inv [OF assms(1-5)] by (auto simp: rows_def run_inv_def vault_inv_def keys_ok_def fresh_tables_def)
  have "\<forall>r \<in> set rows. \<forall>x \<in> set rows. \<not> s_is_archived r \<and> s_name x = s_name r \<longrightarrow>
      s_version x \<le> s_version r \<and> (\<not> s_is_archived x \<longrightarrow> x = r)"
    using wfD(5) [OF wf] wf_unique_active [OF wf] by blast
  with wf show ?thesis by (intro conjI ballI row_ok_typed wfD(1-4) [OF wf]) blast+
qed

section \<open>A sample run\<close>

definition calm_env :: env where
  "calm_env = sample_env\<lparr>clock := (\<lambda>_. 1719792000)\<rparr>"

definition sample_created :: vault where
  "sample_created = \<lparr>tick = 0, g_db = True,
     tables = \<lparr>secrets = [], audit_log = [], metadata = Map.empty, auth_failures = []\<rparr>, saved = None,
     g_subkeys = None, g_unlocked = False\<rparr>"

definition sample_keys :: kdf_subkeys where
  "sample_keys = \<lparr>
     kek_enc = [113, 120] @ replicate 16 3 @ replicate 14 1, kek_audit = [114, 121] @ replicate 16 4 @ replicate 14 2,
     kek_token = [115, 122] @ replicate 16 5 @ replicate 14 3, kek_meta = [116, 123] @ replicate 16 6 @ replicate 14 4\<rparr>"

definition sample_unlocked :: vault where
  "sample_unlocked = \<lparr>tick = 14, g_db = True,
     tables = \<lparr>secrets = [], audit_log = [], metadata = Map.empty(
       VAULT_METADATA_SALT \<mapsto> replicate 16 2, VAULT_METADATA_VERIFIER \<mapsto> [112, 119] @ replicate 16 2 @ replicate 14 0,
       VAULT_METADATA_META_KEY_NONCE \<mapsto> replicate 24 8,
       VAULT_METADATA_META_KEY_WRAPPED \<mapsto> kek_meta sample_keys @ replicate 16 113), auth_failures = []\<rparr>, saved = None,
     g_subkeys = Some sample_keys, g_unlocked = True\<rparr>"

lemma calm_env_ok: "crypto_ok calm_env" "hex_ok calm_env" "kdf_ok calm_env" "verifier_binds calm_env" "healthy calm_env"
proof -
  show "crypto_ok calm_env"
    using sample_hashes_ok sample_aead_ok sample_random_ok
    by (simp add: crypto_ok_def calm_env_def sha256_ok_def auth_ok_def generichash_ok_def aead_ok_def random_ok_def)
  show "hex_ok calm_env" using sample_hex_ok by (simp add: hex_ok_def calm_env_def)
  show "kdf_ok calm_env" by (simp add: kdf_ok_def calm_env_def sample_env_def)
  show "verifier_binds calm_env" by (auto simp: verifier_binds_def calm_env_def sample_env_def fit32_def)
  show "healthy calm_env" by (simp add: healthy_def calm_env_def sample_env_def)
qed

lemma sample_unlocked_run: "vault_unlock calm_env ''pw'' sample_created = (Inr (), sample_unlocked)"
proof -
  let ?run = "vault_unlock calm_env ''pw'' sample_created"
  have ok: "fst ?run = Inr ()" by code_simp
  then have "vault_unlock_internal calm_env ''pw'' True sample_created = (Inr (), snd ?run)"
    by (metis prod.collapse vault_unlock_def)
  then obtain salt ver n w where m: "metadata (tables (snd ?run)) = Map.empty(VAULT_METADATA_SALT \<mapsto> salt,
      VAULT_METADATA_VERIFIER \<mapsto> ver, VAULT_METADATA_META_KEY_NONCE \<mapsto> n, VAULT_METADATA_META_KEY_WRAPPED \<mapsto> w)"
  proof (cases rule: unlock_cases)
    case (unlocked k s0 s1)
    have "metadata (tables s0) = Map.empty" using unlocked(4) by (simp add: sample_created_def)
    with unlock_body_fresh [OF unlocked(6,2) _ calm_env_ok(1,3)] that unlocked(7) show ?thesis by auto
  qed simp_all
  have "map (metadata (tables (snd ?run))) [VAULT_METADATA_SALT, VAULT_METADATA_VERIFIER, VAULT_METADATA_META_KEY_NONCE,
      VAULT_METADATA_META_KEY_WRAPPED] =
    map (metadata (tables sample_unlocked)) [VAULT_METADATA_SALT, VAULT_METADATA_VERIFIER, VAULT_METADATA_META_KEY_NONCE,
      VAULT_METADATA_META_KEY_WRAPPED]"
    by code_simp
  then have meta: "metadata (tables (snd ?run)) = metadata (tables sample_unlocked)"
    by (simp add: m sample_unlocked_def credential_keys)
  have rest: "tick (snd ?run) = tick sample_unlocked" "g_db (snd ?run) = g_db sample_unlocked"
      "secrets (tables (snd ?run)) = secrets (tables sample_unlocked)"
      "audit_log (tables (snd ?run)) = audit_log (tables sample_unlocked)"
      "auth_failures (tables (snd ?run)) = auth_failures (tables sample_unlocked)" "\<not> in_txn (snd ?run)"
      "g_subkeys (snd ?run) = g_subkeys sample_unlocked" "g_unlocked (snd ?run) = g_unlocked sample_unlocked"
    by code_simp+
  have "snd ?run = sample_unlocked"
    by (rule vault.equality) (use rest meta in \<open>auto intro: db.equality simp: in_txn_def sample_unlocked_def\<close>)
  then show ?thesis using ok by (metis prod.collapse)
qed

lemma sample_reachable: "vault_reachable calm_env sample_json sample_unlocked"
proof -
  have "vault_reachable calm_env sample_json sample_created"
    by (rule created) (simp_all add: sample_created_def fresh_tables_def)
  then show ?thesis
    by (rule vault_reachable.step) (rule step_unlock [OF sample_unlocked_run], simp add: sample_created_def in_txn_def)
qed

lemma sample_unlocked_simps [simp]:
  "g_subkeys sample_unlocked = Some sample_keys" "g_unlocked sample_unlocked" "g_db sample_unlocked" "\<not> in_txn sample_unlocked"
  "secrets (tables sample_unlocked) = []" "audit_log (tables sample_unlocked) = []" "log_room (tables sample_unlocked)"
  by (simp_all add: sample_unlocked_def in_txn_def log_room_def INT_MAX_def)

lemma sample_inv: "vault_inv calm_env sample_unlocked"
  using reachable_inv [OF sample_reachable calm_env_ok(1-4)] by (simp add: run_inv_def)

definition sample_put :: vault_op where
  "sample_put = Op_put ''a'' [1, 2] None 0"

definition sample_stored :: vault where
  "sample_stored = snd (run_op calm_env sample_json sample_put sample_unlocked)"

lemma sample_clock: "clock calm_env t = 1719792000"
  by (simp add: calm_env_def)

lemma sample_put_runs: "vault_put_with_options calm_env ''a'' [1, 2] None 0 sample_unlocked = (Inr (), sample_stored)"
proof -
  note k = unlocked_keys [OF sample_inv sample_unlocked_simps(1) calm_env_ok(3) sample_unlocked_simps(4)]
  have "vault_name_is_clean ''a''" by code_simp
  moreover have "\<exists>a. crypto_engine_select_algorithm calm_env None = Inr a" by (simp add: crypto_engine_select_algorithm_def)
  ultimately have "\<exists>s'. vault_put_with_options calm_env ''a'' [1, 2] None 0 sample_unlocked = (Inr (), s')"
    using put_total [OF calm_env_ok(5,1,2) _ _ k(1) _ _ _ k(2)] by (auto simp: fresh_ids_def sample_clock)
  then show ?thesis by (auto simp: sample_stored_def sample_put_def)
qed

lemma sample_stored_keeps:
  "keys_ok calm_env sample_keys (tables sample_stored)" "g_subkeys sample_stored = Some sample_keys" "g_unlocked sample_stored"
  "g_db sample_stored" "\<not> in_txn sample_stored" "length (audit_log (tables sample_stored)) = 1"
  "secrets (tables sample_stored) \<noteq> []"
  "spec_active (vault_abs calm_env sample_keys (tables sample_stored) (lookup_name calm_env sample_keys ''a'')) = Some [1, 2]"
proof -
  note k = unlocked_keys [OF sample_inv sample_unlocked_simps(1) calm_env_ok(3) sample_unlocked_simps(4)]
  note put_keeps [OF sample_put_runs sample_unlocked_simps(1) k(1) sample_unlocked_simps(7) calm_env_ok(1,2)]
  then show "keys_ok calm_env sample_keys (tables sample_stored)" "g_subkeys sample_stored = Some sample_keys" "g_unlocked sample_stored"
    "g_db sample_stored" "\<not> in_txn sample_stored" "length (audit_log (tables sample_stored)) = 1"
    "secrets (tables sample_stored) \<noteq> []"
    "spec_active (vault_abs calm_env sample_keys (tables sample_stored) (lookup_name calm_env sample_keys ''a'')) = Some [1, 2]"
    by (auto simp: session_of_def)
qed

lemma sample_stored_reachable: "vault_reachable calm_env sample_json sample_stored"
proof -
  have "run_op calm_env sample_json sample_put sample_unlocked = (Inr (), sample_stored)"
    using sample_put_runs by (simp add: sample_put_def)
  then show ?thesis
    by (intro vault_reachable.step [OF sample_reachable] step_op [where op = sample_put]) (simp_all add: op_ok_def sample_put_def)
qed

section \<open>The theorems on the sample run\<close>

theorem reachable_vault_consistent_witness:
  "secrets (committed sample_stored) \<noteq> [] \<and>
    list_all (\<lambda>r. row_plain calm_env (kek_enc sample_keys) r \<noteq> None) (secrets (committed sample_stored)) \<and>
    audit_verify_rows calm_env zero_hash (kek_audit sample_keys) (audit_rows (committed sample_stored)) = Inr ()"
  using reachable_vault_consistent [OF sample_stored_reachable calm_env_ok(1-4)] sample_stored_keeps(2,5,7) by (auto simp: list_all_iff)

theorem reachable_rows_typed_witness:
  "\<exists>r \<in> set (secrets (committed sample_stored)). 1 \<le> s_version r \<and> s_algorithm r \<in> set schema_algorithms"
proof -
  have "hd (secrets (committed sample_stored)) \<in> set (secrets (committed sample_stored))"
    using sample_stored_keeps(5,7) by simp
  then show ?thesis
    using reachable_rows_typed [OF sample_stored_reachable calm_env_ok(1-4)] by blast
qed

theorem operation_refines_spec_witness:
  "\<exists>k'. g_subkeys sample_stored = Some k' \<and>
    spec_op (lookup_name calm_env sample_keys) sample_put (abs_vault calm_env (kek_enc sample_keys) []) =
      Some (abs_vault calm_env (kek_enc k') (secrets (committed sample_stored)))"
  using operation_refines_spec [of calm_env sample_json sample_put sample_unlocked sample_stored sample_keys]
    sample_put_runs sample_inv calm_env_ok by (auto simp: sample_put_def op_ok_def)

theorem read_returns_content_witness:
  "fst (vault_get calm_env ''a'' 64 sample_stored) = Inr [1, 2] \<and> fst (vault_get calm_env ''b'' 64 sample_unlocked) = Inl SM_ERR_NOT_FOUND"
proof -
  have inv: "vault_inv calm_env sample_stored"
    using reachable_inv [OF sample_stored_reachable calm_env_ok(1-4)] sample_stored_keeps(2) by (simp add: run_inv_def)
  have "fst (vault_get calm_env ''a'' 64 sample_stored) = Inr [1, 2]"
    using read_returns_content [OF inv sample_stored_keeps(2-5) _ calm_env_ok(5,1,2,3), of "''a''" 64] sample_stored_keeps(6,8)
    by (simp add: log_room_def INT_MAX_def)
  moreover have "fst (vault_get calm_env ''b'' 64 sample_unlocked) = Inl SM_ERR_NOT_FOUND"
    using read_returns_content [OF sample_inv sample_unlocked_simps(1-4,7) calm_env_ok(5,1,2,3), of "''b''" 64]
    by (simp add: abs_vault_def spec_active_def)
  ultimately show ?thesis by blast
qed

theorem put_get_roundtrip_witness:
  "fst (vault_get calm_env ''a'' 64 sample_stored) = Inr [1, 2] \<and> fst (vault_get calm_env ''a'' 1 sample_stored) = Inl SM_ERR_INVALID_ARGUMENT"
  using put_get_roundtrip [OF sample_put_runs sample_inv sample_unlocked_simps(1-4) _ calm_env_ok(5,1,2,3), of 64]
    put_get_roundtrip [OF sample_put_runs sample_inv sample_unlocked_simps(1-4) _ calm_env_ok(5,1,2,3), of 1]
  by (simp add: INT_MAX_def)

theorem create_succeeds_witness:
  "\<exists>s'. vault_put_with_options calm_env ''b'' [7] (Some ''AES-256-GCM'') 3600 sample_unlocked = (Inr (), s') \<and> \<not> in_txn s'"
proof -
  have "vault_name_is_clean ''b''" by code_simp
  moreover have "\<exists>a. crypto_engine_select_algorithm calm_env (Some ''AES-256-GCM'') = Inr a"
    by (simp add: crypto_engine_select_algorithm_def algorithm_from_name crypto_engine_algorithm_is_available_def calm_env_def
        sample_env_def)
  ultimately show ?thesis
    using create_succeeds [OF sample_inv sample_unlocked_simps(1-4,7) calm_env_ok(5,1,2,3),
        of "''b''" "Some ''AES-256-GCM''" _ "[7]" 3600]
    by (auto simp: fresh_ids_def sample_clock)
qed

end
