(* ===== verification/Fuin_Vault_Expiry.thy ===== *)
theory Fuin_Vault_Expiry
  imports Fuin_Vault_Reach
begin

text \<open>
  The automatic rotation of expired secrets, \<open>vault_auto_rotate_expired\<close> of
  \<open>src/src/vault.c\<close>: which rows are due, what one round of its loop does to them, and that
  the loop ends when the clock does not run backwards.
\<close>

section \<open>Expired secrets\<close>

lemma of_char_nonneg: "0 \<le> (of_char c :: int)"
  using of_nat_of_char [of c, where 'a = int] by (metis of_nat_0_le_iff)

lemma of_char_pos: "c \<noteq> CHR 0x00 \<Longrightarrow> 0 < (of_char c :: int)"
proof -
  assume c: "c \<noteq> CHR 0x00"
  have "(of_char c :: nat) \<noteq> 0"
  proof
    assume "(of_char c :: nat) = 0"
    then have "c = char_of (0 :: nat)" by (metis char_of_char)
    then show False using c by (simp add: char_of_def)
  qed
  then show ?thesis by (metis of_nat_0_less_iff of_nat_of_char gr0I)
qed

lemma strcmp_trans:
  "strcmp a b \<le> 0 \<Longrightarrow> strcmp b c \<le> 0 \<Longrightarrow> nul_free a \<Longrightarrow> nul_free b \<Longrightarrow> strcmp a c \<le> 0"
proof (induction a b arbitrary: c rule: strcmp.induct)
  case (4 x xs y ys)
  then show ?case by (cases c) (auto split: if_splits)
next
  case (2 y ys)
  then show ?case by (cases c) (auto simp: of_char_nonneg)
qed (auto dest: of_char_pos)

lemma distinct_singleton:
  assumes "distinct xs" "set xs = {r}"
  shows "xs = [r]"
proof (cases xs)
  case (Cons a as)
  then have "a = r" "set as \<subseteq> {r}" "r \<notin> set as" using assms by auto
  then show ?thesis using Cons by (cases as) auto
qed (use assms in simp)

text \<open>
  The rows an expiry check selects, in a well-formed table, and how storing a version that is
  not yet due changes them: the row of its name leaves.
\<close>

definition due :: "string \<Rightarrow> secret_row \<Rightarrow> bool" where
  "due limit r \<longleftrightarrow> \<not> s_is_archived r \<and> (case s_expires_at r of None \<Rightarrow> False | Some t \<Rightarrow> strcmp t limit \<le> 0)"

lemma expired_due: "secrets_wf (secrets d) \<Longrightarrow> expired_rows limit d = filter (due limit) (secrets d)"
  unfolding expired_rows_def due_def by (rule filter_cong) (auto simp: wf_active_row)

lemma due_renewed:
  assumes wf: "secrets_wf rows" and r: "r \<in> set rows" "s_name r = name" "due limit r" and new: "\<not> due limit row"
  shows "Suc (length (filter (due limit) (archived name t rows @ [row]))) = length (filter (due limit) rows)"
    "set (filter (due limit) (archived name t rows @ [row])) = {x \<in> set (filter (due limit) rows). s_name x \<noteq> name}"
proof -
  let ?f = "\<lambda>r. if s_name r = name \<and> \<not> s_is_archived r then r\<lparr>s_is_archived := True, s_updated_at := t\<rparr> else r"
  have f: "due limit (?f x) \<longleftrightarrow> due limit x \<and> s_name x \<noteq> name" for x by (auto simp: due_def)
  have kept: "filter (due limit) (archived name t rows @ [row]) = filter (\<lambda>x. due limit x \<and> s_name x \<noteq> name) rows"
  proof -
    have "filter (due limit) (map ?f rows) = map ?f (filter (\<lambda>x. due limit x \<and> s_name x \<noteq> name) rows)"
      unfolding filter_map comp_def f ..
    also have "\<dots> = filter (\<lambda>x. due limit x \<and> s_name x \<noteq> name) rows" by (rule map_idI) auto
    finally show ?thesis using new by simp
  qed
  have one: "filter (\<lambda>x. due limit x \<and> s_name x = name) rows = [r]"
  proof -
    let ?xs = "filter (\<lambda>x. due limit x \<and> s_name x = name) rows"
    have d: "distinct ?xs" using wfD(2) [OF wf] by (simp add: distinct_map)
    have "x = r" if "x \<in> set ?xs" for x
    proof (rule wf_unique_active [OF wf r(1)])
      show "x \<in> set rows" "\<not> s_is_archived r" "\<not> s_is_archived x" "s_name x = s_name r"
        using that r(2,3) by (auto simp: due_def)
    qed
    moreover have "r \<in> set ?xs" using r by simp
    ultimately have "set ?xs = {r}" by blast
    then show ?thesis using distinct_singleton [OF d] by blast
  qed
  have "length (filter (due limit) rows) = length (filter (\<lambda>x. due limit x \<and> s_name x = name) rows) +
      length (filter (\<lambda>x. due limit x \<and> s_name x \<noteq> name) rows)"
    by (rule sum_length_filter_compl [of "\<lambda>x. s_name x = name" "filter (due limit) rows", symmetric, unfolded filter_filter])
  then show "Suc (length (filter (due limit) (archived name t rows @ [row]))) = length (filter (due limit) rows)"
    unfolding kept one by simp
  show "set (filter (due limit) (archived name t rows @ [row])) = {x \<in> set (filter (due limit) rows). s_name x \<noteq> name}"
    unfolding kept by auto
qed

text \<open>An expiry that a renewed row cannot loop on: a text, and an interval of 64 bits.\<close>

definition timely :: "secret_row \<Rightarrow> bool" where
  "timely r \<longleftrightarrow> (\<forall>t. s_expires_at r = Some t \<longrightarrow> t \<noteq> [] \<and> nul_free t) \<and>
     (\<forall>i. s_rotation_interval r = Some i \<longrightarrow> i \<le> INT64_MAX)"

definition monotone_clock :: "env \<Rightarrow> bool" where
  "monotone_clock E \<longleftrightarrow> (\<forall>t t'. t \<le> t' \<longrightarrow> clock E t \<le> clock E t') \<and> (\<forall>t. 0 \<le> clock E t \<and> clock E t \<le> INT64_MAX)"

lemma now_format:
  assumes "utils_now_iso8601 E UTILS_ISO8601_UTC_BUFFER_LEN s = (Inr now, s')"
  shows "utils_format_iso8601 (clock E (tick s)) UTILS_ISO8601_UTC_BUFFER_LEN = Inr now"
  using assms by (auto simp: utils_now_iso8601_def andthen_eq_Inr split: if_splits)

text \<open>The expiry of a renewed row lies after every earlier reading of the clock.\<close>

lemma renewed_not_due:
  assumes limit: "utils_format_iso8601 (clock E t0) UTILS_ISO8601_UTC_BUFFER_LEN = Inr limit" "t0 \<le> tick s"
    and clock: "monotone_clock E" and ex: "vault_expiry_for E i s = (Inr (Some t), s')" and i: "i \<le> INT64_MAX"
  shows "\<not> strcmp t limit \<le> 0"
proof -
  have pos: "0 < i" and run: "utils_now_plus_seconds_iso8601 E (of_int i) UTILS_ISO8601_UTC_BUFFER_LEN s = (Inr t, s')"
    using ex by (auto simp: vault_expiry_for_def andthen_eq_Inr split: if_splits)
  have c: "0 \<le> clock E (tick s)" "clock E (tick s) \<le> INT64_MAX" "clock E t0 \<le> clock E (tick s)" "0 \<le> clock E t0"
    using clock limit(2) by (auto simp: monotone_clock_def)
  have u: "uint (of_int i :: 64 word) = i" using pos i by (simp add: INT64_MAX_def unsigned_of_int take_bit_int_eq_self)
  have "utils_format_iso8601 (clock E (tick s) + i) UTILS_ISO8601_UTC_BUFFER_LEN = Inr t"
    using now_plus_seconds_Inr [OF run c(1,2)] u by simp
  from iso8601_strcmp [OF this _ limit(1) c(4)] show ?thesis using c pos by simp
qed

lemma read_metadata_interval:
  "vault_read_metadata r = Inr m \<Longrightarrow> md_rotation_interval m = column_int64 (s_rotation_interval r)"
  by (auto simp: vault_read_metadata_def and_then_eq_Inr Let_def split: if_splits)

lemma find_next_Inr:
  assumes "vault_find_next_expired_secret E limit s = (Inr found, s1)" "secrets_wf (secrets (tables s))"
  shows "case found of None \<Rightarrow> expired_rows limit (tables s) = []
    | Some name \<Rightarrow> \<exists>r \<in> set (expired_rows limit (tables s)). name = s_name r"
proof -
  let ?rows = "order_expired (expired_rows limit (tables s))"
  have set: "set ?rows = set (expired_rows limit (tables s))" by (simp add: order_expired_def)
  have nf: "c_str (s_name r) = s_name r" if "r \<in> set (expired_rows limit (tables s))" for r
    using that wfD(1) [OF assms(2), of r] by (auto simp: expired_rows_def row_ok_def row_columns_ok_def)
  show ?thesis
  proof (cases ?rows)
    case Nil
    then show ?thesis
      using assms(1) set by (auto simp: vault_find_next_expired_secret_def andthen_eq_Inr select_eq_Inr)
  next
    case (Cons r rs)
    then have "r \<in> set (expired_rows limit (tables s))" using set by auto
    then show ?thesis
      using assms(1) Cons nf
      by (auto simp: vault_find_next_expired_secret_def andthen_eq_Inr select_eq_Inr split: if_splits)
  qed
qed

text \<open>
  What a rotation promises to the user of the vault: every name of a set gets one more version,
  with the content that was active, and this version is active now; the older versions and all
  other names stay.
\<close>

definition spec_renew :: "string set \<Rightarrow> abstract_vault \<Rightarrow> abstract_vault" where
  "spec_renew N a = (\<lambda>name. if name \<in> N
     then (case spec_active (a name) of None \<Rightarrow> a name | Some p \<Rightarrow> spec_store p (a name)) else a name)"

lemma spec_renew_empty [simp]: "spec_renew {} a = a"
  by (simp add: spec_renew_def)

lemma spec_renew_insert: "name \<notin> N \<Longrightarrow> spec_renew N (spec_renew {name} a) = spec_renew (insert name N) a"
  by (rule ext) (simp add: spec_renew_def)

text \<open>A rotated secret is not lost: the name still shows the content it had.\<close>

lemma spec_renew_active: "spec_active (spec_renew N a name) = spec_active (a name)"
  by (simp add: spec_renew_def spec_store_def spec_active_def Let_def split: option.split)

text \<open>The tables after the secrets of a list of names were renewed, with one row of the log for each.\<close>

definition renewed :: "env \<Rightarrow> kdf_subkeys \<Rightarrow> string list \<Rightarrow> db \<Rightarrow> db \<Rightarrow> bool" where
  "renewed E k names d d' \<longleftrightarrow> distinct names \<and> vault_abs E k d' = spec_renew (set names) (vault_abs E k d) \<and>
     metadata d' = metadata d \<and>
     (\<exists>log. audit_log d' = audit_log d @ log \<and> map a_target log = names \<and> (\<forall>a \<in> set log. a_action a = ''ROTATE_DEK''))"

lemma renewed_none: "renewed E k [] d d"
  by (simp add: renewed_def)

lemma renewed_Cons:
  assumes "renewed E k [name] d d1" "renewed E k names d1 d2" "name \<notin> set names"
  shows "renewed E k (name # names) d d2"
proof -
  obtain a log where "audit_log d1 = audit_log d @ [a]" "a_target a = name" "a_action a = ''ROTATE_DEK''"
    "audit_log d2 = audit_log d1 @ log" "map a_target log = names" "\<forall>a \<in> set log. a_action a = ''ROTATE_DEK''"
    using assms(1,2) by (auto simp: renewed_def)
  then show ?thesis using assms spec_renew_insert [OF assms(3)] by (auto simp: renewed_def)
qed

text \<open>Storing the active content again renews the name.\<close>

lemma stores_renewed:
  assumes "stores E k name p ex ''ROTATE_DEK'' s s'" "keys_ok E k (tables s)" "log_room (tables s)" "crypto_ok E"
    and "r \<in> set (secrets (tables s))" "s_name r = name" "\<not> s_is_archived r" "row_plain E (kek_enc k) r = Some p"
  shows "renewed E k [name] (tables s) (tables s')"
proof -
  have wf: "secrets_wf (secrets (tables s))" using assms(2) by (simp add: keys_ok_def)
  have "spec_active (vault_abs E k (tables s) name) = Some p"
    using abs_active [OF wf assms(5,7)] abs_version [OF wf assms(5)] assms(6,8) by (simp add: spec_active_def)
  then have "vault_abs E k (tables s') = spec_renew {name} (vault_abs E k (tables s))"
    unfolding stores_abs [OF assms(1-4)] by (intro ext) (simp add: spec_renew_def)
  then show ?thesis
    using stores_log(1) [OF assms(1-4)] stores_keys_ok [OF assms(1-4)] by (auto simp: renewed_def)
qed

text \<open>
  One round of the loop, when it does not fail: the secret it selected is renewed and no longer
  due, and no other row became due or ceased to be.
\<close>

lemma rotate_round:
  assumes limit: "utils_format_iso8601 (clock E t0) UTILS_ISO8601_UTC_BUFFER_LEN = Inr limit" "t0 \<le> tick s"
    and clock: "monotone_clock E"
    and find: "vault_find_next_expired_secret E limit s = (Inr (Some name), s1)"
    and rot: "vault_rotate_expired_secret E k name s1 = (Inr (), s2)"
    and ok: "crypto_ok E" "keys_ok E k (tables s)" "log_room (tables s)"
    and timely: "\<forall>r \<in> set (expired_rows limit (tables s)). timely r"
  shows "Suc (length (expired_rows limit (tables s2))) = length (expired_rows limit (tables s))"
    "keys_ok E k (tables s2)" "length (audit_log (tables s2)) = Suc (length (audit_log (tables s)))"
    "set (expired_rows limit (tables s2)) = {x \<in> set (expired_rows limit (tables s)). s_name x \<noteq> name}" "tick s \<le> tick s2"
    "name \<in> s_name ` set (expired_rows limit (tables s))" "renewed E k [name] (tables s) (tables s2)" "\<not> in_txn s2"
proof -
  have wf: "secrets_wf (secrets (tables s))" using ok(2) by (simp add: keys_ok_def)
  have f: "stateless (vault_find_next_expired_secret E limit)" by (rule stateless_leaf)
  have v: "view s1 = view s" by (rule view_steps, rule find)
  then have t1: "tables s1 = tables s" by (rule viewD(1))
  have ticks: "tick s \<le> tick s1" "tick s1 \<le> tick s2"
    using stateless_state(3) [OF f find] stateless_state(3) [OF stateless_operations(3) rot] by simp_all
  then show "tick s \<le> tick s2" by simp
  obtain r where r: "r \<in> set (expired_rows limit (tables s))" "name = s_name r"
    using find_next_Inr [OF find wf] by auto
  then show "name \<in> s_name ` set (expired_rows limit (tables s))" by blast
  have r': "r \<in> set (secrets (tables s))" "due limit r" using r(1) by (simp_all add: expired_due [OF wf])
  have nf: "nul_free name" using wfD(1) [OF wf r'(1)] r(2) by (simp add: row_ok_def row_columns_ok_def)
  obtain r0 m now s3 where r0: "r0 \<in> set (secrets (tables s))" "s_name r0 = name" "\<not> s_is_archived r0"
      "vault_read_metadata r0 = Inr m" "utils_now_iso8601 E UTILS_ISO8601_UTC_BUFFER_LEN s1 = (Inr now, s3)"
    and cases: "if (case md_expires_at m of None \<Rightarrow> True | Some t \<Rightarrow> \<not> vault_expiry_is_due t now) then view s2 = view s1
     else \<exists>p ex (se :: vault) se'. row_plain E (kek_enc k) r0 = Some p \<and> stores E k name p ex ''ROTATE_DEK'' s1 s2 \<and>
       tick s1 \<le> tick se \<and> vault_expiry_for E (md_rotation_interval m) se = (Inr ex, se')"
    using rotate_expired_stores [OF rot nf ok(1)] wf unfolding t1 by blast
  have "r0 = r"
    by (rule wf_unique_active [OF wf r'(1) r0(1)]) (use r0 r(2) r'(2) in \<open>simp_all add: due_def\<close>)
  obtain t where t: "s_expires_at r = Some t" "strcmp t limit \<le> 0" using r'(2) by (auto simp: due_def split: option.splits)
  have tm: "t \<noteq> []" "nul_free t" using timely r(1) t(1) by (auto simp: timely_def)
  have m: "md_expires_at m = Some t" "md_rotation_interval m \<le> INT64_MAX"
    using read_metadata_Inr [OF r0(4) wfD(1) [OF wf r0(1)]] read_metadata_interval [OF r0(4)] t(1) tm(2) timely r(1) \<open>r0 = r\<close>
    by (auto simp: timely_def column_int64_def INT64_MAX_def split: option.splits)
  have "strcmp limit now \<le> 0"
    using iso8601_strcmp [OF limit(1) _ now_format [OF r0(5)]] clock limit(2) ticks(1) by (simp add: monotone_clock_def)
  moreover have "nul_free limit" using format_iso8601_c_string [OF limit(1)] by simp
  ultimately have "vault_expiry_is_due t now"
    using strcmp_trans [OF t(2)] tm now_iso8601_c_string [OF r0(5)] by (simp add: vault_expiry_is_due_def)
  then obtain p ex and se se' :: vault where p: "row_plain E (kek_enc k) r0 = Some p" and st: "stores E k name p ex ''ROTATE_DEK'' s1 s2" "tick s1 \<le> tick se"
      "vault_expiry_for E (md_rotation_interval m) se = (Inr ex, se')"
    using cases m(1) by auto
  have ok1: "keys_ok E k (tables s1)" "log_room (tables s1)" using ok t1 by simp_all
  show "keys_ok E k (tables s2)" "\<not> in_txn s2" using stores_keys_ok [OF st(1) ok1 ok(1)] by simp_all
  show "renewed E k [name] (tables s) (tables s2)"
    using stores_renewed [OF st(1) ok1 ok(1), unfolded t1, OF r0(1-3) p] .
  show "length (audit_log (tables s2)) = Suc (length (audit_log (tables s)))"
    using stores_log(1) [OF st(1) ok1 ok(1)] t1 by auto
  obtain u row where row: "secrets (tables s2) = archived name u (secrets (tables s)) @ [row]" "\<not> due limit row"
  proof -
    obtain u row x1 x2 where x: "s_name row = name" "s_expires_at row = ex" "row_plain E (kek_enc k) row = Some p"
        "secrets_wf (archived name u (secrets (tables s1)) @ [row])"
        "tables x1 = (tables s1)\<lparr>secrets := archived name u (secrets (tables s1)) @ [row]\<rparr>"
        "vault_log_success E k ''ROTATE_DEK'' name (s_version row) x1 = (Inr (), x2)" "tables s2 = tables x2"
      using st(1) unfolding stores_def by blast
    have "row_ok row" by (rule wfD(1) [OF x(4)]) simp
    then have ver: "s_version row \<le> INT_MAX" by (simp add: row_ok_def row_columns_ok_def)
    have plain: "\<forall>y \<in> set (archived name u (secrets (tables s1)) @ [row]). row_plain E (kek_enc k) y \<noteq> None"
      using ok1(1) x(3) by (auto simp: keys_ok_def)
    have "secrets (tables s2) = archived name u (secrets (tables s1)) @ [row]"
      unfolding x(7) by (rule logged_keys_ok(2) [OF x(6,5) ok1 nf ver ok(1) x(4) plain])
    moreover have "\<not> due limit row"
    proof (cases ex)
      case (Some e)
      have "t0 \<le> tick se" using limit(2) ticks(1) st(2) by simp
      from renewed_not_due [OF limit(1) this clock _ m(2)] Some st(3) x(2) show ?thesis by (simp add: due_def)
    qed (use x(2) in \<open>simp add: due_def\<close>)
    ultimately show ?thesis unfolding t1 by (rule that)
  qed
  have "secrets_wf (secrets (tables s2))" using stores_keys_ok [OF st(1) ok1 ok(1)] by (simp add: keys_ok_def)
  note e = expired_due [OF this, of limit] expired_due [OF wf, of limit]
  show "Suc (length (expired_rows limit (tables s2))) = length (expired_rows limit (tables s))"
    unfolding e row(1) by (rule due_renewed(1) [OF wf r'(1) r(2) [symmetric] r'(2) row(2)])
  show "set (expired_rows limit (tables s2)) = {x \<in> set (expired_rows limit (tables s)). s_name x \<noteq> name}"
    unfolding e row(1) by (rule due_renewed(2) [OF wf r'(1) r(2) [symmetric] r'(2) row(2)])
qed

section \<open>The loop ends\<close>

lemma rotate_loop_ends:
  assumes limit: "utils_format_iso8601 (clock E t0) UTILS_ISO8601_UTC_BUFFER_LEN = Inr limit" and clock: "monotone_clock E"
    and ok: "crypto_ok E"
  shows "t0 \<le> tick s \<Longrightarrow> keys_ok E k (tables s) \<Longrightarrow> \<forall>r \<in> set (expired_rows limit (tables s)). timely r \<Longrightarrow>
    length (expired_rows limit (tables s)) = n \<Longrightarrow> int (length (audit_log (tables s)) + n) < INT_MAX \<Longrightarrow> \<not> in_txn s \<Longrightarrow>
    \<exists>r s' names. vault_rotate_loop E k limit rotated s = Some (r, s') \<and> renewed E k names (tables s) (committed s') \<and>
      set names \<subseteq> s_name ` set (expired_rows limit (tables s)) \<and>
      (\<forall>m. r = Inr m \<longrightarrow> m = rotated + n \<and> length names = n \<and> \<not> in_txn s' \<and>
         set names = s_name ` set (expired_rows limit (tables s)) \<and> expired_rows limit (tables s') = [])"
proof (induction n arbitrary: s rotated)
  case 0
  have wf: "secrets_wf (secrets (tables s))" using 0(2) by (simp add: keys_ok_def)
  obtain q s1 where find: "vault_find_next_expired_secret E limit s = (q, s1)" by fastforce
  have v: "view s1 = view s" by (rule view_steps, rule find)
  note same = viewD(1,2,4) [OF v] committed_closed [OF 0(6)]
  show ?case
  proof (cases q)
    case (Inr found)
    note f = find [unfolded Inr]
    have "found = None" using find_next_Inr [OF f wf] 0(4) by (auto split: option.splits)
    then show ?thesis
      using f 0(4,6) same by (subst vault_rotate_loop.simps) (auto intro!: exI [of _ "[]"] simp: renewed_none)
  qed (use find same in \<open>subst vault_rotate_loop.simps, auto intro!: exI [of _ "[]"] simp: renewed_none\<close>)
next
  case (Suc n)
  have wf: "secrets_wf (secrets (tables s))" using Suc(3) by (simp add: keys_ok_def)
  obtain q s1 where find: "vault_find_next_expired_secret E limit s = (q, s1)" by fastforce
  have v: "view s1 = view s" by (rule view_steps, rule find)
  note same = viewD(1,2,4) [OF v] committed_closed [OF Suc(7)]
  show ?case
  proof (cases q)
    case (Inl e)
    then show ?thesis
      using find same by (subst vault_rotate_loop.simps) (auto intro!: exI [of _ "[]"] simp: renewed_none)
  next
    case (Inr found)
    note f = find [unfolded Inr]
    obtain name where name: "found = Some name" using find_next_Inr [OF f wf] Suc(5) by (cases found) auto
    obtain r s2 where rot: "vault_rotate_expired_secret E k name s1 = (r, s2)" by fastforce
    show ?thesis
    proof (cases r)
      case (Inl e)
      then have "committed s2 = committed s1"
        using rot atomic_operations(5) Suc(7) same(2) by (auto simp: atomic_def)
      then show ?thesis
        using Inl f name rot same
        by (subst vault_rotate_loop.simps) (auto intro!: exI [of _ "[]"] simp: renewed_none)
    next
      case (Inr u)
      have room: "log_room (tables s)" using Suc(6) by (simp add: log_room_def)
      have run: "vault_rotate_expired_secret E k name s1 = (Inr (), s2)" using rot Inr by simp
      note one = rotate_round [OF limit Suc(2) clock f [unfolded name] run ok Suc(3) room Suc(4)]
      have "\<exists>r s' names. vault_rotate_loop E k limit (Suc rotated) s2 = Some (r, s') \<and> renewed E k names (tables s2) (committed s') \<and>
          set names \<subseteq> s_name ` set (expired_rows limit (tables s2)) \<and>
          (\<forall>m. r = Inr m \<longrightarrow> m = Suc rotated + n \<and> length names = n \<and> \<not> in_txn s' \<and>
             set names = s_name ` set (expired_rows limit (tables s2)) \<and> expired_rows limit (tables s') = [])"
        by (rule Suc.IH) (use Suc(2-6) one in auto)
      then obtain r' s' names where rest: "vault_rotate_loop E k limit (Suc rotated) s2 = Some (r', s')"
          "renewed E k names (tables s2) (committed s')" "set names \<subseteq> s_name ` set (expired_rows limit (tables s2))"
          "\<forall>m. r' = Inr m \<longrightarrow> m = Suc rotated + n \<and> length names = n \<and> \<not> in_txn s' \<and>
             set names = s_name ` set (expired_rows limit (tables s2)) \<and> expired_rows limit (tables s') = []"
        by blast
      have names: "s_name ` set (expired_rows limit (tables s)) = insert name (s_name ` set (expired_rows limit (tables s2)))"
          "name \<notin> set names"
        using one(4,6) rest(3) by auto
      show ?thesis
      proof (intro exI conjI)
        show "vault_rotate_loop E k limit rotated s = Some (r', s')"
          using f name run rest(1) by (subst vault_rotate_loop.simps) simp
        show "renewed E k (name # names) (tables s) (committed s')" by (rule renewed_Cons [OF one(7) rest(2) names(2)])
        show "set (name # names) \<subseteq> s_name ` set (expired_rows limit (tables s))" using rest(3) by (auto simp: names(1))
        show "\<forall>m. r' = Inr m \<longrightarrow> m = rotated + Suc n \<and> length (name # names) = Suc n \<and> \<not> in_txn s' \<and>
            set (name # names) = s_name ` set (expired_rows limit (tables s)) \<and> expired_rows limit (tables s') = []"
          using rest(4) by (simp add: names(1))
      qed
    qed
  qed
qed

text \<open>
  C7: The rotation of expired secrets ends and loses nothing. Its loop has no bound of its own,
  but when the clock does not run backwards every round renews one secret that was due and makes
  none due. \<open>vault_auto_rotate_expired\<close> returns; with any result the durable tables are the old
  ones with some names renewed, each once, in the order of the log's new rows: the name has one
  more version, active, with the very content that was active before, its older versions and all
  other names are as they were, and every renewed name was due at the start. When it returns
  \<open>SM_OK\<close> with a count, the renewed names are exactly those of the rows that were due, the count
  is their number, and none is due any more.
\<close>

theorem auto_rotate_terminates:
  assumes "vault_inv E s" "\<not> in_txn s" "g_subkeys s = Some k" "g_unlocked s" "crypto_ok E" "monotone_clock E"
    and "int (length (audit_log (tables s)) + length (secrets (tables s))) < INT_MAX"
    and "\<forall>r \<in> set (secrets (tables s)). timely r"
  shows "\<exists>r s' names. vault_auto_rotate_expired E s = Some (r, s') \<and> renewed E k names (tables s) (committed s') \<and>
    (\<forall>name \<in> set names. \<exists>now. utils_now_iso8601 E UTILS_ISO8601_UTC_BUFFER_LEN s = (Inr now, next_tick s) \<and>
      name \<in> s_name ` set (expired_rows now (tables s))) \<and>
    (\<forall>n. r = Inr n \<longrightarrow> \<not> in_txn s' \<and> (\<exists>now. utils_now_iso8601 E UTILS_ISO8601_UTC_BUFFER_LEN s = (Inr now, next_tick s) \<and>
      n = length (expired_rows now (tables s)) \<and> n = length names \<and>
      set names = s_name ` set (expired_rows now (tables s)) \<and> expired_rows now (tables s') = []))"
proof -
  have ok: "keys_ok E k (tables s)" using assms(1-3) by (auto simp: vault_inv_def committed_closed)
  obtain q s1 where now: "utils_now_iso8601 E UTILS_ISO8601_UTC_BUFFER_LEN s = (q, s1)" by fastforce
  have unlocked: "vault_require_unlocked s = (Inr k, s)" using assms(3,4) by (simp add: vault_require_unlocked_def)
  show ?thesis
  proof (cases q)
    case (Inl e)
    have v: "view s1 = view s" by (rule view_steps, rule now)
    have "renewed E k [] (tables s) (committed s1)"
      using viewD(4) [OF v] committed_closed [OF assms(2)] by (simp add: renewed_none)
    then show ?thesis
      using Inl now unlocked by (intro exI [of _ "Inl e"] exI [of _ s1] exI [of _ "[]"])
        (simp add: vault_auto_rotate_expired_def andthen_def)
  next
    case (Inr limit)
    note now = now [unfolded Inr]
    have s1: "s1 = next_tick s" using now_iso8601_c_string [OF now] by simp
    then have t1: "tables s1 = tables s" "\<not> in_txn s1" using assms(2) by (simp_all add: in_txn_def next_tick_def)
    have le: "length (expired_rows limit (tables s)) \<le> length (secrets (tables s))" by (simp add: expired_rows_def)
    have sub: "set (expired_rows limit (tables s)) \<subseteq> set (secrets (tables s))" by (auto simp: expired_rows_def)
    obtain r s' names where "vault_rotate_loop E k limit 0 s1 = Some (r, s')" "renewed E k names (tables s1) (committed s')"
        "set names \<subseteq> s_name ` set (expired_rows limit (tables s1))"
        "\<forall>m. r = Inr m \<longrightarrow> m = 0 + length (expired_rows limit (tables s1)) \<and> length names = length (expired_rows limit (tables s1)) \<and>
           \<not> in_txn s' \<and> set names = s_name ` set (expired_rows limit (tables s1)) \<and> expired_rows limit (tables s') = []"
      using rotate_loop_ends [OF now_format [OF now] assms(6,5), of s1 k "length (expired_rows limit (tables s1))" 0]
        ok assms(7,8) le sub s1 t1 by fastforce
    then show ?thesis
      using now unlocked s1 t1 by (intro exI [of _ r] exI [of _ s'] exI [of _ names])
        (auto simp: vault_auto_rotate_expired_def andthen_def)
  qed
qed

section \<open>A secret that is due\<close>

definition sample_due :: vault where
  "sample_due = sample_unlocked\<lparr>tables := (tables sample_unlocked)\<lparr>secrets := [\<lparr>
     s_id = ''00000000-0000-4000-8000-000000000000'', s_name = ''k'', s_name_nonce = replicate 24 1,
     s_encrypted_name = replicate 17 1, s_version = 1, s_algorithm = ''XChaCha20-Poly1305'',
     s_ciphertext = [1, 2] @ replicate 16 9, s_encrypted_dek = replicate 32 9 @ replicate 16 113, s_nonce = replicate 24 5,
     s_dek_nonce = replicate 24 6, s_key_commitment = [113, 120] @ replicate 14 3 @ replicate 16 6 @ replicate 16 9 @ replicate 16 5,
     s_nonce_counter = 1, s_created_at = ''2024-06-29T00:00:00Z'', s_updated_at = ''2024-06-29T00:00:00Z'',
     s_expires_at = Some ''2024-06-30T00:00:00Z'', s_rotation_interval = Some 86400, s_is_archived = False\<rparr>]\<rparr>\<rparr>"

lemma sample_due_rows:
  "list_all (\<lambda>r. row_plain calm_env (kek_enc sample_keys) r = Some [1, 2] \<and> nul_free (s_id r) \<and> nul_free (s_name r) \<and>
    nul_free (s_algorithm r) \<and> s_algorithm r \<in> set schema_algorithms \<and> s_name r \<noteq> [] \<and>
    vault_copy_secret_row r = Inr \<lparr>vr_id = s_id r, vr_version = s_version r, vr_encrypted = row_secret r\<rparr>)
    (secrets (tables sample_due))"
  "length (expired_rows ''2024-07-01T00:00:00Z'' (tables sample_due)) = 1"
  by code_simp+

lemma sample_due_inv: "vault_inv calm_env sample_due"
proof -
  obtain pw k where "opens calm_env pw k (tables sample_unlocked)" "g_subkeys sample_unlocked = Some k"
    using sample_inv by (auto simp: vault_inv_def)
  then have "opens calm_env pw sample_keys (tables sample_due)"
    using opens_cong [of "tables sample_due" "tables sample_unlocked"] by (simp add: sample_due_def)
  moreover have "keys_ok calm_env sample_keys (tables sample_due)"
    using sample_due_rows(1)
    by (simp add: keys_ok_def secrets_wf_def row_ok_def row_columns_ok_def sample_due_def audit_wf_def audit_rows_def
        chain_ok_def INT_MAX_def INT64_MAX_def)
  ultimately show ?thesis by (auto simp: vault_inv_def sample_due_def in_txn_def committed_def sample_unlocked_def)
qed

lemma sample_due_content: "spec_active (vault_abs calm_env sample_keys (tables sample_due) ''k'') = Some [1, 2]"
  by code_simp

theorem auto_rotate_terminates_witness:
  "\<exists>r s'. vault_auto_rotate_expired calm_env sample_due = Some (r, s') \<and>
    spec_active (vault_abs calm_env sample_keys (committed s') ''k'') = Some [1, 2] \<and>
    (case r of Inl e \<Rightarrow> True | Inr n \<Rightarrow> n = 1 \<and> expired_rows ''2024-07-01T00:00:00Z'' (tables s') = [])"
proof -
  have now: "utils_format_iso8601 1719792000 UTILS_ISO8601_UTC_BUFFER_LEN = Inr ''2024-07-01T00:00:00Z''" by code_simp
  have run: "utils_now_iso8601 calm_env UTILS_ISO8601_UTC_BUFFER_LEN sample_due = (Inr ''2024-07-01T00:00:00Z'', next_tick sample_due)"
    by (simp add: utils_now_iso8601_def andthen_def guard_def sample_clock now)
  have mono: "monotone_clock calm_env" by (simp add: monotone_clock_def sample_clock INT64_MAX_def)
  have due: "\<not> in_txn sample_due" "g_subkeys sample_due = Some sample_keys" "g_unlocked sample_due"
      "int (length (audit_log (tables sample_due)) + length (secrets (tables sample_due))) < INT_MAX"
      "\<forall>r \<in> set (secrets (tables sample_due)). timely r"
    by (simp_all add: sample_due_def in_txn_def sample_unlocked_def timely_def INT64_MAX_def INT_MAX_def nul_free_def)
  obtain r s' names where r: "vault_auto_rotate_expired calm_env sample_due = Some (r, s')"
      "renewed calm_env sample_keys names (tables sample_due) (committed s')"
      "\<forall>n. r = Inr n \<longrightarrow> \<not> in_txn s' \<and> (\<exists>now. utils_now_iso8601 calm_env UTILS_ISO8601_UTC_BUFFER_LEN sample_due = (Inr now, next_tick sample_due) \<and>
        n = length (expired_rows now (tables sample_due)) \<and> n = length names \<and>
        set names = s_name ` set (expired_rows now (tables sample_due)) \<and> expired_rows now (tables s') = [])"
    using auto_rotate_terminates [OF sample_due_inv due(1-3) calm_env_ok(1) mono due(4,5)] by blast
  have "spec_active (vault_abs calm_env sample_keys (committed s') ''k'') = Some [1, 2]"
    using r(2) sample_due_content by (simp add: renewed_def spec_renew_active)
  then show ?thesis using r(1,3) run sample_due_rows(2) by (intro exI [of _ r] exI [of _ s']) (cases r; simp)
qed

end
