(* ===== verification/Fuin_Cli_Args.thy ===== *)
theory Fuin_Cli_Args
  imports Fuin_Utils
begin

text \<open>
  The command line of \<open>src/src/main.c\<close>: numbers and durations, the options of
  \<open>getopt_long\<close>, the table of commands and the guess for a misspelt one. \<open>argv\<close> is the list of
  its strings, a \<open>NULL\<close> pointer in \<open>cli_options_t\<close> is \<open>None\<close>, and \<open>getenv\<close> is the
  environment as a map. \<open>getopt_long\<close> is the one of the GNU C library: operands may stand
  between options, and a long option may be abbreviated to a prefix that is unique.
\<close>

section \<open>Numbers\<close>

definition is_digit :: "char \<Rightarrow> bool" where
  "is_digit c \<longleftrightarrow> of_char c \<in> {48..57 :: nat}"

definition digits_value :: "string \<Rightarrow> int" where
  "digits_value ds = foldl (\<lambda>n c. n * 10 + (of_char c - 48)) 0 ds"

text \<open>White space of the \<open>C\<close> locale.\<close>

definition is_space :: "char \<Rightarrow> bool" where
  "is_space c \<longleftrightarrow> of_char c \<in> {9..13 :: nat} \<union> {32}"

definition LONG_MAX :: int where "LONG_MAX = 9223372036854775807"
definition LONG_MIN :: int where "LONG_MIN = - 9223372036854775808"

text \<open>
  \<open>strtol\<close> and \<open>strtoull\<close> in base 10: \<open>None\<close> when no digits are found, otherwise the value or
  \<open>None\<close> for a value out of range (\<open>errno\<close> is \<open>ERANGE\<close>), and the text at \<open>end\<close>. The callers of
  \<open>strtoull\<close> have seen a digit first.
\<close>

definition strtol :: "string \<Rightarrow> (int option \<times> string) option" where
  "strtol s =
     (let t = dropWhile is_space s;
          negative = (t \<noteq> [] \<and> hd t = CHR ''-'');
          u = (if t \<noteq> [] \<and> hd t \<in> {CHR ''-'', CHR ''+''} then tl t else t);
          ds = takeWhile is_digit u;
          v = (if negative then - digits_value ds else digits_value ds) in
      if ds = [] then None
      else Some (if v < LONG_MIN \<or> LONG_MAX < v then None else Some v, dropWhile is_digit u))"

definition strtoull :: "string \<Rightarrow> (int option \<times> string) option" where
  "strtoull s =
     (let ds = takeWhile is_digit s; v = digits_value ds in
      if ds = [] then None
      else Some (if UINT64_MAX < v then None else Some v, dropWhile is_digit s))"

definition cli_parse_positive_int :: "string \<Rightarrow> int result" where
  "cli_parse_positive_int txt =
     (if txt = [] then Inl SM_ERR_INVALID_ARGUMENT
      else case strtol txt of
        Some (Some r, []) \<Rightarrow> if r < 1 \<or> INT_MAX < r then Inl SM_ERR_INVALID_ARGUMENT else Inr r
      | _ \<Rightarrow> Inl SM_ERR_INVALID_ARGUMENT)"

definition cli_parse_size_value :: "string \<Rightarrow> bool \<Rightarrow> nat result" where
  "cli_parse_size_value txt allow_zero =
     (if txt = [] \<or> \<not> is_digit (hd txt) then Inl SM_ERR_INVALID_ARGUMENT
      else case strtoull txt of
        Some (Some r, []) \<Rightarrow>
          if \<not> allow_zero \<and> r = 0 then Inl SM_ERR_INVALID_ARGUMENT else Inr (nat r)
      | _ \<Rightarrow> Inl SM_ERR_INVALID_ARGUMENT)"

definition duration_unit :: "char \<Rightarrow> (64 word) option" where
  "duration_unit c =
     (if c = CHR ''s'' then Some 1
      else if c = CHR ''m'' then Some 60
      else if c = CHR ''h'' then Some (60 * 60)
      else if c = CHR ''d'' then Some (24 * 60 * 60)
      else None)"

definition cli_parse_duration_seconds :: "string \<Rightarrow> 64 word result" where
  "cli_parse_duration_seconds txt =
     (if txt = [] \<or> \<not> is_digit (hd txt) then Inl SM_ERR_INVALID_ARGUMENT
      else case strtoull txt of
        Some (Some amount, rest) \<Rightarrow>
          if amount = 0 then Inl SM_ERR_INVALID_ARGUMENT
          else
            (case (case rest of [] \<Rightarrow> Some 1 | [c] \<Rightarrow> duration_unit c | _ \<Rightarrow> None) of
               None \<Rightarrow> Inl SM_ERR_INVALID_ARGUMENT
             | Some multiplier \<Rightarrow>
                 if uint ((- 1 :: 64 word) div multiplier) < amount then Inl SM_ERR_INVALID_ARGUMENT
                 else Inr (word_of_int amount * multiplier))
      | _ \<Rightarrow> Inl SM_ERR_INVALID_ARGUMENT)"

section \<open>Options\<close>

record cli_options =
  command :: "string option"
  db_path :: "string option"
  password :: "string option"
  new_password :: "string option"
  opt_name :: "string option"
  opt_value :: "string option"
  opt_algorithm :: "string option"
  opt_subject :: "string option"
  opt_scope :: "string option"
  token :: "string option"
  positional_name :: "string option"
  root_hex :: "string option"
  proof_hex :: "string option"
  signature_b64 :: "string option"
  recipient_path :: "string option"
  private_key_path :: "string option"
  public_key_path :: "string option"
  key_passphrase_file :: "string option"
  public_out_path :: "string option"
  private_out_path :: "string option"
  input_path :: "string option"
  output_path :: "string option"
  ttl_seconds :: "64 word"
  within_seconds :: "64 word"
  leaf_index :: nat
  leaf_count :: nat
  opt_version :: int
  entry_id :: int
  generate_length :: int
  has_ttl :: bool
  has_within :: bool
  has_leaf_index :: bool
  has_leaf_count :: bool
  has_length :: bool
  no_symbols :: bool
  copy :: bool
  raw :: bool
  show_all :: bool
  read_stdin :: bool
  opt_help :: bool

definition CLI_DEFAULT_DB_PATH :: string where "CLI_DEFAULT_DB_PATH = ''fuin.db''"

definition cli_init_options :: cli_options where
  "cli_init_options = \<lparr>command = None, db_path = Some CLI_DEFAULT_DB_PATH, password = None,
     new_password = None, opt_name = None, opt_value = None, opt_algorithm = None, opt_subject = None,
     opt_scope = None, token = None, positional_name = None, root_hex = None, proof_hex = None,
     signature_b64 = None, recipient_path = None, private_key_path = None, public_key_path = None,
     key_passphrase_file = None, public_out_path = None, private_out_path = None,
     input_path = None, output_path = None, ttl_seconds = 0, within_seconds = 0, leaf_index = 0,
     leaf_count = 0, opt_version = 0, entry_id = 0, generate_length = 0, has_ttl = False,
     has_within = False, has_leaf_index = False, has_leaf_count = False, has_length = False,
     no_symbols = False, copy = False, raw = False, show_all = False, read_stdin = False,
     opt_help = False\<rparr>"

text \<open>The codes \<open>getopt_long\<close> returns: a character, or a number from 1000 on.\<close>

definition chr :: "char \<Rightarrow> nat" where "chr c = of_char c"

definition long_options :: "(string \<times> bool \<times> nat) list" where
  "long_options =
    [(''db'', True, chr (CHR ''d'')), (''password'', True, chr (CHR ''p'')), (''new-password'', True, 1000),
     (''version'', True, 1001), (''algorithm'', True, 1002), (''ttl'', True, 1003),
     (''within'', True, 1004), (''subject'', True, 1005), (''scope'', True, 1006),
     (''token'', True, 1007), (''entry-id'', True, 1008), (''root'', True, 1009),
     (''proof'', True, 1010), (''leaf-index'', True, 1011), (''entries'', True, 1012),
     (''all'', False, 1013), (''recipient'', True, 1014), (''private-key'', True, 1015),
     (''public-out'', True, 1016), (''private-out'', True, 1017), (''input'', True, 1018),
     (''out'', True, 1019), (''length'', True, 1020), (''no-symbols'', False, 1021),
     (''copy'', False, 1022), (''public-key'', True, 1023), (''signature'', True, 1024),
     (''raw'', False, 1025), (''key-passphrase-file'', True, 1026), (''name'', True, chr (CHR ''n'')),
     (''value'', True, chr (CHR ''v'')), (''stdin'', False, chr (CHR ''s'')), (''help'', False, chr (CHR ''h''))]"

definition short_options :: "(char \<times> bool) list" where
  "short_options = [(CHR ''d'', True), (CHR ''p'', True), (CHR ''n'', True), (CHR ''v'', True),
     (CHR ''s'', False), (CHR ''h'', False)]"

text \<open>What one call of \<open>getopt_long\<close> returns: the code and \<open>optarg\<close>; \<open>BadOption\<close> is \<open>'?'\<close>.\<close>

datatype getopt_event = Opt nat string | BadOption

definition match_long :: "string \<Rightarrow> (bool \<times> nat) option" where
  "match_long n =
     (case map_of long_options n of
        Some o' \<Rightarrow> Some o'
      | None \<Rightarrow> (case filter (\<lambda>(m, _). prefix n m) long_options of [(_, o')] \<Rightarrow> Some o' | _ \<Rightarrow> None))"

text \<open>A long option \<open>--name\<close> or \<open>--name=value\<close>: the event and the arguments left.\<close>

definition getopt_one_long :: "string \<Rightarrow> string list \<Rightarrow> getopt_event \<times> string list" where
  "getopt_one_long txt rest =
     (let n = takeWhile (\<lambda>c. c \<noteq> CHR ''='') txt; v = dropWhile (\<lambda>c. c \<noteq> CHR ''='') txt in
      case match_long n of
        None \<Rightarrow> (BadOption, rest)
      | Some (takes_argument, code) \<Rightarrow>
          if \<not> takes_argument then (if v = [] then Opt code [] else BadOption, rest)
          else if v \<noteq> [] then (Opt code (tl v), rest)
          else (case rest of [] \<Rightarrow> (BadOption, []) | a # rest' \<Rightarrow> (Opt code a, rest')))"

text \<open>A cluster of short options.\<close>

fun getopt_cluster :: "string \<Rightarrow> string list \<Rightarrow> getopt_event list \<times> string list" where
  "getopt_cluster [] rest = ([], rest)"
| "getopt_cluster (c # cs) rest =
     (case map_of short_options c of
        None \<Rightarrow> ([BadOption], rest)
      | Some takes_argument \<Rightarrow>
          if \<not> takes_argument
          then (case getopt_cluster cs rest of (evs, rest') \<Rightarrow> (Opt (chr c) [] # evs, rest'))
          else if cs \<noteq> [] then ([Opt (chr c) cs], rest)
          else (case rest of [] \<Rightarrow> ([BadOption], []) | a # rest' \<Rightarrow> ([Opt (chr c) a], rest')))"

lemma getopt_one_long_shorter: "length (snd (getopt_one_long txt rest)) \<le> length rest"
  unfolding getopt_one_long_def Let_def by (cases rest) (simp_all split: option.split prod.split)

lemma getopt_cluster_shorter: "length (snd (getopt_cluster cs rest)) \<le> length rest"
proof (induction cs)
  case (Cons c cs)
  then show ?case
    by (cases rest; cases "getopt_cluster cs rest") (simp_all split: option.split)
qed simp

text \<open>All calls until the one that returns -1: the events, and the operands \<open>argv[optind..]\<close>.\<close>

function getopt_long :: "string list \<Rightarrow> getopt_event list \<times> string list" where
  "getopt_long [] = ([], [])"
| "getopt_long (a # rest) =
     (if a = ''--'' then ([], rest)
      else if prefix ''--'' a then
        (let (ev, rest') = getopt_one_long (drop 2 a) rest; (evs, operands) = getopt_long rest' in
         (ev # evs, operands))
      else if prefix ''-'' a \<and> a \<noteq> ''-'' then
        (let (evs1, rest') = getopt_cluster (tl a) rest; (evs, operands) = getopt_long rest' in
         (evs1 @ evs, operands))
      else (let (evs, operands) = getopt_long rest in (evs, a # operands)))"
  by pat_completeness auto

termination
  by (relation "measure length")
     (auto simp: le_imp_less_Suc, metis getopt_one_long_shorter le_imp_less_Suc snd_conv,
       metis getopt_cluster_shorter le_imp_less_Suc snd_conv)

definition cli_sensitive_argv_allowed :: "(string \<Rightarrow> string option) \<Rightarrow> bool" where
  "cli_sensitive_argv_allowed getenv \<longleftrightarrow> getenv ''FUIN_ALLOW_INSECURE_ARGS'' = Some ''1''"

text \<open>One round of the loop over the options.\<close>

definition parse_option ::
  "(string \<Rightarrow> string option) \<Rightarrow> nat \<Rightarrow> string \<Rightarrow> cli_options \<Rightarrow> cli_options result" where
  "parse_option getenv code optarg o' =
     (let sensitive = (\<lambda>r. if cli_sensitive_argv_allowed getenv then Inr r else Inl SM_ERR_INVALID_ARGUMENT) in
      if code = chr (CHR ''d'') then Inr (o'\<lparr>db_path := Some optarg\<rparr>)
      else if code = chr (CHR ''p'') then sensitive (o'\<lparr>password := Some optarg\<rparr>)
      else if code = 1000 then sensitive (o'\<lparr>new_password := Some optarg\<rparr>)
      else if code = 1001 then and_then (cli_parse_positive_int optarg) (\<lambda>n. Inr (o'\<lparr>opt_version := n\<rparr>))
      else if code = 1002 then Inr (o'\<lparr>opt_algorithm := Some optarg\<rparr>)
      else if code = 1003 then and_then (cli_parse_duration_seconds optarg) (\<lambda>n. Inr (o'\<lparr>ttl_seconds := n, has_ttl := True\<rparr>))
      else if code = 1004 then and_then (cli_parse_duration_seconds optarg) (\<lambda>n. Inr (o'\<lparr>within_seconds := n, has_within := True\<rparr>))
      else if code = 1005 then Inr (o'\<lparr>opt_subject := Some optarg\<rparr>)
      else if code = 1006 then Inr (o'\<lparr>opt_scope := Some optarg\<rparr>)
      else if code = 1007 then sensitive (o'\<lparr>token := Some optarg\<rparr>)
      else if code = 1008 then and_then (cli_parse_positive_int optarg) (\<lambda>n. Inr (o'\<lparr>entry_id := n\<rparr>))
      else if code = 1009 then Inr (o'\<lparr>root_hex := Some optarg\<rparr>)
      else if code = 1010 then Inr (o'\<lparr>proof_hex := Some optarg\<rparr>)
      else if code = 1011 then and_then (cli_parse_size_value optarg True) (\<lambda>n. Inr (o'\<lparr>leaf_index := n, has_leaf_index := True\<rparr>))
      else if code = 1012 then and_then (cli_parse_size_value optarg False) (\<lambda>n. Inr (o'\<lparr>leaf_count := n, has_leaf_count := True\<rparr>))
      else if code = 1013 then Inr (o'\<lparr>show_all := True\<rparr>)
      else if code = 1014 then Inr (o'\<lparr>recipient_path := Some optarg\<rparr>)
      else if code = 1015 then Inr (o'\<lparr>private_key_path := Some optarg\<rparr>)
      else if code = 1016 then Inr (o'\<lparr>public_out_path := Some optarg\<rparr>)
      else if code = 1017 then Inr (o'\<lparr>private_out_path := Some optarg\<rparr>)
      else if code = 1018 then Inr (o'\<lparr>input_path := Some optarg\<rparr>)
      else if code = 1019 then Inr (o'\<lparr>output_path := Some optarg\<rparr>)
      else if code = 1020 then and_then (cli_parse_positive_int optarg) (\<lambda>n. Inr (o'\<lparr>generate_length := n, has_length := True\<rparr>))
      else if code = 1021 then Inr (o'\<lparr>no_symbols := True\<rparr>)
      else if code = 1022 then Inr (o'\<lparr>copy := True\<rparr>)
      else if code = 1023 then Inr (o'\<lparr>public_key_path := Some optarg\<rparr>)
      else if code = 1024 then Inr (o'\<lparr>signature_b64 := Some optarg\<rparr>)
      else if code = 1025 then Inr (o'\<lparr>raw := True\<rparr>)
      else if code = 1026 then Inr (o'\<lparr>key_passphrase_file := Some optarg\<rparr>)
      else if code = chr (CHR ''n'') then Inr (o'\<lparr>opt_name := Some optarg\<rparr>)
      else if code = chr (CHR ''v'') then sensitive (o'\<lparr>opt_value := Some optarg\<rparr>)
      else if code = chr (CHR ''s'') then Inr (o'\<lparr>read_stdin := True\<rparr>)
      else if code = chr (CHR ''h'') then Inr (o'\<lparr>opt_help := True\<rparr>)
      else Inl SM_ERR_INVALID_ARGUMENT)"

fun parse_events :: "(string \<Rightarrow> string option) \<Rightarrow> getopt_event list \<Rightarrow> cli_options \<Rightarrow> cli_options result" where
  "parse_events getenv [] o' = Inr o'"
| "parse_events getenv (BadOption # evs) o' = Inl SM_ERR_INVALID_ARGUMENT"
| "parse_events getenv (Opt code optarg # evs) o' =
     and_then (parse_option getenv code optarg o') (parse_events getenv evs)"

text \<open>The operands that are left: the command if there is none yet, then one name.\<close>

definition take_operands :: "string list \<Rightarrow> cli_options \<Rightarrow> cli_options result" where
  "take_operands operands o' =
     (let (o1, ops1) = (case (command o', operands) of
            (None, a # ops) \<Rightarrow> (o'\<lparr>command := Some a\<rparr>, ops) | _ \<Rightarrow> (o', operands));
          (o2, ops2) = (case (positional_name o1, ops1) of
            (None, a # ops) \<Rightarrow> (o1\<lparr>positional_name := Some a\<rparr>, ops) | _ \<Rightarrow> (o1, ops1)) in
      if ops2 \<noteq> [] then Inl SM_ERR_INVALID_ARGUMENT else Inr o2)"

definition cli_parse_with_getopt ::
  "(string \<Rightarrow> string option) \<Rightarrow> string list \<Rightarrow> cli_options \<Rightarrow> cli_options result" where
  "cli_parse_with_getopt getenv argv o' =
     (if argv = [] then Inl SM_ERR_INVALID_ARGUMENT
      else let (evs, operands) = getopt_long (tl argv) in
        and_then (parse_events getenv evs o') (take_operands operands))"

section \<open>Commands\<close>

definition cli_command_accepts_name :: "string \<Rightarrow> bool" where
  "cli_command_accepts_name c \<longleftrightarrow>
     c \<in> set [''put'', ''set'', ''generate'', ''gen'', ''get'', ''totp'', ''delete'', ''del'', ''rollback'']"

definition CLI_COMMAND_HELP :: "(string \<times> string) list" where
  "CLI_COMMAND_HELP =
    [(''init'', ''init''),
     (''put'', ''put NAME [--stdin | -v VALUE] [--algorithm ALG] [--ttl DURATION]''),
     (''set'', ''put NAME [--stdin | -v VALUE] [--algorithm ALG] [--ttl DURATION]''),
     (''generate'', ''generate NAME [--length N] [--no-symbols] [--copy] [--ttl DURATION]''),
     (''gen'', ''generate NAME [--length N] [--no-symbols] [--copy] [--ttl DURATION]''),
     (''get'', ''get NAME [--version N] [--copy] [--raw]''),
     (''totp'', ''totp NAME [--copy]''),
     (''list'', ''list [--all]''),
     (''ls'', ''list [--all]''),
     (''delete'', ''delete NAME''),
     (''del'', ''delete NAME''),
     (''rollback'', ''rollback NAME --version N''),
     (''rotate-kek'', ''rotate-kek''),
     (''rotate'', ''rotate-kek''),
     (''check-expiry'', ''check-expiry [--within DURATION]''),
     (''auto-rotate'', ''auto-rotate''),
     (''rotate-dek'', ''auto-rotate''),
     (''issue-token'', ''issue-token --scope SCOPE --ttl DURATION [--subject NAME]''),
     (''check-token'', ''check-token --scope SCOPE (token from FUIN_TOKEN)''),
     (''revoke-tokens'', ''revoke-tokens''),
     (''audit-verify'', ''audit-verify''),
     (''verify'', ''audit-verify''),
     (''audit-root'', ''audit-root''),
     (''merkle-root'', ''audit-root''),
     (''audit-proof'', ''audit-proof --entry-id N''),
     (''audit-verify-proof'', ''audit-verify-proof --entry-id N --root HEX --proof HEX --leaf-index N --entries N''),
     (''audit-keygen'', ''audit-keygen --public-out PATH --private-out PATH''),
     (''audit-sign-root'', ''audit-sign-root --private-key PATH''),
     (''audit-verify-root-sig'', ''audit-verify-root-sig --public-key PATH --root HEX --signature B64 --entries N''),
     (''status-report'', ''status-report''),
     (''security-report'', ''status-report''),
     (''report'', ''status-report''),
     (''pqc-keygen'', ''pqc-keygen --public-out PATH --private-out PATH''),
     (''backup-export'', ''backup-export --recipient PATH --out PATH''),
     (''backup-import'', ''backup-import --private-key PATH --input PATH --out PATH'')]"

definition cli_command_usage :: "string option \<Rightarrow> string option" where
  "cli_command_usage c =
     (case c of None \<Rightarrow> None | Some n \<Rightarrow> if n = [] then None else map_of CLI_COMMAND_HELP n)"

text \<open>
  The rows of the edit-distance table: \<open>edit_cells\<close> fills \<open>curr\<close> from left to right, given
  \<open>prev\<close> from column \<open>j - 1\<close> on and the last cell it wrote.
\<close>

fun edit_cells :: "char \<Rightarrow> string \<Rightarrow> nat list \<Rightarrow> nat \<Rightarrow> nat list" where
  "edit_cells x (y # b) (p0 # p1 # prev) left =
     (let cost = (if x = y then 0 else 1);
          best = p1 + 1;
          ins = left + 1;
          sub = p0 + cost;
          best1 = (if ins < best then ins else best);
          best2 = (if sub < best1 then sub else best1) in
      best2 # edit_cells x b (p1 # prev) best2)"
| "edit_cells x _ _ left = []"

fun edit_rows :: "string \<Rightarrow> string \<Rightarrow> nat \<Rightarrow> nat list \<Rightarrow> nat list" where
  "edit_rows [] b i prev = prev"
| "edit_rows (x # a) b i prev = edit_rows a b (Suc i) (i # edit_cells x b prev i)"

definition cli_edit_distance :: "string \<Rightarrow> string \<Rightarrow> nat" where
  "cli_edit_distance a b =
     (if 62 < length a \<or> 62 < length b then 64
      else edit_rows a b 1 [0..<length b + 1] ! length b)"

fun closest_loop :: "string \<Rightarrow> (string \<times> string) list \<Rightarrow> nat \<Rightarrow> string option \<Rightarrow> string option" where
  "closest_loop c [] best_dist best = best"
| "closest_loop c ((n, u) # rows) best_dist best =
     (let d = cli_edit_distance c n in
      if d < best_dist then closest_loop c rows d (Some n) else closest_loop c rows best_dist best)"

definition cli_closest_command :: "string option \<Rightarrow> string option" where
  "cli_closest_command c =
     (case c of None \<Rightarrow> None
      | Some n \<Rightarrow> if length n < 2 then None else closest_loop n CLI_COMMAND_HELP 3 None)"

section \<open>Checking the options\<close>

definition cli_check_positional :: "cli_options \<Rightarrow> cli_options result" where
  "cli_check_positional o' =
     (case positional_name o' of
        None \<Rightarrow> Inr o'
      | Some p \<Rightarrow>
          (case command o' of
             None \<Rightarrow> Inl SM_ERR_INVALID_ARGUMENT
           | Some c \<Rightarrow>
               if cli_command_accepts_name c \<and> opt_name o' = None then Inr (o'\<lparr>opt_name := Some p\<rparr>)
               else if cli_command_usage (Some c) = None then Inr o'
               else Inl SM_ERR_INVALID_ARGUMENT))"

text \<open>Every failing check of the last part leaves the same status, so their order is immaterial.\<close>

definition cli_parse_options :: "(string \<Rightarrow> string option) \<Rightarrow> string list \<Rightarrow> cli_options result" where
  "cli_parse_options getenv argv =
     (if argv = [] then Inl SM_ERR_INVALID_ARGUMENT
      else
        and_then
          (if 1 < length argv \<and> \<not> prefix ''-'' (argv ! 1)
           then cli_parse_with_getopt getenv (hd argv # drop 2 argv) (cli_init_options\<lparr>command := Some (argv ! 1)\<rparr>)
           else cli_parse_with_getopt getenv argv cli_init_options) (\<lambda>o1.
        let o2 = o1\<lparr>
          password := (case password o1 of None \<Rightarrow> getenv ''FUIN_PASSWORD'' | p \<Rightarrow> p),
          new_password := (case new_password o1 of None \<Rightarrow> getenv ''FUIN_NEW_PASSWORD'' | p \<Rightarrow> p),
          token := (case token o1 of None \<Rightarrow> getenv ''FUIN_TOKEN'' | p \<Rightarrow> p)\<rparr> in
        and_then (check (\<not> (opt_value o2 \<noteq> None \<and> read_stdin o2)) SM_ERR_INVALID_ARGUMENT) (\<lambda>_.
        and_then (check (db_path o2 \<noteq> None \<and> db_path o2 \<noteq> Some []) SM_ERR_INVALID_ARGUMENT) (\<lambda>_.
        and_then (cli_check_positional o2) (\<lambda>o3.
        if raw o3 \<and> \<not> opt_help o3 \<and> (command o3 \<noteq> Some ''get'' \<or> copy o3) then Inl SM_ERR_INVALID_ARGUMENT
        else Inr o3)))))"

section \<open>Specifications\<close>

text \<open>The suffix of a duration and its length in seconds.\<close>

definition suffix_seconds :: "string \<Rightarrow> int option" where
  "suffix_seconds u = map_of [('''', 1), (''s'', 1), (''m'', 60), (''h'', 3600), (''d'', 86400)] u"

text \<open>One edit of a string: insert, delete or replace one character anywhere.\<close>

inductive edit1 :: "'a list \<Rightarrow> 'a list \<Rightarrow> bool" where
  ins: "edit1 (u @ v) (u @ x # v)"
| del: "edit1 (u @ x # v) (u @ v)"
| sub: "edit1 (u @ x # v) (u @ y # v)"

text \<open>The recursion of the table, on the reversed prefixes it stands for.\<close>

fun lev :: "'a list \<Rightarrow> 'a list \<Rightarrow> nat" where
  "lev [] b = length b"
| "lev (x # a) [] = Suc (length a)"
| "lev (x # a) (y # b) =
     min (min (lev a (y # b) + 1) (lev (x # a) b + 1)) (lev a b + (if x = y then 0 else 1))"

section \<open>Lemmas: edit distance\<close>

lemma lev_Nil2 [simp]: "lev a [] = length a"
  by (cases a) simp_all

lemma lev_sym: "lev a b = lev b a"
  by (induction a b rule: lev.induct) (simp_all add: min.commute min.left_commute)

lemma lev_refl: "lev a a = 0"
  by (induction a) simp_all

lemma lev_insert: "lev a (y # b) \<le> Suc (lev a b)"
  by (cases a) simp_all

lemma lev_delete: "lev a b \<le> Suc (lev a (y # b))"
proof (induction a)
  case (Cons x a)
  have "lev (x # a) b \<le> Suc (lev a b)" using lev_insert [of b x a] by (simp add: lev_sym)
  with Cons show ?case by simp
qed simp

lemma lev_replace: "lev a (y # v) \<le> Suc (lev a (x # v))"
  by (induction a) (auto simp: min_def)

lemma lev_under:
  assumes "\<And>a. lev a c \<le> Suc (lev a b)"
  shows "lev a (z # c) \<le> Suc (lev a (z # b))"
proof (induction a)
  case Nil
  then show ?case using assms [of "[]"] by simp
next
  case (Cons x a)
  then show ?case using assms [of a] assms [of "x # a"] by simp
qed

lemma lev_edit1: "edit1 b c \<Longrightarrow> lev a c \<le> Suc (lev a b)"
proof (induction b c arbitrary: a rule: edit1.induct)
  case (ins u v x)
  then show ?case by (induction u arbitrary: a) (simp_all add: lev_insert lev_under del: lev.simps)
next
  case (del u x v)
  then show ?case by (induction u arbitrary: a) (simp_all add: lev_delete lev_under del: lev.simps)
next
  case (sub u x v y)
  then show ?case by (induction u arbitrary: a) (simp_all add: lev_replace lev_under del: lev.simps)
qed

lemma lev_minimal: "(edit1 ^^ n) a b \<Longrightarrow> lev a b \<le> n"
proof (induction n arbitrary: b)
  case 0
  then show ?case by (simp add: lev_refl)
next
  case (Suc n)
  then obtain c where "(edit1 ^^ n) a c" "edit1 c b" by auto
  then show ?case using Suc.IH lev_edit1 [of c b a] by fastforce
qed

lemma edit1_Cons: "edit1 a b \<Longrightarrow> edit1 (z # a) (z # b)"
  by (induction rule: edit1.induct) (metis append_Cons edit1.intros)+

lemma edits_Cons: "(edit1 ^^ n) a b \<Longrightarrow> (edit1 ^^ n) (z # a) (z # b)"
proof (induction n arbitrary: b)
  case (Suc n)
  then obtain c where "(edit1 ^^ n) a c" "edit1 c b" by auto
  then show ?case using Suc.IH edit1_Cons by (meson relpowp_Suc_I)
qed simp

lemma edit1_heads: "edit1 (x # a) a" "edit1 a (x # a)" "edit1 (x # a) (y # a)"
  using edit1.intros [of "[]"] by simp_all

lemma edits_to_Nil: "(edit1 ^^ length a) a []"
proof (induction a)
  case (Cons x a)
  then have "(edit1 ^^ Suc (length a)) (x # a) []" by (meson edit1_heads relpowp_Suc_I2)
  then show ?case by simp
qed simp

lemma lev_achieved: "(edit1 ^^ lev a b) a b"
proof (induction a b rule: lev.induct)
  case (1 b)
  show ?case by (induction b) (auto intro: edit1_heads)
next
  case (2 x a)
  show ?case by (metis edits_to_Nil lev_Nil2)
next
  case (3 x a y b)
  have "(edit1 ^^ Suc (lev a (y # b))) (x # a) (y # b)" using 3(1) by (meson edit1_heads relpowp_Suc_I2)
  moreover have "(edit1 ^^ Suc (lev (x # a) b)) (x # a) (y # b)" using 3(2) by (meson edit1_heads relpowp_Suc_I)
  moreover have "(edit1 ^^ (lev a b + (if x = y then 0 else 1))) (x # a) (y # b)"
  proof (cases "x = y")
    case True
    then show ?thesis using edits_Cons [OF 3(3)] by simp
  next
    case False
    have "(edit1 ^^ Suc (lev a b)) (x # a) (y # b)"
      using edits_Cons [OF 3(3), of x] by (meson edit1_heads relpowp_Suc_I)
    then show ?thesis using False by simp
  qed
  ultimately show ?case by (auto simp: min_def)
qed

lemma edit1_rev: "edit1 a b \<Longrightarrow> edit1 (rev a) (rev b)"
  by (induction rule: edit1.induct) (simp_all add: edit1.intros)

lemma edits_rev: "(edit1 ^^ n) a b \<Longrightarrow> (edit1 ^^ n) (rev a) (rev b)"
proof (induction n arbitrary: b)
  case (Suc n)
  then obtain c where "(edit1 ^^ n) a c" "edit1 c b" by auto
  then show ?case using Suc.IH edit1_rev by (meson relpowp_Suc_I)
qed simp

lemma least_edits: "(LEAST n. (edit1 ^^ n) a b) = lev (rev a) (rev b)"
proof (rule Least_equality)
  show "(edit1 ^^ lev (rev a) (rev b)) a b" using edits_rev [OF lev_achieved, of "rev a" "rev b"] by simp
  show "lev (rev a) (rev b) \<le> n" if "(edit1 ^^ n) a b" for n by (rule lev_minimal [OF edits_rev [OF that]])
qed

text \<open>A row of the table: the distances of a fixed string to the growing prefixes.\<close>

primrec lev_row :: "'a list \<Rightarrow> 'a list \<Rightarrow> 'a list \<Rightarrow> nat list" where
  "lev_row ra p [] = [lev ra p]"
| "lev_row ra p (y # b) = lev ra p # lev_row ra (y # p) b"

lemma lev_row_Cons: "\<exists>row. lev_row ra p b = lev ra p # row"
  by (cases b) simp_all

lemma edit_cells_row: "lev (x # ra) p # edit_cells x b (lev_row ra p b) (lev (x # ra) p) = lev_row (x # ra) p b"
proof (induction b arbitrary: p)
  case (Cons y b)
  obtain row where row: "lev_row ra (y # p) b = lev ra (y # p) # row" using lev_row_Cons by blast
  have "lev_row (x # ra) p (y # b) = lev (x # ra) p # lev (x # ra) (y # p) #
      edit_cells x b (lev_row ra (y # p) b) (lev (x # ra) (y # p))"
    using Cons.IH [of "y # p"] by simp
  then show ?case by (simp add: row Let_def min_def)
qed simp

lemma edit_rows_row:
  "i = Suc (length ra) \<Longrightarrow> edit_rows a b i (lev_row ra [] b) = lev_row (rev a @ ra) [] b"
proof (induction a arbitrary: i ra)
  case (Cons x a)
  have "i # edit_cells x b (lev_row ra [] b) i = lev_row (x # ra) [] b"
    using edit_cells_row [of x ra "[]" b] Cons.prems by simp
  then show ?case using Cons.IH [of "Suc i" "x # ra"] Cons.prems by simp
qed simp

lemma first_row: "lev_row [] p b = [length p..<length p + length b + 1]"
  by (induction b arbitrary: p) (simp_all add: upt_rec)

lemma last_cell: "lev_row ra p b ! length b = lev ra (rev b @ p)"
  by (induction b arbitrary: p) simp_all

lemma edit_distance_lev: "length a \<le> 62 \<Longrightarrow> length b \<le> 62 \<Longrightarrow> cli_edit_distance a b = lev (rev a) (rev b)"
  using edit_rows_row [of 1 "[]" a b] last_cell [of "rev a" "[]" b] first_row [of "[]" b]
  by (simp add: cli_edit_distance_def)

section \<open>Lemmas: numbers\<close>

lemma digits_value_nonneg: "list_all is_digit ds \<Longrightarrow> 0 \<le> digits_value ds"
proof -
  have "0 \<le> n \<Longrightarrow> list_all is_digit ds \<Longrightarrow> 0 \<le> foldl (\<lambda>n c. n * 10 + (of_char c - 48)) n ds" for n :: int
  proof (induction ds arbitrary: n)
    case (Cons c ds)
    have "(48 :: nat) \<le> of_char c" using Cons.prems by (simp add: is_digit_def)
    then have "(48 :: int) \<le> of_char c" by (metis of_nat_le_iff of_nat_numeral of_nat_of_char)
    then show ?case using Cons by simp
  qed simp
  then show "list_all is_digit ds \<Longrightarrow> 0 \<le> digits_value ds" by (simp add: digits_value_def)
qed

lemma suffix_cases:
  "suffix_seconds u = Some m \<longleftrightarrow>
    (u = [] \<and> m = 1) \<or> (\<exists>c w. u = [c] \<and> duration_unit c = Some w \<and> uint w = m)"
  unfolding suffix_seconds_def duration_unit_def by auto

lemma suffix_no_digit: "suffix_seconds u = Some m \<Longrightarrow> takeWhile is_digit u = [] \<and> dropWhile is_digit u = u"
  by (auto simp: suffix_seconds_def is_digit_def split: if_splits)

lemma suffix_word:
  "(case u of [] \<Rightarrow> Some 1 | [c] \<Rightarrow> duration_unit c | _ \<Rightarrow> None) = Some w \<longleftrightarrow> suffix_seconds u = Some (uint (w :: 64 word))"
  by (auto simp: suffix_cases word_uint_eq_iff split: list.splits)

lemma duration_unit_pos: "suffix_seconds u = Some m \<Longrightarrow> 0 < m"
  by (auto simp: suffix_seconds_def split: if_splits)

lemma le_div_iff: "0 < (m :: int) \<Longrightarrow> n \<le> x div m \<longleftrightarrow> n * m \<le> x"
proof
  assume "0 < m" "n \<le> x div m"
  then have "n * m \<le> x div m * m" by simp
  also have "\<dots> \<le> x" using \<open>0 < m\<close> by (simp add: minus_mod_eq_div_mult [symmetric])
  finally show "n * m \<le> x" .
next
  assume "0 < m" "n * m \<le> x"
  then show "n \<le> x div m" using zdiv_mono1 [of "n * m" x m] by simp
qed

lemma word_fits:
  fixes m :: "64 word"
  assumes "0 < uint m" "0 \<le> n"
  shows "uint ((- 1 :: 64 word) div m) < n \<longleftrightarrow> UINT64_MAX < n * uint m"
    and "n * uint m \<le> UINT64_MAX \<Longrightarrow> uint (word_of_int n * m) = n * uint m"
proof -
  have "uint ((- 1 :: 64 word) div m) = UINT64_MAX div uint m"
    by (simp add: uint_div_distrib UINT64_MAX_def unsigned_minus_1_eq_mask mask_eq_exp_minus_1)
  then show "uint ((- 1 :: 64 word) div m) < n \<longleftrightarrow> UINT64_MAX < n * uint m"
    using le_div_iff [OF assms(1), of n UINT64_MAX] by linarith
next
  assume fits: "n * uint m \<le> UINT64_MAX"
  have "word_of_int n * m = (word_of_int (n * uint m) :: 64 word)" by simp
  moreover have "uint (word_of_int (n * uint m) :: 64 word) = n * uint m"
    using fits assms by (simp only: uint_word_of_int) (simp add: UINT64_MAX_def)
  ultimately show "uint (word_of_int n * m) = n * uint m" by simp
qed

section \<open>Lemmas: options\<close>

text \<open>The fields that hold secrets.\<close>

definition argv_secrets :: "cli_options \<Rightarrow> string option list" where
  "argv_secrets o' = [password o', new_password o', token o', opt_value o']"

lemma parse_option_secrets:
  "parse_option getenv code arg o' = Inr o1 \<Longrightarrow> \<not> cli_sensitive_argv_allowed getenv \<Longrightarrow>
    argv_secrets o1 = argv_secrets o'"
  unfolding parse_option_def Let_def argv_secrets_def
  by (auto simp: and_then_eq_Inr split: if_splits)

lemma parse_events_secrets:
  "parse_events getenv evs o' = Inr o1 \<Longrightarrow> \<not> cli_sensitive_argv_allowed getenv \<Longrightarrow>
    argv_secrets o1 = argv_secrets o'"
  by (induction getenv evs o' rule: parse_events.induct) (auto simp: and_then_eq_Inr parse_option_secrets)

lemma take_operands_secrets: "take_operands ops o' = Inr o1 \<Longrightarrow> argv_secrets o1 = argv_secrets o'"
  by (auto simp: take_operands_def argv_secrets_def split: option.splits list.splits if_splits)

lemma with_getopt_secrets:
  "cli_parse_with_getopt getenv argv o' = Inr o1 \<Longrightarrow> \<not> cli_sensitive_argv_allowed getenv \<Longrightarrow>
    argv_secrets o1 = argv_secrets o'"
  by (auto simp: cli_parse_with_getopt_def and_then_eq_Inr split: if_splits prod.splits)
     (metis parse_events_secrets take_operands_secrets)

section \<open>Properties\<close>

text \<open>
  C22: Unless the environment variable \<open>FUIN_ALLOW_INSECURE_ARGS\<close> is \<open>1\<close>, no secret enters
  through the command line: whatever the arguments are, when they are accepted the master
  password, the new password and the token are those of the environment, and there is no
  value for \<open>put\<close>.
\<close>

theorem argv_carries_no_secret:
  assumes "cli_parse_options getenv argv = Inr o'" "getenv ''FUIN_ALLOW_INSECURE_ARGS'' \<noteq> Some ''1''"
  shows "password o' = getenv ''FUIN_PASSWORD'' \<and> new_password o' = getenv ''FUIN_NEW_PASSWORD'' \<and>
    token o' = getenv ''FUIN_TOKEN'' \<and> opt_value o' = None"
proof -
  have na: "\<not> cli_sensitive_argv_allowed getenv" using assms(2) by (simp add: cli_sensitive_argv_allowed_def)
  obtain argv0 o0 o1 where o1: "cli_parse_with_getopt getenv argv0 o0 = Inr o1"
    "argv_secrets o0 = [None, None, None, None]"
    and o': "cli_check_positional (o1\<lparr>
          password := (case password o1 of None \<Rightarrow> getenv ''FUIN_PASSWORD'' | p \<Rightarrow> p),
          new_password := (case new_password o1 of None \<Rightarrow> getenv ''FUIN_NEW_PASSWORD'' | p \<Rightarrow> p),
          token := (case token o1 of None \<Rightarrow> getenv ''FUIN_TOKEN'' | p \<Rightarrow> p)\<rparr>) = Inr o'"
    using assms(1) unfolding cli_parse_options_def Let_def
    by (auto simp: and_then_eq_Inr argv_secrets_def cli_init_options_def split: if_splits)
  have "argv_secrets o1 = [None, None, None, None]" using with_getopt_secrets [OF o1(1) na] o1(2) by simp
  then show ?thesis using o' unfolding cli_check_positional_def argv_secrets_def
    by (auto split: option.splits if_splits)
qed

definition sample_getenv :: "string \<Rightarrow> string option" where
  "sample_getenv = map_of [(''FUIN_PASSWORD'', ''pw''), (''FUIN_TOKEN'', ''t'')]"

definition sample_argv :: "string list" where
  "sample_argv = [''fuin'', ''put'', ''--db=v.db'', ''api'', ''--ttl'', ''90d'', ''-s'']"

theorem argv_carries_no_secret_witness:
  "\<exists>o'. cli_parse_options sample_getenv sample_argv = Inr o' \<and> ttl_seconds o' = 7776000 \<and>
    opt_name o' = Some ''api'' \<and> db_path o' = Some ''v.db'' \<and> password o' = Some ''pw'' \<and> opt_value o' = None"
proof -
  have "case cli_parse_options sample_getenv sample_argv of Inl _ \<Rightarrow> False
    | Inr o' \<Rightarrow> ttl_seconds o' = 7776000 \<and> opt_name o' = Some ''api'' \<and> db_path o' = Some ''v.db''"
    by code_simp
  then have "\<exists>o'. cli_parse_options sample_getenv sample_argv = Inr o' \<and> ttl_seconds o' = 7776000 \<and>
    opt_name o' = Some ''api'' \<and> db_path o' = Some ''v.db''" by (auto split: sum.splits)
  moreover have "sample_getenv ''FUIN_ALLOW_INSECURE_ARGS'' \<noteq> Some ''1''" "sample_getenv ''FUIN_PASSWORD'' = Some ''pw''"
    by (simp_all add: sample_getenv_def)
  ultimately show ?thesis using argv_carries_no_secret by metis
qed

text \<open>
  C38: A duration is accepted exactly when it is a positive decimal number followed by nothing
  or by one of the letters s, m, h and d, and its length in seconds is at most the largest
  64-bit number; the result is that length, with no wrap-around.
\<close>

theorem duration_exact:
  "cli_parse_duration_seconds txt = Inr w \<longleftrightarrow>
    (\<exists>ds u m. txt = ds @ u \<and> ds \<noteq> [] \<and> list_all is_digit ds \<and> suffix_seconds u = Some m \<and>
      0 < digits_value ds \<and> digits_value ds * m \<le> UINT64_MAX \<and> uint w = digits_value ds * m)"
    (is "?parsed = ?spec")
proof
  assume ?parsed
  define ds where "ds = takeWhile is_digit txt"
  define u where "u = dropWhile is_digit txt"
  have split: "txt = ds @ u" "list_all is_digit ds"
    by (auto simp: ds_def u_def list_all_iff dest: set_takeWhileD)
  obtain m where m: "ds \<noteq> []" "\<not> UINT64_MAX < digits_value ds" "digits_value ds \<noteq> 0"
    "suffix_seconds u = Some (uint m)"
    "\<not> uint ((- 1 :: 64 word) div m) < digits_value ds" "w = word_of_int (digits_value ds) * m"
    using \<open>?parsed\<close> unfolding cli_parse_duration_seconds_def strtoull_def Let_def
    by (auto simp: ds_def u_def suffix_word split: if_splits option.splits)
  note pos = duration_unit_pos [OF m(4)] and nonneg = digits_value_nonneg [OF split(2)]
  show ?spec
    using split m pos nonneg word_fits [OF pos nonneg]
    by (intro exI [of _ ds] exI [of _ u] exI [of _ "uint m"]) auto
next
  assume ?spec
  then obtain ds u m where s: "txt = ds @ u" "ds \<noteq> []" "list_all is_digit ds" "suffix_seconds u = Some m"
    "0 < digits_value ds" "digits_value ds * m \<le> UINT64_MAX" "uint w = digits_value ds * m" by blast
  have tw: "takeWhile is_digit txt = ds" "dropWhile is_digit txt = u"
    using s suffix_no_digit [OF s(4)] by (auto simp: takeWhile_append dropWhile_append list_all_iff)
  have hd: "txt \<noteq> []" "is_digit (hd txt)" using s(1-3) by (auto simp: list_all_iff)
  define v :: "64 word" where "v = word_of_int m"
  have "uint v = m" using s(4) by (auto simp: v_def suffix_seconds_def split: if_splits)
  then have v: "suffix_seconds u = Some (uint v)" "uint v = m" using s(4) by simp_all
  note pos = duration_unit_pos [OF v(1)] and nonneg = less_imp_le [OF s(5)]
  have small: "\<not> UINT64_MAX < digits_value ds"
    using s(5,6) duration_unit_pos [OF s(4)] by (smt (verit) mult_less_cancel_left2)
  have "uint (word_of_int (digits_value ds) * v) = uint w"
    using word_fits(2) [OF pos nonneg] s(6,7) v(2) by simp
  then have "word_of_int (digits_value ds) * v = w" by (simp only: word_uint_eq_iff)
  then show ?parsed
    using hd small s(2,5,6) v(2) word_fits(1) [OF pos nonneg] v(1) [folded suffix_word]
    unfolding cli_parse_duration_seconds_def strtoull_def Let_def by (simp add: tw)
qed

text \<open>
  C37: For strings of at most 62 characters the table computes the least number of insertions,
  deletions and replacements of single characters that leads from one string to the other.
\<close>

theorem edit_distance_least:
  assumes "length a \<le> 62" "length b \<le> 62"
  shows "cli_edit_distance a b = (LEAST n. (edit1 ^^ n) a b)"
  using edit_distance_lev [OF assms] by (simp add: least_edits)

theorem edit_distance_least_witness:
  "(LEAST n. (edit1 ^^ n) ''delte'' ''delete'') = 1 \<and> cli_closest_command (Some ''delte'') = Some ''delete''"
proof -
  have "cli_edit_distance ''delte'' ''delete'' = 1" "cli_closest_command (Some ''delte'') = Some ''delete''" by code_simp+
  then show ?thesis using edit_distance_least [of "''delte''" "''delete''"] by simp
qed

end
