(* ===== verification/Fuin_Cli_Help.thy ===== *)
theory Fuin_Cli_Help
  imports Fuin_Cli_Args
begin

text \<open>
  The help the command line interface prints (\<open>cli_print_intro\<close>, \<open>cli_print_usage\<close> and
  \<open>cli_print_command_help\<close> of \<open>src/src/main.c\<close>), as the lists of texts written one after the other,
  with or without colour.
\<close>

section \<open>Decoration\<close>

definition newline :: string where "newline = [CHR 0x0A]"

definition sgr :: "string \<Rightarrow> string" where
  "sgr code = [CHR 0x1B, CHR ''[''] @ code @ ''m''"

text \<open>Text between an SGR sequence and the reset, on a colour terminal only.\<close>

definition dyed :: "bool \<Rightarrow> string \<Rightarrow> string \<Rightarrow> string" where
  "dyed color code s = (if color then sgr code @ s @ sgr ''0'' else s)"

definition heading_text :: "bool \<Rightarrow> string \<Rightarrow> string" where
  "heading_text color s = (if color then sgr ''1'' @ sgr ''36'' @ s @ sgr ''0'' @ newline else s @ newline)"

definition listing_text :: "bool \<Rightarrow> int \<Rightarrow> string \<Rightarrow> string \<Rightarrow> string" where
  "listing_text color desc_col cmd desc =
     (let pad = replicate (nat (max 1 (desc_col - 2 - int (length cmd)))) (CHR '' '') in
      ''  '' @ dyed color ''36'' cmd @ pad @ dyed color ''2'' desc @ newline)"

definition help_lines :: "string list \<Rightarrow> string" where
  "help_lines ls = concat (map (\<lambda>l. l @ newline) ls)"

section \<open>Help\<close>

definition cli_print_intro :: "bool \<Rightarrow> string list" where
  "cli_print_intro color = [
     dyed color ''1'' ''fuin - seal your secrets, prove your history'' @ newline,
     help_lines
       [[],
        ''Your secrets are encrypted on this machine (no server, no cloud),'',
        ''and every operation is recorded in a tamper-evident audit log you'',
        ''can verify yourself.'',
        []],
     heading_text color ''Quick start:'',
     listing_text color 29 ''fuin init'' ''create a vault (asks for a master password)'',
     listing_text color 29 ''fuin generate db/prod'' ''generate and store a random secret'',
     listing_text color 29 ''fuin get db/prod --copy'' ''copy it to the clipboard (auto-clears in 30 s)'',
     listing_text color 29 ''fuin list'' ''see what is stored, without values'',
     listing_text color 29 ''fuin audit-verify'' ''prove the history is untampered'',
     newline,
     dyed color ''2'' ''Run 'fuin --help' for the full command reference.'' @ newline]"

definition cli_print_usage :: "bool \<Rightarrow> string list" where
  "cli_print_usage color = [
     help_lines
       [''Usage: fuin COMMAND [NAME] [OPTIONS]'',
        [],
        ''Commands that take a secret NAME accept it directly'',
        ''(e.g. 'fuin get db/prod') or via -n/--name.'',
        []],
     heading_text color ''Everyday commands:'',
     help_lines
       [''  init                 Create a new vault database'',
        ''  generate [NAME]      Generate, store, and print a random secret to'',
        ''                       stdout (or copy it to the clipboard)'',
        ''  put [NAME]           Store a secret (-v VALUE or --stdin)'',
        ''  get [NAME]           Print a secret value (--copy for clipboard,'',
        ''                       --raw for exact bytes without a newline)'',
        ''  totp [NAME]          Print an RFC 6238 code from a stored base32 seed'',
        ''  list                 List secret metadata without revealing values'',
        ''  delete [NAME]        Soft-delete a secret (history is kept)'',
        []],
     heading_text color ''Lifecycle and access control:'',
     help_lines
       [''  rollback [NAME]      Restore a historical version (--version N)'',
        ''  rotate-kek           Change the master password; rewraps all keys atomically'',
        ''  check-expiry         List expired or soon-expiring active secrets'',
        ''  auto-rotate          Re-encrypt expired active secrets with new keys'',
        ''  issue-token          Issue a scoped HMAC access token'',
        ''  check-token          Verify an HMAC access token and required scope'',
        ''  revoke-tokens        Revoke all previously issued HMAC access tokens'',
        ''  status-report        Print vault inventory and security posture'',
        []],
     heading_text color ''Audit and proofs:'',
     help_lines
       [''  audit-verify         Verify the audit hash chain and HMAC signatures'',
        ''  audit-root           Print the Merkle root (store it OUTSIDE the vault)'',
        ''  audit-proof          Print an inclusion proof for one audit entry'',
        ''  audit-verify-proof   Verify an entry proof against a saved root'',
        ''  audit-keygen         Generate an ML-DSA-65 audit signing keypair'',
        ''  audit-sign-root      Sign the audit Merkle root with ML-DSA-65'',
        ''  audit-verify-root-sig'',
        ''                       Verify a saved root signature offline (no password)'',
        []],
     heading_text color ''Backup (post-quantum hybrid):'',
     help_lines
       [''  pqc-keygen           Generate an X25519+ML-KEM-768 recipient keypair'',
        ''  backup-export        Export an encrypted backup capsule'',
        ''  backup-import        Restore a capsule (still needs the master password)'',
        []],
     heading_text color ''Options:'',
     help_lines
       [''  -d, --db PATH        SQLite vault path (default: fuin.db)'',
        ''  -p, --password PASS  Master password; disabled unless'',
        ''                       FUIN_ALLOW_INSECURE_ARGS=1'',
        ''      --new-password PASS'',
        ''                       New master password; disabled unless'',
        ''                       FUIN_ALLOW_INSECURE_ARGS=1'',
        ''  -n, --name NAME      Secret name'',
        ''  -v, --value VALUE    Secret value for put'',
        ''      --algorithm NAME AEAD for put/generate: AES-256-GCM,'',
        ''                       XChaCha20-Poly1305, or AEGIS-256'',
        ''      --ttl DURATION   Secret TTL for put: 90d, 24h, 60m, or 3600s'',
        ''      --within DURATION'',
        ''                       Lookahead for check-expiry; same units as --ttl'',
        ''      --subject NAME   Token subject for issue-token'',
        ''      --scope SCOPE    Token scope or required scope'',
        ''      --token TOKEN    HMAC token; disabled unless'',
        ''                       FUIN_ALLOW_INSECURE_ARGS=1'',
        ''      --version N      Historical version for get/rollback'',
        ''      --entry-id N     Audit entry id for audit-proof/verify-proof'',
        ''      --root HEX       Saved audit Merkle root for audit-verify-proof'',
        ''      --proof HEX      Concatenated sibling hashes for audit-verify-proof'',
        ''      --leaf-index N   Zero-based Merkle leaf index for audit-verify-proof'',
        ''      --entries N      Audit leaf count for proofs/root signatures'',
        ''      --recipient PATH hybrid public key for backup-export'',
        ''      --private-key PATH'',
        ''                       private key for backup-import/audit-sign-root'',
        ''      --public-key PATH'',
        ''                       ML-DSA public key for audit-verify-root-sig'',
        ''      --key-passphrase-file PATH'',
        ''                       First line supplies a backup/audit private key'',
        ''                       passphrase; otherwise a no-echo prompt is used'',
        ''      --signature B64  Root signature for audit-verify-root-sig'',
        ''      --public-out PATH'',
        ''                       Public key output for pqc-keygen'',
        ''      --private-out PATH'',
        ''                       Private key output for pqc-keygen'',
        ''      --input PATH     Capsule input for backup-import'',
        ''      --out PATH       Capsule or restored DB output path'',
        ''      --all            Include archived versions for list'',
        ''      --stdin          Read secret value for put from stdin'',
        ''      --length N       Generated secret length (default 24, max 256)'',
        ''      --no-symbols     Generate with letters and digits only'',
        ''      --copy           Copy secret to clipboard instead of printing;'',
        ''                       clipboard auto-clears after 30 seconds'',
        ''      --raw            For get: write exact secret bytes, no newline'',
        ''  -h, --help           Show this help'',
        []],
     heading_text color ''Examples:'',
     help_lines
       [''  fuin init'',
        ''  fuin generate db/prod --length 32'',
        ''  fuin put api/stripe --stdin < key.txt'',
        ''  fuin get db/prod --copy'',
        ''  fuin totp otp/github'',
        ''  fuin rotate-kek'',
        [],
        ''The master password is read from a no-echo prompt when the session'',
        ''is interactive, or from FUIN_PASSWORD otherwise. Direct password,'',
        ''token, and secret argv values require FUIN_ALLOW_INSECURE_ARGS=1.'']]"

definition cli_print_command_help :: "bool \<Rightarrow> string \<Rightarrow> string list" where
  "cli_print_command_help color cmd =
     (case cli_command_usage (Some cmd) of
        None \<Rightarrow> cli_print_usage color
      | Some usage \<Rightarrow>
          [''Usage: fuin '' @ usage @ newline] @
          (if cli_command_accepts_name cmd
           then [help_lines [[], ''The NAME can be given directly (e.g. 'fuin get db/prod')'', ''or via -n/--name.'']] else []) @
          [help_lines [[], ''Run 'fuin --help' for the full command reference and all options.'']])"

end
