(* ===== verification/Fuin_Cli_Show.thy ===== *)
theory Fuin_Cli_Show
  imports Fuin_Merkle
begin

text \<open>
  How \<open>src/src/main.c\<close> shows and reads text: hashes in hexadecimal, and the names of secrets in
  a listing, which may hold any bytes but must not carry control characters to the terminal nor
  break a column. \<open>sodium_hex2bin\<close> is the argument \<open>hex2bin\<close>: for a capacity and a text, the
  bytes and the text at \<open>hex_end\<close>.
\<close>

section \<open>Hexadecimal\<close>

definition hex_digits :: string where "hex_digits = ''0123456789abcdef''"

text \<open>The characters \<open>cli_print_hex\<close> puts out for one byte.\<close>

definition hex_byte :: "byte \<Rightarrow> string" where
  "hex_byte b = [hex_digits ! unat (drop_bit 4 b), hex_digits ! unat (b AND 0x0F)]"

type_synonym hex_decoder = "nat \<Rightarrow> string \<Rightarrow> (bytes \<times> string) option"

definition cli_decode_hex_exact :: "hex_decoder \<Rightarrow> string \<Rightarrow> nat \<Rightarrow> bytes result" where
  "cli_decode_hex_exact hex2bin hex output_len =
     (if SIZE_MAX div 2 < int output_len \<or> length hex \<noteq> output_len * 2 then Inl SM_ERR_INVALID_ARGUMENT
      else case hex2bin output_len hex of
        None \<Rightarrow> Inl SM_ERR_INVALID_ARGUMENT
      | Some (bin, hex_end) \<Rightarrow>
          if length bin \<noteq> output_len \<or> hex_end \<noteq> [] then Inl SM_ERR_INVALID_ARGUMENT else Inr bin)"

definition cli_decode_proof_hex :: "hex_decoder \<Rightarrow> string \<Rightarrow> nat \<Rightarrow> bytes result" where
  "cli_decode_proof_hex hex2bin hex proof_capacity =
     (if length hex mod (AUDIT_MERKLE_ROOT_BYTES * 2) \<noteq> 0 \<or> proof_capacity < length hex div 2
      then Inl SM_ERR_INVALID_ARGUMENT
      else if hex = [] then Inr []
      else case hex2bin proof_capacity hex of
        None \<Rightarrow> Inl SM_ERR_INVALID_ARGUMENT
      | Some (bin, hex_end) \<Rightarrow>
          if hex_end \<noteq> [] \<or> length bin mod AUDIT_MERKLE_ROOT_BYTES \<noteq> 0 then Inl SM_ERR_INVALID_ARGUMENT
          else Inr bin)"

section \<open>Names in a listing\<close>

definition CLI_LIST_NAME_WIDTH :: nat where "CLI_LIST_NAME_WIDTH = 28"
definition CLI_LIST_NAME_ELLIPSIS :: string where "CLI_LIST_NAME_ELLIPSIS = ''...''"
definition CLI_DISPLAY_NAME_MAX :: nat where "CLI_DISPLAY_NAME_MAX = 512"

definition shown_char :: "char \<Rightarrow> char" where
  "shown_char c = (if (of_char c :: byte) < 0x20 \<or> (of_char c :: byte) = 0x7F then CHR ''?'' else c)"

fun sanitize_loop :: "string \<Rightarrow> nat \<Rightarrow> nat \<Rightarrow> string result" where
  "sanitize_loop [] out output_len = Inr []"
| "sanitize_loop (c # cs) out output_len =
     (if out + 1 < output_len then and_then (sanitize_loop cs (out + 1) output_len) (\<lambda>t. Inr (shown_char c # t))
      else Inl SM_ERR_INPUT_TOO_LARGE)"

definition cli_sanitize_display_text :: "string \<Rightarrow> nat \<Rightarrow> string result" where
  "cli_sanitize_display_text input output_len =
     (if output_len = 0 then Inl SM_ERR_INVALID_ARGUMENT else sanitize_loop input 0 output_len)"

definition utf8_char_len :: "byte \<Rightarrow> nat" where
  "utf8_char_len c =
     (if c < 0x80 then 1
      else if c AND 0xE0 = 0xC0 then 2
      else if c AND 0xF0 = 0xE0 then 3
      else if c AND 0xF8 = 0xF0 then 4
      else 1)"

text \<open>The terminating NUL is the end of the list.\<close>

function utf8_prefix_loop :: "string \<Rightarrow> nat \<Rightarrow> nat \<Rightarrow> nat" where
  "utf8_prefix_loop txt max_bytes offset =
     (if offset < length txt \<and> offset < max_bytes then
        (let char_len = utf8_char_len (of_char (txt ! offset)) in
         if 1 < char_len \<and> \<not> list_all (\<lambda>i. offset + i < max_bytes \<and> offset + i < length txt \<and>
              (of_char (txt ! (offset + i)) :: byte) AND 0xC0 = 0x80) [1..<char_len]
         then offset
         else if max_bytes < offset + char_len then offset
         else utf8_prefix_loop txt max_bytes (offset + char_len))
      else offset)"
  by pat_completeness auto

termination
  by (relation "measure (\<lambda>(txt, max_bytes, offset). length txt - offset)")
     (auto simp: utf8_char_len_def)

declare utf8_prefix_loop.simps [simp del]

definition cli_utf8_prefix_len :: "string \<Rightarrow> nat \<Rightarrow> nat" where
  "cli_utf8_prefix_len txt max_bytes = utf8_prefix_loop txt max_bytes 0"

definition cli_format_list_name :: "string \<Rightarrow> nat \<Rightarrow> string result" where
  "cli_format_list_name name output_len =
     (if output_len < CLI_LIST_NAME_WIDTH + 1 then Inl SM_ERR_INVALID_ARGUMENT
      else case cli_sanitize_display_text name CLI_DISPLAY_NAME_MAX of
        Inl _ \<Rightarrow> Inl SM_ERR_STORAGE
      | Inr safe_name \<Rightarrow>
          if length safe_name \<le> CLI_LIST_NAME_WIDTH
          then if length safe_name < output_len then Inr safe_name else Inl SM_ERR_STORAGE
          else
            let budget = CLI_LIST_NAME_WIDTH - length CLI_LIST_NAME_ELLIPSIS;
                prefix_len = cli_utf8_prefix_len safe_name budget;
                prefix_len' = (if prefix_len = 0 then budget else prefix_len) in
            Inr (take prefix_len' safe_name @ CLI_LIST_NAME_ELLIPSIS))"

section \<open>Specifications\<close>

text \<open>One character in UTF-8: a leading byte and the continuation bytes it announces.\<close>

definition utf8_char :: "string \<Rightarrow> bool" where
  "utf8_char c \<longleftrightarrow> c \<noteq> [] \<and> length c = utf8_char_len (of_char (hd c)) \<and>
     list_all (\<lambda>d. (of_char d :: byte) AND 0xC0 = 0x80) (tl c)"

text \<open>The most characters from the left that fit in a number of bytes.\<close>

fun fit_chars :: "nat \<Rightarrow> string list \<Rightarrow> string list" where
  "fit_chars n [] = []"
| "fit_chars n (c # cs) = (if length c \<le> n then c # fit_chars (n - length c) cs else [])"

definition hex2bin_ok :: "hex_decoder \<Rightarrow> bool" where
  "hex2bin_ok hex2bin \<longleftrightarrow>
     (\<forall>n data. length data \<le> n \<longrightarrow> hex2bin n (concat (map hex_byte data)) = Some (data, []))"

section \<open>Lemmas\<close>

lemma length_hex: "length (concat (map hex_byte data)) = 2 * length data"
  by (induction data) (simp_all add: hex_byte_def)

lemma decode_hex_exact_printed:
  "hex2bin_ok hex2bin \<Longrightarrow> int n \<le> SIZE_MAX div 2 \<Longrightarrow> length data = n \<Longrightarrow>
    cli_decode_hex_exact hex2bin (concat (map hex_byte data)) n = Inr data"
  by (simp add: cli_decode_hex_exact_def hex2bin_ok_def length_hex)

lemma decode_proof_hex_printed:
  "hex2bin_ok hex2bin \<Longrightarrow> length data \<le> n \<Longrightarrow> 32 dvd length data \<Longrightarrow>
    cli_decode_proof_hex hex2bin (concat (map hex_byte data)) n = Inr data"
proof (cases "data = []")
  case False
  assume h: "hex2bin_ok hex2bin" "length data \<le> n" "32 dvd length data"
  have len: "length (concat (map hex_byte data)) = 2 * length data" by (rule length_hex)
  then have "concat (map hex_byte data) \<noteq> []" using False by (metis length_0_conv mult_eq_0_iff zero_neq_numeral)
  moreover have "2 * length data mod 64 = 0" using h(3) by (auto elim: dvdE)
  ultimately show ?thesis using h
    by (simp add: cli_decode_proof_hex_def hex2bin_ok_def len AUDIT_MERKLE_ROOT_BYTES_def del: concat_eq_Nil_conv)
qed (simp add: cli_decode_proof_hex_def)

lemma sanitize_loop_eq:
  "sanitize_loop s out n = (if out + length s < n \<or> s = [] then Inr (map shown_char s) else Inl SM_ERR_INPUT_TOO_LARGE)"
  by (induction s out n rule: sanitize_loop.induct) auto

lemma sanitize_eq:
  "0 < n \<Longrightarrow> cli_sanitize_display_text s n = (if length s < n then Inr (map shown_char s) else Inl SM_ERR_INPUT_TOO_LARGE)"
  by (auto simp: cli_sanitize_display_text_def sanitize_loop_eq)

lemma shown_char_clean: "\<not> (of_char (shown_char c) :: byte) < 0x20" "(of_char (shown_char c) :: byte) \<noteq> 0x7F"
  by (auto simp: shown_char_def)

lemma utf8_char_len_range: "1 \<le> utf8_char_len c" "utf8_char_len c \<le> 4"
  by (auto simp: utf8_char_len_def)

lemma utf8_prefix_le: "offset \<le> max_bytes \<Longrightarrow> utf8_prefix_loop t max_bytes offset \<le> max_bytes"
proof (induction t max_bytes offset rule: utf8_prefix_loop.induct)
  case (1 t max_bytes offset)
  then show ?case by (subst utf8_prefix_loop.simps) (simp add: Let_def)
qed


lemma utf8_char_tail:
  "utf8_char c \<Longrightarrow> 0 < i \<Longrightarrow> i < length c \<Longrightarrow> (of_char (c ! i) :: byte) AND 0xC0 = 0x80"
  by (cases c; cases i) (auto simp: utf8_char_def list_all_length)

lemma nth_middle: "i < length c \<Longrightarrow> (pre @ c @ rest) ! (length pre + i) = c ! i"
  by (simp add: nth_append)

lemma utf8_prefix_chars:
  "list_all utf8_char cs \<Longrightarrow> length pre \<le> m \<Longrightarrow>
    utf8_prefix_loop (pre @ concat cs) m (length pre) = length pre + length (concat (fit_chars (m - length pre) cs))"
proof (induction cs arbitrary: pre)
  case Nil
  then show ?case by (subst utf8_prefix_loop.simps) simp
next
  case (Cons c cs)
  let ?s = "pre @ concat (c # cs)"
  have c: "c \<noteq> []" "utf8_char_len (of_char (hd c)) = length c"
    "\<And>i. 0 < i \<Longrightarrow> i < length c \<Longrightarrow> (of_char (c ! i) :: byte) AND 0xC0 = 0x80"
    using Cons.prems(1) utf8_char_tail [of c] by (auto simp: utf8_char_def)
  have at: "?s ! (length pre + i) = c ! i" if "i < length c" for i
    using nth_middle [OF that, of pre "concat cs"] by simp
  have lead: "utf8_char_len (of_char (?s ! length pre)) = length c"
    using at [of 0] c(1,2) by (simp add: hd_conv_nth)
  show ?case
  proof (cases "length c \<le> m - length pre")
    case True
    have "list_all (\<lambda>i. length pre + i < m \<and> length pre + i < length ?s \<and>
        (of_char (?s ! (length pre + i)) :: byte) AND 0xC0 = 0x80) [1..<length c]"
      using True at c(3) by (auto simp: list_all_iff)
    then have "utf8_prefix_loop ?s m (length pre) = utf8_prefix_loop ?s m (length (pre @ c))"
      using True c(1) Cons.prems(2) lead
      by (subst utf8_prefix_loop.simps) (auto simp: Let_def)
    then show ?thesis using Cons.IH [of "pre @ c"] Cons.prems True by simp
  next
    case False
    have "m - length pre \<in> set [1..<length c]" if "length pre < m" using False that by auto
    then have "\<not> list_all (\<lambda>i. length pre + i < m \<and> length pre + i < length ?s \<and>
        (of_char (?s ! (length pre + i)) :: byte) AND 0xC0 = 0x80) [1..<length c]" if "length pre < m"
      using that unfolding list_all_iff by (metis le_add_diff_inverse less_imp_le order_less_irrefl)
    then have "utf8_prefix_loop ?s m (length pre) = length pre"
      using False c(1) lead
      by (subst utf8_prefix_loop.simps) (auto simp: Let_def)
    then show ?thesis using False by simp
  qed
qed

lemma utf8_prefix_len_chars:
  "list_all utf8_char cs \<Longrightarrow> cli_utf8_prefix_len (concat cs) m = length (concat (fit_chars m cs))"
  using utf8_prefix_chars [of cs "[]" m] by (simp add: cli_utf8_prefix_len_def)

lemma fit_chars_prefix: "\<exists>k. fit_chars n cs = take k cs"
proof (induction n cs rule: fit_chars.induct)
  case (2 n c cs)
  show ?case
  proof (cases "length c \<le> n")
    case True
    then obtain k where "fit_chars (n - length c) cs = take k cs" using 2 by blast
    then have "fit_chars n (c # cs) = take (Suc k) (c # cs)" using True by simp
    then show ?thesis by blast
  qed (auto intro: exI [of _ 0])
qed simp

lemma take_fit_chars: "take (length (concat (fit_chars n cs))) (concat cs) = concat (fit_chars n cs)"
proof -
  obtain k where k: "fit_chars n cs = take k cs" using fit_chars_prefix by blast
  have "concat cs = concat (take k cs) @ concat (drop k cs)" by (metis append_take_drop_id concat_append)
  then show ?thesis by (simp add: k)
qed

lemma shown_lead: "utf8_char_len (of_char (shown_char c)) = utf8_char_len (of_char c)"
proof (cases "(of_char c :: byte) < 0x20 \<or> (of_char c :: byte) = 0x7F")
  case True
  then have "(of_char c :: byte) < 0x80"
  proof
    assume "(of_char c :: byte) = 0x7F"
    then show ?thesis by simp
  qed (auto simp: word_less_nat_alt)
  then show ?thesis using True by (auto simp: utf8_char_len_def shown_char_def)
qed (simp add: shown_char_def)

lemma shown_continuation: "(of_char c :: byte) AND 0xC0 = 0x80 \<Longrightarrow> shown_char c = c"
proof -
  assume a: "(of_char c :: byte) AND 0xC0 = 0x80"
  have "(b :: byte) AND 0xC0 = 0x80 \<Longrightarrow> 0x80 \<le> b" for b
    by (metis and.commute word_and_le1)
  from this [OF a] have "\<not> (of_char c :: byte) < 0x20 \<and> (of_char c :: byte) \<noteq> 0x7F"
    by (simp only: word_le_nat_alt word_less_nat_alt word_unat_eq_iff) simp
  then show ?thesis by (simp add: shown_char_def)
qed

lemma shown_utf8_char: "utf8_char c \<Longrightarrow> utf8_char (map shown_char c)"
  by (cases c) (auto simp: utf8_char_def shown_lead list_all_iff shown_continuation)

lemma fit_chars_map: "(\<And>c. length (f c) = length c) \<Longrightarrow> fit_chars n (map f cs) = map f (fit_chars n cs)"
  by (induction n cs rule: fit_chars.induct) auto

lemma fit_chars_nonempty:
  assumes "list_all utf8_char cs" "cs \<noteq> []" "4 \<le> n"
  shows "concat (fit_chars n cs) \<noteq> []"
proof (cases cs)
  case (Cons c cs')
  then have "c \<noteq> []" "length c \<le> 4" using assms(1) utf8_char_len_range(2) by (auto simp: utf8_char_def)
  then show ?thesis using Cons assms(3) by simp
qed (use assms in simp)

section \<open>Properties\<close>

text \<open>
  Whatever bytes a name is made of, the listing either refuses it, which happens only for
  names of 512 bytes and more, or shows at most 28 bytes for it, none of them a control
  character.
\<close>

theorem list_name_safe:
  "case cli_format_list_name name 29 of
     Inl e \<Rightarrow> e = SM_ERR_STORAGE \<and> 512 \<le> length name
   | Inr shown \<Rightarrow> length name < 512 \<and> length shown \<le> 28 \<and>
       list_all (\<lambda>c. 0x20 \<le> (of_char c :: byte) \<and> (of_char c :: byte) \<noteq> 0x7F) shown"
proof (cases "length name < 512")
  case True
  let ?safe = "map shown_char name"
  define n where "n = cli_utf8_prefix_len ?safe 25"
  have "n \<le> 25" using utf8_prefix_le [of 0 25 ?safe] by (simp add: n_def cli_utf8_prefix_len_def)
  moreover have clean: "list_all (\<lambda>c. 0x20 \<le> (of_char c :: byte) \<and> (of_char c :: byte) \<noteq> 0x7F) ?safe"
    using shown_char_clean by (simp add: list_all_iff not_less)
  moreover have "list_all (\<lambda>c. 0x20 \<le> (of_char c :: byte) \<and> (of_char c :: byte) \<noteq> 0x7F) (take k ?safe)" for k
    using clean by (simp only: list_all_iff) (meson in_set_takeD)
  ultimately show ?thesis using True
    by (simp add: cli_format_list_name_def sanitize_eq CLI_DISPLAY_NAME_MAX_def CLI_LIST_NAME_WIDTH_def
        CLI_LIST_NAME_ELLIPSIS_def n_def [symmetric] Let_def)
qed (simp add: cli_format_list_name_def sanitize_eq CLI_DISPLAY_NAME_MAX_def CLI_LIST_NAME_WIDTH_def)

text \<open>
  A name in UTF-8 is never cut inside a character: up to 28 bytes it is shown whole, and a
  longer one is shown as the most characters from the left that fit in 25 bytes, followed by
  three dots. Control characters are shown as question marks.
\<close>

theorem list_name_whole_characters:
  assumes "list_all utf8_char chars" "length (concat chars) < 512"
  shows "cli_format_list_name (concat chars) 29 = Inr
    (if length (concat chars) \<le> 28 then map shown_char (concat chars)
     else map shown_char (concat (fit_chars 25 chars)) @ ''...'')"
proof -
  let ?shown = "map (map shown_char) chars"
  have safe: "map shown_char (concat chars) = concat ?shown" by (simp add: map_concat)
  have shown: "list_all utf8_char ?shown" using assms(1) by (simp add: list_all_iff shown_utf8_char)
  have fit: "fit_chars 25 ?shown = map (map shown_char) (fit_chars 25 chars)" by (simp add: fit_chars_map)
  have len: "cli_utf8_prefix_len (concat ?shown) 25 = length (concat (fit_chars 25 ?shown))"
    by (rule utf8_prefix_len_chars [OF shown])
  have "chars \<noteq> []" if "\<not> length (concat chars) \<le> 28" using that by auto
  then have ne: "concat (fit_chars 25 ?shown) \<noteq> []" if "\<not> length (concat chars) \<le> 28"
    using fit_chars_nonempty [OF shown, of 25] that by (simp del: concat_eq_Nil_conv)
  have eq: "concat (fit_chars 25 ?shown) = map shown_char (concat (fit_chars 25 chars))"
    by (simp only: fit map_concat)
  have "length (concat ?shown) = length (concat chars)" by (simp only: safe [symmetric] length_map)
  then show ?thesis using assms(2) ne take_fit_chars [of 25 ?shown]
    unfolding cli_format_list_name_def sanitize_eq [of CLI_DISPLAY_NAME_MAX, unfolded CLI_DISPLAY_NAME_MAX_def, simplified]
      CLI_DISPLAY_NAME_MAX_def CLI_LIST_NAME_WIDTH_def CLI_LIST_NAME_ELLIPSIS_def Let_def safe
    by (simp add: len eq del: concat_eq_Nil_conv)
qed

text \<open>An e with an acute accent takes two bytes, the second of which is the 26th of this name.\<close>

definition sample_chars :: "string list" where
  "sample_chars = replicate 23 ''a'' @ [[CHR 0x09], [CHR 0xC3, CHR 0xA9]] @ replicate 10 ''b''"

theorem list_name_whole_characters_witness:
  "cli_format_list_name (concat sample_chars) 29 = Inr (replicate 23 (CHR ''a'') @ ''?...'')"
proof -
  have "list_all utf8_char sample_chars" "length (concat sample_chars) < 512" by code_simp+
  from list_name_whole_characters [OF this] show ?thesis
    by (rule trans) code_simp
qed

end
