(* ===== verification/Fuin_Files.thy ===== *)
theory Fuin_Files
  imports Fuin_Audit
begin

text \<open>
  The file layer of \<open>src/src/backup.c\<close>: resolving the directory of a path, creating a file
  that must not exist, writing and reading whole files, and opening a private-key file that
  only its owner may read. The state is the table of the files a path can reach, by the name
  of their directory entry. The operating system is the record \<open>os\<close>: how it resolves paths,
  and the outcome of each call, read at the current tick. The directories do not change and
  the last component of a path is no symbolic link.
\<close>

section \<open>Model\<close>

subsection \<open>Files and the operating system\<close>

record disk_file =
  f_content :: bytes
  f_regular :: bool
  f_uid :: nat
  f_mode :: "32 word"

record disk = world +
  files :: "string \<rightharpoonup> disk_file"

text \<open>
  \<open>realpath\<close> is the resolved name of a directory, \<open>path_entry\<close> the directory entry that a
  path leads to, \<open>io_ok\<close> the outcome of a call and \<open>io_count\<close> how many bytes of a request it
  transfers.
\<close>

record os =
  realpath :: "string \<Rightarrow> string option"
  path_entry :: "string \<Rightarrow> string option"
  getuid :: nat
  umask :: "32 word"
  io_ok :: "nat \<Rightarrow> bool"
  io_count :: "nat \<Rightarrow> nat \<Rightarrow> nat"

text \<open>A call with no effect on the files: its outcome at the current tick.\<close>

definition io_call :: "os \<Rightarrow> ('a disk_scheme, bool) comp" where
  "io_call H = (\<lambda>s. (Inr (io_ok H (tick s)), next_tick s))"

definition io_require :: "os \<Rightarrow> ('a disk_scheme, unit) comp" where
  "io_require H = andthen (io_call H) (\<lambda>ok. guard ok SM_ERR_STORAGE)"

text \<open>The file behind a path, \<open>open\<close> for reading.\<close>

definition find_file :: "os \<Rightarrow> string \<Rightarrow> 'a disk_scheme \<Rightarrow> disk_file option" where
  "find_file H path s = (case path_entry H path of None \<Rightarrow> None | Some e \<Rightarrow> files s e)"

definition open_read :: "os \<Rightarrow> string \<Rightarrow> ('a disk_scheme, disk_file) comp" where
  "open_read H path = (\<lambda>s.
     (case find_file H path s of
        None \<Rightarrow> Inl SM_ERR_STORAGE
      | Some f \<Rightarrow> if io_ok H (tick s) then Inr f else Inl SM_ERR_STORAGE, next_tick s))"

text \<open>\<open>open\<close> with \<open>O_CREAT | O_EXCL\<close>; the handle is the directory entry.\<close>

definition open_exclusive :: "os \<Rightarrow> string \<Rightarrow> 32 word \<Rightarrow> ('a disk_scheme, string) comp" where
  "open_exclusive H path mode = (\<lambda>s.
     case path_entry H path of
       None \<Rightarrow> (Inl SM_ERR_STORAGE, next_tick s)
     | Some e \<Rightarrow>
         if files s e \<noteq> None \<or> \<not> io_ok H (tick s) then (Inl SM_ERR_STORAGE, next_tick s)
         else (Inr e, next_tick s\<lparr>files := (files s)(e \<mapsto>
           \<lparr>f_content = [], f_regular = True, f_uid = getuid H, f_mode = mode AND NOT (umask H)\<rparr>)\<rparr>))"

definition remove_file :: "os \<Rightarrow> string \<Rightarrow> ('a disk_scheme, unit) comp" where
  "remove_file H path = (\<lambda>s.
     case path_entry H path of
       None \<Rightarrow> (Inr (), next_tick s)
     | Some e \<Rightarrow>
         if io_ok H (tick s) then (Inr (), next_tick s\<lparr>files := (files s)(e := None)\<rparr>)
         else (Inr (), next_tick s))"

definition change_content :: "(bytes \<Rightarrow> bytes) \<Rightarrow> string \<Rightarrow> ('a disk_scheme) \<Rightarrow> 'a disk_scheme" where
  "change_content g e s =
     s\<lparr>files := (files s)(e := map_option (\<lambda>f. f\<lparr>f_content := g (f_content f)\<rparr>) (files s e))\<rparr>"

text \<open>\<open>fwrite\<close>, true when it wrote everything; and \<open>fclose\<close> of a written file, which may lose
  buffered bytes when it fails.\<close>

definition fwrite :: "os \<Rightarrow> string \<Rightarrow> bytes \<Rightarrow> ('a disk_scheme, bool) comp" where
  "fwrite H e data = (\<lambda>s.
     let n = min (io_count H (tick s) (length data)) (length data) in
     (Inr (n = length data), next_tick (change_content (\<lambda>c. c @ take n data) e s)))"

definition fclose_written :: "os \<Rightarrow> string \<Rightarrow> ('a disk_scheme, bool) comp" where
  "fclose_written H e = (\<lambda>s.
     if io_ok H (tick s) then (Inr True, next_tick s)
     else (Inr False, next_tick (change_content (\<lambda>c. take (io_count H (tick s) (length c)) c) e s)))"

text \<open>Run the reader of a stream, then \<open>fclose\<close> it; a failing \<open>fclose\<close> becomes the status.\<close>

definition with_fclose :: "os \<Rightarrow> ('a disk_scheme, 'b) comp \<Rightarrow> ('a disk_scheme, 'b) comp" where
  "with_fclose H m = finally_do m (\<lambda>r. andthen (io_require H) (\<lambda>_. lift_result r))"

subsection \<open>Paths\<close>

definition backup_checked_add :: "nat \<Rightarrow> nat \<Rightarrow> nat result" where
  "backup_checked_add total_len value_len =
     (if SIZE_MAX - int value_len < int total_len then Inl SM_ERR_STORAGE else Inr (total_len + value_len))"

text \<open>\<open>strrchr(path, '/')\<close> cuts a path into the name of its directory and the last component.\<close>

definition split_parent :: "string \<Rightarrow> (string \<times> string) result" where
  "split_parent path =
     (if CHR ''/'' \<notin> set path then Inr (''.'', path)
      else
        let basename = rev (takeWhile (\<lambda>c. c \<noteq> CHR ''/'') (rev path));
            slash = length path - length basename - 1 in
        if basename = [] then Inl SM_ERR_INVALID_ARGUMENT
        else Inr (take (if slash = 0 then 1 else slash) path, basename))"

definition backup_resolve_parent_path :: "os \<Rightarrow> string \<Rightarrow> string result" where
  "backup_resolve_parent_path H path =
     (if path = [] then Inl SM_ERR_INVALID_ARGUMENT
      else and_then (split_parent path) (\<lambda>(parent, basename).
        if basename = ''.'' \<or> basename = ''..'' then Inl SM_ERR_INVALID_ARGUMENT
        else case realpath H parent of
          None \<Rightarrow> Inl SM_ERR_STORAGE
        | Some resolved_parent \<Rightarrow>
            let separator = (if resolved_parent = ''/'' then '''' else ''/'');
                combined = resolved_parent @ separator @ basename in
            if SIZE_MAX - 1 < int (length combined) then Inl SM_ERR_STORAGE else Inr combined))"

subsection \<open>Opening files\<close>

text \<open>\<open>NULL\<close> is the status \<open>SM_ERR_STORAGE\<close>, which every caller makes of it.\<close>

definition backup_fopen_exclusive :: "os \<Rightarrow> string \<Rightarrow> 32 word \<Rightarrow> ('a disk_scheme, string) comp" where
  "backup_fopen_exclusive H path mode =
     (case backup_resolve_parent_path H path of
        Inl _ \<Rightarrow> raise SM_ERR_STORAGE
      | Inr resolved_path \<Rightarrow>
          andthen (open_exclusive H resolved_path mode) (\<lambda>fd.
          andthen (io_call H) (\<lambda>fdopen_ok.
          if fdopen_ok then ret fd
          else andthen (io_call H) (\<lambda>_. andthen (remove_file H resolved_path) (\<lambda>_.
            raise SM_ERR_STORAGE)))))"

definition S_IRWXG_IRWXO :: "32 word" where "S_IRWXG_IRWXO = 0x3F"

text \<open>The stream of a private-key file, from its beginning.\<close>

definition backup_fopen_owner_only_read :: "os \<Rightarrow> string \<Rightarrow> ('a disk_scheme, bytes) comp" where
  "backup_fopen_owner_only_read H path =
     andthen (guard (path \<noteq> []) SM_ERR_INVALID_ARGUMENT) (\<lambda>_.
     andthen (lift_result (backup_resolve_parent_path H path)) (\<lambda>resolved_path.
     andthen (open_read H resolved_path) (\<lambda>st.
     andthen (io_call H) (\<lambda>fstat_ok.
     andthen (guard (fstat_ok \<and> f_regular st \<and> f_uid st = getuid H \<and>
       f_mode st AND S_IRWXG_IRWXO = 0) SM_ERR_STORAGE) (\<lambda>_.
     andthen (io_require H) (\<lambda>_. ret (f_content st)))))))"

subsection \<open>Whole files\<close>

definition S_IRUSR_IWUSR :: "32 word" where "S_IRUSR_IWUSR = 0x180"

definition backup_write_all :: "os \<Rightarrow> string \<Rightarrow> bytes \<Rightarrow> ('a disk_scheme, unit) comp" where
  "backup_write_all H path data =
     andthen (guard (path \<noteq> []) SM_ERR_INVALID_ARGUMENT) (\<lambda>_.
     andthen (backup_fopen_exclusive H path S_IRUSR_IWUSR) (\<lambda>fp.
     andthen (if data = [] then ret True else fwrite H fp data) (\<lambda>written.
     andthen (fclose_written H fp) (\<lambda>closed.
     guard (written \<and> closed) SM_ERR_STORAGE))))"

definition backup_read_all :: "os \<Rightarrow> string \<Rightarrow> int \<Rightarrow> ('a disk_scheme, bytes) comp" where
  "backup_read_all H path max_bytes =
     andthen (guard (path \<noteq> [] \<and> max_bytes \<le> SIZE_MAX) SM_ERR_INVALID_ARGUMENT) (\<lambda>_.
     andthen (open_read H path) (\<lambda>f.
     with_fclose H
       (andthen (io_require H) (\<lambda>_.
        andthen (guard (int (length (f_content f)) \<le> max_bytes) SM_ERR_INVALID_ARGUMENT) (\<lambda>_.
        andthen (guard (f_content f \<noteq> []) SM_ERR_STORAGE) (\<lambda>_.
        andthen (io_require H) (\<lambda>_. ret (f_content f))))))))"

section \<open>Hypotheses\<close>

text \<open>
  A resolved path leads where the path led. \<open>calm\<close> is a system on which no call fails.
\<close>

definition os_ok :: "os \<Rightarrow> bool" where
  "os_ok H \<longleftrightarrow> (\<forall>path r. backup_resolve_parent_path H path = Inr r \<longrightarrow> path_entry H r = path_entry H path)"

definition calm :: "os \<Rightarrow> bool" where
  "calm H \<longleftrightarrow> (\<forall>t n. io_ok H t \<and> io_count H t n = n)"

section \<open>Lemmas: single calls\<close>

lemma files_next_tick [simp]: "files (next_tick s) = files s"
  by (simp add: next_tick_def)

lemma find_file_next_tick [simp]: "find_file H p (next_tick s) = find_file H p s"
  by (simp add: find_file_def split: option.splits)

lemma io_call_eq [simp]: "io_call H s = (Inr (io_ok H (tick s)), next_tick s)"
  by (simp add: io_call_def)

lemma io_require_Inr: "io_require H s = (Inr u, s') \<Longrightarrow> s' = next_tick s"
  by (auto simp: io_require_def andthen_def guard_def split: if_splits)

lemma io_require_files: "files (snd (io_require H s)) = files s"
  by (simp add: io_require_def andthen_def guard_def)

lemma io_require_calm: "calm H \<Longrightarrow> io_require H s = (Inr (), next_tick s)"
  by (simp add: io_require_def andthen_def guard_def calm_def)

text \<open>A computation that reads the files only.\<close>

definition files_kept :: "('a disk_scheme, 'b) comp \<Rightarrow> bool" where
  "files_kept m \<longleftrightarrow> (\<forall>s. files (snd (m s)) = files s)"

lemma files_keptD: "files_kept m \<Longrightarrow> m s = (r, s') \<Longrightarrow> files s' = files s"
  by (metis files_kept_def snd_conv)

named_theorems files_rules \<open>computations that read the files only\<close>

lemma files_kept_basic [files_rules]:
  "files_kept (ret x)" "files_kept (raise e)" "files_kept (lift_result r)" "files_kept (guard b e)"
  "files_kept (io_call H)" "files_kept (io_require H)" "files_kept (open_read H p)"
  by (simp_all add: files_kept_def guard_def io_require_files open_read_def)

lemma files_kept_andthen [files_rules]:
  "files_kept m \<Longrightarrow> (\<And>x. files_kept (f x)) \<Longrightarrow> files_kept (andthen m f)"
  unfolding files_kept_def andthen_def
  by (auto split: prod.splits sum.splits) (metis snd_conv)+

lemma files_kept_finally [files_rules]:
  "files_kept m \<Longrightarrow> (\<And>r. files_kept (f r)) \<Longrightarrow> files_kept (finally_do m f)"
  unfolding files_kept_def finally_do_def
  by (auto split: prod.splits) (metis snd_conv)+

lemma files_kept_with_fclose [files_rules]: "files_kept m \<Longrightarrow> files_kept (with_fclose H m)"
  unfolding with_fclose_def by (intro files_rules)

lemma files_kept_if [files_rules]: "files_kept m \<Longrightarrow> files_kept n \<Longrightarrow> files_kept (if b then m else n)"
  by simp

lemma files_kept_backup_reads [files_rules]:
  "files_kept (backup_fopen_owner_only_read H p)" "files_kept (backup_read_all H p n)"
  unfolding backup_fopen_owner_only_read_def backup_read_all_def
  by (intro files_rules allI)+

section \<open>Lemmas: writing\<close>

lemma files_change_content:
  "files (change_content g e s) =
    (files s)(e := map_option (\<lambda>f. f\<lparr>f_content := g (f_content f)\<rparr>) (files s e))"
  by (simp add: change_content_def)

lemma tick_change_content [simp]: "tick (change_content g e s) = tick s"
  by (simp add: change_content_def)

text \<open>
  What a writing computation may do to the files: entries that held a file keep it, and
  only the entry of the path it is given may change.
\<close>

definition adds_only :: "string option \<Rightarrow> 'a disk_scheme \<Rightarrow> 'a disk_scheme \<Rightarrow> bool" where
  "adds_only e s s' \<longleftrightarrow> (\<forall>d. files s d \<noteq> None \<or> Some d \<noteq> e \<longrightarrow> files s' d = files s d)"

lemma adds_only_same: "files s' = files s \<Longrightarrow> adds_only e s s'"
  by (simp add: adds_only_def)

lemma adds_only_refl [simp]: "adds_only e s s"
  by (simp add: adds_only_def)

lemma adds_only_trans: "files t = files s \<Longrightarrow> adds_only e t s' \<Longrightarrow> adds_only e s s'"
  by (simp add: adds_only_def)

lemma open_exclusive_cases:
  assumes "open_exclusive H p mode s = (r, s')"
  obtains (failed) "r = Inl SM_ERR_STORAGE" "s' = next_tick s"
  | (opened) e where "r = Inr e" "path_entry H p = Some e" "files s e = None"
      "s' = next_tick s\<lparr>files := (files s)(e \<mapsto>
        \<lparr>f_content = [], f_regular = True, f_uid = getuid H, f_mode = mode AND NOT (umask H)\<rparr>)\<rparr>"
  using assms unfolding open_exclusive_def by (auto split: option.splits if_splits)

lemma fopen_exclusive_cases:
  assumes "backup_fopen_exclusive H path mode s = (r, s')" "os_ok H"
  obtains (failed) "r = Inl SM_ERR_STORAGE" "adds_only (path_entry H path) s s'"
  | (opened) e where "r = Inr e" "path_entry H path = Some e" "files s e = None"
      "files s' = (files s)(e \<mapsto>
        \<lparr>f_content = [], f_regular = True, f_uid = getuid H, f_mode = mode AND NOT (umask H)\<rparr>)"
proof (cases "backup_resolve_parent_path H path")
  case (Inl x)
  with assms failed show ?thesis by (simp add: backup_fopen_exclusive_def)
next
  case (Inr p)
  then have pe: "path_entry H p = path_entry H path" using assms(2) by (simp add: os_ok_def)
  obtain r1 s1 where o: "open_exclusive H p mode s = (r1, s1)" by fastforce
  then show ?thesis
  proof (cases rule: open_exclusive_cases)
    case failed
    then have "r = Inl SM_ERR_STORAGE" "s' = next_tick s"
      using assms(1) Inr o by (auto simp: backup_fopen_exclusive_def andthen_def)
    then show ?thesis using that(1) by (simp add: adds_only_same)
  next
    case (opened e)
    show ?thesis
    proof (cases "io_ok H (tick s1)")
      case True
      then show ?thesis
        using assms(1) that(2) [of e] Inr o opened pe by (auto simp: backup_fopen_exclusive_def andthen_def)
    next
      case False
      then show ?thesis
        using assms(1) that(1) Inr o opened pe
        by (auto simp: backup_fopen_exclusive_def andthen_def remove_file_def adds_only_def split: if_splits)
    qed
  qed
qed

text \<open>Whole files are written to new entries only; on success the new file is exactly the data.\<close>

lemma write_all_cases:
  assumes "backup_write_all H path data s = (r, s')" "os_ok H"
  shows "adds_only (path_entry H path) s s'"
    and "r = Inr () \<Longrightarrow> \<exists>e. path_entry H path = Some e \<and> files s e = None \<and>
      files s' = (files s)(e \<mapsto> \<lparr>f_content = data, f_regular = True, f_uid = getuid H,
        f_mode = S_IRUSR_IWUSR AND NOT (umask H)\<rparr>)"
proof -
  show "adds_only (path_entry H path) s s'"
  proof (cases "path = []")
    case True
    then show ?thesis using assms(1) by (simp add: backup_write_all_def andthen_def guard_def)
  next
    case ne: False
    obtain r1 s1 where o: "backup_fopen_exclusive H path S_IRUSR_IWUSR s = (r1, s1)" by fastforce
    then show ?thesis using assms(2)
    proof (cases rule: fopen_exclusive_cases)
      case failed
      then show ?thesis using assms(1) ne o by (simp add: backup_write_all_def andthen_def guard_def)
    next
      case (opened e)
      then show ?thesis using assms(1) ne o
        by (auto simp: backup_write_all_def andthen_def guard_def fwrite_def fclose_written_def
          files_change_content Let_def adds_only_def split: if_splits)
    qed
  qed
  assume ok: "r = Inr ()"
  then have ne: "path \<noteq> []" using assms(1) by (auto simp: backup_write_all_def andthen_def guard_def)
  obtain r1 s1 where o: "backup_fopen_exclusive H path S_IRUSR_IWUSR s = (r1, s1)" by fastforce
  then show "\<exists>e. path_entry H path = Some e \<and> files s e = None \<and>
      files s' = (files s)(e \<mapsto> \<lparr>f_content = data, f_regular = True, f_uid = getuid H,
        f_mode = S_IRUSR_IWUSR AND NOT (umask H)\<rparr>)" using assms(2)
  proof (cases rule: fopen_exclusive_cases)
    case failed
    then show ?thesis using assms(1) ne o ok by (simp add: backup_write_all_def andthen_def guard_def)
  next
    case (opened e)
    then show ?thesis using assms(1) ne o ok
      by (auto simp: backup_write_all_def andthen_def guard_def fwrite_def fclose_written_def
        files_change_content Let_def split: if_splits)
  qed
qed

lemma fopen_exclusive_total:
  assumes "calm H" "os_ok H" "backup_resolve_parent_path H path = Inr p" "path_entry H path = Some e"
    "files s e = None"
  obtains s' where "backup_fopen_exclusive H path mode s = (Inr e, s')"
    "files s' = (files s)(e \<mapsto>
        \<lparr>f_content = [], f_regular = True, f_uid = getuid H, f_mode = mode AND NOT (umask H)\<rparr>)"
  using assms by (simp add: os_ok_def calm_def backup_fopen_exclusive_def andthen_def open_exclusive_def)

lemma write_all_total:
  assumes "calm H" "os_ok H" "path \<noteq> []" "backup_resolve_parent_path H path = Inr p"
    "path_entry H path = Some e" "files s e = None"
  obtains s' where "backup_write_all H path data s = (Inr (), s')"
    "files s' = (files s)(e \<mapsto> \<lparr>f_content = data, f_regular = True, f_uid = getuid H,
        f_mode = S_IRUSR_IWUSR AND NOT (umask H)\<rparr>)"
proof -
  obtain s1 where o: "backup_fopen_exclusive H path S_IRUSR_IWUSR s = (Inr e, s1)"
    "files s1 = (files s)(e \<mapsto> \<lparr>f_content = [], f_regular = True, f_uid = getuid H,
        f_mode = S_IRUSR_IWUSR AND NOT (umask H)\<rparr>)"
    using assms fopen_exclusive_total by metis
  then show ?thesis
    using assms that
    by (cases "data = []") (simp_all add: backup_write_all_def andthen_def guard_def fwrite_def fclose_written_def
      Let_def files_change_content calm_def)
qed

section \<open>Lemmas: reading\<close>

lemma read_all_Inr:
  assumes "backup_read_all H path n s = (Inr b, s')"
  shows "\<exists>f. find_file H path s = Some f \<and> f_content f = b \<and> b \<noteq> [] \<and> int (length b) \<le> n"
  using assms
  by (auto simp: backup_read_all_def with_fclose_def finally_do_def andthen_def guard_def open_read_def
    io_require_def split: if_splits option.splits)

lemma read_all_total:
  assumes "calm H" "path \<noteq> []" "n \<le> SIZE_MAX" "find_file H path s = Some f" "f_content f \<noteq> []"
    "int (length (f_content f)) \<le> n"
  obtains s' where "backup_read_all H path n s = (Inr (f_content f), s')" "files s' = files s"
  using assms
  by (simp add: backup_read_all_def with_fclose_def finally_do_def andthen_def guard_def open_read_def
    io_require_calm calm_def)

lemma owner_only_Inr:
  assumes "backup_fopen_owner_only_read H path s = (Inr b, s')" "os_ok H"
  obtains f where "find_file H path s = Some f" "f_content f = b" "f_regular f" "f_uid f = getuid H"
    "f_mode f AND S_IRWXG_IRWXO = 0"
proof -
  obtain p s1 f s2 where p: "backup_resolve_parent_path H path = Inr p" "s1 = s"
    and f: "open_read H p s1 = (Inr f, s2)"
      "f_regular f \<and> f_uid f = getuid H \<and> f_mode f AND S_IRWXG_IRWXO = 0" "f_content f = b"
    using assms(1) by (auto simp: backup_fopen_owner_only_read_def andthen_eq_Inr)
  have "path_entry H p = path_entry H path" using assms(2) p(1) by (simp add: os_ok_def)
  then have "find_file H path s = Some f"
    using f(1) p(2) by (auto simp: open_read_def find_file_def split: option.splits if_splits)
  then show ?thesis using f that by blast
qed

lemma owner_only_total:
  assumes "calm H" "os_ok H" "path \<noteq> []" "backup_resolve_parent_path H path = Inr p"
    "find_file H path s = Some f" "f_regular f" "f_uid f = getuid H" "f_mode f AND S_IRWXG_IRWXO = 0"
  obtains s' where "backup_fopen_owner_only_read H path s = (Inr (f_content f), s')" "files s' = files s"
proof -
  have "path_entry H p = path_entry H path" using assms(2,4) by (simp add: os_ok_def)
  then have "find_file H p s = Some f" using assms(5) by (simp add: find_file_def)
  then show ?thesis
    using assms that
    by (simp add: backup_fopen_owner_only_read_def andthen_def guard_def open_read_def io_require_calm calm_def)
qed

text \<open>A file that the program itself created for its owner may be read back.\<close>

lemma owner_mode: "(S_IRUSR_IWUSR AND m) AND S_IRWXG_IRWXO = 0"
proof -
  have "S_IRUSR_IWUSR AND S_IRWXG_IRWXO = 0" by (simp add: S_IRUSR_IWUSR_def S_IRWXG_IRWXO_def)
  moreover have "(S_IRUSR_IWUSR AND m) AND S_IRWXG_IRWXO = m AND (S_IRUSR_IWUSR AND S_IRWXG_IRWXO)"
    by (simp only: ac_simps)
  ultimately show ?thesis by simp
qed

end
