(* ===== verification/Fuin_Backup_Keys.thy ===== *)
theory Fuin_Backup_Keys
  imports Fuin_Backup
begin

text \<open>
  Key files of \<open>src/src/backup.c\<close>: what a private-key file must look like to be read, what the
  two key generators leave behind on success and on failure, and that the keys they wrote
  are read back. Also the laws of OpenSSL that the round trips rest on and a small instance
  of the parameters.
\<close>

section \<open>Private keys must be encrypted\<close>

text \<open>A line start: the beginning of the text, or the position after a newline.\<close>

definition line_at :: "bytes \<Rightarrow> bytes \<Rightarrow> bool" where
  "line_at text l \<longleftrightarrow> (\<exists>pre. text = pre @ l \<and> (pre = [] \<or> last pre = 10))"

lemma pem_begin_plain: "10 \<notin> set pem_begin" "length pem_begin = 11" "pem_begin \<noteq> []"
  by (simp_all add: pem_begin_def str_bytes_def)

lemma pem_encrypted_plain: "10 \<notin> set pem_encrypted" "length pem_encrypted = 37" "prefix pem_begin pem_encrypted"
  by (simp_all add: pem_encrypted_def pem_begin_def str_bytes_def)

lemma fgets_line_prefix: "prefix (fgets_line n s) s"
  by (metis fgets_line_append take_is_prefix)

lemma takeWhile_line: "x \<notin> set p \<Longrightarrow> takeWhile (\<lambda>b. b \<noteq> x) (p @ t) = p @ takeWhile (\<lambda>b. b \<noteq> x) t"
  by (induction p) auto

lemma fgets_sees_begin:
  assumes "prefix p s" "10 \<notin> set p" "length p < n"
  shows "prefix p (fgets_line n s)"
proof -
  obtain t where s: "s = p @ t" using assms(1) by (auto simp: prefix_def)
  have "takeWhile (\<lambda>b. b \<noteq> 10) s = p @ takeWhile (\<lambda>b. b \<noteq> 10) t"
    unfolding s by (rule takeWhile_line [OF assms(2)])
  then show ?thesis using assms(3) by (simp add: fgets_line_def Let_def)
qed

lemma fgets_stops_at_newline:
  assumes "s = pre @ l" "pre \<noteq> []" "last pre = 10"
  shows "length (fgets_line n s) \<le> length pre"
proof -
  obtain q where q: "pre = q @ [10]" using assms(2,3) by (metis append_butlast_last_id)
  have "length (takeWhile (\<lambda>b. b \<noteq> 10) s) \<le> length q"
    unfolding assms(1) q by (induction q) simp_all
  then show ?thesis by (simp add: fgets_line_def Let_def q)
qed

lemma pem_header_loop_sound:
  assumes "pem_header_loop s saw = Inr b" "line_at s l" "prefix pem_begin l"
  shows "prefix pem_encrypted l"
  using assms
proof (induction s saw arbitrary: l rule: pem_header_loop.induct)
  case (1 s saw)
  let ?line = "fgets_line 256 s"
  let ?rest = "drop (length ?line) s"
  obtain pre where pre: "s = pre @ l" "pre = [] \<or> last pre = 10" using 1(4) by (auto simp: line_at_def)
  have ne: "s \<noteq> []" using pre 1(5) pem_begin_plain(3) by (auto simp: prefix_def)
  show ?case
  proof (cases "pre = []")
    case True
    then have l: "s = l" using pre(1) by simp
    then have "prefix pem_begin ?line" using fgets_sees_begin [OF 1(5)] pem_begin_plain by simp
    then have "prefix pem_encrypted ?line"
      using 1(3) ne pem_header_loop.simps [of s saw] by (simp add: Let_def split: if_splits)
    then show ?thesis using fgets_line_prefix l prefix_order.trans by metis
  next
    case False
    then have "length ?line \<le> length pre" using fgets_stops_at_newline pre by metis
    then have "?rest = drop (length ?line) pre @ l" using pre(1) by simp
    moreover have "drop (length ?line) pre = [] \<or> last (drop (length ?line) pre) = 10"
      using pre(2) False by (cases "drop (length ?line) pre = []") simp_all
    ultimately have at: "line_at ?rest l" by (auto simp: line_at_def)
    show ?thesis
    proof (cases "prefix pem_begin ?line")
      case True
      then have "prefix pem_encrypted ?line" "pem_header_loop ?rest True = Inr b"
        using 1(3) ne pem_header_loop.simps [of s saw] by (simp_all add: Let_def split: if_splits)
      then show ?thesis using 1(1) [OF ne refl refl True] at 1(5) by blast
    next
      case no: False
      then have "pem_header_loop ?rest saw = Inr b"
        using 1(3) ne pem_header_loop.simps [of s saw] by (simp add: Let_def)
      then show ?thesis using 1(2) [OF ne refl refl no] at 1(5) by blast
    qed
  qed
qed

lemma header_is_encrypted_Inr:
  assumes "backup_private_key_file_header_is_encrypted H fp s = (Inr u, s')"
  shows "line_at fp l \<Longrightarrow> prefix pem_begin l \<Longrightarrow> prefix pem_encrypted l"
  using assms pem_header_loop_sound
  by (auto simp: backup_private_key_file_header_is_encrypted_def andthen_def finally_do_def io_require_def
    guard_def and_then_eq_Inr split: if_splits sum.splits)

text \<open>Lines and PEM texts as OpenSSL writes them; the header check accepts any number of them.\<close>

definition pem_text :: "bytes \<Rightarrow> bool" where
  "pem_text text \<longleftrightarrow> (\<exists>ls. text = concat (map (\<lambda>l. l @ [10]) (pem_encrypted # ls)) \<and>
     list_all (\<lambda>l. length l < 100 \<and> 10 \<notin> set l \<and> \<not> prefix pem_begin l) ls)"

lemma fgets_whole_line: "10 \<notin> set l \<Longrightarrow> length l < 255 \<Longrightarrow> fgets_line 256 (l @ 10 # rest) = l @ [10]"
proof -
  assume a: "10 \<notin> set l" "length l < 255"
  have "takeWhile (\<lambda>b. b \<noteq> 10) (l @ 10 # rest) = l"
    by (simp add: takeWhile_line [OF a(1)])
  then show ?thesis using a(2) by (simp add: fgets_line_def Let_def)
qed

lemma prefix_line: "10 \<notin> set p \<Longrightarrow> prefix p (l @ [10]) \<longleftrightarrow> prefix p l"
  by (auto simp: prefix_snoc)

lemma header_loop_line:
  assumes "10 \<notin> set l" "length l < 255"
  shows "pem_header_loop (l @ 10 # rest) saw =
    (if prefix pem_begin l then
       if prefix pem_encrypted l then pem_header_loop rest True else Inl SM_ERR_CRYPTO
     else pem_header_loop rest saw)"
proof -
  have p: "prefix pem_begin (l @ [10]) \<longleftrightarrow> prefix pem_begin l" "prefix pem_encrypted (l @ [10]) \<longleftrightarrow> prefix pem_encrypted l"
    by (simp_all only: prefix_line pem_begin_plain pem_encrypted_plain not_False_eq_True)
  show ?thesis
    by (subst pem_header_loop.simps) (simp add: Let_def fgets_whole_line [OF assms] p del: prefix_snoc)
qed

lemma header_loop_lines:
  "list_all (\<lambda>l. length l < 100 \<and> 10 \<notin> set l \<and> \<not> prefix pem_begin l) ls \<Longrightarrow>
    pem_header_loop (concat (map (\<lambda>l. l @ [10]) ls) @ rest) saw = pem_header_loop rest saw"
  by (induction ls) (simp_all add: header_loop_line)

lemma header_loop_text: "pem_text text \<Longrightarrow> pem_header_loop (text @ rest) saw = pem_header_loop rest True"
  by (auto simp: pem_text_def header_loop_line pem_encrypted_plain header_loop_lines)

lemma header_loop_texts:
  "list_all pem_text texts \<Longrightarrow> pem_header_loop (concat texts) saw = Inr (saw \<or> texts \<noteq> [])"
proof (induction texts arbitrary: saw)
  case Nil
  then show ?case by (simp add: pem_header_loop.simps)
next
  case (Cons t ts)
  then show ?case by (simp add: header_loop_text)
qed

section \<open>Laws of OpenSSL\<close>

text \<open>
  \<open>public_half\<close> is the public key of a key pair. A key is read back from its text (a private one
  under a passphrase of at most \<open>PEM_BUFSIZE\<close> = 1024 bytes, which is what the reading
  callback copies), a KEM ciphertext of ML-KEM-768 has 1088 bytes and is decapsulated to the
  encapsulated secret, key agreement is symmetric, a raw public key is the public half, and
  a signature verifies.
\<close>

definition pem_ok :: "'k openssl \<Rightarrow> ('k \<Rightarrow> 'k) \<Rightarrow> bool" where
  "pem_ok Q public_half \<longleftrightarrow>
     (\<forall>k text rest. pem_public Q k = Some text \<longrightarrow> read_public Q (text @ rest) = Some (public_half k, rest)) \<and>
     (\<forall>alg t k t' p text rest. q_keygen Q alg t = Some k \<longrightarrow> pem_private Q t' k p = Some text \<longrightarrow>
        length p \<le> 1024 \<longrightarrow> pem_text text \<and> read_private Q p (text @ rest) = Some (k, rest))"

definition kem_ok :: "'k openssl \<Rightarrow> ('k \<Rightarrow> 'k) \<Rightarrow> bool" where
  "kem_ok Q public_half \<longleftrightarrow>
     (\<forall>t k t' ct ss. q_keygen Q BACKUP_PQC_KEM_ALGORITHM t = Some k \<longrightarrow>
        kem_encapsulate Q t' (public_half k) = Some (ct, ss) \<longrightarrow>
        kem_decapsulate Q k ct = Some ss \<and> length ct \<le> 1088)"

definition kex_ok :: "'k openssl \<Rightarrow> ('k \<Rightarrow> 'k) \<Rightarrow> bool" where
  "kex_ok Q public_half \<longleftrightarrow>
     (\<forall>t x t' y. q_keygen Q BACKUP_CLASSICAL_KEX_ALGORITHM t = Some x \<longrightarrow>
        q_keygen Q BACKUP_CLASSICAL_KEX_ALGORITHM t' = Some y \<longrightarrow>
        kex_derive Q y (public_half x) = kex_derive Q x (public_half y) \<and>
        (\<forall>r. raw_public Q y = Some r \<longrightarrow>
          from_raw_public Q BACKUP_CLASSICAL_KEX_ALGORITHM r = Some (public_half y)))"

definition dsa_ok :: "'k openssl \<Rightarrow> ('k \<Rightarrow> 'k) \<Rightarrow> bool" where
  "dsa_ok Q public_half \<longleftrightarrow>
     (\<forall>t k t' cap m sg. q_keygen Q BACKUP_MLDSA_ALGORITHM t = Some k \<longrightarrow>
        digest_sign Q t' k cap m = Some sg \<longrightarrow>
        sg \<noteq> [] \<and> length sg \<le> cap \<and> digest_verify Q (public_half k) m sg)"

section \<open>Generated key files\<close>

text \<open>Appending to the file of an entry, what each successful \<open>fwrite\<close> does.\<close>

definition append_file :: "string \<Rightarrow> bytes \<Rightarrow> (string \<rightharpoonup> disk_file) \<Rightarrow> (string \<rightharpoonup> disk_file)" where
  "append_file e text fs = fs(e := map_option (\<lambda>f. f\<lparr>f_content := f_content f @ text\<rparr>) (fs e))"

lemma append_file_Nil: "append_file e [] fs = fs"
  by (cases "fs e") (auto simp: append_file_def)

lemma append_file_append: "append_file e u (append_file e t fs) = append_file e (t @ u) fs"
  by (cases "fs e") (simp_all add: append_file_def)

lemma fwrite_Inr:
  "fwrite H e text s = (Inr True, s') \<Longrightarrow> files s' = append_file e text (files s)"
  by (auto simp: fwrite_def Let_def append_file_def files_change_content)

lemma write_private_Inr:
  assumes "backup_write_encrypted_private_key H Q fp key p s = (Inr u, s')"
  shows "\<exists>text. (\<exists>t. pem_private Q t key p = Some text) \<and> files s' = append_file fp text (files s)"
proof -
  obtain tx where t: "pem_private Q (tick s) key p = Some tx" "fwrite H fp tx (next_tick s) = (Inr True, s')"
    using assms
    by (auto simp: backup_write_encrypted_private_key_def andthen_eq_Inr ossl_def ossl_random_def split: option.splits)
  from fwrite_Inr [OF t(2)] have "files s' = append_file fp tx (files s)" by simp
  then show ?thesis using t(1) by blast
qed

lemma write_public_Inr:
  assumes "write_public_key H Q fp key s = (Inr u, s')"
  shows "\<exists>text. pem_public Q key = Some text \<and> files s' = append_file fp text (files s)"
  using assms fwrite_Inr [of H fp]
  by (auto simp: write_public_key_def andthen_eq_Inr ossl_def split: option.splits)

lemma write_each_Inr:
  assumes "write_each w keys s = (Inr u, s')"
    and w: "\<And>k s s' u. w k s = (Inr u, s') \<Longrightarrow> \<exists>text. P k text \<and> files s' = append_file e text (files s)"
  shows "\<exists>texts. list_all2 P keys texts \<and> files s' = append_file e (concat texts) (files s)"
  using assms(1)
proof (induction keys arbitrary: s)
  case Nil
  then show ?case by (simp add: append_file_Nil)
next
  case (Cons k ks)
  then obtain v s1 where 1: "w k s = (Inr v, s1)" "write_each w ks s1 = (Inr u, s')"
    by (auto simp: andthen_eq_Inr)
  obtain t where t: "P k t" "files s1 = append_file e t (files s)" using w [OF 1(1)] by blast
  obtain ts where ts: "list_all2 P ks ts" "files s' = append_file e (concat ts) (files s1)"
    using Cons.IH [OF 1(2)] by blast
  have "list_all2 P (k # ks) (t # ts) \<and> files s' = append_file e (concat (t # ts)) (files s)"
    using t ts by (simp add: append_file_append)
  then show ?case by blast
qed

lemma write_key_file_Inr:
  assumes "write_key_file H path mode w keys s = (Inr u, s')" "os_ok H"
    and w: "\<And>e k s s' u. w e k s = (Inr u, s') \<Longrightarrow> \<exists>text. P k text \<and> files s' = append_file e text (files s)"
  obtains e texts p where "path_entry H path = Some e" "files s e = None" "list_all2 P keys texts"
    "backup_resolve_parent_path H path = Inr p"
    "files s' = (files s)(e \<mapsto> \<lparr>f_content = concat texts, f_regular = True, f_uid = getuid H,
      f_mode = mode AND NOT (umask H)\<rparr>)"
proof -
  obtain fp s1 where o: "backup_fopen_exclusive H path mode s = (Inr fp, s1)"
    and rest: "finally_do (write_each (w fp) keys) (\<lambda>r. andthen (fclose_written H fp) (\<lambda>closed.
       case r of Inl e \<Rightarrow> raise e | Inr _ \<Rightarrow> guard closed SM_ERR_STORAGE)) s1 = (Inr u, s')"
    using assms(1) by (auto simp: write_key_file_def andthen_eq_Inr)
  obtain v s2 where w2: "write_each (w fp) keys s1 = (Inr v, s2)" and s': "files s' = files s2"
    using rest by (auto simp: finally_do_def fclose_written_def andthen_def guard_def split: prod.splits sum.splits if_splits)
  obtain texts where t: "list_all2 P keys texts" "files s2 = append_file fp (concat texts) (files s1)"
    using write_each_Inr [where e = fp and P = P, OF w2] w by blast
  obtain p where p: "backup_resolve_parent_path H path = Inr p"
    using o by (cases "backup_resolve_parent_path H path") (auto simp: backup_fopen_exclusive_def)
  from o assms(2) show ?thesis
  proof (cases rule: fopen_exclusive_cases)
    case failed
    then show ?thesis by simp
  next
    case (opened e)
    then show ?thesis using that [of e texts p] t p s' by (simp add: append_file_def)
  qed
qed

lemma write_key_files_Inr:
  assumes "write_key_files H Q pub_path priv_path pass keys s = (Inr u, s')" "os_ok H"
  obtains e d privs pubs p where "path_entry H priv_path = Some e" "path_entry H pub_path = Some d" "d \<noteq> e"
    "files s e = None" "files s d = None" "backup_resolve_parent_path H priv_path = Inr p"
    "list_all2 (\<lambda>k text. \<exists>t. pem_private Q t k pass = Some text) keys privs"
    "list_all2 (\<lambda>k text. pem_public Q k = Some text) keys pubs"
    "files s' = (files s)
      (e \<mapsto> \<lparr>f_content = concat privs, f_regular = True, f_uid = getuid H,
        f_mode = S_IRUSR_IWUSR AND NOT (umask H)\<rparr>,
       d \<mapsto> \<lparr>f_content = concat pubs, f_regular = True, f_uid = getuid H,
        f_mode = S_IRUSR_IWUSR_IRGRP_IROTH AND NOT (umask H)\<rparr>)"
proof -
  obtain v s1 where 1: "write_key_file H priv_path S_IRUSR_IWUSR
      (\<lambda>fp key. backup_write_encrypted_private_key H Q fp key pass) keys s = (Inr v, s1)"
    "write_key_file H pub_path S_IRUSR_IWUSR_IRGRP_IROTH (write_public_key H Q) keys s1 = (Inr u, s')"
    using assms(1) by (auto simp: write_key_files_def finally_do_def andthen_def split: prod.splits sum.splits)
  obtain e privs p where priv: "path_entry H priv_path = Some e" "files s e = None"
    "list_all2 (\<lambda>k text. \<exists>t. pem_private Q t k pass = Some text) keys privs"
    "backup_resolve_parent_path H priv_path = Inr p"
    "files s1 = (files s)(e \<mapsto> \<lparr>f_content = concat privs, f_regular = True, f_uid = getuid H,
        f_mode = S_IRUSR_IWUSR AND NOT (umask H)\<rparr>)"
    by (rule write_key_file_Inr [where P = "\<lambda>k text. \<exists>t. pem_private Q t k pass = Some text", OF 1(1) assms(2)])
       (erule write_private_Inr, blast)
  obtain d pubs where pub: "path_entry H pub_path = Some d" "files s1 d = None"
    "list_all2 (\<lambda>k text. pem_public Q k = Some text) keys pubs"
    "files s' = (files s1)(d \<mapsto> \<lparr>f_content = concat pubs, f_regular = True, f_uid = getuid H,
        f_mode = S_IRUSR_IWUSR_IRGRP_IROTH AND NOT (umask H)\<rparr>)"
    by (rule write_key_file_Inr [where P = "\<lambda>k text. pem_public Q k = Some text", OF 1(2) assms(2)])
       (erule write_public_Inr, blast)
  have ne: "d \<noteq> e" using pub(2) priv(5) by auto
  then have "files s d = None" using pub(2) priv(5) by simp
  then show ?thesis using that [OF priv(1) pub(1) ne priv(2) _ priv(4,3) pub(3)] pub(4) priv(5) by simp
qed

text \<open>After an error both paths are removed, whatever they led to before.\<close>

lemma find_removed:
  assumes "calm H" "remove_file H p s = (r, s')"
  shows "find_file H p s' = None" "find_file H q s = None \<Longrightarrow> find_file H q s' = None"
  using assms by (auto simp: remove_file_def calm_def find_file_def split: option.splits)

lemma write_key_files_Inl:
  assumes "write_key_files H Q pub_path priv_path pass keys s = (Inl err, s')" "calm H"
  shows "find_file H pub_path s' = None" "find_file H priv_path s' = None"
proof -
  obtain s1 s2 r r' where 1: "remove_file H pub_path s1 = (r, s2)" "remove_file H priv_path s2 = (r', s')"
    using assms(1)
    by (auto simp: write_key_files_def finally_do_def andthen_def remove_file_def
      split: prod.splits sum.splits option.splits if_splits)
  show "find_file H pub_path s' = None" "find_file H priv_path s' = None"
    using find_removed [OF assms(2) 1(1)] find_removed [OF assms(2) 1(2)] by blast+
qed

lemma find_file_cong: "files t = files s \<Longrightarrow> find_file H p t = find_file H p s"
  by (simp add: find_file_def split: option.splits)

lemma write_key_files_existing:
  assumes "os_ok H" "calm H" "find_file H pub_path s \<noteq> None \<or> find_file H priv_path s \<noteq> None"
    "write_key_files H Q pub_path priv_path pass keys s = (r, s')"
  shows "isl r" "find_file H pub_path s' = None" "find_file H priv_path s' = None"
proof -
  have "\<exists>err. r = Inl err"
  proof (cases r)
    case (Inr u)
    obtain e d where "path_entry H priv_path = Some e" "path_entry H pub_path = Some d"
      "files s e = None" "files s d = None"
      by (rule write_key_files_Inr [OF assms(4) [unfolded Inr] assms(1)]) blast
    then show ?thesis using assms(3) by (simp add: find_file_def)
  qed simp
  then show "isl r" "find_file H pub_path s' = None" "find_file H priv_path s' = None"
    using write_key_files_Inl assms(2,4) by auto
qed

section \<open>Reading key files\<close>

lemma pem_read_Inr: "pem_read H f fp s = (Inr x, s') \<Longrightarrow> f fp = Some x \<and> files s' = files s"
  by (auto simp: pem_read_def andthen_def ossl_def split: option.splits if_splits)

lemma pem_read_calm: "calm H \<Longrightarrow> f fp = Some x \<Longrightarrow> pem_read H f fp s = (Inr x, next_tick s)"
  by (simp add: pem_read_def andthen_def ossl_def calm_def)

lemma with_fclose_Inr: "with_fclose H m s = (Inr x, s') \<Longrightarrow> \<exists>t. m s = (Inr x, t)"
  by (auto simp: with_fclose_def finally_do_def andthen_def io_require_def guard_def split: prod.splits if_splits)

lemma with_fclose_calm: "calm H \<Longrightarrow> m s = (Inr x, t) \<Longrightarrow> with_fclose H m s = (Inr x, next_tick t)"
  by (simp add: with_fclose_def finally_do_def andthen_def io_require_calm)

lemma open_read_Inr: "open_read H p s = (Inr f, s') \<Longrightarrow> find_file H p s = Some f"
  by (auto simp: open_read_def split: option.splits if_splits)

lemma files_kept_loads [files_rules]:
  "files_kept (ossl r)" "files_kept (pem_read H f fp)"
  "files_kept (backup_private_key_file_header_is_encrypted H b)"
  by (auto simp: ossl_def pem_read_def backup_private_key_file_header_is_encrypted_def
    intro!: files_rules split: option.splits)

lemma files_kept_load [files_rules]:
  "files_kept (backup_load_public_keypair H Q p)" "files_kept (backup_load_private_keypair H Q p w)"
  "files_kept (backup_load_single_public_key H Q p)" "files_kept (backup_load_single_private_key H Q p w)"
  unfolding backup_load_public_keypair_def backup_load_private_keypair_def
    backup_load_single_public_key_def backup_load_single_private_key_def
  by (auto intro!: files_rules)

lemma load_public_keypair_Inr:
  assumes "backup_load_public_keypair H Q path s = (Inr (kem, x), s')"
  obtains f fp fp' where "find_file H path s = Some f" "read_public Q (f_content f) = Some (kem, fp)"
    "read_public Q fp = Some (x, fp')"
proof -
  obtain f s1 where o: "open_read H path s = (Inr f, s1)"
    and m: "with_fclose H (andthen (pem_read H (read_public Q) (f_content f)) (\<lambda>(kem_key, fp).
        andthen (pem_read H (read_public Q) fp) (\<lambda>(x25519_key, _). ret (kem_key, x25519_key)))) s1 = (Inr (kem, x), s')"
    using assms by (auto simp: backup_load_public_keypair_def andthen_eq_Inr)
  obtain k fp t1 y fp' t2 where "pem_read H (read_public Q) (f_content f) s1 = (Inr (k, fp), t1)"
    "pem_read H (read_public Q) fp t1 = (Inr (y, fp'), t2)" "k = kem" "y = x"
    using with_fclose_Inr [OF m] by (auto simp: andthen_eq_Inr)
  then show ?thesis using that open_read_Inr [OF o] pem_read_Inr by metis
qed

lemma load_public_keypair_total:
  assumes "calm H" "path \<noteq> []" "find_file H path s = Some f" "read_public Q (f_content f) = Some (kem, fp)"
    "read_public Q fp = Some (x, fp')"
  shows "\<exists>s'. backup_load_public_keypair H Q path s = (Inr (kem, x), s')"
  using assms
  by (simp add: backup_load_public_keypair_def andthen_def guard_def open_read_def with_fclose_def finally_do_def
    pem_read_calm io_require_calm) (simp add: calm_def pem_read_calm)

lemma header_total:
  assumes "calm H" "pem_header_loop fp False = Inr True"
  shows "backup_private_key_file_header_is_encrypted H fp s = (Inr (), next_tick (next_tick s))"
  using assms
  by (simp add: backup_private_key_file_header_is_encrypted_def andthen_def finally_do_def io_require_calm calm_def)

lemma load_private_keypair_total:
  assumes "calm H" "os_ok H" "path \<noteq> []" "pass \<noteq> []" "backup_resolve_parent_path H path = Inr p"
    "find_file H path s = Some f" "f_regular f" "f_uid f = getuid H" "f_mode f AND S_IRWXG_IRWXO = 0"
    "pem_header_loop (f_content f) False = Inr True"
    "read_private Q pass (f_content f) = Some (kem, fp)" "read_private Q pass fp = Some (x, fp')"
  obtains s' where "backup_load_private_keypair H Q path pass s = (Inr (kem, x), s')" "files s' = files s"
proof -
  obtain s1 where o: "backup_fopen_owner_only_read H path s = (Inr (f_content f), s1)" "files s1 = files s"
    using owner_only_total [OF assms(1,2,3,5,6,7,8,9)] by metis
  let ?m = "andthen (backup_private_key_file_header_is_encrypted H (f_content f)) (\<lambda>_.
        andthen (pem_read H (read_private Q pass) (f_content f)) (\<lambda>(kem_key, fp').
        andthen (pem_read H (read_private Q pass) fp') (\<lambda>(x25519_key, _).
        ret (kem_key, x25519_key))))"
  have "?m s1 = (Inr (kem, x), next_tick (next_tick (next_tick (next_tick s1))))"
    using assms(1) by (simp add: andthen_def header_total [OF assms(1,10)] pem_read_calm assms(11,12))
  from with_fclose_calm [where m = ?m and s = s1, OF assms(1) this]
  have "backup_load_private_keypair H Q path pass s =
      (Inr (kem, x), next_tick (next_tick (next_tick (next_tick (next_tick s1)))))"
    using assms(3,4) o(1)
    by (simp add: backup_load_private_keypair_def andthen_def guard_def backup_private_key_passphrase_is_valid_def)
  then show ?thesis using that o(2) by simp
qed

lemma load_private_keypair_opened:
  assumes "backup_load_private_keypair H Q path pass s = (Inr ks, s')"
  obtains fp s1 s2 u where "backup_fopen_owner_only_read H path s = (Inr fp, s1)"
    "backup_private_key_file_header_is_encrypted H fp s1 = (Inr u, s2)"
proof -
  obtain fp s1 m where fp: "backup_fopen_owner_only_read H path s = (Inr fp, s1)"
    "with_fclose H (andthen (backup_private_key_file_header_is_encrypted H fp) (\<lambda>_. m)) s1 = (Inr ks, s')"
    using assms by (auto simp: backup_load_private_keypair_def andthen_eq_Inr)
  then show ?thesis using with_fclose_Inr [OF fp(2)] that by (auto simp: andthen_eq_Inr)
qed

lemma load_single_private_Inr:
  assumes "backup_load_single_private_key H Q path pass s = (Inr key, s')"
  obtains fp fp' s1 s2 u where "backup_fopen_owner_only_read H path s = (Inr fp, s1)"
    "backup_private_key_file_header_is_encrypted H fp s1 = (Inr u, s2)"
    "read_private Q pass fp = Some (key, fp')"
proof -
  obtain fp s1 where fp: "backup_fopen_owner_only_read H path s = (Inr fp, s1)"
    and m: "finally_do (andthen (backup_private_key_file_header_is_encrypted H fp) (\<lambda>_.
        pem_read H (read_private Q pass) fp)) (\<lambda>r.
       andthen (io_call H) (\<lambda>_. lift_result (and_then r (\<lambda>(key, _). Inr key)))) s1 = (Inr key, s')"
    using assms by (auto simp: backup_load_single_private_key_def andthen_eq_Inr)
  obtain fp' t where "andthen (backup_private_key_file_header_is_encrypted H fp) (\<lambda>_.
        pem_read H (read_private Q pass) fp) s1 = (Inr (key, fp'), t)"
    using m by (auto simp: finally_do_def andthen_def [of "io_call H"] and_then_eq_Inr split: prod.splits)
  then obtain u s2 where "backup_private_key_file_header_is_encrypted H fp s1 = (Inr u, s2)"
    "pem_read H (read_private Q pass) fp s2 = (Inr (key, fp'), t)" by (auto simp: andthen_eq_Inr)
  then show ?thesis using that fp pem_read_Inr by metis
qed

text \<open>The generated texts satisfy the header check and are read back in order.\<close>

lemma generated_private_texts:
  assumes "list_all2 (\<lambda>k text. \<exists>t. pem_private Q t k pass = Some text) keys texts" "pem_ok Q ph"
    "list_all (\<lambda>k. \<exists>alg t. q_keygen Q alg t = Some k) keys" "length pass \<le> 1024"
  shows "list_all pem_text texts"
    and "list_all2 (\<lambda>k text. \<forall>rest. read_private Q pass (text @ rest) = Some (k, rest)) keys texts"
  using assms
  by (induction keys texts rule: list_all2_induct) (auto simp: pem_ok_def)

section \<open>A sample instance\<close>

text \<open>
  A system with one directory on which no call fails, and keys made of a mark for the private
  half, a letter for the algorithm and a letter drawn from the tick.
\<close>

definition sample_os :: os where
  "sample_os = \<lparr>realpath = (\<lambda>_. Some ''/''),
     path_entry = (\<lambda>p. Some (rev (takeWhile (\<lambda>c. c \<noteq> CHR ''/'') (rev p)))),
     getuid = 1000, umask = 0x12, io_ok = (\<lambda>_. True), io_count = (\<lambda>_ n. n)\<rparr>"

type_synonym sample_key = "bool \<times> byte \<times> byte"

definition sample_half :: "sample_key \<Rightarrow> sample_key" where
  "sample_half k = (False, snd k)"

definition sample_read :: "bytes \<Rightarrow> bool \<Rightarrow> bytes \<Rightarrow> (sample_key \<times> bytes) option" where
  "sample_read header private s =
     (if prefix (header @ [10]) s then
        case drop (length header + 1) s of a # i # n # rest \<Rightarrow> Some ((private, a, i), rest) | _ \<Rightarrow> None
      else None)"

definition sample_openssl :: "sample_key openssl" where
  "sample_openssl = \<lparr>
     q_keygen = (\<lambda>alg t. Some (True, of_char (last alg), of_nat (65 + t mod 26))),
     pem_public = (\<lambda>(p, a, i). Some (str_bytes ''-----BEGIN PUBLIC KEY-----'' @ [10, a, i, 10])),
     pem_private = (\<lambda>t (p, a, i) pass. if a = 10 \<or> i = 10 \<or> \<not> p then None else Some (pem_encrypted @ [10, a, i, 10])),
     read_public = sample_read (str_bytes ''-----BEGIN PUBLIC KEY-----'') False,
     read_private = (\<lambda>pass. sample_read pem_encrypted True),
     kem_encapsulate = (\<lambda>t (p, a, i). Some ([i, of_nat t], [i, of_nat t])),
     kem_decapsulate = (\<lambda>(p, a, i) ct. if p \<and> take 1 ct = [i] then Some ct else None),
     kex_derive = (\<lambda>(p, a, i) (q, b, j). Some [i + j]),
     raw_public = (\<lambda>(p, a, i). Some (replicate 32 i)),
     from_raw_public = (\<lambda>alg r. Some (False, of_char (last alg), hd r)),
     digest_sign = (\<lambda>t (p, a, i) cap m. if cap < 5 then None else Some (i # take 4 m)),
     digest_verify = (\<lambda>(p, a, i) m sg. sg = i # take 4 m)\<rparr>"

definition sample_disk :: disk where
  "sample_disk = \<lparr>tick = 0, files = (\<lambda>_. None)\<rparr>"

lemma sample_os_ok: "os_ok sample_os"
proof -
  have "path_entry sample_os r = path_entry sample_os path"
    if "backup_resolve_parent_path sample_os path = Inr r" for path r
  proof -
    let ?base = "rev (takeWhile (\<lambda>c. c \<noteq> CHR ''/'') (rev path))"
    have "r = CHR ''/'' # ?base"
    proof (cases "CHR ''/'' \<in> set path")
      case True
      then show ?thesis
        using that by (auto simp: backup_resolve_parent_path_def split_parent_def sample_os_def Let_def split: if_splits)
    next
      case False
      then have "takeWhile (\<lambda>c. c \<noteq> CHR ''/'') (rev path) = rev path" by (auto simp: takeWhile_eq_all_conv)
      then have base: "?base = path" by (simp only: rev_rev_ident)
      have "r = CHR ''/'' # path"
        using that False
        by (auto simp: backup_resolve_parent_path_def split_parent_def sample_os_def Let_def split: if_splits)
      then show ?thesis unfolding base .
    qed
    moreover have "takeWhile (\<lambda>c. c \<noteq> CHR ''/'') (takeWhile (\<lambda>c. c \<noteq> CHR ''/'') (rev path) @ [CHR ''/'']) =
        takeWhile (\<lambda>c. c \<noteq> CHR ''/'') (rev path)"
      by (subst takeWhile_append2) (auto dest: set_takeWhileD)
    ultimately show ?thesis by (simp add: sample_os_def)
  qed
  then show ?thesis by (simp add: os_ok_def)
qed

lemma sample_calm: "calm sample_os"
  by (simp add: calm_def sample_os_def)

lemma sample_pem_ok: "pem_ok sample_openssl sample_half"
proof -
  have "pem_text (pem_encrypted @ [10, a, i, 10])" if "a \<noteq> 10" "i \<noteq> 10" for a i :: byte
  proof -
    have "\<not> prefix pem_begin [a, i]" by (auto simp: prefix_def pem_begin_def str_bytes_def append_eq_Cons_conv)
    then show ?thesis using that unfolding pem_text_def by (intro exI [of _ "[[a, i]]"]) simp
  qed
  then show ?thesis
    unfolding pem_ok_def
    by (auto simp: sample_openssl_def sample_read_def sample_half_def split: if_splits)
qed

lemma sample_kem_ok: "kem_ok sample_openssl sample_half"
  by (auto simp: kem_ok_def sample_openssl_def sample_half_def)

lemma sample_kex_ok: "kex_ok sample_openssl sample_half"
  by (auto simp: kex_ok_def sample_openssl_def sample_half_def algebra_simps)

lemma sample_dsa_ok: "dsa_ok sample_openssl sample_half"
  by (auto simp: dsa_ok_def sample_openssl_def sample_half_def split: if_splits)

section \<open>Properties\<close>

text \<open>
  C18: A private-key file is used only when it is protected. When either reader of private keys
  succeeds, the file is a regular file of the calling user without any permission for group
  or others, and every line of it that begins a PEM block begins an encrypted private key,
  however long the lines of the file are.
\<close>

theorem private_key_file_protected:
  assumes "os_ok H"
    "backup_load_private_keypair H Q path pass s = (Inr ks, s') \<or>
     backup_load_single_private_key H Q path pass s = (Inr key, s')"
  shows "\<exists>f. find_file H path s = Some f \<and> f_regular f \<and> f_uid f = getuid H \<and>
    f_mode f AND S_IRWXG_IRWXO = 0 \<and>
    (\<forall>l. line_at (f_content f) l \<longrightarrow> prefix pem_begin l \<longrightarrow> prefix pem_encrypted l)"
proof -
  obtain fp s1 s2 u where fp: "backup_fopen_owner_only_read H path s = (Inr fp, s1)"
    "backup_private_key_file_header_is_encrypted H fp s1 = (Inr u, s2)"
    using assms(2)
  proof
    assume "backup_load_private_keypair H Q path pass s = (Inr ks, s')"
    then show ?thesis by (rule load_private_keypair_opened) (erule (1) that)
  next
    assume "backup_load_single_private_key H Q path pass s = (Inr key, s')"
    then show ?thesis by (rule load_single_private_Inr) (erule (1) that)
  qed
  obtain f where f: "find_file H path s = Some f" "f_content f = fp" "f_regular f" "f_uid f = getuid H"
    "f_mode f AND S_IRWXG_IRWXO = 0"
    by (rule owner_only_Inr [OF fp(1) assms(1)]) blast
  then show ?thesis using header_is_encrypted_Inr [OF fp(2)] by blast
qed

definition sample_signing_disk :: disk where
  "sample_signing_disk = snd (backup_mldsa_keygen sample_os sample_openssl ''sign.pub'' ''sign.key'' ''pass'' sample_disk)"

theorem private_key_file_protected_witness:
  "\<not> isl (fst (backup_load_single_private_key sample_os sample_openssl ''sign.key'' ''pass'' sample_signing_disk)) \<and>
   (\<exists>f. find_file sample_os ''sign.key'' sample_signing_disk = Some f \<and> f_regular f)"
proof -
  obtain r s' where r: "backup_load_single_private_key sample_os sample_openssl ''sign.key'' ''pass''
      sample_signing_disk = (r, s')" by fastforce
  have "\<not> isl (fst (backup_load_single_private_key sample_os sample_openssl ''sign.key'' ''pass'' sample_signing_disk))"
    by code_simp
  then obtain key where "r = Inr key" using r by (cases r) simp_all
  with r have k: "backup_load_single_private_key sample_os sample_openssl ''sign.key'' ''pass''
      sample_signing_disk = (Inr key, s')" by simp
  then show ?thesis using private_key_file_protected [OF sample_os_ok disjI2 [OF k]] by auto
qed

text \<open>
  C39: Key generation destroys what it finds. When either path of a key pair already leads to
  a file, both generators fail because they create files exclusively, and their cleanup
  then removes both paths, so the files that were there before are gone.
\<close>

theorem keygen_removes_existing_keys:
  assumes "os_ok H" "calm H" "\<And>alg t. q_keygen Q alg t \<noteq> None"
    "pub_path \<noteq> []" "priv_path \<noteq> []" "pass \<noteq> []"
    "find_file H pub_path s \<noteq> None \<or> find_file H priv_path s \<noteq> None"
    "backup_pqc_keygen H Q pub_path priv_path pass s = (r, s') \<or>
     backup_mldsa_keygen H Q pub_path priv_path pass s = (r, s')"
  shows "isl r \<and> find_file H pub_path s' = None \<and> find_file H priv_path s' = None"
proof -
  obtain keys t where w: "write_key_files H Q pub_path priv_path pass keys t = (r, s')" "files t = files s"
    using assms(8)
  proof
    assume k: "backup_pqc_keygen H Q pub_path priv_path pass s = (r, s')"
    obtain a b where "q_keygen Q BACKUP_PQC_KEM_ALGORITHM (tick s) = Some a"
      "q_keygen Q BACKUP_CLASSICAL_KEX_ALGORITHM (Suc (tick s)) = Some b"
      using assms(3) by (meson not_Some_eq)
    then show ?thesis
      using that [of "[a, b]" "next_tick (next_tick s)"] k assms(4-6)
      by (simp add: backup_pqc_keygen_def andthen_def guard_def ossl_random_def
        backup_private_key_passphrase_is_valid_def)
  next
    assume k: "backup_mldsa_keygen H Q pub_path priv_path pass s = (r, s')"
    obtain a where "q_keygen Q BACKUP_MLDSA_ALGORITHM (tick s) = Some a"
      using assms(3) by (meson not_Some_eq)
    then show ?thesis
      using that [of "[a]" "next_tick s"] k assms(4-6)
      by (simp add: backup_mldsa_keygen_def andthen_def guard_def ossl_random_def
        backup_private_key_passphrase_is_valid_def)
  qed
  from w(2) have "find_file H pub_path t \<noteq> None \<or> find_file H priv_path t \<noteq> None"
    using assms(7) find_file_cong [OF w(2)] by simp
  from write_key_files_existing [OF assms(1,2) this w(1)] show ?thesis by blast
qed

theorem keygen_removes_existing_keys_witness:
  "find_file sample_os ''sign.key'' sample_signing_disk \<noteq> None \<and>
   find_file sample_os ''sign.key''
     (snd (backup_mldsa_keygen sample_os sample_openssl ''sign.pub'' ''sign.key'' ''pass'' sample_signing_disk)) = None"
proof -
  obtain r s' where k: "backup_mldsa_keygen sample_os sample_openssl ''sign.pub'' ''sign.key'' ''pass''
      sample_signing_disk = (r, s')" by fastforce
  have there: "find_file sample_os ''sign.key'' sample_signing_disk \<noteq> None" by code_simp
  have "q_keygen sample_openssl alg t \<noteq> None" for alg t by (simp add: sample_openssl_def)
  then have "find_file sample_os ''sign.key'' s' = None"
    using keygen_removes_existing_keys [OF sample_os_ok sample_calm _ _ _ _ disjI2 [OF there] disjI2 [OF k]] by simp
  then show ?thesis using there k by simp
qed

end
