(* ===== verification/Fuin_Backup_Capsule.thy ===== *)
theory Fuin_Backup_Capsule
  imports Fuin_Backup_Keys
begin

text \<open>
  Backup capsules of \<open>src/src/backup.c\<close>: the capsule and the hybrid encapsulation are exact
  formats (the parser accepts what the printer writes and nothing else), what export and
  import do to the files, what an accepted capsule has passed, and that a capsule is restored
  with the private keys of the pair it was made for.
\<close>

section \<open>Interface: exact formats\<close>

text \<open>
  A parser that accepts exactly the printed values. Its clients learn from an accepted input
  that there is no slack in it, and that no two values share an encoding.
\<close>

locale exact_format =
  fixes print :: "'v \<Rightarrow> bytes"
    and parse :: "bytes \<Rightarrow> 'v result"
    and wf :: "'v \<Rightarrow> bool"
  assumes parse_print: "wf v \<Longrightarrow> parse (print v) = Inr v"
    and print_parse: "parse b = Inr v \<Longrightarrow> wf v \<and> print v = b"
begin

lemma parse_iff: "parse b = Inr v \<longleftrightarrow> wf v \<and> b = print v"
  using parse_print print_parse by blast

lemma print_inject: "wf v \<Longrightarrow> wf w \<Longrightarrow> print v = print w \<Longrightarrow> v = w"
  by (metis parse_print sum.inject(2))

end

section \<open>Integers\<close>

lemma write_read_le:
  assumes "length b = n" "LENGTH('a) = 8 * n"
  shows "write_le n (read_le b :: 'a::len word) = b"
proof (rule nth_equalityI)
  show "length (write_le n (read_le b :: 'a word)) = length b" using assms(1) by simp
  fix i
  assume "i < length (write_le n (read_le b :: 'a word))"
  then have i: "i < n" by simp
  show "write_le n (read_le b :: 'a word) ! i = b ! i"
  proof (rule bit_word_eqI)
    fix k
    assume k: "k < LENGTH(8)"
    then have "(i * 8 + k) div 8 = i" "(i * 8 + k) mod 8 = k" "i * 8 + k < LENGTH('a)"
      using i assms(2) by simp_all
    then show "bit (write_le n (read_le b :: 'a word) ! i) k \<longleftrightarrow> bit (b ! i) k"
      using i k assms(1)
      by (simp add: nth_write_le bit_ucast_iff bit_drop_bit_eq read_le_def bit_read_le_from)
  qed
qed

interpretation b32: fixed_codec backup_write_u32_le backup_read_u32_le 4
  by unfold_locales (simp_all add: backup_write_u32_le_def backup_read_u32_le_def read_write_le)

interpretation b64: fixed_codec utils_write_u64_le backup_read_u64_le 8
  by unfold_locales (simp_all add: utils_write_u64_le_def backup_read_u64_le_def read_write_le)

lemma read_u32_back: "4 \<le> length b \<Longrightarrow> take 4 b = backup_write_u32_le (backup_read_u32_le b)"
  by (simp add: backup_write_u32_le_def backup_read_u32_le_def write_read_le)

lemma read_u64_back: "8 \<le> length b \<Longrightarrow> take 8 b = utils_write_u64_le (backup_read_u64_le b)"
  by (simp add: utils_write_u64_le_def backup_read_u64_le_def write_read_le)

lemma length_u32 [simp]: "length (backup_write_u32_le v) = 4"
  by (rule b32.width_enc)

lemma length_u64 [simp]: "length (utils_write_u64_le v) = 8"
  by (rule b64.width_enc)

lemma read_u32_append [simp]: "backup_read_u32_le (backup_write_u32_le v @ xs) = v"
  by (simp add: backup_read_u32_le_def backup_write_u32_le_def read_write_le)

lemma read_u64_append [simp]: "backup_read_u64_le (utils_write_u64_le v @ xs) = v"
  by (simp add: backup_read_u64_le_def utils_write_u64_le_def read_write_le)

lemma unat_u32 [simp]: "int n \<le> UINT32_MAX \<Longrightarrow> unat (of_nat n :: 32 word) = n"
  by (simp add: UINT32_MAX_def unat_of_nat take_bit_nat_eq_self)

lemma unat_u64 [simp]: "int n \<le> UINT64_MAX \<Longrightarrow> unat (of_nat n :: 64 word) = n"
  by (simp add: UINT64_MAX_def unat_of_nat take_bit_nat_eq_self)

lemma unat_le_u32: "int (unat (w :: 32 word)) \<le> UINT32_MAX"
proof -
  have "unat w < 4294967296" using unsigned_less [of w] by simp
  then show ?thesis unfolding UINT32_MAX_def by linarith
qed

lemma unat_le_u64: "int (unat (w :: 64 word)) \<le> UINT64_MAX"
proof -
  have "unat w < 18446744073709551616" using unsigned_less [of w] by simp
  then show ?thesis unfolding UINT64_MAX_def by linarith
qed

lemma unat_word: "unat (w :: 'a::len word) = n \<Longrightarrow> w = of_nat n"
  by (drule arg_cong [where f = "of_nat :: nat \<Rightarrow> 'a word"]) simp

lemma drop_split: "drop i data = take n (drop i data) @ drop (i + n) data"
  by (metis add.commute append_take_drop_id drop_drop)

section \<open>The hybrid encapsulation\<close>

definition encap_bytes :: "bytes \<times> bytes \<Rightarrow> bytes" where
  "encap_bytes p = backup_write_u32_le 32 @ fst p @ snd p"

definition encap_wf :: "bytes \<times> bytes \<Rightarrow> bool" where
  "encap_wf p \<longleftrightarrow> length (fst p) = 32 \<and> snd p \<noteq> []"

interpretation he: exact_format encap_bytes backup_parse_hybrid_encap encap_wf
proof unfold_locales
  fix v
  assume "encap_wf v"
  then show "backup_parse_hybrid_encap (encap_bytes v) = Inr v"
    by (cases v) (simp add: backup_parse_hybrid_encap_def encap_bytes_def encap_wf_def Let_def
      BACKUP_ENCAP_PREFIX_LEN_def BACKUP_X25519_PUBLIC_BYTES_def)
next
  fix b v
  assume "backup_parse_hybrid_encap b = Inr v"
  then have 1: "4 < length b" "unat (backup_read_u32_le b) = 32" "36 < length b"
    "v = (take 32 (drop 4 b), drop 36 b)"
    by (auto simp: backup_parse_hybrid_encap_def Let_def BACKUP_ENCAP_PREFIX_LEN_def
      BACKUP_X25519_PUBLIC_BYTES_def split: if_splits)
  have "backup_read_u32_le b = 32" using unat_word [OF 1(2)] by simp
  then have "take 4 b = backup_write_u32_le 32" using read_u32_back [of b] 1(1) by simp
  then have "b = backup_write_u32_le 32 @ take 32 (drop 4 b) @ drop 36 b"
    using drop_split [of 0 b 4] drop_split [of 4 b 32] by simp
  then show "encap_wf v \<and> encap_bytes v = b" using 1 by (simp add: encap_wf_def encap_bytes_def)
qed

lemma build_hybrid_encap_Inr:
  "backup_build_hybrid_encap eph ct = Inr encap \<Longrightarrow> encap_wf (eph, ct) \<and> encap = encap_bytes (eph, ct)"
  by (auto simp: backup_build_hybrid_encap_def and_then_eq_Inr Let_def encap_wf_def encap_bytes_def
    BACKUP_X25519_PUBLIC_BYTES_def split: if_splits)

section \<open>The capsule\<close>

definition capsule_prefix :: "capsule \<Rightarrow> bytes" where
  "capsule_prefix c = BACKUP_MAGIC @ backup_write_u32_le BACKUP_VERSION @ backup_write_u32_le 17 @
     backup_write_u32_le (of_nat (length (c_encap c))) @ backup_write_u32_le 24 @ backup_write_u32_le 32 @
     utils_write_u64_le (of_nat (length (c_ciphertext c))) @ utils_write_u64_le (of_nat (c_plaintext_len c)) @
     str_bytes BACKUP_CAPSULE_ALGORITHM @ c_encap c @ c_nonce c @ c_audit_root c"

definition capsule_bytes :: "capsule \<Rightarrow> bytes" where
  "capsule_bytes c = capsule_prefix c @ c_ciphertext c"

definition capsule_wf :: "capsule \<Rightarrow> bool" where
  "capsule_wf c \<longleftrightarrow> int (length (c_encap c)) \<le> UINT32_MAX \<and> length (c_nonce c) = 24 \<and>
     length (c_audit_root c) = 32 \<and> 16 \<le> length (c_ciphertext c) \<and>
     int (length (c_ciphertext c)) \<le> UINT64_MAX \<and> c_plaintext_len c = length (c_ciphertext c) - 16 \<and>
     c_aad c = capsule_prefix c"

lemmas capsule_consts = BACKUP_FIXED_HEADER_LEN_def BACKUP_NONCE_BYTES_def BACKUP_TAG_BYTES_def
  AUDIT_MERKLE_ROOT_BYTES_def

lemma length_magic [simp]: "length BACKUP_MAGIC = 8"
  by (simp add: BACKUP_MAGIC_def)

lemma length_capsule_algorithm [simp]: "length BACKUP_CAPSULE_ALGORITHM = 17"
  by (simp add: BACKUP_CAPSULE_ALGORITHM_def)

text \<open>What the chain of bounds checks has established when it ends.\<close>

lemma parse_capsule_Inr:
  assumes "backup_parse_capsule data = Inr c"
  shows "take 8 data = BACKUP_MAGIC" "backup_read_u32_le (drop 8 data) = BACKUP_VERSION"
    "backup_read_u32_le (drop 12 data) = 17" "backup_read_u32_le (drop 20 data) = 24"
    "backup_read_u32_le (drop 24 data) = 32"
    "unat (backup_read_u32_le (drop 16 data)) = length (c_encap c)"
    "unat (backup_read_u64_le (drop 28 data)) = length (c_ciphertext c)"
    "unat (backup_read_u64_le (drop 36 data)) = c_plaintext_len c"
    "16 \<le> length (c_ciphertext c)" "c_plaintext_len c = length (c_ciphertext c) - 16"
    "take 17 (drop 44 data) = str_bytes BACKUP_CAPSULE_ALGORITHM"
    "length (c_nonce c) = 24" "length (c_audit_root c) = 32"
    "drop 61 data = c_encap c @ c_nonce c @ c_audit_root c @ c_ciphertext c"
    "c_aad c = take (length data - length (c_ciphertext c)) data" "44 \<le> length data"
    "length (c_ciphertext c) \<le> length data"
proof -
  define n where "n = unat (backup_read_u32_le (drop 16 data))"
  have all: "44 \<le> length data" "take 8 data = BACKUP_MAGIC" "backup_read_u32_le (drop 8 data) = BACKUP_VERSION"
    "unat (backup_read_u32_le (drop 12 data)) = 17" "unat (backup_read_u32_le (drop 20 data)) = 24"
    "unat (backup_read_u32_le (drop 24 data)) = 32"
    "16 \<le> unat (backup_read_u64_le (drop 28 data))"
    "unat (backup_read_u64_le (drop 36 data)) = unat (backup_read_u64_le (drop 28 data)) - 16"
    "17 \<le> length data - 44" "take 17 (drop 44 data) = str_bytes BACKUP_CAPSULE_ALGORITHM"
    "n \<le> length data - 61" "24 \<le> length data - (61 + n)"
    "32 \<le> length data - (61 + n + 24)"
    "unat (backup_read_u64_le (drop 28 data)) = length data - (61 + n + 56)"
    "c = \<lparr>c_encap = take n (drop 61 data), c_nonce = take 24 (drop (61 + n) data),
      c_audit_root = take 32 (drop (85 + n) data), c_ciphertext = drop (117 + n) data,
      c_aad = take (117 + n) data, c_plaintext_len = unat (backup_read_u64_le (drop 36 data))\<rparr>"
    using assms unfolding backup_parse_capsule_def Let_def n_def [symmetric]
    by (auto simp: capsule_consts not_less algebra_simps split: if_splits)
  have ct: "length (c_ciphertext c) = length data - (117 + n)" "c_aad c = take (117 + n) data"
    by (simp_all add: all(15))
  show "take 8 data = BACKUP_MAGIC" "backup_read_u32_le (drop 8 data) = BACKUP_VERSION" by (fact all)+
  show "backup_read_u32_le (drop 12 data) = 17" "backup_read_u32_le (drop 20 data) = 24"
    "backup_read_u32_le (drop 24 data) = 32"
    using unat_word [OF all(4)] unat_word [OF all(5)] unat_word [OF all(6)] by simp_all
  show "unat (backup_read_u32_le (drop 16 data)) = length (c_encap c)"
    unfolding n_def [symmetric] using all(11) by (simp add: all(15))
  show ctl: "unat (backup_read_u64_le (drop 28 data)) = length (c_ciphertext c)"
    unfolding all(14) ct(1) by simp
  show "unat (backup_read_u64_le (drop 36 data)) = c_plaintext_len c" by (simp add: all(15))
  then show "16 \<le> length (c_ciphertext c)" "c_plaintext_len c = length (c_ciphertext c) - 16"
    using all(7,8) unfolding ctl by simp_all
  show "take 17 (drop 44 data) = str_bytes BACKUP_CAPSULE_ALGORITHM" "44 \<le> length data" by (fact all)+
  show "length (c_nonce c) = 24" "length (c_audit_root c) = 32"
    using all(12,13) by (simp_all add: all(15))
  have "drop 61 data = take n (drop 61 data) @ take 24 (drop (61 + n) data) @
      take 32 (drop (85 + n) data) @ drop (117 + n) data"
    using drop_split [of 61 data n] drop_split [of "61 + n" data 24] drop_split [of "85 + n" data 32]
    by (simp add: algebra_simps)
  then show "drop 61 data = c_encap c @ c_nonce c @ c_audit_root c @ c_ciphertext c" by (simp add: all(15))
  show "c_aad c = take (length data - length (c_ciphertext c)) data" "length (c_ciphertext c) \<le> length data"
    using all(9,11-13) by (simp_all add: ct)
qed

lemma parse_capsule_exact:
  assumes "backup_parse_capsule data = Inr c"
  shows "capsule_wf c \<and> capsule_bytes c = data"
proof -
  note p = parse_capsule_Inr [OF assms]
  have len: "int (length (c_encap c)) \<le> UINT32_MAX" "int (length (c_ciphertext c)) \<le> UINT64_MAX"
    unfolding p(6) [symmetric] p(7) [symmetric] by (rule unat_le_u32 unat_le_u64)+
  have w: "take 4 (drop 8 data) = backup_write_u32_le BACKUP_VERSION"
    "take 4 (drop 12 data) = backup_write_u32_le 17"
    "take 4 (drop 16 data) = backup_write_u32_le (of_nat (length (c_encap c)))"
    "take 4 (drop 20 data) = backup_write_u32_le 24" "take 4 (drop 24 data) = backup_write_u32_le 32"
    "take 8 (drop 28 data) = utils_write_u64_le (of_nat (length (c_ciphertext c)))"
    "take 8 (drop 36 data) = utils_write_u64_le (of_nat (c_plaintext_len c))"
    using p(16) by (simp_all add: read_u32_back read_u64_back p(2-5) unat_word [OF p(6)] unat_word [OF p(7)]
      unat_word [OF p(8)])
  have "data = take 8 data @ take 4 (drop 8 data) @ take 4 (drop 12 data) @ take 4 (drop 16 data) @
      take 4 (drop 20 data) @ take 4 (drop 24 data) @ take 8 (drop 28 data) @ take 8 (drop 36 data) @
      take 17 (drop 44 data) @ drop 61 data"
    using drop_split [of 0 data 8] drop_split [of 8 data 4] drop_split [of 12 data 4] drop_split [of 16 data 4]
      drop_split [of 20 data 4] drop_split [of 24 data 4] drop_split [of 28 data 8] drop_split [of 36 data 8]
      drop_split [of 44 data 17] by simp
  then have data: "data = capsule_prefix c @ c_ciphertext c"
    unfolding capsule_prefix_def p(1) p(11) w p(14) by simp
  then have "c_aad c = capsule_prefix c" using p(15) by (metis append_eq_conv_conj length_append add_diff_cancel_right')
  then show ?thesis using data len p(9,10,12,13) by (simp add: capsule_wf_def capsule_bytes_def)
qed

lemma length_capsule_prefix:
  "capsule_wf c \<Longrightarrow> length (capsule_prefix c) = 117 + length (c_encap c)"
  by (simp add: capsule_prefix_def capsule_wf_def)

lemma parse_capsule_accepts:
  assumes "capsule_wf c"
  shows "backup_parse_capsule (capsule_bytes c) = Inr c"
proof -
  let ?d = "capsule_bytes c"
  have len: "length ?d = 117 + length (c_encap c) + length (c_ciphertext c)"
    using length_capsule_prefix [OF assms] by (simp add: capsule_bytes_def)
  have wf: "int (length (c_encap c)) \<le> UINT32_MAX" "length (c_nonce c) = 24" "length (c_audit_root c) = 32"
    "16 \<le> length (c_ciphertext c)" "int (length (c_ciphertext c)) \<le> UINT64_MAX"
    "c_plaintext_len c = length (c_ciphertext c) - 16" "c_aad c = capsule_prefix c"
    using assms by (simp_all add: capsule_wf_def)
  have "int (c_plaintext_len c) \<le> UINT64_MAX" using wf(5,6) by simp
  then have u: "unat (backup_read_u32_le (drop 12 ?d)) = 17" "unat (backup_read_u32_le (drop 16 ?d)) = length (c_encap c)"
    "unat (backup_read_u32_le (drop 20 ?d)) = 24" "unat (backup_read_u32_le (drop 24 ?d)) = 32"
    "unat (backup_read_u64_le (drop 28 ?d)) = length (c_ciphertext c)"
    "unat (backup_read_u64_le (drop 36 ?d)) = c_plaintext_len c"
    "take 8 ?d = BACKUP_MAGIC" "backup_read_u32_le (drop 8 ?d) = BACKUP_VERSION"
    "take 17 (drop 44 ?d) = str_bytes BACKUP_CAPSULE_ALGORITHM"
    using wf(1-5) by (simp_all add: capsule_bytes_def capsule_prefix_def)
  have d: "take (length (c_encap c)) (drop 61 ?d) = c_encap c"
    "take 24 (drop (61 + length (c_encap c)) ?d) = c_nonce c"
    "take 32 (drop (85 + length (c_encap c)) ?d) = c_audit_root c"
    "drop (117 + length (c_encap c)) ?d = c_ciphertext c" "take (117 + length (c_encap c)) ?d = capsule_prefix c"
    using wf by (simp_all add: capsule_bytes_def capsule_prefix_def)
  show ?thesis
    unfolding backup_parse_capsule_def Let_def using wf len by (simp add: u d capsule_consts)
qed

interpretation cf: exact_format capsule_bytes backup_parse_capsule capsule_wf
  by unfold_locales (simp_all add: parse_capsule_accepts parse_capsule_exact)

section \<open>Export\<close>

lemma ossl_eq_Inr: "ossl r s = (Inr x, s') \<longleftrightarrow> r = Some x \<and> s' = s"
  by (auto simp: ossl_def split: option.splits)

text \<open>Elimination rules that take a successful chain apart from the front.\<close>

lemma andthenE:
  assumes "andthen m f s = (Inr y, t)"
  obtains x s' where "m s = (Inr x, s')" "f x s' = (Inr y, t)"
  using assms by (auto simp: andthen_eq_Inr)

lemma andthen_pairE:
  assumes "andthen m (\<lambda>(a, b). f a b) s = (Inr y, t)"
  obtains a b s' where "m s = (Inr (a, b), s')" "f a b s' = (Inr y, t)"
  using assms by (auto simp: andthen_eq_Inr)

lemma ossl_random_eq [simp]: "ossl_random f s = (Inr (f (tick s)), next_tick s)"
  by (simp add: ossl_random_def)

lemma build_fixed_header_Inr:
  "backup_build_fixed_header a n b d m k = Inr h \<Longrightarrow> int n \<le> UINT32_MAX \<and> h = BACKUP_MAGIC @
     backup_write_u32_le BACKUP_VERSION @ backup_write_u32_le (of_nat a) @ backup_write_u32_le (of_nat n) @
     backup_write_u32_le (of_nat b) @ backup_write_u32_le (of_nat d) @
     utils_write_u64_le (of_nat m) @ utils_write_u64_le (of_nat k)"
  by (auto simp: backup_build_fixed_header_def Let_def split: if_splits)

lemma build_aad_Inr:
  "backup_build_aad h alg encap nonce the_root = Inr aad \<Longrightarrow> length h = 44 \<Longrightarrow>
     aad = h @ alg @ encap @ nonce @ the_root"
  by (auto simp: backup_build_aad_def and_then_eq_Inr Let_def BACKUP_FIXED_HEADER_LEN_def split: if_splits)

lemma derive_capsule_key_eq:
  "backup_derive_capsule_key E ss z encap the_root = Inr key \<longleftrightarrow>
     ss \<noteq> [] \<and> z \<noteq> [] \<and> encap \<noteq> [] \<and> length the_root = 32 \<and>
     key = generichash E [] (str_bytes capsule_key_context @ ss @ z @ encap @ the_root)"
  by (auto simp: backup_derive_capsule_key_def AUDIT_MERKLE_ROOT_BYTES_def split: if_splits)

text \<open>The parts of the capsule that a successful export wrote.\<close>

lemma export_Inr:
  assumes "backup_pqc_export E H Q (Some db) pub_path capsule_path the_root s = (Inr u, s')"
    "os_ok H" "aead_ok E" "random_ok E"
  obtains kem x s1 t1 kem_ct ss t2 ek z raw c d where
    "backup_load_public_keypair H Q pub_path s = (Inr (kem, x), s1)"
    "kem_encapsulate Q t1 kem = Some (kem_ct, ss)" "q_keygen Q BACKUP_CLASSICAL_KEX_ALGORITHM t2 = Some ek"
    "kex_derive Q ek x = Some z" "raw_public Q ek = Some raw" "encap_wf (raw, kem_ct)" "ss \<noteq> []" "z \<noteq> []"
    "capsule_wf c" "c_encap c = encap_bytes (raw, kem_ct)" "c_audit_root c = the_root"
    "c_ciphertext c = aead_encrypt E XCHACHA20_POLY1305
      (generichash E [] (str_bytes capsule_key_context @ ss @ z @ c_encap c @ the_root)) (c_nonce c) (c_aad c) db"
    "db \<noteq> []" "int (length db) \<le> BACKUP_MAX_DB_BYTES"
    "path_entry H capsule_path = Some d" "files s d = None"
    "files s' = (files s)(d \<mapsto> \<lparr>f_content = capsule_bytes c, f_regular = True, f_uid = getuid H,
      f_mode = S_IRUSR_IWUSR AND NOT (umask H)\<rparr>)"
proof -
  obtain v0 a0 db' a1 kem x s1 r1 a3 kem_ct ss a4 r2 a5 ek a6 z a7 raw a8 encap a9 key a10 v1 a11 n a12 h a13
      aad a14 v2 s2 where raw:
    "guard (length the_root = AUDIT_MERKLE_ROOT_BYTES) SM_ERR_INVALID_ARGUMENT s = (Inr v0, a0)"
    "lift_result (backup_sqlite_snapshot (Some db)) a0 = (Inr db', a1)"
    "backup_load_public_keypair H Q pub_path a1 = (Inr (kem, x), s1)"
    "ossl_random (\<lambda>t. kem_encapsulate Q t kem) s1 = (Inr r1, a3)" "ossl r1 a3 = (Inr (kem_ct, ss), a4)"
    "ossl_random (q_keygen Q BACKUP_CLASSICAL_KEX_ALGORITHM) a4 = (Inr r2, a5)" "ossl r2 a5 = (Inr ek, a6)"
    "lift_result (backup_x25519_derive Q ek x) a6 = (Inr z, a7)"
    "lift_result (backup_get_raw_public_key Q ek) a7 = (Inr raw, a8)"
    "lift_result (backup_build_hybrid_encap raw kem_ct) a8 = (Inr encap, a9)"
    "lift_result (backup_derive_capsule_key E ss z encap the_root) a9 = (Inr key, a10)"
    "guard (int (length db') \<le> SIZE_MAX - int BACKUP_TAG_BYTES) SM_ERR_STORAGE a10 = (Inr v1, a11)"
    "randombytes_buf E BACKUP_NONCE_BYTES a11 = (Inr n, a12)"
    "lift_result (backup_build_fixed_header (length BACKUP_CAPSULE_ALGORITHM) (length encap)
       BACKUP_NONCE_BYTES (length the_root) (length db' + BACKUP_TAG_BYTES) (length db')) a12 = (Inr h, a13)"
    "lift_result (backup_build_aad h (str_bytes BACKUP_CAPSULE_ALGORITHM) encap n the_root) a13 = (Inr aad, a14)"
    "lift_result (backup_checked_add (length aad) (length (aead_encrypt E XCHACHA20_POLY1305 key n aad db'))) a14 =
       (Inr v2, s2)"
    "backup_write_all H capsule_path (aad @ aead_encrypt E XCHACHA20_POLY1305 key n aad db') s2 = (Inr u, s')"
    using assms(1) unfolding backup_pqc_export_def Let_def backup_encapsulate_def
    by (elim andthen_pairE andthenE) (rule that, assumption+)
  have st: "a0 = s" "a1 = a0" "a4 = a3" "a6 = a5" "a11 = a10" "s2 = a14"
    using raw(1) raw(2) raw(5) raw(7) raw(12) raw(16) by (simp_all add: ossl_eq_Inr)
  have "a7 = a6" "a8 = a7" "a9 = a8" "a10 = a9" "a13 = a12" "a14 = a13"
    using raw(8) raw(9) raw(10) raw(11) raw(14) raw(15) by simp_all
  moreover have "files a3 = files s1" "files a5 = files a4" "files a12 = files a11"
    using raw(4) raw(6) raw(13) by auto
  ultimately have fs: "files s2 = files s1" by (simp add: st)
  have dbs: "db' = db" "db \<noteq> []" "int (length db) \<le> BACKUP_MAX_DB_BYTES"
    using raw(2) by (auto simp: backup_sqlite_snapshot_def split: if_splits)
  have db: "length the_root = 32" using raw(1) by (simp add: AUDIT_MERKLE_ROOT_BYTES_def)
  have load: "backup_load_public_keypair H Q pub_path s = (Inr (kem, x), s1)" using raw(3) st by simp
  have kem: "kem_encapsulate Q (tick s1) kem = Some (kem_ct, ss)" using raw(4,5) by (simp add: ossl_eq_Inr)
  have ek: "q_keygen Q BACKUP_CLASSICAL_KEX_ALGORITHM (tick a4) = Some ek" using raw(6,7) by (simp add: ossl_eq_Inr)
  have z: "kex_derive Q ek x = Some z" using raw(8) by (simp add: backup_x25519_derive_def split: option.splits)
  have rw: "raw_public Q ek = Some raw" using raw(9) by (simp add: backup_get_raw_public_key_def split: option.splits)
  have encap: "backup_build_hybrid_encap raw kem_ct = Inr encap"
    and key: "backup_derive_capsule_key E ss z encap the_root = Inr key" using raw(10,11) by simp_all
  have h: "backup_build_fixed_header 17 (length encap) 24 (length the_root) (length db + 16) (length db) = Inr h"
    using raw(14) dbs by (simp add: capsule_consts)
  have aad: "backup_build_aad h (str_bytes BACKUP_CAPSULE_ALGORITHM) encap n the_root = Inr aad" using raw(15) by simp
  have wr: "backup_write_all H capsule_path (aad @ aead_encrypt E XCHACHA20_POLY1305 key n aad db) s2 = (Inr u, s')"
    "files s2 = files s1" using raw(17) dbs fs by simp_all
  have n: "length n = 24" using raw(13) assms(4) by (auto simp: random_ok_def capsule_consts)
  let ?ct = "aead_encrypt E XCHACHA20_POLY1305 key n aad db"
  define c where "c = \<lparr>c_encap = encap, c_nonce = n, c_audit_root = the_root, c_ciphertext = ?ct, c_aad = aad,
    c_plaintext_len = length db\<rparr>"
  have ct: "length ?ct = length db + 16" using assms(3) by (simp add: aead_ok_def)
  note len = dbs(2,3)
  have aad': "aad = capsule_prefix c"
    using build_aad_Inr [OF aad] build_fixed_header_Inr [OF h] ct db by (simp add: capsule_prefix_def c_def)
  have parts: "c_encap c = encap" "c_nonce c = n" "c_audit_root c = the_root" "c_ciphertext c = ?ct"
    "c_plaintext_len c = length db" "c_aad c = aad" by (simp_all add: c_def)
  have "c_aad c = capsule_prefix c" unfolding parts(6) by (rule aad')
  then have wf: "capsule_wf c"
    using n build_fixed_header_Inr [OF h] db len(2) unfolding capsule_wf_def parts(1-5) ct
    by (simp add: UINT64_MAX_def BACKUP_MAX_DB_BYTES_def)
  have bytes: "aad @ ?ct = capsule_bytes c" unfolding capsule_bytes_def aad' [symmetric] by (simp add: c_def)
  obtain d where d: "path_entry H capsule_path = Some d" "files s2 d = None"
    "files s' = (files s2)(d \<mapsto> \<lparr>f_content = aad @ ?ct, f_regular = True, f_uid = getuid H,
      f_mode = S_IRUSR_IWUSR AND NOT (umask H)\<rparr>)"
    using write_all_cases(2) [OF wr(1) assms(2)] by auto
  have kept: "files s2 = files s" using wr(2) files_keptD [OF files_kept_load(1) load] by simp
  have k: "ss \<noteq> []" "z \<noteq> []" "key = generichash E [] (str_bytes capsule_key_context @ ss @ z @ encap @ the_root)"
    using key by (auto simp: derive_capsule_key_eq)
  show ?thesis
    using that [OF load kem ek z rw _ k(1,2) wf _ _ _ len d(1)] build_hybrid_encap_Inr [OF encap] d(2,3) kept bytes
    by (simp add: c_def k(3))
qed

lemma export_total:
  assumes "calm H" "os_ok H" "aead_ok E" "random_ok E" "length the_root = 32" "db \<noteq> []"
    "int (length db) \<le> BACKUP_MAX_DB_BYTES" "pub_path \<noteq> []"
    "find_file H pub_path s = Some g" "read_public Q (f_content g) = Some (kem, r)" "read_public Q r = Some (x, r')"
    and kem: "\<And>t. \<exists>ct ss. kem_encapsulate Q t kem = Some (ct, ss) \<and> ct \<noteq> [] \<and> ss \<noteq> [] \<and> length ct \<le> 1088"
    and kex: "\<And>t. \<exists>ek raw z. q_keygen Q BACKUP_CLASSICAL_KEX_ALGORITHM t = Some ek \<and>
      kex_derive Q ek x = Some z \<and> z \<noteq> [] \<and> raw_public Q ek = Some raw \<and> length raw = 32"
    and out: "capsule_path \<noteq> []" "backup_resolve_parent_path H capsule_path = Inr p"
      "path_entry H capsule_path = Some d" "files s d = None"
  shows "\<exists>s'. backup_pqc_export E H Q (Some db) pub_path capsule_path the_root s = (Inr (), s')"
proof -
  obtain s1 where s1: "backup_load_public_keypair H Q pub_path s = (Inr (kem, x), s1)"
    using load_public_keypair_total [OF assms(1,8-11)] by blast
  have fs: "files s1 = files s" by (rule files_keptD [OF files_kept_load(1) s1])
  obtain ct ss where k: "kem_encapsulate Q (tick s1) kem = Some (ct, ss)" "ct \<noteq> []" "ss \<noteq> []" "length ct \<le> 1088"
    using kem by blast
  obtain ek raw z where e: "q_keygen Q BACKUP_CLASSICAL_KEX_ALGORITHM (Suc (tick s1)) = Some ek"
    "kex_derive Q ek x = Some z" "z \<noteq> []" "raw_public Q ek = Some raw" "length raw = 32"
    using kex by blast
  let ?s2 = "next_tick (next_tick (next_tick s1))"
  let ?n = "randombytes E (Suc (Suc (tick s1))) 24"
  have n: "length ?n = 24" using assms(4) by (simp add: random_ok_def)
  let ?encap = "encap_bytes (raw, ct)"
  have encap: "backup_build_hybrid_encap raw ct = Inr ?encap" "length ?encap = 36 + length ct" "?encap \<noteq> []"
    using k e by (simp_all add: backup_build_hybrid_encap_def BACKUP_X25519_PUBLIC_BYTES_def UINT32_MAX_def
      backup_checked_add_def SIZE_MAX_def BACKUP_ENCAP_PREFIX_LEN_def Let_def encap_bytes_def)
  obtain key where key: "backup_derive_capsule_key E ss z ?encap the_root = Inr key"
    using k e encap assms(5) by (simp add: backup_derive_capsule_key_def AUDIT_MERKLE_ROOT_BYTES_def)
  obtain h where h: "backup_build_fixed_header 17 (length ?encap) 24 32 (length db + 16) (length db) = Inr h" "length h = 44"
    using encap k by (simp add: backup_build_fixed_header_def UINT32_MAX_def Let_def BACKUP_FIXED_HEADER_LEN_def)
  obtain aad where aad: "backup_build_aad h (str_bytes BACKUP_CAPSULE_ALGORITHM) ?encap ?n the_root = Inr aad"
    "length aad = 153 + length ct"
    using encap k h(2) n assms(5)
    by (simp add: backup_build_aad_def backup_checked_add_def SIZE_MAX_def BACKUP_FIXED_HEADER_LEN_def Let_def)
  let ?ct = "aead_encrypt E XCHACHA20_POLY1305 key ?n aad db"
  have "length ?ct = length db + 16" using assms(3) by (simp add: aead_ok_def)
  then have add: "backup_checked_add (length aad) (length ?ct) = Inr (length aad + length ?ct)"
    using aad k assms(7) by (simp add: backup_checked_add_def SIZE_MAX_def BACKUP_MAX_DB_BYTES_def)
  obtain s3 where s3: "backup_write_all H capsule_path (aad @ ?ct) ?s2 = (Inr (), s3)"
    using write_all_total [OF assms(1,2) out(1-3)] out(4) fs by (metis files_next_tick)
  have "backup_pqc_export E H Q (Some db) pub_path capsule_path the_root s = (Inr (), s3)"
    using assms(5-7)
    by (simp add: backup_pqc_export_def andthen_def guard_def backup_sqlite_snapshot_def s1 backup_encapsulate_def
      ossl_def k(1) e(1,2,4) backup_x25519_derive_def backup_get_raw_public_key_def encap(1) key h(1) aad(1) add s3
      Let_def capsule_consts SIZE_MAX_def BACKUP_MAX_DB_BYTES_def del: length_append)
  then show ?thesis by blast
qed

section \<open>What export and import do to the files\<close>

definition adding :: "string option \<Rightarrow> ('a disk_scheme, 'b) comp \<Rightarrow> bool" where
  "adding e m \<longleftrightarrow> (\<forall>s. adds_only e s (snd (m s)))"

lemma adding_kept: "files_kept m \<Longrightarrow> adding e m"
  by (simp add: adding_def files_kept_def adds_only_def)

lemma adding_andthen: "files_kept m \<Longrightarrow> (\<And>x. adding e (f x)) \<Longrightarrow> adding e (andthen m f)"
  unfolding adding_def andthen_def
  by (auto split: prod.splits sum.splits)
     (metis adds_only_same files_keptD, metis adds_only_trans files_keptD snd_conv)

lemma adding_case_prod: "(\<And>a b. adding e (f a b)) \<Longrightarrow> adding e (case_prod f p)"
  by (cases p) simp

lemma adding_write_all: "os_ok H \<Longrightarrow> adding (path_entry H path) (backup_write_all H path data)"
  by (auto simp: adding_def intro: write_all_cases(1) [OF prod.collapse [symmetric]])

lemma files_kept_random [files_rules]:
  "files_kept (ossl_random f)" "files_kept (randombytes_buf E n)" "files_kept (backup_encapsulate Q k)"
  by (simp_all add: files_kept_def backup_encapsulate_def andthen_def ossl_def split: option.splits)

lemma export_adds_only:
  "os_ok H \<Longrightarrow> adding (path_entry H capsule_path) (backup_pqc_export E H Q db_image pub_path capsule_path the_root)"
  unfolding backup_pqc_export_def Let_def
  by (intro adding_andthen adding_case_prod adding_write_all files_rules)

lemma import_adds_only:
  "os_ok H \<Longrightarrow> adding (path_entry H out_path) (backup_pqc_import E H Q priv_path pass capsule_path out_path)"
  unfolding backup_pqc_import_def
  by (intro adding_andthen adding_case_prod adding_write_all files_rules)

section \<open>Import\<close>

lemma import_Inr:
  fixes s :: "'a disk_scheme"
  assumes "backup_pqc_import E H Q priv_path pass capsule_path out_path s = (Inr u, s')" "os_ok H"
  obtains f c raw kem_ct kem x ss peer z plain e and t t' :: "'a disk_scheme" where
    "find_file H capsule_path s = Some f" "capsule_wf c" "f_content f = capsule_bytes c"
    "encap_wf (raw, kem_ct)" "c_encap c = encap_bytes (raw, kem_ct)"
    "backup_load_private_keypair H Q priv_path pass t = (Inr (kem, x), t')" "files t = files s"
    "kem_decapsulate Q kem kem_ct = Some ss"
    "from_raw_public Q BACKUP_CLASSICAL_KEX_ALGORITHM raw = Some peer" "kex_derive Q x peer = Some z"
    "aead_decrypt E XCHACHA20_POLY1305 (generichash E [] (str_bytes capsule_key_context @ ss @ z @
      c_encap c @ c_audit_root c)) (c_nonce c) (capsule_prefix c) (c_ciphertext c) = Some plain"
    "path_entry H out_path = Some e" "files s e = None"
    "files s' = (files s)(e \<mapsto> \<lparr>f_content = plain, f_regular = True, f_uid = getuid H,
      f_mode = S_IRUSR_IWUSR AND NOT (umask H)\<rparr>)"
proof -
  obtain v0 a0 data a1 c a2 raw kem_ct a3 kem x a4 ss a5 peer a6 z a7 key a8 plain a9 v1 a10 where raw:
    "guard (backup_private_key_passphrase_is_valid pass \<and> out_path \<noteq> []) SM_ERR_INVALID_ARGUMENT s = (Inr v0, a0)"
    "backup_read_all H capsule_path (BACKUP_MAX_DB_BYTES + 8192) a0 = (Inr data, a1)"
    "lift_result (backup_parse_capsule data) a1 = (Inr c, a2)"
    "lift_result (backup_parse_hybrid_encap (c_encap c)) a2 = (Inr (raw, kem_ct), a3)"
    "backup_load_private_keypair H Q priv_path pass a3 = (Inr (kem, x), a4)"
    "lift_result (backup_decapsulate Q kem kem_ct) a4 = (Inr ss, a5)"
    "lift_result (backup_x25519_public_from_raw Q raw) a5 = (Inr peer, a6)"
    "lift_result (backup_x25519_derive Q x peer) a6 = (Inr z, a7)"
    "lift_result (backup_derive_capsule_key E ss z (c_encap c) (c_audit_root c)) a7 = (Inr key, a8)"
    "ossl (aead_decrypt E XCHACHA20_POLY1305 key (c_nonce c) (c_aad c) (c_ciphertext c)) a8 = (Inr plain, a9)"
    "guard (length plain = c_plaintext_len c) SM_ERR_CRYPTO a9 = (Inr v1, a10)"
    "backup_write_all H out_path plain a10 = (Inr u, s')"
    using assms(1) unfolding backup_pqc_import_def
    by (elim andthen_pairE andthenE) (rule that, assumption+)
  have st: "a0 = s" "a2 = a1" "a3 = a2" "a5 = a4" "a6 = a5" "a7 = a6" "a8 = a7" "a9 = a8" "a10 = a9"
    using raw(1) raw(3) raw(4) raw(6) raw(7) raw(8) raw(9) raw(10) raw(11) by (simp_all add: ossl_eq_Inr)
  have fs: "files a3 = files s" "files a10 = files s"
    using files_keptD [OF files_kept_backup_reads(2) raw(2)] files_keptD [OF files_kept_load(2) raw(5)] st by simp_all
  obtain f where f: "find_file H capsule_path s = Some f" "f_content f = data"
    using read_all_Inr [OF raw(2)] st by auto
  have "backup_parse_capsule data = Inr c" "backup_parse_hybrid_encap (c_encap c) = Inr (raw, kem_ct)"
    using raw(3,4) by simp_all
  note c = cf.print_parse [OF this(1)] and he = he.print_parse [OF this(2)]
  have ss: "kem_decapsulate Q kem kem_ct = Some ss"
    using raw(6) by (simp add: backup_decapsulate_def split: if_splits option.splits)
  have peer: "from_raw_public Q BACKUP_CLASSICAL_KEX_ALGORITHM raw = Some peer"
    using raw(7) by (simp add: backup_x25519_public_from_raw_def split: if_splits option.splits)
  have z: "kex_derive Q x peer = Some z" using raw(8) by (simp add: backup_x25519_derive_def split: option.splits)
  have dec: "aead_decrypt E XCHACHA20_POLY1305 (generichash E [] (str_bytes capsule_key_context @ ss @ z @
      c_encap c @ c_audit_root c)) (c_nonce c) (capsule_prefix c) (c_ciphertext c) = Some plain"
    using raw(9,10) c by (simp add: derive_capsule_key_eq ossl_eq_Inr capsule_wf_def)
  obtain e where e: "path_entry H out_path = Some e" "files s e = None"
    "files s' = (files s)(e \<mapsto> \<lparr>f_content = plain, f_regular = True, f_uid = getuid H,
      f_mode = S_IRUSR_IWUSR AND NOT (umask H)\<rparr>)"
    using write_all_cases(2) [OF raw(12) assms(2)] fs by auto
  show ?thesis using that [OF f(1) _ _ _ _ raw(5) fs(1) ss peer z dec e] c f(2) he by simp
qed

lemma import_total:
  fixes s :: "'a disk_scheme"
  assumes "calm H" "os_ok H" "pass \<noteq> []" "out_path \<noteq> []" "capsule_path \<noteq> []"
    "find_file H capsule_path s = Some f" "f_content f = capsule_bytes c" "capsule_wf c"
    "int (length (capsule_bytes c)) \<le> BACKUP_MAX_DB_BYTES + 8192"
    "encap_wf (raw, kem_ct)" "c_encap c = encap_bytes (raw, kem_ct)"
    and load: "\<And>t :: 'a disk_scheme. files t = files s \<Longrightarrow>
      \<exists>t'. backup_load_private_keypair H Q priv_path pass t = (Inr (kem, x), t') \<and> files t' = files s"
    and ks: "kem_decapsulate Q kem kem_ct = Some ss"
    "from_raw_public Q BACKUP_CLASSICAL_KEX_ALGORITHM raw = Some peer" "kex_derive Q x peer = Some z"
    "ss \<noteq> []" "z \<noteq> []"
    and dec: "aead_decrypt E XCHACHA20_POLY1305 (generichash E [] (str_bytes capsule_key_context @ ss @ z @
      c_encap c @ c_audit_root c)) (c_nonce c) (c_aad c) (c_ciphertext c) = Some plain"
    "length plain = c_plaintext_len c"
    and out: "backup_resolve_parent_path H out_path = Inr p" "path_entry H out_path = Some e" "files s e = None"
  obtains s' where "backup_pqc_import E H Q priv_path pass capsule_path out_path s = (Inr (), s')"
    "files s' = (files s)(e \<mapsto> \<lparr>f_content = plain, f_regular = True, f_uid = getuid H,
      f_mode = S_IRUSR_IWUSR AND NOT (umask H)\<rparr>)"
proof -
  have "capsule_bytes c \<noteq> []" using length_capsule_prefix [OF assms(8)] by (auto simp: capsule_bytes_def)
  moreover have "BACKUP_MAX_DB_BYTES + 8192 \<le> SIZE_MAX" by (simp add: BACKUP_MAX_DB_BYTES_def SIZE_MAX_def)
  ultimately obtain s1 where s1: "backup_read_all H capsule_path (BACKUP_MAX_DB_BYTES + 8192) s = (Inr (capsule_bytes c), s1)"
    "files s1 = files s"
    using read_all_total [OF assms(1,5) _ assms(6)] assms(7,9) by metis
  obtain s2 where s2: "backup_load_private_keypair H Q priv_path pass s1 = (Inr (kem, x), s2)" "files s2 = files s"
    using load [OF s1(2)] by blast
  obtain s3 where s3: "backup_write_all H out_path plain s2 = (Inr (), s3)"
    "files s3 = (files s)(e \<mapsto> \<lparr>f_content = plain, f_regular = True, f_uid = getuid H,
      f_mode = S_IRUSR_IWUSR AND NOT (umask H)\<rparr>)"
    using write_all_total [OF assms(1,2,4) out(1,2)] out(3) s2(2) by metis
  have root: "length (c_audit_root c) = 32" "c_encap c \<noteq> []" "kem_ct \<noteq> []" "length raw = 32"
    using assms(8,10,11) by (auto simp: capsule_wf_def encap_wf_def encap_bytes_def)
  have "backup_parse_hybrid_encap (c_encap c) = Inr (raw, kem_ct)"
    unfolding assms(11) by (rule he.parse_print [OF assms(10)])
  then have "backup_pqc_import E H Q priv_path pass capsule_path out_path s = (Inr (), s3)"
    using s3(1) dec ks root assms(3,4)
    by (simp add: backup_pqc_import_def andthen_def guard_def backup_private_key_passphrase_is_valid_def s1(1)
      cf.parse_print [OF assms(8)] s2(1) backup_decapsulate_def backup_x25519_public_from_raw_def
      backup_x25519_derive_def backup_derive_capsule_key_def AUDIT_MERKLE_ROOT_BYTES_def
      BACKUP_X25519_PUBLIC_BYTES_def ossl_def)
  then show ?thesis using that s3(2) by simp
qed

text \<open>A generated pair: its public file yields the public halves, its private file the keys.\<close>

lemma generated_pair:
  assumes "backup_pqc_keygen H Q pub_path priv_path pass s = (Inr u, s')" "os_ok H" "pem_ok Q ph"
    "length pass \<le> 1024"
  obtains t1 t2 k y f g p r r' where
    "q_keygen Q BACKUP_PQC_KEM_ALGORITHM t1 = Some k" "q_keygen Q BACKUP_CLASSICAL_KEX_ALGORITHM t2 = Some y"
    "find_file H pub_path s' = Some g" "read_public Q (f_content g) = Some (ph k, r)"
    "read_public Q r = Some (ph y, r')"
    "find_file H priv_path s' = Some f" "f_regular f" "f_uid f = getuid H" "f_mode f AND S_IRWXG_IRWXO = 0"
    "pem_header_loop (f_content f) False = Inr True"
    "\<exists>q q'. read_private Q pass (f_content f) = Some (k, q) \<and> read_private Q pass q = Some (y, q')"
    "backup_resolve_parent_path H priv_path = Inr p" "priv_path \<noteq> []" "pass \<noteq> []"
proof -
  obtain k y t where ky: "q_keygen Q BACKUP_PQC_KEM_ALGORITHM (tick s) = Some k"
    "q_keygen Q BACKUP_CLASSICAL_KEX_ALGORITHM (Suc (tick s)) = Some y"
    "write_key_files H Q pub_path priv_path pass [k, y] t = (Inr u, s')" "priv_path \<noteq> []" "pass \<noteq> []"
    using assms(1)
    by (auto simp: backup_pqc_keygen_def andthen_eq_Inr backup_private_key_passphrase_is_valid_def
      split: option.splits)
  obtain e d privs pubs p where w: "path_entry H priv_path = Some e" "path_entry H pub_path = Some d" "d \<noteq> e"
    "backup_resolve_parent_path H priv_path = Inr p"
    "list_all2 (\<lambda>k text. \<exists>t. pem_private Q t k pass = Some text) [k, y] privs"
    "list_all2 (\<lambda>k text. pem_public Q k = Some text) [k, y] pubs"
    "files s' = (files t)
      (e \<mapsto> \<lparr>f_content = concat privs, f_regular = True, f_uid = getuid H,
        f_mode = S_IRUSR_IWUSR AND NOT (umask H)\<rparr>,
       d \<mapsto> \<lparr>f_content = concat pubs, f_regular = True, f_uid = getuid H,
        f_mode = S_IRUSR_IWUSR_IRGRP_IROTH AND NOT (umask H)\<rparr>)"
    by (rule write_key_files_Inr [OF ky(3) assms(2)]) blast
  have "list_all (\<lambda>k. \<exists>alg t. q_keygen Q alg t = Some k) [k, y]" using ky by auto
  note texts = generated_private_texts [OF w(5) assms(3) this assms(4)]
  obtain a b where ab: "privs = [a, b]" "\<And>rest. read_private Q pass (a @ rest) = Some (k, rest)"
    "\<And>rest. read_private Q pass (b @ rest) = Some (y, rest)"
    using texts(2) by (auto simp: list_all2_Cons1)
  obtain a' b' where pubs: "pubs = [a', b']" "pem_public Q k = Some a'" "pem_public Q y = Some b'"
    using w(6) by (auto simp: list_all2_Cons1)
  then have ab': "read_public Q (a' @ b') = Some (ph k, b')" "read_public Q b' = Some (ph y, [])"
    using assms(3) unfolding pem_ok_def by (blast, metis append_Nil2)
  have "pem_header_loop (concat privs) False = Inr True"
    using header_loop_texts [OF texts(1)] ab(1) by simp
  moreover have "\<exists>q q'. read_private Q pass (concat privs) = Some (k, q) \<and> read_private Q pass q = Some (y, q')"
    using ab(2) [of b] ab(3) [of "[]"] by (simp add: ab(1))
  ultimately show ?thesis
    using that [OF ky(1,2), of _ b' "[]"] w(1-4,7) ab' pubs(1) ky(4,5) owner_mode
    by (simp add: find_file_def)
qed

lemma import_after_export:
  assumes sys: "os_ok H" "calm H" "aead_ok E" "random_ok E" "pem_ok Q ph" "kem_ok Q ph" "kex_ok Q ph"
    and gen: "backup_pqc_keygen H Q pub_path priv_path pass s0 = (Inr (), s1)" "length pass \<le> 1024"
    and exp: "find_file H pub_path s2 = find_file H pub_path s1" "capsule_path \<noteq> []"
      "backup_pqc_export E H Q (Some db) pub_path capsule_path the_root s2 = (Inr (), s3)"
    and imp: "find_file H capsule_path s4 = find_file H capsule_path s3"
      "find_file H priv_path s4 = find_file H priv_path s1" "out_path \<noteq> []"
      "backup_resolve_parent_path H out_path = Inr p" "path_entry H out_path = Some e" "files s4 e = None"
  shows "\<exists>s5 f. backup_pqc_import E H Q priv_path pass capsule_path out_path s4 = (Inr (), s5) \<and>
    find_file H out_path s5 = Some f \<and> f_content f = db"
proof -
  obtain t1 t2 k y f g q r r' where gk: "q_keygen Q BACKUP_PQC_KEM_ALGORITHM t1 = Some k"
    "q_keygen Q BACKUP_CLASSICAL_KEX_ALGORITHM t2 = Some y" "find_file H pub_path s1 = Some g"
    "read_public Q (f_content g) = Some (ph k, r)" "read_public Q r = Some (ph y, r')"
    and gf: "find_file H priv_path s1 = Some f" "f_regular f" "f_uid f = getuid H" "f_mode f AND S_IRWXG_IRWXO = 0"
    "pem_header_loop (f_content f) False = Inr True"
    "\<exists>q q'. read_private Q pass (f_content f) = Some (k, q) \<and> read_private Q pass q = Some (y, q')"
    and gp: "backup_resolve_parent_path H priv_path = Inr q" "priv_path \<noteq> []" "pass \<noteq> []"
    by (rule generated_pair [OF gen(1) sys(1,5) gen(2)]) blast
  obtain kem x u1 t3 kem_ct ss t4 ek z raw c d where ex: "backup_load_public_keypair H Q pub_path s2 = (Inr (kem, x), u1)"
    "kem_encapsulate Q t3 kem = Some (kem_ct, ss)" "q_keygen Q BACKUP_CLASSICAL_KEX_ALGORITHM t4 = Some ek"
    "kex_derive Q ek x = Some z" "raw_public Q ek = Some raw" "encap_wf (raw, kem_ct)" "ss \<noteq> []" "z \<noteq> []"
    "capsule_wf c" "c_encap c = encap_bytes (raw, kem_ct)" "c_audit_root c = the_root"
    and ct: "c_ciphertext c = aead_encrypt E XCHACHA20_POLY1305
      (generichash E [] (str_bytes capsule_key_context @ ss @ z @ c_encap c @ the_root)) (c_nonce c) (c_aad c) db"
    and db: "int (length db) \<le> BACKUP_MAX_DB_BYTES" "path_entry H capsule_path = Some d"
    "files s3 = (files s2)(d \<mapsto> \<lparr>f_content = capsule_bytes c, f_regular = True, f_uid = getuid H,
      f_mode = S_IRUSR_IWUSR AND NOT (umask H)\<rparr>)"
    by (rule export_Inr [OF exp(3) sys(1,3,4)]) blast
  have keys: "kem = ph k" "x = ph y"
    using load_public_keypair_Inr [OF ex(1)] gk(3-5) exp(1) by fastforce+
  have dk: "kem_decapsulate Q k kem_ct = Some ss" "length kem_ct \<le> 1088"
    using sys(6) gk(1) ex(2) unfolding kem_ok_def keys by blast+
  have dx: "from_raw_public Q BACKUP_CLASSICAL_KEX_ALGORITHM raw = Some (ph ek)" "kex_derive Q y (ph ek) = Some z"
    using sys(7) gk(2) ex(3,4,5) unfolding kex_ok_def keys by auto
  have load: "\<exists>t'. backup_load_private_keypair H Q priv_path pass t = (Inr (k, y), t') \<and> files t' = files s4"
    if "files t = files s4" for t
    using load_private_keypair_total [OF sys(2,1) gp(2,3,1) _ gf(2-5)] gf(1,6) imp(2) that
      find_file_cong [OF that, of H priv_path] by metis
  have len: "length (c_ciphertext c) = length db + 16" using sys(3) unfolding ct by (simp add: aead_ok_def)
  have "length (c_encap c) = 36 + length kem_ct" using ex(6,10) by (simp add: encap_bytes_def encap_wf_def)
  then have size: "int (length (capsule_bytes c)) \<le> BACKUP_MAX_DB_BYTES + 8192"
    using length_capsule_prefix [OF ex(9)] len dk(2) db(1) by (simp add: capsule_bytes_def)
  have dec: "aead_decrypt E XCHACHA20_POLY1305 (generichash E [] (str_bytes capsule_key_context @ ss @ z @
      c_encap c @ c_audit_root c)) (c_nonce c) (c_aad c) (c_ciphertext c) = Some db"
    using sys(3) unfolding ct ex(11) by (simp add: aead_ok_def)
  have pl: "length db = c_plaintext_len c" using ex(9) len by (simp add: capsule_wf_def)
  obtain f' where f': "find_file H capsule_path s4 = Some f'" "f_content f' = capsule_bytes c"
    using imp(1) db(2,3) by (simp add: find_file_def)
  obtain s5 where s5: "backup_pqc_import E H Q priv_path pass capsule_path out_path s4 = (Inr (), s5)"
    "files s5 = (files s4)(e \<mapsto> \<lparr>f_content = db, f_regular = True, f_uid = getuid H,
      f_mode = S_IRUSR_IWUSR AND NOT (umask H)\<rparr>)"
    by (rule import_total [OF sys(2,1) gp(3) imp(3) exp(2) f' ex(9) size ex(6,10) load dk(1) dx ex(7,8) dec pl imp(4-6)])
  have "\<exists>f. find_file H out_path s5 = Some f \<and> f_content f = db" using imp(5) s5(2) by (simp add: find_file_def)
  then show ?thesis using s5(1) by blast
qed

section \<open>A sample run\<close>

definition sample_pair_disk :: disk where
  "sample_pair_disk = snd (backup_pqc_keygen sample_os sample_openssl ''b.pub'' ''keys/b.key'' ''pass'' sample_disk)"

definition sample_capsule_disk :: disk where
  "sample_capsule_disk = snd (backup_pqc_export sample_env sample_os sample_openssl (Some [1, 2, 3])
     ''b.pub'' ''b.cap'' (replicate 32 7) sample_pair_disk)"

lemma unit_Inr: "\<not> isl (fst x) \<Longrightarrow> x = (Inr (), snd x)"
  by (cases x; cases "fst x") auto

lemma sample_generated:
  "backup_pqc_keygen sample_os sample_openssl ''b.pub'' ''keys/b.key'' ''pass'' sample_disk = (Inr (), sample_pair_disk)"
  unfolding sample_pair_disk_def by (rule unit_Inr) code_simp

lemma sample_new_entries:
  "files sample_pair_disk ''b.cap'' = None" "files sample_pair_disk ''restored.db'' = None"
  by code_simp+

lemma sample_entries:
  "path_entry sample_os ''b.cap'' = Some ''b.cap''" "path_entry sample_os ''restored.db'' = Some ''restored.db''"
  "path_entry sample_os ''keys/b.key'' = Some ''b.key''" "path_entry sample_os ''b.pub'' = Some ''b.pub''"
  "backup_resolve_parent_path sample_os ''b.cap'' = Inr ''/b.cap''"
  "backup_resolve_parent_path sample_os ''restored.db'' = Inr ''/restored.db''"
  by code_simp+

lemma sample_exported:
  "backup_pqc_export sample_env sample_os sample_openssl (Some [1, 2, 3]) ''b.pub'' ''b.cap'' (replicate 32 7)
     sample_pair_disk = (Inr (), sample_capsule_disk)"
proof -
  obtain t1 t2 k y g r r' where g: "find_file sample_os ''b.pub'' sample_pair_disk = Some g"
    "read_public sample_openssl (f_content g) = Some (sample_half k, r)"
    "read_public sample_openssl r = Some (sample_half y, r')"
    by (rule generated_pair [OF sample_generated sample_os_ok sample_pem_ok]) (simp, blast)
  have "\<exists>s'. backup_pqc_export sample_env sample_os sample_openssl (Some [1, 2, 3]) ''b.pub'' ''b.cap'' (replicate 32 7)
     sample_pair_disk = (Inr (), s')"
    by (rule export_total [OF sample_calm sample_os_ok sample_aead_ok sample_random_ok _ _ _ _ g _ _ _
        sample_entries(5,1) sample_new_entries(1)])
       (auto simp: sample_openssl_def sample_half_def BACKUP_MAX_DB_BYTES_def split_beta)
  then show ?thesis unfolding sample_capsule_disk_def by auto
qed

lemma sample_capsule_frame:
  assumes "files sample_pair_disk d \<noteq> None \<or> d \<noteq> ''b.cap''"
  shows "files sample_capsule_disk d = files sample_pair_disk d"
proof -
  have "adds_only (path_entry sample_os ''b.cap'') sample_pair_disk sample_capsule_disk"
    unfolding sample_capsule_disk_def by (rule export_adds_only [OF sample_os_ok, unfolded adding_def, rule_format])
  then show ?thesis using assms by (auto simp: adds_only_def sample_entries)
qed

lemma sample_key_there: "files sample_pair_disk ''b.key'' \<noteq> None" "files sample_pair_disk ''b.pub'' \<noteq> None"
  by code_simp+

lemma sample_key_kept:
  "find_file sample_os ''keys/b.key'' sample_capsule_disk = find_file sample_os ''keys/b.key'' sample_pair_disk"
  using sample_key_there by (simp add: find_file_def sample_entries sample_capsule_frame)

lemma sample_out_new: "files sample_capsule_disk ''restored.db'' = None"
  by (simp add: sample_capsule_frame sample_new_entries)

section \<open>Properties\<close>

text \<open>
  C16: The capsule format is exact. The bounds and equality checks of \<open>backup_pqc_import\<close> accept
  a file exactly when it is the magic, the version, the five lengths, the algorithm name, the
  encapsulation, a 24-byte nonce, a 32-byte audit root and the ciphertext, with no byte in
  between or behind, and they then deliver those parts; every other file is refused before
  any key is loaded.
\<close>

theorem capsule_format_exact:
  "backup_parse_capsule data = Inr c \<longleftrightarrow> capsule_wf c \<and> data = capsule_bytes c"
  by (rule cf.parse_iff)

text \<open>
  C14: A backup can be restored. When a key pair was generated, a database of any size that
  \<open>backup_pqc_export\<close> accepts was exported to its public file, and the capsule and the private
  key file are at hand on a system on which no call fails, then \<open>backup_pqc_import\<close> with the
  passphrase (at most 1024 characters) succeeds and the new file holds exactly the exported
  database. In particular the size limit of import leaves room for every exported capsule.
\<close>

theorem backup_roundtrip:
  assumes sys: "os_ok H" "calm H" "aead_ok E" "random_ok E" "pem_ok Q ph" "kem_ok Q ph" "kex_ok Q ph"
    and gen: "backup_pqc_keygen H Q pub_path priv_path pass s0 = (Inr (), s1)" "length pass \<le> 1024"
    and exp: "find_file H pub_path s2 = find_file H pub_path s1" "capsule_path \<noteq> []"
      "backup_pqc_export E H Q (Some db) pub_path capsule_path the_root s2 = (Inr (), s3)"
    and imp: "find_file H capsule_path s4 = find_file H capsule_path s3"
      "find_file H priv_path s4 = find_file H priv_path s1" "out_path \<noteq> []"
      "backup_resolve_parent_path H out_path = Inr p" "path_entry H out_path = Some e" "files s4 e = None"
  shows "\<exists>s5 f. backup_pqc_import E H Q priv_path pass capsule_path out_path s4 = (Inr (), s5) \<and>
    find_file H out_path s5 = Some f \<and> f_content f = db"
  by (rule import_after_export [OF assms])

theorem backup_roundtrip_witness:
  "\<exists>s5 f. backup_pqc_import sample_env sample_os sample_openssl ''keys/b.key'' ''pass'' ''b.cap'' ''restored.db''
     sample_capsule_disk = (Inr (), s5) \<and>
   find_file sample_os ''restored.db'' s5 = Some f \<and> f_content f = [1, 2, 3]"
  by (rule backup_roundtrip [OF sample_os_ok sample_calm sample_aead_ok sample_random_ok sample_pem_ok
    sample_kem_ok sample_kex_ok sample_generated _ refl _ sample_exported refl sample_key_kept _
    sample_entries(6,2) sample_out_new]) simp_all

text \<open>
  C15: What \<open>backup_pqc_import\<close> restores is authenticated. When it succeeds, the capsule file is
  an exact capsule, and the new file is the authenticated decryption of its ciphertext, with
  everything before the ciphertext as associated data, under the hash of both shared secrets,
  the encapsulation and the audit root, the secrets being those that the private keys of the
  given file and passphrase yield for this encapsulation. Nothing else on the disk changes.
\<close>

theorem import_authentic:
  fixes s :: "'a disk_scheme"
  assumes "os_ok H" "backup_pqc_import E H Q priv_path pass capsule_path out_path s = (Inr (), s')"
  shows "\<exists>f c raw kem_ct kem x ss peer z plain e. \<exists>t t' :: 'a disk_scheme.
    find_file H capsule_path s = Some f \<and> capsule_wf c \<and> f_content f = capsule_bytes c \<and>
    c_encap c = encap_bytes (raw, kem_ct) \<and>
    files t = files s \<and> backup_load_private_keypair H Q priv_path pass t = (Inr (kem, x), t') \<and>
    kem_decapsulate Q kem kem_ct = Some ss \<and>
    from_raw_public Q BACKUP_CLASSICAL_KEX_ALGORITHM raw = Some peer \<and> kex_derive Q x peer = Some z \<and>
    aead_decrypt E XCHACHA20_POLY1305 (generichash E [] (str_bytes capsule_key_context @ ss @ z @
      c_encap c @ c_audit_root c)) (c_nonce c) (capsule_prefix c) (c_ciphertext c) = Some plain \<and>
    path_entry H out_path = Some e \<and> files s e = None \<and>
    files s' = (files s)(e \<mapsto> \<lparr>f_content = plain, f_regular = True, f_uid = getuid H,
      f_mode = S_IRUSR_IWUSR AND NOT (umask H)\<rparr>)"
  by (rule import_Inr [OF assms(2,1)]) blast

theorem import_authentic_witness:
  "\<exists>f c. find_file sample_os ''b.cap'' sample_capsule_disk = Some f \<and> capsule_wf c \<and>
    f_content f = capsule_bytes c"
proof -
  obtain s5 where "backup_pqc_import sample_env sample_os sample_openssl ''keys/b.key'' ''pass'' ''b.cap''
      ''restored.db'' sample_capsule_disk = (Inr (), s5)"
    using import_after_export [OF sample_os_ok sample_calm sample_aead_ok sample_random_ok sample_pem_ok
      sample_kem_ok sample_kex_ok sample_generated _ refl _ sample_exported refl sample_key_kept _
      sample_entries(6,2) sample_out_new] by auto
  from import_authentic [OF sample_os_ok this] show ?thesis by blast
qed

text \<open>
  C17: Backups never overwrite. Whatever \<open>backup_pqc_export\<close> and \<open>backup_pqc_import\<close> return, and
  whatever calls fail on the way, every file that existed before is still there with the same
  contents, owner and mode, and the only entry that can be new is the one they were asked to
  write.
\<close>

theorem backup_keeps_files:
  assumes "os_ok H" "files s d \<noteq> None \<or> path_entry H target \<noteq> Some d"
  shows "files (snd (backup_pqc_export E H Q db_image pub_path target the_root s)) d = files s d \<and>
    files (snd (backup_pqc_import E H Q priv_path pass capsule_path target s)) d = files s d"
  using export_adds_only [OF assms(1), of target E Q db_image pub_path the_root]
    import_adds_only [OF assms(1), of target E Q priv_path pass capsule_path] assms(2)
  unfolding adding_def adds_only_def by metis

theorem backup_keeps_files_witness:
  "files (snd (backup_pqc_import sample_env sample_os sample_openssl ''keys/b.key'' ''pass'' ''b.cap'' ''b.pub''
     sample_pair_disk)) ''b.pub'' = files sample_pair_disk ''b.pub''"
  by (rule backup_keeps_files [OF sample_os_ok disjI1 [OF sample_key_there(2)], THEN conjunct2])

end
