(* ===== verification/Fuin_Vault_Backup.thy ===== *)
theory Fuin_Vault_Backup
  imports Fuin_Backup_Capsule Fuin_Vault_Reach
begin

text \<open>
  The vault's entry points to backups and signing, \<open>src/src/vault.c\<close> lines 2521 to 2616, over a
  state that pairs the vault with the table of files. Both halves share one tick. The file
  format of SQLite is the argument \<open>serialize\<close>: what \<open>sqlite3_serialize\<close> returns for a vault.
\<close>

section \<open>Model\<close>

type_synonym system = "vault \<times> (string \<rightharpoonup> disk_file)"

definition on_vault :: "(vault, 'b) comp \<Rightarrow> (system, 'b) comp" where
  "on_vault m = (\<lambda>(v, fs). case m v of (r, v') \<Rightarrow> (r, (v', fs)))"

definition on_disk :: "(disk, 'b) comp \<Rightarrow> (system, 'b) comp" where
  "on_disk m = (\<lambda>(v, fs).
     case m \<lparr>tick = tick v, files = fs\<rparr> of (r, d) \<Rightarrow> (r, (v\<lparr>tick := tick d\<rparr>, files d)))"

definition vault_backup_keygen :: "os \<Rightarrow> 'k openssl \<Rightarrow> string \<Rightarrow> string \<Rightarrow> string \<Rightarrow> (system, unit) comp" where
  "vault_backup_keygen H Q public_key_path private_key_path passphrase =
     on_disk (backup_pqc_keygen H Q public_key_path private_key_path passphrase)"

definition vault_backup_export ::
  "env \<Rightarrow> os \<Rightarrow> 'k openssl \<Rightarrow> (vault \<Rightarrow> bytes option) \<Rightarrow> string \<Rightarrow> string \<Rightarrow> (system, unit) comp" where
  "vault_backup_export E H Q serialize recipient_public_key_path capsule_path =
     andthen (on_vault vault_require_unlocked) (\<lambda>_.
     andthen (gets (g_db \<circ> fst)) (\<lambda>opened.
     andthen (guard (recipient_public_key_path \<noteq> [] \<and> capsule_path \<noteq> [] \<and> opened)
       SM_ERR_INVALID_ARGUMENT) (\<lambda>_.
     andthen (on_vault (vault_audit_merkle_root E)) (\<lambda>(the_root, leaf_count).
     andthen (gets (serialize \<circ> fst)) (\<lambda>db_image.
     on_disk (backup_pqc_export E H Q db_image recipient_public_key_path capsule_path the_root))))))"

definition vault_backup_import ::
  "env \<Rightarrow> os \<Rightarrow> 'k openssl \<Rightarrow> string \<Rightarrow> string \<Rightarrow> string \<Rightarrow> string \<Rightarrow> (system, unit) comp" where
  "vault_backup_import E H Q private_key_path passphrase capsule_path output_db_path =
     on_disk (backup_pqc_import E H Q private_key_path passphrase capsule_path output_db_path)"

definition vault_audit_signing_keygen ::
  "os \<Rightarrow> 'k openssl \<Rightarrow> string \<Rightarrow> string \<Rightarrow> string \<Rightarrow> (system, unit) comp" where
  "vault_audit_signing_keygen H Q public_key_path private_key_path passphrase =
     on_disk (backup_mldsa_keygen H Q public_key_path private_key_path passphrase)"

text \<open>Root, leaf count and signature.\<close>

definition vault_audit_sign_root ::
  "env \<Rightarrow> os \<Rightarrow> 'k openssl \<Rightarrow> string \<Rightarrow> string \<Rightarrow> nat \<Rightarrow> nat \<Rightarrow> (system, bytes \<times> nat \<times> bytes) comp" where
  "vault_audit_sign_root E H Q private_key_path passphrase root_len signature_len =
     andthen (guard (root_len = AUDIT_MERKLE_ROOT_BYTES) SM_ERR_INVALID_ARGUMENT) (\<lambda>_.
     andthen (on_vault (vault_audit_merkle_root E)) (\<lambda>(the_root, leaf_count).
     andthen (on_disk (backup_mldsa_sign H Q private_key_path passphrase
       (the_root @ utils_write_u64_le (of_nat leaf_count)) signature_len)) (\<lambda>signature.
     ret (the_root, leaf_count, signature))))"

section \<open>Lemmas\<close>

lemma on_vault_Inr:
  "on_vault m (v, fs) = (Inr x, (v', fs')) \<Longrightarrow> m v = (Inr x, v') \<and> fs' = fs"
  by (auto simp: on_vault_def split: prod.splits)

lemma on_disk_Inr:
  "on_disk m (v, fs) = (Inr x, (v', fs')) \<Longrightarrow>
    \<exists>d. m \<lparr>tick = tick v, files = fs\<rparr> = (Inr x, d) \<and> fs' = files d \<and> v' = v\<lparr>tick := tick d\<rparr>"
  by (auto simp: on_disk_def split: prod.splits)

text \<open>A generated signing pair: either file is read back.\<close>

lemma generated_signing_pair:
  assumes "backup_mldsa_keygen H Q pub_path priv_path pass s = (Inr u, s')" "os_ok H" "pem_ok Q ph"
    "length pass \<le> 1024"
  obtains t k f g r where "q_keygen Q BACKUP_MLDSA_ALGORITHM t = Some k"
    "find_file H pub_path s' = Some g" "read_public Q (f_content g) = Some (ph k, r)"
    "find_file H priv_path s' = Some f" "\<exists>q. read_private Q pass (f_content f) = Some (k, q)" "pub_path \<noteq> []"
proof -
  obtain k t where k: "q_keygen Q BACKUP_MLDSA_ALGORITHM (tick s) = Some k"
    "write_key_files H Q pub_path priv_path pass [k] t = (Inr u, s')" "pub_path \<noteq> []"
    using assms(1) by (auto simp: backup_mldsa_keygen_def andthen_eq_Inr split: option.splits)
  obtain e d privs pubs where w: "path_entry H priv_path = Some e" "path_entry H pub_path = Some d" "d \<noteq> e"
    "list_all2 (\<lambda>k text. \<exists>t. pem_private Q t k pass = Some text) [k] privs"
    "list_all2 (\<lambda>k text. pem_public Q k = Some text) [k] pubs"
    "files s' = (files t)
      (e \<mapsto> \<lparr>f_content = concat privs, f_regular = True, f_uid = getuid H,
        f_mode = S_IRUSR_IWUSR AND NOT (umask H)\<rparr>,
       d \<mapsto> \<lparr>f_content = concat pubs, f_regular = True, f_uid = getuid H,
        f_mode = S_IRUSR_IWUSR_IRGRP_IROTH AND NOT (umask H)\<rparr>)"
    by (rule write_key_files_Inr [OF k(2) assms(2)]) blast
  have "list_all (\<lambda>k. \<exists>alg t. q_keygen Q alg t = Some k) [k]" using k by auto
  note texts = generated_private_texts [OF w(4) assms(3) this assms(4)]
  obtain a where a: "privs = [a]" "\<And>rest. read_private Q pass (a @ rest) = Some (k, rest)"
    using texts(2) by (auto simp: list_all2_Cons1)
  obtain b where b: "pubs = [b]" "pem_public Q k = Some b" using w(5) by (auto simp: list_all2_Cons1)
  then have "read_public Q b = Some (ph k, [])" using assms(3) unfolding pem_ok_def by (metis append_Nil2)
  then show ?thesis
    using that [OF k(1), of _ "[]"] w(1-3,6) a(1) a(2) [of "[]"] b(1) k(3) by (simp add: find_file_def)
qed

lemma load_single_public_total:
  assumes "calm H" "path \<noteq> []" "find_file H path s = Some f" "read_public Q (f_content f) = Some (key, r)"
  shows "\<exists>s'. backup_load_single_public_key H Q path s = (Inr key, s')"
  using assms
  by (simp add: backup_load_single_public_key_def andthen_def guard_def open_read_def finally_do_def pem_read_calm)
     (simp add: calm_def pem_read_calm)

lemma mldsa_sign_Inr:
  assumes "backup_mldsa_sign H Q priv_path pass m cap s = (Inr sg, s')" "os_ok H"
  obtains f t key r where "find_file H priv_path s = Some f" "read_private Q pass (f_content f) = Some (key, r)"
    "digest_sign Q t key cap m = Some sg" "m \<noteq> []" "files s' = files s"
proof -
  obtain key s1 where m: "m \<noteq> []" "backup_load_single_private_key H Q priv_path pass s = (Inr key, s1)"
    "digest_sign Q (tick s1) key cap m = Some sg" "s' = next_tick s1"
    using assms(1) by (auto simp: backup_mldsa_sign_def andthen_eq_Inr ossl_eq_Inr)
  obtain fp fp' s2 where fp: "backup_fopen_owner_only_read H priv_path s = (Inr fp, s2)"
    "read_private Q pass fp = Some (key, fp')"
    by (rule load_single_private_Inr [OF m(2)]) blast
  obtain f where "find_file H priv_path s = Some f" "f_content f = fp"
    by (rule owner_only_Inr [OF fp(1) assms(2)]) blast
  then show ?thesis using that fp(2) m files_keptD [OF files_kept_load(4) m(2)] by simp
qed

text \<open>Reading the root changes neither the tables nor the saved transaction.\<close>

lemma sign_root_Inr:
  assumes "vault_audit_sign_root E H Q priv_path pass n cap (v, fs) = (Inr (the_root, count, sg), (v', fs'))"
    "os_ok H"
  obtains w f t key r where "vault_audit_merkle_root E v = (Inr (the_root, count), w)"
    "find_file H priv_path \<lparr>tick = tick w, files = fs\<rparr> = Some f"
    "read_private Q pass (f_content f) = Some (key, r)"
    "digest_sign Q t key cap (the_root @ utils_write_u64_le (of_nat count)) = Some sg"
    "fs' = fs" "tables v' = tables v"
proof -
  obtain w fs1 v2 fs2 where 1: "on_vault (vault_audit_merkle_root E) (v, fs) = (Inr (the_root, count), (w, fs1))"
    "on_disk (backup_mldsa_sign H Q priv_path pass (the_root @ utils_write_u64_le (of_nat count)) cap) (w, fs1) =
      (Inr sg, (v2, fs2))" "v2 = v'" "fs2 = fs'"
    using assms(1) by (auto simp: vault_audit_sign_root_def andthen_eq_Inr)
  have r: "vault_audit_merkle_root E v = (Inr (the_root, count), w)" "fs1 = fs" using on_vault_Inr [OF 1(1)] by simp_all
  obtain d where d: "backup_mldsa_sign H Q priv_path pass (the_root @ utils_write_u64_le (of_nat count)) cap
      \<lparr>tick = tick w, files = fs\<rparr> = (Inr sg, d)" "fs' = files d" "v' = w\<lparr>tick := tick d\<rparr>"
    using on_disk_Inr [OF 1(2)] 1(3,4) r(2) by auto
  have "tables w = tables v" using reads_state [OF reads_operations(5) r(1)] by simp
  then have v': "tables v' = tables v" using d(3) by simp
  show ?thesis
    by (rule mldsa_sign_Inr [OF d(1) assms(2)]) (rule that [OF r(1)], use d(2) v' in auto)
qed

section \<open>Properties\<close>

text \<open>
  C19: A signed audit root verifies. When \<open>vault_audit_sign_root\<close> succeeds with the private key of
  a generated ML-DSA pair, the root and the leaf count it delivers are those that
  \<open>vault_audit_merkle_root\<close> computes for the log, no table and no file has changed, the
  signature fits the buffer, and \<open>backup_mldsa_verify\<close> accepts it with the public key file for
  the root followed by the leaf count, on any system on which no call fails.
\<close>

theorem signed_root_verifies:
  assumes "os_ok H" "calm H" "pem_ok Q ph" "dsa_ok Q ph" "length pass \<le> 1024"
    and gen: "vault_audit_signing_keygen H Q pub_path priv_path pass (v0, fs0) = (Inr (), (v1, fs1))"
    and sign: "path_entry H priv_path = Some e" "fs2 e = fs1 e"
      "vault_audit_sign_root E H Q priv_path pass n cap (v2, fs2) = (Inr (the_root, count, sg), (v3, fs3))"
    and pub: "path_entry H pub_path = Some d" "files s d = fs1 d"
  shows "fst (vault_audit_merkle_root E v2) = Inr (the_root, count) \<and> tables v3 = tables v2 \<and>
    fs3 = fs2 \<and> length sg \<le> cap \<and>
    (\<exists>s'. backup_mldsa_verify H Q pub_path (the_root @ utils_write_u64_le (of_nat count)) sg s = (Inr (), s'))"
proof -
  let ?m = "the_root @ utils_write_u64_le (of_nat count)"
  obtain u where u: "backup_mldsa_keygen H Q pub_path priv_path pass \<lparr>tick = tick v0, files = fs0\<rparr> = (Inr (), u)"
    "files u = fs1"
    using on_disk_Inr [OF gen [unfolded vault_audit_signing_keygen_def]] by auto
  obtain t k f g r where k: "q_keygen Q BACKUP_MLDSA_ALGORITHM t = Some k" "find_file H pub_path u = Some g"
    "read_public Q (f_content g) = Some (ph k, r)" "find_file H priv_path u = Some f"
    "\<exists>q. read_private Q pass (f_content f) = Some (k, q)" "pub_path \<noteq> []"
    by (rule generated_signing_pair [OF u(1) assms(1,3,5)]) blast
  obtain w f' t' key r' where s: "vault_audit_merkle_root E v2 = (Inr (the_root, count), w)"
    "find_file H priv_path \<lparr>tick = tick w, files = fs2\<rparr> = Some f'"
    "read_private Q pass (f_content f') = Some (key, r')" "digest_sign Q t' key cap ?m = Some sg" "fs3 = fs2"
    "tables v3 = tables v2"
    by (rule sign_root_Inr [OF sign(3) assms(1)]) blast
  have "f' = f" using k(4) s(2) sign(1,2) u(2) by (simp add: find_file_def)
  then have "key = k" using k(5) s(3) by auto
  then have sg: "sg \<noteq> []" "length sg \<le> cap" "digest_verify Q (ph k) ?m sg"
    using assms(4) k(1) s(4) unfolding dsa_ok_def by blast+
  have "find_file H pub_path s = Some g" using k(2) pub u(2) by (simp add: find_file_def)
  then obtain s' where "backup_load_single_public_key H Q pub_path s = (Inr (ph k), s')"
    using load_single_public_total [OF assms(2) k(6) _ k(3)] by blast
  moreover have "?m \<noteq> []" using length_u64 [of "of_nat count"] by (metis append_is_Nil_conv list.size(3) zero_neq_numeral)
  ultimately have "backup_mldsa_verify H Q pub_path ?m sg s = (Inr (), s')"
    using sg by (simp add: backup_mldsa_verify_def andthen_def guard_def)
  then show ?thesis using s(1,5,6) sg(2) by simp
qed

definition sample_signing_files :: "string \<rightharpoonup> disk_file" where
  "sample_signing_files = snd (snd (vault_audit_signing_keygen sample_os sample_openssl ''sign.pub'' ''sign.key'' ''pass''
     (sample_unlocked, Map.empty)))"

definition sample_signed :: "(bytes \<times> nat \<times> bytes) result \<times> system" where
  "sample_signed = vault_audit_sign_root calm_env sample_os sample_openssl ''sign.key'' ''pass'' 32 4096
     (sample_unlocked, sample_signing_files)"

theorem signed_root_verifies_witness:
  "case fst sample_signed of
     Inl e \<Rightarrow> False
   | Inr (the_root, count, sg) \<Rightarrow>
       \<not> isl (fst (backup_mldsa_verify sample_os sample_openssl ''sign.pub''
         (the_root @ utils_write_u64_le (of_nat count)) sg \<lparr>tick = 0, files = sample_signing_files\<rparr>))"
proof -
  let ?gen = "vault_audit_signing_keygen sample_os sample_openssl ''sign.pub'' ''sign.key'' ''pass''
     (sample_unlocked, Map.empty)"
  have "\<not> isl (fst ?gen)" by code_simp
  then have gen: "?gen = (Inr (), (fst (snd ?gen), sample_signing_files))"
    by (cases ?gen; cases "fst ?gen") (auto simp: sample_signing_files_def)
  have "\<not> isl (fst sample_signed)" by code_simp
  moreover obtain r v3 fs3 where r: "sample_signed = (r, v3, fs3)" by (metis surj_pair)
  ultimately have "\<not> isl r" by (metis fst_conv)
  then obtain the_root count sg where s: "sample_signed = (Inr (the_root, count, sg), (v3, fs3))"
    using r by (cases r) auto
  have p: "path_entry sample_os ''sign.key'' = Some ''sign.key''" "path_entry sample_os ''sign.pub'' = Some ''sign.pub''"
    by code_simp+
  have "length ''pass'' \<le> 1024" by simp
  from signed_root_verifies [OF sample_os_ok sample_calm sample_pem_ok sample_dsa_ok this gen p(1) refl
      s [unfolded sample_signed_def] p(2), of "\<lparr>tick = 0, files = sample_signing_files\<rparr>"]
  show ?thesis by (auto simp: s)
qed

end
