(* ===== verification/Fuin_Process.thy ===== *)
theory Fuin_Process
  imports Fuin_Vault_Backup
begin

text \<open>
  A process and its database file: \<open>storage_init\<close> and \<open>storage_open\<close> of \<open>src/src/storage.c\<close> with
  the file modes they enforce, \<open>vault_init\<close> and \<open>vault_open\<close> of \<open>src/src/vault.c\<close>, and the end
  of a process. SQLite's file format is the record \<open>sqlite\<close>: what a file holds as a database
  (\<open>db_load\<close>), the file of a database (\<open>db_image\<close>), and the statements of the generated text
  \<open>STORAGE_EMBEDDED_SCHEMA\<close>. While a connection is open its tables are those of the vault; the
  file gets the committed tables when the connection or the process ends. The journal files
  SQLite keeps beside a database are its own and not entries of the table of files, but the
  code's change of their mode applies to whatever is found at their names.
\<close>

section \<open>Model\<close>

subsection \<open>Processes\<close>

record sqlite =
  db_load :: "bytes \<Rightarrow> (catalog \<times> db) option"
  db_image :: "catalog \<times> db \<Rightarrow> bytes"
  schema_statements :: "(catalog \<times> db \<Rightarrow> (catalog \<times> db) option) list"

text \<open>
  The vault with its connection, the files, what was written to standard output, and the entry
  of the open database with its schema (\<open>None\<close> when the file is not a database).
\<close>

record process =
  p_vault :: vault
  p_files :: "string \<rightharpoonup> disk_file"
  p_out :: bytes
  p_conn :: "(string \<times> catalog option) option"

definition in_system :: "(system, 'b) comp \<Rightarrow> (process, 'b) comp" where
  "in_system m = (\<lambda>p. case m (p_vault p, p_files p) of (r, (v, fs)) \<Rightarrow> (r, p\<lparr>p_vault := v, p_files := fs\<rparr>))"

definition in_vault :: "(vault, 'b) comp \<Rightarrow> (process, 'b) comp" where
  "in_vault m = in_system (on_vault m)"

definition in_disk :: "(disk, 'b) comp \<Rightarrow> (process, 'b) comp" where
  "in_disk m = in_system (on_disk m)"

subsection \<open>File descriptors\<close>

text \<open>\<open>fchmod\<close>, whose mode no mask changes; true when it succeeded.\<close>

definition fchmod :: "os \<Rightarrow> string \<Rightarrow> 32 word \<Rightarrow> ('a disk_scheme, bool) comp" where
  "fchmod H e mode = (\<lambda>s.
     if io_ok H (tick s)
     then (Inr True, next_tick s\<lparr>files := (files s)(e := map_option (\<lambda>f. f\<lparr>f_mode := mode\<rparr>) (files s e))\<rparr>)
     else (Inr False, next_tick s))"

text \<open>The tail of both functions below: \<open>fchmod\<close> to 0600, then \<open>close\<close>.\<close>

definition tighten_and_close :: "os \<Rightarrow> string \<Rightarrow> ('a disk_scheme, unit) comp" where
  "tighten_and_close H e =
     andthen (fchmod H e S_IRUSR_IWUSR) (\<lambda>tightened.
     andthen (io_call H) (\<lambda>closed. guard (tightened \<and> closed) SM_ERR_STORAGE))"

definition storage_chmod_owner_only :: "os \<Rightarrow> string \<Rightarrow> bool \<Rightarrow> ('a disk_scheme, unit) comp" where
  "storage_chmod_owner_only H path allow_missing = (\<lambda>s.
     if path = [] then (Inl SM_ERR_INVALID_ARGUMENT, s)
     else case (path_entry H path, find_file H path s) of
       (Some e, Some f) \<Rightarrow>
         if io_ok H (tick s) then tighten_and_close H e (next_tick s) else (Inl SM_ERR_STORAGE, next_tick s)
     | _ \<Rightarrow> (if allow_missing then Inr () else Inl SM_ERR_STORAGE, next_tick s))"

definition storage_chmod_sidecar :: "os \<Rightarrow> string \<Rightarrow> string \<Rightarrow> ('a disk_scheme, unit) comp" where
  "storage_chmod_sidecar H path ending =
     andthen (guard (int (length path) \<le> SIZE_MAX - int (length ending) - 1) SM_ERR_INVALID_ARGUMENT) (\<lambda>_.
     storage_chmod_owner_only H (path @ ending) True)"

definition storage_chmod_wal_sidecars :: "os \<Rightarrow> string \<Rightarrow> ('a disk_scheme, unit) comp" where
  "storage_chmod_wal_sidecars H path =
     andthen (storage_chmod_sidecar H path ''-wal'') (\<lambda>_. storage_chmod_sidecar H path ''-shm'')"

text \<open>\<open>open\<close> for reading and writing, with \<open>O_CREAT\<close> when asked.\<close>

definition open_rdwr :: "os \<Rightarrow> string \<Rightarrow> bool \<Rightarrow> 32 word \<Rightarrow> ('a disk_scheme, string) comp" where
  "open_rdwr H path create mode = (\<lambda>s.
     case path_entry H path of
       None \<Rightarrow> (Inl SM_ERR_STORAGE, next_tick s)
     | Some e \<Rightarrow>
         if \<not> io_ok H (tick s) then (Inl SM_ERR_STORAGE, next_tick s)
         else if files s e \<noteq> None then (Inr e, next_tick s)
         else if create then (Inr e, next_tick s\<lparr>files := (files s)(e \<mapsto>
           \<lparr>f_content = [], f_regular = True, f_uid = getuid H, f_mode = mode AND NOT (umask H)\<rparr>)\<rparr>)
         else (Inl SM_ERR_STORAGE, next_tick s))"

definition storage_open_owner_only_fd :: "os \<Rightarrow> string \<Rightarrow> bool \<Rightarrow> ('a disk_scheme, unit) comp" where
  "storage_open_owner_only_fd H path create =
     andthen (guard (path \<noteq> []) SM_ERR_INVALID_ARGUMENT) (\<lambda>_.
     andthen (open_rdwr H path create S_IRUSR_IWUSR) (tighten_and_close H))"

text \<open>\<open>realpath\<close> of the database, which fails when there is no such file.\<close>

definition storage_resolve_db_path :: "os \<Rightarrow> string \<Rightarrow> ('a disk_scheme, string) comp" where
  "storage_resolve_db_path H path = (\<lambda>s.
     if path = [] then (Inl SM_ERR_INVALID_ARGUMENT, s)
     else case (find_file H path s, realpath H path) of
       (Some _, Some resolved) \<Rightarrow> (Inr resolved, s)
     | _ \<Rightarrow> (Inl SM_ERR_STORAGE, s))"

subsection \<open>Connections\<close>

text \<open>
  \<open>sqlite3_open_v2\<close>: the handle is there even when the call fails; the file is read as a
  database later, by the first statement.
\<close>

definition sqlite3_open :: "env \<Rightarrow> os \<Rightarrow> sqlite \<Rightarrow> string \<Rightarrow> (process, bool) comp" where
  "sqlite3_open E H L path = (\<lambda>p.
     let v = p_vault p;
         content = (case path_entry H path of None \<Rightarrow> None | Some e \<Rightarrow> map_option (\<lambda>f. (e, f_content f)) (p_files p e)) in
     case content of
       None \<Rightarrow> (Inr False, p\<lparr>p_vault := next_tick (v\<lparr>g_db := True\<rparr>)\<rparr>)
     | Some (e, c) \<Rightarrow>
         (Inr (sql_ok E (tick v)),
          p\<lparr>p_vault := next_tick (v\<lparr>g_db := True, saved := None,
              tables := (case db_load L c of None \<Rightarrow> tables v | Some (_, d) \<Rightarrow> d)\<rparr>),
            p_conn := Some (e, map_option fst (db_load L c))\<rparr>))"

text \<open>One statement of a text, given by what it does to the schema and the tables.\<close>

definition execute_statement ::
  "env \<Rightarrow> (catalog \<times> db \<Rightarrow> (catalog \<times> db) option) \<Rightarrow> (process, unit) comp" where
  "execute_statement E f = (\<lambda>p.
     let v = p_vault p; failed = (Inl SM_ERR_STORAGE, p\<lparr>p_vault := next_tick v\<rparr>) in
     case p_conn p of
       Some (e, Some cat) \<Rightarrow>
         if sql_ok E (tick v) then
           (case f (cat, tables v) of
              None \<Rightarrow> failed
            | Some (cat', d) \<Rightarrow> (Inr (), p\<lparr>p_vault := next_tick (v\<lparr>tables := d\<rparr>), p_conn := Some (e, Some cat')\<rparr>))
         else failed
     | _ \<Rightarrow> failed)"

fun storage_execute_sql ::
  "env \<Rightarrow> (catalog \<times> db \<Rightarrow> (catalog \<times> db) option) list \<Rightarrow> (process, unit) comp" where
  "storage_execute_sql E [] = ret ()"
| "storage_execute_sql E (f # fs) = andthen (execute_statement E f) (\<lambda>_. storage_execute_sql E fs)"

text \<open>\<open>PRAGMA journal_mode = WAL\<close> changes neither the schema nor the rows.\<close>

definition journal_mode_wal :: "env \<Rightarrow> (process, unit) comp" where
  "journal_mode_wal E = storage_execute_sql E [Some]"

text \<open>The queries of \<open>storage_verify_schema\<close> only read; one outcome stands for theirs.\<close>

definition verify_connection :: "env \<Rightarrow> (process, unit) comp" where
  "verify_connection E = (\<lambda>p.
     let p' = p\<lparr>p_vault := next_tick (p_vault p)\<rparr> in
     case p_conn p of
       Some (e, Some cat) \<Rightarrow> (if sql_ok E (tick (p_vault p)) then storage_verify_schema cat else Inl SM_ERR_STORAGE, p')
     | _ \<Rightarrow> (Inl SM_ERR_STORAGE, p'))"

text \<open>The file of the connection gets the committed tables.\<close>

definition sync_file :: "sqlite \<Rightarrow> process \<Rightarrow> process" where
  "sync_file L p =
     (case p_conn p of
        Some (e, Some cat) \<Rightarrow>
          p\<lparr>p_files := (p_files p)(e := map_option (\<lambda>f. f\<lparr>f_content := db_image L (cat, committed (p_vault p))\<rparr>) (p_files p e))\<rparr>
      | _ \<Rightarrow> p)"

definition close_connection :: "env \<Rightarrow> sqlite \<Rightarrow> (process, unit) comp" where
  "close_connection E L = (\<lambda>p.
     case storage_close E (p_vault p) of
       (Inr u, v) \<Rightarrow> (Inr u, (sync_file L p)\<lparr>p_vault := v, p_conn := None\<rparr>)
     | (Inl e, v) \<Rightarrow> (Inl e, p\<lparr>p_vault := v\<rparr>))"

subsection \<open>Opening a vault\<close>

text \<open>What follows a successful \<open>sqlite3_open_v2\<close>; any failure closes the connection again.\<close>

definition or_close :: "env \<Rightarrow> sqlite \<Rightarrow> (process, unit) comp \<Rightarrow> (process, unit) comp" where
  "or_close E L m = finally_do m (\<lambda>r.
     case r of Inr u \<Rightarrow> ret u | Inl e \<Rightarrow> finally_do (close_connection E L) (\<lambda>_. raise e))"

text \<open>Open the resolved path, switch to the write-ahead log, run the steps of the caller, verify the schema.\<close>

definition connect :: "env \<Rightarrow> os \<Rightarrow> sqlite \<Rightarrow> string \<Rightarrow> (process, unit) comp \<Rightarrow> (process, unit) comp" where
  "connect E H L resolved_path steps =
     andthen (sqlite3_open E H L resolved_path) (\<lambda>ok.
     andthen (guard ok SM_ERR_STORAGE) (\<lambda>_.
     andthen (journal_mode_wal E) (\<lambda>_.
     andthen (in_disk (storage_chmod_wal_sidecars H resolved_path)) (\<lambda>_.
     andthen steps (\<lambda>_. verify_connection E)))))"

definition storage_init :: "env \<Rightarrow> os \<Rightarrow> sqlite \<Rightarrow> string \<Rightarrow> (process, unit) comp" where
  "storage_init E H L path =
     andthen (guard (path \<noteq> []) SM_ERR_INVALID_ARGUMENT) (\<lambda>_.
     andthen (gets (g_db \<circ> p_vault)) (\<lambda>opened.
     andthen (guard (\<not> opened) SM_ERR_STORAGE) (\<lambda>_.
     andthen (in_disk (storage_open_owner_only_fd H path True)) (\<lambda>_.
     andthen (in_disk (storage_resolve_db_path H path)) (\<lambda>resolved_path.
     or_close E L (connect E H L resolved_path
       (andthen (storage_execute_sql E (schema_statements L)) (\<lambda>_.
        andthen (in_disk (storage_chmod_wal_sidecars H resolved_path)) (\<lambda>_.
        storage_execute_sql E (schema_statements L))))))))))"

definition storage_open :: "env \<Rightarrow> os \<Rightarrow> sqlite \<Rightarrow> string \<Rightarrow> (process, unit) comp" where
  "storage_open E H L path =
     andthen (guard (path \<noteq> []) SM_ERR_INVALID_ARGUMENT) (\<lambda>_.
     andthen (gets (g_db \<circ> p_vault)) (\<lambda>opened.
     andthen (guard (\<not> opened) SM_ERR_STORAGE) (\<lambda>_.
     andthen (in_disk (storage_open_owner_only_fd H path False)) (\<lambda>_.
     andthen (in_disk (storage_resolve_db_path H path)) (\<lambda>resolved_path.
     or_close E L (connect E H L resolved_path (ret ())))))))"

definition storage_read_file :: "os \<Rightarrow> string \<Rightarrow> ('a disk_scheme, bytes) comp" where
  "storage_read_file H path =
     andthen (open_read H path) (\<lambda>f.
     finally_do
       (andthen (io_require H) (\<lambda>_. andthen (io_require H) (\<lambda>_. andthen (io_require H) (\<lambda>_. andthen (io_require H) (\<lambda>_.
        ret (f_content f))))))
       (\<lambda>r. andthen (io_call H) (\<lambda>closed.
          case r of Inl e \<Rightarrow> raise e | Inr c \<Rightarrow> if closed then ret c else raise SM_ERR_STORAGE)))"

text \<open>\<open>parse\<close> is how SQLite reads a text, up to its first NUL, as statements.\<close>

definition storage_init_schema ::
  "env \<Rightarrow> os \<Rightarrow> (bytes \<Rightarrow> (catalog \<times> db \<Rightarrow> (catalog \<times> db) option) list) \<Rightarrow> string \<Rightarrow> (process, unit) comp" where
  "storage_init_schema E H parse path =
     andthen (in_disk (storage_read_file H path)) (\<lambda>schema.
     andthen (gets (g_db \<circ> p_vault)) (\<lambda>opened.
     andthen (guard opened SM_ERR_INVALID_ARGUMENT) (\<lambda>_.
     storage_execute_sql E (parse (takeWhile (\<lambda>b. b \<noteq> 0) schema)))))"

definition vault_init :: "env \<Rightarrow> os \<Rightarrow> sqlite \<Rightarrow> string \<Rightarrow> (process, unit) comp" where
  "vault_init E H L path = andthen (in_vault vault_lock_state) (\<lambda>_. storage_init E H L path)"

definition vault_open :: "env \<Rightarrow> os \<Rightarrow> sqlite \<Rightarrow> string \<Rightarrow> (process, unit) comp" where
  "vault_open E H L path = andthen (in_vault vault_lock_state) (\<lambda>_. storage_open E H L path)"

text \<open>\<open>vault_close\<close> with its effect on the file, and the end of the process.\<close>

definition vault_shutdown :: "env \<Rightarrow> sqlite \<Rightarrow> (process, unit) comp" where
  "vault_shutdown E L = andthen (in_vault vault_lock_state) (\<lambda>_. close_connection E L)"

definition process_end :: "sqlite \<Rightarrow> process \<Rightarrow> string \<rightharpoonup> disk_file" where
  "process_end L p = p_files (sync_file L p)"

definition process_start :: "nat \<Rightarrow> (string \<rightharpoonup> disk_file) \<Rightarrow> db \<Rightarrow> process" where
  "process_start t fs d =
     \<lparr>p_vault = \<lparr>tick = t, g_db = False, tables = d, saved = None, g_subkeys = None, g_unlocked = False\<rparr>,
      p_files = fs, p_out = [], p_conn = None\<rparr>"

section \<open>Hypotheses\<close>

text \<open>
  \<open>realpath\<close> of a database leads to the same file, and its result fits in \<open>PATH_MAX\<close>; SQLite
  reads back the database that it writes at the end of a connection.
\<close>

definition db_path_ok :: "os \<Rightarrow> bool" where
  "db_path_ok H \<longleftrightarrow>
     (\<forall>path r. realpath H path = Some r \<longrightarrow> path_entry H r = path_entry H path \<and> length r < 4096)"

definition reads_back :: "sqlite \<Rightarrow> process \<Rightarrow> bool" where
  "reads_back L p \<longleftrightarrow>
     (case p_conn p of
        Some (e, Some cat) \<Rightarrow>
          db_load L (db_image L (cat, committed (p_vault p))) = Some (cat, committed (p_vault p))
      | _ \<Rightarrow> True)"

section \<open>Lemmas: file modes\<close>

text \<open>The table of files after some entries were made readable and writable by their owner only.\<close>

definition owner_only :: "string set \<Rightarrow> (string \<rightharpoonup> disk_file) \<Rightarrow> (string \<rightharpoonup> disk_file)" where
  "owner_only D fs = (\<lambda>e. if e \<in> D then map_option (\<lambda>f. f\<lparr>f_mode := S_IRUSR_IWUSR\<rparr>) (fs e) else fs e)"

lemma owner_only_Un [simp]: "owner_only D (owner_only D' fs) = owner_only (D \<union> D') fs"
  by (rule ext) (simp add: owner_only_def option.map_comp comp_def)

lemma owner_only_empty [simp]: "owner_only {} fs = fs"
  by (simp add: owner_only_def)

lemma owner_only_one: "fs e = Some f \<Longrightarrow> owner_only {e} fs = fs(e \<mapsto> f\<lparr>f_mode := S_IRUSR_IWUSR\<rparr>)"
  by (rule ext) (simp add: owner_only_def)

lemma owner_only_content: "map_option f_content (owner_only D fs e) = map_option f_content (fs e)"
  by (simp add: owner_only_def option.map_comp comp_def)

text \<open>The entries at the names of the write-ahead log and the shared memory of a database, if any.\<close>

definition sidecar_entries :: "os \<Rightarrow> string \<Rightarrow> string set" where
  "sidecar_entries H path = set_option (path_entry H (path @ ''-wal'')) \<union> set_option (path_entry H (path @ ''-shm''))"

lemma owner_only_fun: "owner_only {e} fs = fs(e := map_option (\<lambda>f. f\<lparr>f_mode := S_IRUSR_IWUSR\<rparr>) (fs e))"
  by (auto simp: owner_only_def)

lemma owner_only_absent: "fs e = None \<Longrightarrow> owner_only {e} fs = fs"
  by (rule ext) (simp add: owner_only_def)

lemma tighten_and_close_Inr:
  assumes "tighten_and_close H e s = (Inr u, s')"
  shows "files s' = owner_only {e} (files s)"
proof -
  have "files s' = (files s)(e := map_option (\<lambda>f. f\<lparr>f_mode := S_IRUSR_IWUSR\<rparr>) (files s e))"
    using assms by (auto simp: tighten_and_close_def andthen_def fchmod_def guard_def split: if_splits)
  then show ?thesis by (simp only: owner_only_fun)
qed

lemma sidecar_Inr:
  "storage_chmod_sidecar H path ending s = (Inr u, s') \<Longrightarrow>
    files s' = owner_only (set_option (path_entry H (path @ ending))) (files s)"
  by (auto simp: storage_chmod_sidecar_def andthen_eq_Inr guard_def storage_chmod_owner_only_def find_file_def
      owner_only_absent dest!: tighten_and_close_Inr split: if_splits option.splits)

lemma sidecars_Inr:
  assumes "storage_chmod_wal_sidecars H path s = (Inr u, s')"
  shows "files s' = owner_only (sidecar_entries H path) (files s)"
proof -
  obtain v s1 where "storage_chmod_sidecar H path ''-wal'' s = (Inr v, s1)" "storage_chmod_sidecar H path ''-shm'' s1 = (Inr u, s')"
    using assms by (auto simp: storage_chmod_wal_sidecars_def andthen_eq_Inr)
  then show ?thesis by (simp add: sidecar_Inr sidecar_entries_def Un_commute)
qed

lemma tightens_resolve: "storage_resolve_db_path H path s = (r, s') \<Longrightarrow> s' = s"
  by (auto simp: storage_resolve_db_path_def split: if_splits option.splits)

lemma open_fd_Inr:
  assumes "storage_open_owner_only_fd H path create s = (Inr u, s')"
  obtains e f where "path \<noteq> []" "path_entry H path = Some e"
    "files s' = (files s)(e \<mapsto> f\<lparr>f_mode := S_IRUSR_IWUSR\<rparr>)"
    "files s e = Some f \<or> files s e = None \<and> create \<and> f_content f = [] \<and> f_uid f = getuid H"
proof -
  obtain e s1 where o: "path \<noteq> []" "open_rdwr H path create S_IRUSR_IWUSR s = (Inr e, s1)"
    "tighten_and_close H e s1 = (Inr u, s')"
    using assms by (auto simp: storage_open_owner_only_fd_def andthen_eq_Inr guard_def split: if_splits)
  note t = tighten_and_close_Inr [OF o(3), unfolded owner_only_fun]
  have e: "path_entry H path = Some e" using o(2) by (auto simp: open_rdwr_def split: option.splits if_splits)
  show ?thesis
  proof (cases "files s e")
    case None
    then have "create" "files s1 = (files s)(e \<mapsto> \<lparr>f_content = [], f_regular = True, f_uid = getuid H,
        f_mode = S_IRUSR_IWUSR AND NOT (umask H)\<rparr>)"
      using o(2) e by (auto simp: open_rdwr_def split: if_splits)
    then show ?thesis
      using that [OF o(1) e, of "\<lparr>f_content = [], f_regular = True, f_uid = getuid H, f_mode = 0\<rparr>"] t None by simp
  next
    case (Some f)
    then have "files s1 = files s" using o(2) e by (auto simp: open_rdwr_def split: if_splits)
    then show ?thesis using that [OF o(1) e, of f] t Some by simp
  qed
qed

section \<open>Lemmas: computations of a process\<close>

lemma in_disk_Inr:
  "in_disk m p = (Inr x, p') \<Longrightarrow>
    \<exists>d. m \<lparr>tick = tick (p_vault p), files = p_files p\<rparr> = (Inr x, d) \<and>
      p' = p\<lparr>p_vault := (p_vault p)\<lparr>tick := tick d\<rparr>, p_files := files d\<rparr>"
  by (auto simp: in_disk_def in_system_def on_disk_def split: prod.splits)

lemma in_vault_Inr:
  "in_vault m p = (Inr x, p') \<longleftrightarrow> (\<exists>v. m (p_vault p) = (Inr x, v) \<and> p' = p\<lparr>p_vault := v\<rparr>)"
  by (auto simp: in_vault_def in_system_def on_vault_def split: prod.splits)

lemma or_close_Inr: "or_close E L m p = (Inr u, p') \<longleftrightarrow> m p = (Inr u, p')"
  by (auto simp: or_close_def finally_do_def ret_def raise_def split: prod.splits sum.splits)

lemma lock_state_eq: "vault_lock_state v = (Inr (), v\<lparr>g_subkeys := None, g_unlocked := False\<rparr>)"
  by (simp add: vault_lock_state_def)

lemma journal_Inr:
  "journal_mode_wal E p = (Inr u, p') \<Longrightarrow>
    \<exists>e cat. p_conn p = Some (e, Some cat) \<and> p' = p\<lparr>p_vault := next_tick (p_vault p)\<rparr>"
  by (auto simp: journal_mode_wal_def andthen_def execute_statement_def Let_def ret_def split: option.splits if_splits)

lemma verify_Inr:
  "verify_connection E p = (Inr u, p') \<Longrightarrow>
    \<exists>e cat. p_conn p = Some (e, Some cat) \<and> storage_verify_schema cat = Inr () \<and>
      p' = p\<lparr>p_vault := next_tick (p_vault p)\<rparr>"
  by (auto simp: verify_connection_def Let_def split: option.splits if_splits)

lemma sqlite3_open_Inr:
  assumes "sqlite3_open E H L path p = (Inr True, p')"
  obtains e f where "path_entry H path = Some e" "p_files p e = Some f" "p_files p' = p_files p"
    "p_conn p' = Some (e, map_option fst (db_load L (f_content f)))" "p_out p' = p_out p"
    "p_vault p' = next_tick ((p_vault p)\<lparr>g_db := True, saved := None,
       tables := (case db_load L (f_content f) of None \<Rightarrow> tables (p_vault p) | Some (_, d) \<Rightarrow> d)\<rparr>)"
  using assms unfolding sqlite3_open_def Let_def by (auto split: option.splits)


lemma connect_Inr:
  assumes "connect E H L r (ret ()) p = (Inr u, p')" "path_entry H r = Some e" "p_files p e = Some f"
  obtains cat d where "db_load L (f_content f) = Some (cat, d)" "storage_verify_schema cat = Inr ()"
    "p_conn p' = Some (e, Some cat)" "tables (p_vault p') = d" "saved (p_vault p') = None" "g_db (p_vault p')"
    "g_subkeys (p_vault p') = g_subkeys (p_vault p)" "p_files p' = owner_only (sidecar_entries H r) (p_files p)" "p_out p' = p_out p"
proof -
  obtain p1 p2 p3 where s: "sqlite3_open E H L r p = (Inr True, p1)" "journal_mode_wal E p1 = (Inr (), p2)"
    "in_disk (storage_chmod_wal_sidecars H r) p2 = (Inr (), p3)" "verify_connection E p3 = (Inr u, p')"
    using assms(1) unfolding connect_def by (auto simp: andthen_eq_Inr guard_def split: if_splits)
  obtain c1: "p_files p1 = p_files p" "p_conn p1 = Some (e, map_option fst (db_load L (f_content f)))" "p_out p1 = p_out p"
    "p_vault p1 = next_tick ((p_vault p)\<lparr>g_db := True, saved := None,
       tables := (case db_load L (f_content f) of None \<Rightarrow> tables (p_vault p) | Some (_, d) \<Rightarrow> d)\<rparr>)"
    using s(1) assms(2,3) by (auto elim!: sqlite3_open_Inr)
  obtain cat where cat: "p_conn p1 = Some (e, Some cat)" "p2 = p1\<lparr>p_vault := next_tick (p_vault p1)\<rparr>"
    using journal_Inr [OF s(2)] c1(2) by auto
  then obtain d where d: "db_load L (f_content f) = Some (cat, d)" using c1(2) by auto
  obtain k where k: "storage_chmod_wal_sidecars H r \<lparr>tick = tick (p_vault p2), files = p_files p2\<rparr> = (Inr (), k)"
    "p3 = p2\<lparr>p_vault := (p_vault p2)\<lparr>tick := tick k\<rparr>, p_files := files k\<rparr>"
    using in_disk_Inr [OF s(3)] by blast
  have v: "storage_verify_schema cat = Inr ()" "p' = p3\<lparr>p_vault := next_tick (p_vault p3)\<rparr>"
    using verify_Inr [OF s(4)] cat k(2) by auto
  have "p_files p' = owner_only (sidecar_entries H r) (p_files p)"
    using sidecars_Inr [OF k(1)] v(2) k(2) cat(2) c1(1) by simp
  then show ?thesis
    using that [OF d v(1)] v(2) k(2) cat c1 d by (simp add: next_tick_def)
qed

text \<open>What a successful opening has found and left.\<close>

lemma storage_open_Inr:
  assumes "storage_open E H L path p = (Inr u, p')" "db_path_ok H"
  obtains e f cat d r where "path_entry H path = Some e" "p_files p e = Some f"
    "p_files p' e = Some (f\<lparr>f_mode := S_IRUSR_IWUSR\<rparr>)" "realpath H path = Some r"
    "p_files p' = owner_only (insert e (sidecar_entries H r)) (p_files p)"
    "db_load L (f_content f) = Some (cat, d)" "storage_verify_schema cat = Inr ()"
    "p_conn p' = Some (e, Some cat)" "tables (p_vault p') = d" "saved (p_vault p') = None" "g_db (p_vault p')"
    "g_subkeys (p_vault p') = g_subkeys (p_vault p)" "p_out p' = p_out p" "\<not> g_db (p_vault p)" "path \<noteq> []"
proof -
  let ?d = "\<lparr>tick = tick (p_vault p), files = p_files p\<rparr>"
  obtain r p1 p2 where s: "in_disk (storage_open_owner_only_fd H path False) p = (Inr (), p1)"
    "in_disk (storage_resolve_db_path H path) p1 = (Inr r, p2)"
    "connect E H L r (ret ()) p2 = (Inr u, p')" "\<not> g_db (p_vault p)"
    using assms(1) unfolding storage_open_def
    by (auto simp: andthen_eq_Inr guard_def gets_def or_close_Inr split: if_splits)
  obtain k where k: "storage_open_owner_only_fd H path False ?d = (Inr (), k)"
    "p1 = p\<lparr>p_vault := (p_vault p)\<lparr>tick := tick k\<rparr>, p_files := files k\<rparr>"
    using in_disk_Inr [OF s(1)] by blast
  obtain e f where e: "path \<noteq> []" "path_entry H path = Some e" "files k = (p_files p)(e \<mapsto> f\<lparr>f_mode := S_IRUSR_IWUSR\<rparr>)"
    "p_files p e = Some f"
    using k(1) by (auto elim!: open_fd_Inr)
  obtain k2 where k2: "storage_resolve_db_path H path \<lparr>tick = tick (p_vault p1), files = p_files p1\<rparr> = (Inr r, k2)"
    "p2 = p1\<lparr>p_vault := (p_vault p1)\<lparr>tick := tick k2\<rparr>, p_files := files k2\<rparr>"
    using in_disk_Inr [OF s(2)] by blast
  have path: "realpath H path = Some r"
    using k2(1) by (auto simp: storage_resolve_db_path_def split: if_splits option.splits)
  then have r: "path_entry H r = Some e" using assms(2) e(2) by (auto simp: db_path_ok_def)
  have p2: "p_files p2 = (p_files p)(e \<mapsto> f\<lparr>f_mode := S_IRUSR_IWUSR\<rparr>)" "p_out p2 = p_out p"
    "g_subkeys (p_vault p2) = g_subkeys (p_vault p)"
    using k2(2) tightens_resolve [OF k2(1)] k(2) e(3) by simp_all
  then have f2: "p_files p2 e = Some (f\<lparr>f_mode := S_IRUSR_IWUSR\<rparr>)" by simp
  obtain cat d where t: "db_load L (f_content f) = Some (cat, d)" "storage_verify_schema cat = Inr ()"
    "p_conn p' = Some (e, Some cat)" "tables (p_vault p') = d" "saved (p_vault p') = None" "g_db (p_vault p')"
    "g_subkeys (p_vault p') = g_subkeys (p_vault p2)" "p_files p' = owner_only (sidecar_entries H r) (p_files p2)" "p_out p' = p_out p2"
    by (rule connect_Inr [OF s(3) r f2]) simp
  have "p_files p2 = owner_only {e} (p_files p)" using p2(1) e(4) by (simp add: owner_only_one)
  then have all: "p_files p' = owner_only (insert e (sidecar_entries H r)) (p_files p)" using t(8) by simp
  moreover have "p_files p' e = Some (f\<lparr>f_mode := S_IRUSR_IWUSR\<rparr>)"
    using e(4) by (simp add: all owner_only_def)
  ultimately show ?thesis using that [OF e(2,4)] path t p2 s(4) e(1) by simp
qed

lemma vault_open_eq:
  "vault_open E H L path p = storage_open E H L path (p\<lparr>p_vault := (p_vault p)\<lparr>g_subkeys := None, g_unlocked := False\<rparr>\<rparr>)"
  by (simp add: vault_open_def andthen_def in_vault_def in_system_def on_vault_def lock_state_eq)

section \<open>Lemmas: opening succeeds\<close>

lemma tighten_and_close_calm: "calm H \<Longrightarrow> \<exists>s'. tighten_and_close H e s = (Inr (), s')"
  by (simp add: tighten_and_close_def andthen_def fchmod_def guard_def calm_def)

lemma open_fd_calm:
  "calm H \<Longrightarrow> path \<noteq> [] \<Longrightarrow> path_entry H path = Some e \<Longrightarrow> files s e \<noteq> None \<Longrightarrow>
    \<exists>s'. storage_open_owner_only_fd H path create s = (Inr (), s')"
  using tighten_and_close_calm [of H e "next_tick s"]
  by (simp add: storage_open_owner_only_fd_def andthen_def guard_def open_rdwr_def calm_def)

lemma sidecar_calm:
  assumes "calm H" "int (length path) + 10 \<le> SIZE_MAX" "length ending = 4"
  shows "\<exists>s'. storage_chmod_sidecar H path ending s = (Inr (), s')"
proof -
  have "path @ ending \<noteq> []" using assms(3) by auto
  then show ?thesis
    using assms tighten_and_close_calm [OF assms(1), of _ "next_tick s"]
    by (auto simp: storage_chmod_sidecar_def andthen_def guard_def storage_chmod_owner_only_def calm_def
        split: option.splits)
qed

lemma sidecars_calm:
  assumes "calm H" "int (length path) + 10 \<le> SIZE_MAX"
  shows "\<exists>s'. storage_chmod_wal_sidecars H path s = (Inr (), s')"
proof -
  obtain s1 where "storage_chmod_sidecar H path ''-wal'' s = (Inr (), s1)" using sidecar_calm [OF assms] by force
  moreover obtain s2 where "storage_chmod_sidecar H path ''-shm'' s1 = (Inr (), s2)" using sidecar_calm [OF assms] by force
  ultimately show ?thesis by (simp add: storage_chmod_wal_sidecars_def andthen_def)
qed

lemma in_disk_total:
  "m \<lparr>tick = tick (p_vault p), files = p_files p\<rparr> = (Inr x, d) \<Longrightarrow>
    in_disk m p = (Inr x, p\<lparr>p_vault := (p_vault p)\<lparr>tick := tick d\<rparr>, p_files := files d\<rparr>)"
  by (simp add: in_disk_def in_system_def on_disk_def)

lemma storage_open_total:
  assumes "calm H" "\<And>t. sql_ok E t" "db_path_ok H" "path_entry H path = Some e" "p_files p e = Some f" "path \<noteq> []"
    and "realpath H path = Some r" "db_load L (f_content f) = Some (cat, d)" "storage_verify_schema cat = Inr ()"
    and "\<not> g_db (p_vault p)"
  shows "\<exists>p'. storage_open E H L path p = (Inr (), p')"
proof -
  have r: "path_entry H r = Some e" "int (length r) + 10 \<le> SIZE_MAX"
    using assms(3,4,7) by (fastforce simp: db_path_ok_def SIZE_MAX_def)+
  let ?d = "\<lparr>tick = tick (p_vault p), files = p_files p\<rparr>"
  obtain k where k: "storage_open_owner_only_fd H path False ?d = (Inr (), k)"
    using open_fd_calm [OF assms(1,6,4), of ?d] assms(5) by auto
  define p1 where "p1 = p\<lparr>p_vault := (p_vault p)\<lparr>tick := tick k\<rparr>, p_files := files k\<rparr>"
  have fd: "in_disk (storage_open_owner_only_fd H path False) p = (Inr (), p1)"
    using k by (simp add: in_disk_total p1_def)
  have f1: "p_files p1 e = Some (f\<lparr>f_mode := S_IRUSR_IWUSR\<rparr>)"
    using k assms(4,5) by (auto simp: p1_def elim!: open_fd_Inr)
  then have res: "in_disk (storage_resolve_db_path H path) p1 = (Inr r, p1)"
    using assms(4,6,7) by (simp add: in_disk_def in_system_def on_disk_def storage_resolve_db_path_def find_file_def)
  obtain p2 where p2: "sqlite3_open E H L r p1 = (Inr True, p2)" using r(1) f1 assms(2) by (simp add: sqlite3_open_def Let_def)
  then have c2: "p_conn p2 = Some (e, Some cat)" using r(1) f1 assms(8) by (auto elim!: sqlite3_open_Inr)
  define p3 where "p3 = p2\<lparr>p_vault := next_tick (p_vault p2)\<rparr>"
  have p3: "journal_mode_wal E p2 = (Inr (), p3)"
    using c2 assms(2) by (simp add: journal_mode_wal_def andthen_def execute_statement_def Let_def ret_def p3_def)
  obtain k4 where k4: "storage_chmod_wal_sidecars H r \<lparr>tick = tick (p_vault p3), files = p_files p3\<rparr> = (Inr (), k4)"
    using sidecars_calm [OF assms(1) r(2)] by blast
  define p4 where "p4 = p3\<lparr>p_vault := (p_vault p3)\<lparr>tick := tick k4\<rparr>, p_files := files k4\<rparr>"
  have p4: "in_disk (storage_chmod_wal_sidecars H r) p3 = (Inr (), p4)"
    using k4 by (simp add: in_disk_total p4_def)
  have "\<exists>p'. verify_connection E p4 = (Inr (), p')"
    using c2 assms(2,9) by (simp add: verify_connection_def Let_def p4_def p3_def)
  then have "\<exists>p'. connect E H L r (ret ()) p1 = (Inr (), p')"
    using p2 p3 p4 by (simp add: connect_def andthen_def guard_def ret_def)
  then show ?thesis using fd res assms(6,10)
    unfolding storage_open_def by (auto simp: andthen_def guard_def gets_def or_close_Inr)
qed

section \<open>Lemmas: the end of a process\<close>

text \<open>The file that a later process finds holds the committed tables.\<close>

lemma end_after_shutdown:
  assumes "vault_shutdown E L p = (r, p')" "p_conn p = Some (e, Some cat)" "p_files p e = Some f" "g_db (p_vault p)"
  shows "process_end L p' = (p_files p)(e \<mapsto> f\<lparr>f_content := db_image L (cat, committed (p_vault p))\<rparr>)"
    "p_out p' = p_out p"
  using assms
  by (auto simp: vault_shutdown_def andthen_def in_vault_def in_system_def on_vault_def lock_state_eq close_connection_def
      storage_close_def process_end_def sync_file_def committed_def next_tick_def split: if_splits option.splits)

section \<open>Properties\<close>

text \<open>
  C21: Opening a vault protects its files and changes no data. When \<open>vault_open\<close> returns
  \<open>SM_OK\<close>, the file behind the path was there before, its schema is the vault's, the connection
  has exactly the tables the file holds and the vault is locked. The table of files is the old
  one with the mode 0600 given to the database file and to the files at the names of its
  write-ahead log and shared memory, where they exist: no other file changed in any way, none was
  created or removed, and every file still has its content.
\<close>

theorem open_protects_database:
  assumes "vault_open E H L path p = (Inr (), p')" "db_path_ok H"
  shows "\<exists>e f cat r. path_entry H path = Some e \<and> p_files p e = Some f \<and> realpath H path = Some r \<and>
    db_load L (f_content f) = Some (cat, tables (p_vault p')) \<and> storage_verify_schema cat = Inr () \<and>
    p_files p' e = Some (f\<lparr>f_mode := S_IRUSR_IWUSR\<rparr>) \<and> g_subkeys (p_vault p') = None \<and>
    p_files p' = owner_only (insert e (sidecar_entries H r)) (p_files p) \<and>
    (\<forall>d. map_option f_content (p_files p' d) = map_option f_content (p_files p d))"
  by (rule storage_open_Inr [OF assms(1) [unfolded vault_open_eq] assms(2)])
     (simp add: owner_only_content)

section \<open>A sample database\<close>

definition sample_catalog :: catalog where
  "sample_catalog = \<lparr>cat_tables = [''secrets'', ''audit_log'', ''metadata'', ''auth_failures''],
     table_info = (\<lambda>t. if t = ''secrets'' then secrets_columns else if t = ''audit_log'' then audit_columns
       else if t = ''metadata'' then metadata_columns else auth_failure_columns),
     index_list = (\<lambda>t. [\<lparr>idx_name = ''idx_secrets_name_active'', idx_unique = True, idx_partial = True\<rparr>])\<rparr>"

text \<open>A system with one directory, and a format that knows two databases by their first byte.\<close>

definition db_os :: os where
  "db_os = sample_os\<lparr>realpath := (\<lambda>path. if path = ''v.db'' then Some ''/v.db'' else None)\<rparr>"

definition sample_sqlite :: "db \<Rightarrow> db \<Rightarrow> sqlite" where
  "sample_sqlite d1 d2 =
     \<lparr>db_load = (\<lambda>c. Some (sample_catalog, if c = [1] then d1 else d2)), db_image = (\<lambda>_. [2]), schema_statements = []\<rparr>"

definition sample_files :: "string \<rightharpoonup> disk_file" where
  "sample_files = [''v.db'' \<mapsto> \<lparr>f_content = [1], f_regular = True, f_uid = 1000, f_mode = 0x1A4\<rparr>]"

lemma find_column: "distinct (map col_name cs) \<Longrightarrow> c \<in> set cs \<Longrightarrow> find (\<lambda>x. col_name x = col_name c) cs = Some c"
  by (induction cs) auto

lemma require_columns_self:
  assumes "\<forall>c \<in> set cs. find (\<lambda>x. col_name x = col_name c) (table_info cat t) = Some c"
  shows "storage_require_columns cat t cs = Inr ()"
  using assms by (induction cs) (simp_all add: storage_require_column_def sqlite3_stricmp_eq_def)

lemma column_names_distinct:
  "distinct (map col_name secrets_columns)" "distinct (map col_name audit_columns)"
  "distinct (map col_name metadata_columns)" "distinct (map col_name auth_failure_columns)"
  by (simp_all add: secrets_columns_def audit_columns_def metadata_columns_def auth_failure_columns_def)

lemma sample_catalog_verified: "storage_verify_schema sample_catalog = Inr ()"
proof -
  have "storage_require_columns sample_catalog ''secrets'' secrets_columns = Inr ()"
    "storage_require_columns sample_catalog ''audit_log'' audit_columns = Inr ()"
    "storage_require_columns sample_catalog ''metadata'' metadata_columns = Inr ()"
    "storage_require_columns sample_catalog ''auth_failures'' auth_failure_columns = Inr ()"
    by (rule require_columns_self, simp add: sample_catalog_def find_column column_names_distinct)+
  then show ?thesis
    by (simp add: storage_verify_schema_def storage_require_table_def storage_require_index_def)
       (simp add: sample_catalog_def)
qed

lemma db_os_ok: "db_path_ok db_os" "calm db_os" "path_entry db_os ''v.db'' = Some ''v.db''"
  by (auto simp: db_path_ok_def db_os_def sample_os_def calm_def)

lemma sample_open_total:
  assumes "p_files p ''v.db'' = Some f" "\<not> g_db (p_vault p)" "\<And>t. sql_ok E t"
  shows "\<exists>p'. vault_open E db_os (sample_sqlite d1 d2) ''v.db'' p = (Inr (), p')"
  unfolding vault_open_eq
proof (rule storage_open_total [OF db_os_ok(2) assms(3) db_os_ok(1,3) _ _ _ _ sample_catalog_verified])
  show "realpath db_os ''v.db'' = Some ''/v.db''" by (simp add: db_os_def)
  show "db_load (sample_sqlite d1 d2) (f_content f) = Some (sample_catalog, if f_content f = [1] then d1 else d2)"
    by (simp add: sample_sqlite_def)
qed (use assms in simp_all)

text \<open>The database with a write-ahead log, and a file that is none of the vault's.\<close>

definition sample_files_wal :: "string \<rightharpoonup> disk_file" where
  "sample_files_wal = sample_files
     (''v.db-wal'' \<mapsto> \<lparr>f_content = [7], f_regular = True, f_uid = 1000, f_mode = 0x1A4\<rparr>,
      ''notes'' \<mapsto> \<lparr>f_content = [8], f_regular = True, f_uid = 1000, f_mode = 0x1A4\<rparr>)"

lemma db_os_sidecars: "realpath db_os ''v.db'' = Some ''/v.db''" "sidecar_entries db_os ''/v.db'' = {''v.db-wal'', ''v.db-shm''}"
  by (auto simp: sidecar_entries_def db_os_def sample_os_def)

theorem open_protects_database_witness:
  "\<exists>p'. vault_open calm_env db_os (sample_sqlite (tables sample_created) (tables sample_created)) ''v.db''
      (process_start 0 sample_files_wal (tables sample_created)) = (Inr (), p') \<and>
    map_option f_mode (p_files p' ''v.db'') = Some 0x180 \<and> map_option f_mode (p_files p' ''v.db-wal'') = Some 0x180 \<and>
    p_files p' ''v.db-shm'' = None \<and> map_option f_mode (p_files p' ''notes'') = Some 0x1A4"
proof -
  let ?p = "process_start 0 sample_files_wal (tables sample_created)"
  have f: "p_files ?p ''v.db'' = Some \<lparr>f_content = [1], f_regular = True, f_uid = 1000, f_mode = 0x1A4\<rparr>"
    by (simp add: process_start_def sample_files_def sample_files_wal_def)
  have "\<not> g_db (p_vault ?p)" "\<And>t. sql_ok calm_env t" by (simp_all add: process_start_def calm_env_def sample_env_def)
  from sample_open_total [OF f this] obtain p' where
    run: "vault_open calm_env db_os (sample_sqlite (tables sample_created) (tables sample_created)) ''v.db'' ?p = (Inr (), p')"
    by blast
  have "p_files p' = owner_only {''v.db'', ''v.db-wal'', ''v.db-shm''} (p_files ?p)"
    using open_protects_database [OF run db_os_ok(1)] by (auto simp: db_os_ok db_os_sidecars)
  then show ?thesis
    using run by (simp add: owner_only_def process_start_def sample_files_wal_def sample_files_def S_IRUSR_IWUSR_def)
qed

end
