(* ===== verification/Fuin_Cli.thy ===== *)
theory Fuin_Cli
  imports Fuin_Cli_Help Fuin_Cli_Show Fuin_Process
begin

text \<open>
  The commands of \<open>src/src/main.c\<close> as computations of a process: prompts and passphrase files,
  opening and unlocking the vault, each \<open>cli_run_\<close> function, dispatch, and \<open>main\<close> up to its exit
  code. Standard output is part of the state, messages on standard error are not modelled. The
  clipboard program is the outcome \<open>c_clipboard\<close> of handing it a value; \<open>c_tty\<close> is what is typed at the terminal.
\<close>

section \<open>The environment of a process\<close>

datatype tty_answer = No_tty | Tty_error | Tty_line string

record 'k cli_env =
  c_env :: env
  c_os :: os
  c_openssl :: "'k openssl"
  c_json :: json_lib
  c_sqlite :: sqlite
  c_getenv :: "string \<Rightarrow> string option"
  c_hex2bin :: hex_decoder
  c_color :: bool
  c_stdin :: "bytes \<times> bool"
  c_tty :: "nat \<Rightarrow> tty_answer"
  c_clipboard :: "nat \<Rightarrow> bytes \<Rightarrow> unit result"

definition CLI_MAX_SECRET_BYTES :: nat where "CLI_MAX_SECRET_BYTES = 1024 * 1024"
definition CLI_PASSWORD_MAX :: nat where "CLI_PASSWORD_MAX = 512"
definition CLI_SCOPE_BUFFER_LEN :: nat where "CLI_SCOPE_BUFFER_LEN = ACCESS_SCOPE_MAX"
definition CLI_GENERATE_DEFAULT_LENGTH :: nat where "CLI_GENERATE_DEFAULT_LENGTH = 24"
definition CLI_GENERATE_MAX_LENGTH :: int where "CLI_GENERATE_MAX_LENGTH = 256"

text \<open>A \<open>NULL\<close> or empty option.\<close>

definition blank :: "string option \<Rightarrow> bool" where
  "blank o' \<longleftrightarrow> o' = None \<or> o' = Some []"

definition given :: "string option \<Rightarrow> string" where
  "given o' = (case o' of None \<Rightarrow> [] | Some s \<Rightarrow> s)"

subsection \<open>Standard output\<close>

text \<open>\<open>fwrite\<close> to standard output, true when everything was written.\<close>

definition emit :: "'k cli_env \<Rightarrow> bytes \<Rightarrow> (process, bool) comp" where
  "emit C data = (\<lambda>p.
     let v = p_vault p; n = min (io_count (c_os C) (tick v) (length data)) (length data) in
     (Inr (n = length data), p\<lparr>p_vault := next_tick v, p_out := p_out p @ take n data\<rparr>))"

text \<open>A print whose result the code ignores, and one whose failure is \<open>SM_ERR_STORAGE\<close>.\<close>

definition say :: "'k cli_env \<Rightarrow> string \<Rightarrow> (process, unit) comp" where
  "say C s = andthen (emit C (str_bytes s)) (\<lambda>_. ret ())"

definition say_checked :: "'k cli_env \<Rightarrow> string \<Rightarrow> (process, unit) comp" where
  "say_checked C s = andthen (emit C (str_bytes s)) (\<lambda>ok. guard ok SM_ERR_STORAGE)"

definition CLI_SYM_CHECK :: string where "CLI_SYM_CHECK = [CHR 0xE2, CHR 0x9C, CHR 0x93]"
definition CLI_SYM_DOT :: string where "CLI_SYM_DOT = [CHR 0xE2, CHR 0x97, CHR 0x8F]"
definition CLI_SYM_DASH :: string where "CLI_SYM_DASH = [CHR 0xE2, CHR 0x80, CHR 0x94]"
definition CLI_SYM_SEP :: string where "CLI_SYM_SEP = [CHR 0xC2, CHR 0xB7]"

definition coloured :: "'k cli_env \<Rightarrow> string \<Rightarrow> string \<Rightarrow> string" where
  "coloured C = dyed (c_color C)"

definition cli_heading :: "'k cli_env \<Rightarrow> string \<Rightarrow> (process, unit) comp" where
  "cli_heading C s = say C (heading_text (c_color C) s)"

definition cli_ok :: "'k cli_env \<Rightarrow> string \<Rightarrow> (process, unit) comp" where
  "cli_ok C s = say C ((if c_color C then sgr ''32'' @ CLI_SYM_CHECK @ '' '' @ sgr ''0'' else []) @ s @ newline)"

definition cli_listing_line :: "'k cli_env \<Rightarrow> int \<Rightarrow> string \<Rightarrow> string \<Rightarrow> (process, unit) comp" where
  "cli_listing_line C desc_col cmd desc = say C (listing_text (c_color C) desc_col cmd desc)"

text \<open>The loop of \<open>cli_print_hex\<close> over its two \<open>fputc\<close> calls.\<close>

fun cli_print_hex :: "'k cli_env \<Rightarrow> bytes \<Rightarrow> (process, unit) comp" where
  "cli_print_hex C [] = ret ()"
| "cli_print_hex C (b # bs) =
     andthen (say_checked C [hex_digits ! unat (drop_bit 4 b)]) (\<lambda>_.
     andthen (say_checked C [hex_digits ! unat (b AND 0x0F)]) (\<lambda>_. cli_print_hex C bs))"

subsection \<open>Standard input, the terminal and passphrase files\<close>

text \<open>
  \<open>c_stdin\<close> is what can be read before the stream ends, and whether it ends by an error: a
  byte beyond the capacity is seen before the end is.
\<close>

definition cli_read_stdin_secret :: "'k cli_env \<Rightarrow> bytes result" where
  "cli_read_stdin_secret C =
     (case c_stdin C of (content, failed) \<Rightarrow>
        if CLI_MAX_SECRET_BYTES < length content then Inl SM_ERR_INPUT_TOO_LARGE
        else if failed then Inl SM_ERR_STORAGE
        else Inr content)"

definition strip_newlines :: "string \<Rightarrow> string" where
  "strip_newlines s = rev (dropWhile (\<lambda>c. c = CHR 0x0A \<or> c = CHR 0x0D) (rev s))"

text \<open>\<open>fgets\<close>: at most \<open>n - 1\<close> characters, up to and including the first line feed.\<close>

definition fgets_line :: "nat \<Rightarrow> string \<Rightarrow> string" where
  "fgets_line n s =
     take (n - 1) (takeWhile (\<lambda>c. c \<noteq> CHR 0x0A) s @ take 1 (dropWhile (\<lambda>c. c \<noteq> CHR 0x0A) s))"

definition cli_prompt_password :: "'k cli_env \<Rightarrow> nat \<Rightarrow> (process, string) comp" where
  "cli_prompt_password C out_len = (\<lambda>p.
     (if out_len < 2 then Inl SM_ERR_INVALID_ARGUMENT
      else case c_tty C (tick (p_vault p)) of
        No_tty \<Rightarrow> Inl SM_ERR_INVALID_ARGUMENT
      | Tty_error \<Rightarrow> Inl SM_ERR_STORAGE
      | Tty_line s \<Rightarrow>
          (let typed = strip_newlines (c_str (fgets_line out_len s)) in
           if typed = [] then Inl SM_ERR_INVALID_ARGUMENT else Inr typed),
      p\<lparr>p_vault := next_tick (p_vault p)\<rparr>))"

definition cli_prompt_password_confirmed :: "'k cli_env \<Rightarrow> nat \<Rightarrow> (process, string) comp" where
  "cli_prompt_password_confirmed C out_len =
     andthen (cli_prompt_password C out_len) (\<lambda>out.
     andthen (cli_prompt_password C CLI_PASSWORD_MAX) (\<lambda>confirm.
     andthen (guard (out = confirm) SM_ERR_AUTH) (\<lambda>_. ret out)))"

definition cli_resolve_parent_path :: "os \<Rightarrow> string \<Rightarrow> string result" where
  "cli_resolve_parent_path H path =
     (if path = [] then Inl SM_ERR_INVALID_ARGUMENT
      else and_then (split_parent path) (\<lambda>(parent, basename).
        if basename = ''.'' \<or> basename = ''..'' then Inl SM_ERR_INVALID_ARGUMENT
        else case realpath H parent of
          None \<Rightarrow> Inl SM_ERR_STORAGE
        | Some resolved_parent \<Rightarrow>
            let separator = (if resolved_parent = ''/'' then '''' else ''/'');
                combined = resolved_parent @ separator @ basename in
            if SIZE_MAX - 1 < int (length combined) then Inl SM_ERR_STORAGE else Inr combined))"

definition cli_fopen_owner_only_read :: "os \<Rightarrow> string \<Rightarrow> ('a disk_scheme, bytes) comp" where
  "cli_fopen_owner_only_read H path =
     andthen (guard (path \<noteq> []) SM_ERR_INVALID_ARGUMENT) (\<lambda>_.
     andthen (lift_result (cli_resolve_parent_path H path)) (\<lambda>resolved_path.
     andthen (open_read H resolved_path) (\<lambda>st.
     andthen (io_call H) (\<lambda>fstat_ok.
     andthen (guard (fstat_ok \<and> f_regular st \<and> f_uid st = getuid H \<and>
       f_mode st AND S_IRWXG_IRWXO = 0) SM_ERR_STORAGE) (\<lambda>_.
     andthen (io_require H) (\<lambda>_. ret (f_content st)))))))"

definition bytes_str :: "bytes \<Rightarrow> string" where
  "bytes_str bs = map (\<lambda>b. char_of (unat b)) bs"

text \<open>The whole file up to its first NUL, without the line ends at its end.\<close>

definition cli_read_key_passphrase_file :: "os \<Rightarrow> string \<Rightarrow> nat \<Rightarrow> ('a disk_scheme, string) comp" where
  "cli_read_key_passphrase_file H path out_len =
     andthen (guard (path \<noteq> [] \<and> 2 \<le> out_len) SM_ERR_INVALID_ARGUMENT) (\<lambda>_.
     andthen (cli_fopen_owner_only_read H path) (\<lambda>fp.
     with_fclose H
       (andthen (io_require H) (\<lambda>_.
        andthen (guard (length fp \<le> out_len - 1) SM_ERR_INPUT_TOO_LARGE) (\<lambda>_.
        let out = strip_newlines (c_str (bytes_str fp)) in
        andthen (guard (out \<noteq> []) SM_ERR_INVALID_ARGUMENT) (\<lambda>_. ret out))))))"

definition cli_load_key_passphrase :: "'k cli_env \<Rightarrow> cli_options \<Rightarrow> bool \<Rightarrow> nat \<Rightarrow> (process, string) comp" where
  "cli_load_key_passphrase C o' confirmed out_len =
     (case key_passphrase_file o' of
        Some path \<Rightarrow> in_disk (cli_read_key_passphrase_file (c_os C) path out_len)
      | None \<Rightarrow> if confirmed then cli_prompt_password_confirmed C out_len else cli_prompt_password C out_len)"

definition cli_command_needs_master_password :: "string \<Rightarrow> bool" where
  "cli_command_needs_master_password c \<longleftrightarrow>
     c \<noteq> ''pqc-keygen'' \<and> c \<noteq> ''backup-import'' \<and> c \<noteq> ''audit-keygen'' \<and> c \<noteq> ''audit-verify-root-sig''"

section \<open>Opening and authorising\<close>

definition cli_require_password :: "cli_options \<Rightarrow> unit result" where
  "cli_require_password o' = check (\<not> blank (password o')) SM_ERR_INVALID_ARGUMENT"

text \<open>\<open>access(path, F_OK)\<close>.\<close>

definition path_exists :: "os \<Rightarrow> string \<Rightarrow> process \<Rightarrow> bool" where
  "path_exists H path p \<longleftrightarrow> (case path_entry H path of None \<Rightarrow> False | Some e \<Rightarrow> p_files p e \<noteq> None)"

definition cli_open_unlocked_vault :: "'k cli_env \<Rightarrow> cli_options \<Rightarrow> (process, unit) comp" where
  "cli_open_unlocked_vault C o' =
     andthen (lift_result (cli_require_password o')) (\<lambda>_.
     andthen (gets (path_exists (c_os C) (given (db_path o')))) (\<lambda>found.
     andthen (guard (command o' = Some ''init'' \<or> found) SM_ERR_NOT_FOUND) (\<lambda>_.
     if command o' = Some ''init'' then
       andthen (vault_init (c_env C) (c_os C) (c_sqlite C) (given (db_path o'))) (\<lambda>_.
       in_vault (vault_unlock (c_env C) (given (password o'))))
     else
       andthen (vault_open (c_env C) (c_os C) (c_sqlite C) (given (db_path o'))) (\<lambda>_.
       in_vault (vault_unlock_existing (c_env C) (given (password o')))))))"

definition cli_required_scope :: "nat \<Rightarrow> string \<Rightarrow> string \<Rightarrow> string result" where
  "cli_required_scope scope_len operation name =
     (if scope_len = 0 \<or> name = [] \<or> scope_len \<le> length (operation @ '':'' @ name) then Inl SM_ERR_INVALID_ARGUMENT
      else Inr (operation @ '':'' @ name))"

definition cli_authorize_token :: "'k cli_env \<Rightarrow> cli_options \<Rightarrow> string \<Rightarrow> string \<Rightarrow> (process, unit) comp" where
  "cli_authorize_token C o' operation name =
     (case token o' of
        None \<Rightarrow> ret ()
      | Some t \<Rightarrow>
          andthen (guard (t \<noteq> []) SM_ERR_INVALID_ARGUMENT) (\<lambda>_.
          andthen (lift_result (cli_required_scope CLI_SCOPE_BUFFER_LEN operation name)) (\<lambda>required_scope.
          in_vault (vault_check_token (c_env C) (c_json C) t (Some required_scope)))))"

text \<open>
  The vault is closed before a clipboard program runs; \<open>c_clipboard\<close> is the outcome of
  \<open>cli_clipboard_write\<close>, and whether clearing could be scheduled changes a message only.
\<close>

definition cli_copy_secret_to_clipboard :: "'k cli_env \<Rightarrow> bytes \<Rightarrow> (process, unit) comp" where
  "cli_copy_secret_to_clipboard C data =
     andthen (vault_shutdown (c_env C) (c_sqlite C)) (\<lambda>_ p.
     (c_clipboard C (tick (p_vault p)) data, p\<lparr>p_vault := next_tick (p_vault p)\<rparr>))"

section \<open>Listings\<close>

definition ljust :: "nat \<Rightarrow> string \<Rightarrow> string" where
  "ljust n s = s @ replicate (n - length s) (CHR '' '')"

definition rjust :: "nat \<Rightarrow> string \<Rightarrow> string" where
  "rjust n s = replicate (n - length s) (CHR '' '') @ s"

definition dec_int :: "int \<Rightarrow> string" where
  "dec_int v = (if v < 0 then ''-'' @ dec_digits (nat (- v)) else dec_digits (nat v))"

record cli_list_ctx =
  printed :: nat
  n_active :: nat
  n_archived :: nat
  n_expired :: nat

definition list_header :: "'k cli_env \<Rightarrow> string" where
  "list_header C =
     (let cells = (\<lambda>w. ljust 28 ''NAME'' @ '' '' @ rjust 4 ''VER'' @ ''  '' @ ljust w ''STATE'' @ ''  '' @
        ljust 19 ''ALGORITHM'' @ '' EXPIRES'') in
      if c_color C then sgr ''2'' @ cells 10 @ sgr ''0'' @ newline else cells 8 @ newline)"

definition list_state :: "vault_list_item \<Rightarrow> string" where
  "list_state item = (if li_is_archived item then ''archived'' else ''active'')"

definition list_state_color :: "vault_list_item \<Rightarrow> string" where
  "list_state_color item =
     sgr (if li_is_expired item then ''31'' else if li_is_archived item then ''33'' else ''32'')"

text \<open>The two prints of a row on a colour terminal, and the one print elsewhere.\<close>

definition coloured_row :: "string \<Rightarrow> vault_list_item \<Rightarrow> string \<times> string" where
  "coloured_row display_name item =
     (ljust 28 display_name @ '' '' @ rjust 4 (dec_int (li_version item)) @ ''  '' @ list_state_color item @
        CLI_SYM_DOT @ sgr ''0'' @ '' '' @ list_state_color item @ ljust 8 (list_state item) @ sgr ''0'' @ ''  '' @
        ljust 19 (li_algorithm item) @ '' '',
      case li_expires_at item of
        None \<Rightarrow> sgr ''2'' @ CLI_SYM_DASH @ sgr ''0'' @ newline
      | Some t \<Rightarrow> t @ (if li_is_expired item then sgr ''31'' @ ''  EXPIRED'' @ sgr ''0'' else []) @ newline)"

definition plain_row :: "string \<Rightarrow> vault_list_item \<Rightarrow> string" where
  "plain_row display_name item =
     ljust 28 display_name @ '' '' @ rjust 4 (dec_int (li_version item)) @ ''  '' @ ljust 8 (list_state item) @ ''  '' @
     ljust 19 (li_algorithm item) @ '' '' @
     take 63 (case li_expires_at item of
       None \<Rightarrow> ''-'' | Some t \<Rightarrow> t @ (if li_is_expired item then ''  EXPIRED'' else [])) @ newline"

definition cli_print_list_item ::
  "'k cli_env \<Rightarrow> vault_list_item \<Rightarrow> cli_list_ctx \<Rightarrow> (process, cli_list_ctx) comp" where
  "cli_print_list_item C item ctx =
     andthen (case cli_format_list_name (li_name item) (CLI_LIST_NAME_WIDTH + 1) of
        Inl _ \<Rightarrow> raise SM_ERR_STORAGE | Inr display_name \<Rightarrow> ret display_name) (\<lambda>display_name.
     andthen (when_ok (printed ctx = 0) (say_checked C (list_header C))) (\<lambda>_.
     let ctx' = ctx\<lparr>
       n_archived := n_archived ctx + (if li_is_archived item then 1 else 0),
       n_active := n_active ctx + (if li_is_archived item then 0 else 1),
       n_expired := n_expired ctx + (if li_is_expired item then 1 else 0)\<rparr> in
     andthen
       (if c_color C then
          andthen (say_checked C (fst (coloured_row display_name item))) (\<lambda>_.
          say_checked C (snd (coloured_row display_name item)))
        else say_checked C (plain_row display_name item)) (\<lambda>_.
     ret (ctx'\<lparr>printed := printed ctx' + 1\<rparr>))))"

text \<open>
  The loop of \<open>vault_list_secrets\<close> with \<open>cli_print_list_item\<close> as its callback, and the function
  around it.
\<close>

fun cli_list_loop ::
  "'k cli_env \<Rightarrow> kdf_subkeys \<Rightarrow> string \<Rightarrow> secret_row list \<Rightarrow> cli_list_ctx \<Rightarrow> (process, cli_list_ctx) comp" where
  "cli_list_loop C k now [] ctx = andthen (in_vault (sql_prepare (c_env C))) (\<lambda>_. ret ctx)"
| "cli_list_loop C k now (r # rows) ctx =
     andthen (in_vault (sql_prepare (c_env C))) (\<lambda>_.
     andthen (lift_result (vault_list_item_of (c_env C) k now r)) (\<lambda>item.
     andthen (cli_print_list_item C item ctx) (cli_list_loop C k now rows)))"

definition cli_list_secrets :: "'k cli_env \<Rightarrow> bool \<Rightarrow> cli_list_ctx \<Rightarrow> (process, cli_list_ctx) comp" where
  "cli_list_secrets C include_archived ctx =
     andthen (in_vault
       (andthen vault_require_unlocked (\<lambda>k.
        andthen require_db (\<lambda>_.
        andthen (utils_now_iso8601 (c_env C) UTILS_ISO8601_UTC_BUFFER_LEN) (\<lambda>now.
        andthen (sql_select (c_env C) (\<lambda>d. sort_key s_name (sort_key s_version
          (filter (\<lambda>r. include_archived \<or> active_row (secrets d) r) (secrets d))))) (\<lambda>rows.
        ret (k, now, rows))))))) (\<lambda>(k, now, rows).
     cli_list_loop C k now rows ctx)"

definition cli_print_expiry :: "'k cli_env \<Rightarrow> string \<times> int \<times> string \<times> bool \<Rightarrow> (process, unit) comp" where
  "cli_print_expiry C item =
     (case item of (name, version, due_at, is_expired) \<Rightarrow>
        andthen (guard (\<not> version < 1) SM_ERR_INVALID_ARGUMENT) (\<lambda>_.
        case cli_sanitize_display_text name CLI_DISPLAY_NAME_MAX of
          Inl _ \<Rightarrow> raise SM_ERR_STORAGE
        | Inr safe_name \<Rightarrow>
            say_checked C ((if is_expired then ''expired'' else ''expiring'') @ '' name='' @ safe_name @ '' version='' @
              dec_int version @ '' expires_at='' @ due_at @ newline)))"

fun cli_expiry_loop ::
  "'k cli_env \<Rightarrow> kdf_subkeys \<Rightarrow> string \<Rightarrow> secret_row list \<Rightarrow> nat \<Rightarrow> (process, nat) comp" where
  "cli_expiry_loop C k now [] matched = andthen (in_vault (sql_prepare (c_env C))) (\<lambda>_. ret matched)"
| "cli_expiry_loop C k now (r # rows) matched =
     andthen (in_vault (sql_prepare (c_env C))) (\<lambda>_.
     andthen (lift_result (vault_expiry_item_of (c_env C) k now r)) (\<lambda>item.
     andthen (cli_print_expiry C item) (\<lambda>_. cli_expiry_loop C k now rows (matched + 1))))"

definition cli_check_expiry :: "'k cli_env \<Rightarrow> 64 word \<Rightarrow> (process, nat) comp" where
  "cli_check_expiry C within_secs =
     andthen (in_vault
       (andthen vault_require_unlocked (\<lambda>k.
        andthen require_db (\<lambda>_.
        andthen (utils_now_iso8601 (c_env C) UTILS_ISO8601_UTC_BUFFER_LEN) (\<lambda>now.
        andthen (if 0 < within_secs
          then utils_now_plus_seconds_iso8601 (c_env C) within_secs UTILS_ISO8601_UTC_BUFFER_LEN else ret now) (\<lambda>threshold.
        andthen (sql_select (c_env C) (\<lambda>d. order_expired (expired_rows threshold d))) (\<lambda>rows.
        ret (k, now, rows)))))))) (\<lambda>(k, now, rows).
     cli_expiry_loop C k now rows 0)"

section \<open>Commands\<close>

definition has_name :: "cli_options \<Rightarrow> (process, unit) comp" where
  "has_name o' = guard (\<not> blank (opt_name o')) SM_ERR_INVALID_ARGUMENT"

definition name_of :: "cli_options \<Rightarrow> string" where
  "name_of o' = given (opt_name o')"

definition ttl_of :: "cli_options \<Rightarrow> 64 word" where
  "ttl_of o' = (if has_ttl o' then ttl_seconds o' else 0)"

definition cli_run_list :: "'k cli_env \<Rightarrow> cli_options \<Rightarrow> (process, unit) comp" where
  "cli_run_list C o' =
     andthen (cli_open_unlocked_vault C o') (\<lambda>_.
     andthen (cli_list_secrets C (show_all o') \<lparr>printed = 0, n_active = 0, n_archived = 0, n_expired = 0\<rparr>) (\<lambda>ctx.
     if printed ctx = 0 then say C (''no secrets'' @ newline)
     else when_ok (c_color C)
       (say C (sgr ''2'' @ dec_digits (printed ctx) @ '' shown '' @ CLI_SYM_SEP @ '' '' @ dec_digits (n_active ctx) @
         '' active '' @ CLI_SYM_SEP @ '' '' @ dec_digits (n_archived ctx) @ '' archived '' @ CLI_SYM_SEP @ '' '' @
         dec_digits (n_expired ctx) @ '' expired'' @ sgr ''0'' @ newline))))"

definition cli_run_init :: "'k cli_env \<Rightarrow> cli_options \<Rightarrow> (process, unit) comp" where
  "cli_run_init C o' =
     andthen (cli_open_unlocked_vault C o') (\<lambda>_.
     andthen (cli_ok C (''vault initialized: '' @ given (db_path o'))) (\<lambda>_.
     andthen (cli_heading C ''next steps:'') (\<lambda>_.
     andthen (cli_listing_line C 32 ''fuin generate <name>'' ''store a random secret'') (\<lambda>_.
     andthen (cli_listing_line C 32 ''fuin put <name> --stdin'' ''store an existing value'') (\<lambda>_.
     cli_listing_line C 32 ''fuin get <name> --copy'' ''read it back'')))))"

text \<open>The value typed twice; whatever goes wrong is \<open>SM_ERR_INVALID_ARGUMENT\<close>.\<close>

definition typed_secret :: "'k cli_env \<Rightarrow> (process, string) comp" where
  "typed_secret C =
     finally_do
       (andthen (cli_prompt_password C 4096) (\<lambda>typed.
        andthen (cli_prompt_password C 4096) (\<lambda>confirm.
        andthen (guard (typed = confirm) SM_ERR_AUTH) (\<lambda>_. ret typed))))
       (\<lambda>r. case r of Inl _ \<Rightarrow> raise SM_ERR_INVALID_ARGUMENT | Inr typed \<Rightarrow> ret typed)"

definition cli_run_put :: "'k cli_env \<Rightarrow> cli_options \<Rightarrow> (process, unit) comp" where
  "cli_run_put C o' =
     andthen (has_name o') (\<lambda>_.
     andthen
       (if read_stdin o' then lift_result (cli_read_stdin_secret C)
        else case opt_value o' of
          Some v \<Rightarrow> ret (str_bytes v)
        | None \<Rightarrow> andthen (typed_secret C) (\<lambda>typed. ret (str_bytes typed))) (\<lambda>secret.
     andthen (cli_open_unlocked_vault C o') (\<lambda>_.
     andthen (cli_authorize_token C o' ''write'' (name_of o')) (\<lambda>_.
     in_vault (vault_put_with_options (c_env C) (name_of o') secret (opt_algorithm o') (ttl_of o'))))))"

definition cli_run_generate :: "'k cli_env \<Rightarrow> cli_options \<Rightarrow> (process, unit) comp" where
  "cli_run_generate C o' =
     andthen (has_name o') (\<lambda>_.
     andthen (guard (has_length o' \<longrightarrow> 1 \<le> generate_length o' \<and> generate_length o' \<le> CLI_GENERATE_MAX_LENGTH)
       SM_ERR_INVALID_ARGUMENT) (\<lambda>_.
     let len = (if has_length o' then nat (generate_length o') else CLI_GENERATE_DEFAULT_LENGTH) in
     andthen (in_vault (utils_generate_password (c_env C) (nat CLI_GENERATE_MAX_LENGTH + 1) len (\<not> no_symbols o'))) (\<lambda>generated.
     andthen (cli_open_unlocked_vault C o') (\<lambda>_.
     andthen (cli_authorize_token C o' ''write'' (name_of o')) (\<lambda>_.
     andthen (in_vault (vault_put_with_options (c_env C) (name_of o') (str_bytes generated) (opt_algorithm o') (ttl_of o'))) (\<lambda>_.
     if copy o' then cli_copy_secret_to_clipboard C (str_bytes generated) else say C (generated @ newline)))))))"

definition cli_run_get :: "'k cli_env \<Rightarrow> cli_options \<Rightarrow> (process, unit) comp" where
  "cli_run_get C o' =
     andthen (has_name o') (\<lambda>_.
     andthen (cli_open_unlocked_vault C o') (\<lambda>_.
     andthen (cli_authorize_token C o' ''read'' (name_of o')) (\<lambda>_.
     andthen (in_vault
       (if 0 < opt_version o' then vault_get_version (c_env C) (name_of o') (opt_version o') CLI_MAX_SECRET_BYTES
        else vault_get (c_env C) (name_of o') CLI_MAX_SECRET_BYTES)) (\<lambda>secret.
     if copy o' then cli_copy_secret_to_clipboard C secret
     else
       andthen (emit C secret) (\<lambda>ok.
       andthen (guard ok SM_ERR_STORAGE) (\<lambda>_.
       when_ok (\<not> raw o') (say_checked C newline)))))))"

definition cli_run_totp :: "'k cli_env \<Rightarrow> cli_options \<Rightarrow> (process, unit) comp" where
  "cli_run_totp C o' =
     andthen (has_name o') (\<lambda>_.
     andthen (cli_open_unlocked_vault C o') (\<lambda>_.
     andthen (cli_authorize_token C o' ''read'' (name_of o')) (\<lambda>_.
     andthen (in_vault (vault_get (c_env C) (name_of o') CLI_MAX_SECRET_BYTES)) (\<lambda>seed_text.
     andthen (lift_result (utils_base32_decode seed_text 256)) (\<lambda>seed.
     andthen (in_vault (sys_time (c_env C))) (\<lambda>now.
     andthen (lift_result (utils_totp_code (c_env C) seed (word_of_int now) 30 6 16)) (\<lambda>code.
     if copy o' then cli_copy_secret_to_clipboard C (str_bytes code) else say C (code @ newline))))))))"

definition cli_run_delete :: "'k cli_env \<Rightarrow> cli_options \<Rightarrow> (process, unit) comp" where
  "cli_run_delete C o' =
     andthen (has_name o') (\<lambda>_.
     andthen (cli_open_unlocked_vault C o') (\<lambda>_.
     andthen (cli_authorize_token C o' ''delete'' (name_of o')) (\<lambda>_.
     in_vault (vault_delete (c_env C) (name_of o')))))"

text \<open>The version that is active afterwards is looked up for the message only.\<close>

definition cli_run_rollback :: "'k cli_env \<Rightarrow> cli_options \<Rightarrow> (process, unit) comp" where
  "cli_run_rollback C o' =
     andthen (has_name o') (\<lambda>_.
     andthen (guard (\<not> opt_version o' < 1) SM_ERR_INVALID_ARGUMENT) (\<lambda>_.
     andthen (cli_open_unlocked_vault C o') (\<lambda>_.
     andthen (cli_authorize_token C o' ''write'' (name_of o')) (\<lambda>_.
     andthen (in_vault (vault_rollback (c_env C) (name_of o') (opt_version o'))) (\<lambda>_.
     finally_do (in_vault (vault_get_active_version (c_env C) (name_of o'))) (\<lambda>_. ret ()))))))"

definition cli_run_rotate_kek :: "'k cli_env \<Rightarrow> cli_options \<Rightarrow> (process, unit) comp" where
  "cli_run_rotate_kek C o' =
     andthen (guard (\<not> blank (new_password o')) SM_ERR_INVALID_ARGUMENT) (\<lambda>_.
     andthen (cli_open_unlocked_vault C o') (\<lambda>_.
     in_vault (vault_rotate_kek (c_env C) (given (new_password o')))))"

definition cli_run_check_expiry :: "'k cli_env \<Rightarrow> cli_options \<Rightarrow> (process, unit) comp" where
  "cli_run_check_expiry C o' =
     andthen (cli_open_unlocked_vault C o') (\<lambda>_.
     andthen (cli_check_expiry C (if has_within o' then within_seconds o' else 0)) (\<lambda>matched.
     when_ok (matched = 0) (say C (''no expiring secrets'' @ newline))))"

text \<open>The one command whose loop may not end; \<open>None\<close> is such a run.\<close>

definition cli_run_auto_rotate ::
  "'k cli_env \<Rightarrow> cli_options \<Rightarrow> process \<Rightarrow> (unit result \<times> process) option" where
  "cli_run_auto_rotate C o' p =
     (case cli_open_unlocked_vault C o' p of
        (Inl e, p1) \<Rightarrow> Some (Inl e, p1)
      | (Inr u, p1) \<Rightarrow>
          (case vault_auto_rotate_expired (c_env C) (p_vault p1) of
             None \<Rightarrow> None
           | Some (r, v) \<Rightarrow>
               Some (andthen (lift_result r) (\<lambda>rotated.
                 cli_ok C (''dek rotated: '' @ dec_digits rotated @ '' expired secrets'')) (p1\<lparr>p_vault := v\<rparr>))))"

definition cli_run_issue_token :: "'k cli_env \<Rightarrow> cli_options \<Rightarrow> (process, unit) comp" where
  "cli_run_issue_token C o' =
     andthen (guard (\<not> blank (opt_scope o') \<and> has_ttl o') SM_ERR_INVALID_ARGUMENT) (\<lambda>_.
     andthen (cli_open_unlocked_vault C o') (\<lambda>_.
     andthen (in_vault (vault_issue_token (c_env C) (c_json C)
       (if blank (opt_subject o') then ''user:default'' else given (opt_subject o'))
       (given (opt_scope o')) (ttl_seconds o') ACCESS_TOKEN_BUFFER_LEN)) (\<lambda>issued.
     say C (issued @ newline))))"

definition cli_run_check_token :: "'k cli_env \<Rightarrow> cli_options \<Rightarrow> (process, unit) comp" where
  "cli_run_check_token C o' =
     andthen (guard (\<not> blank (token o') \<and> \<not> blank (opt_scope o')) SM_ERR_INVALID_ARGUMENT) (\<lambda>_.
     andthen (cli_open_unlocked_vault C o') (\<lambda>_.
     andthen (in_vault (vault_check_token (c_env C) (c_json C) (given (token o')) (opt_scope o'))) (\<lambda>_.
     cli_ok C ''token verified'')))"

definition cli_run_revoke_tokens :: "'k cli_env \<Rightarrow> cli_options \<Rightarrow> (process, unit) comp" where
  "cli_run_revoke_tokens C o' =
     andthen (cli_open_unlocked_vault C o') (\<lambda>_.
     andthen (in_vault (vault_revoke_tokens (c_env C))) (\<lambda>_.
     cli_ok C ''all previously issued tokens revoked''))"

definition cli_run_audit_verify :: "'k cli_env \<Rightarrow> cli_options \<Rightarrow> (process, unit) comp" where
  "cli_run_audit_verify C o' =
     andthen (cli_open_unlocked_vault C o') (\<lambda>_.
     andthen (in_vault (vault_audit_verify (c_env C))) (\<lambda>_.
     cli_ok C ''audit log verified''))"

definition cli_run_audit_root :: "'k cli_env \<Rightarrow> cli_options \<Rightarrow> (process, unit) comp" where
  "cli_run_audit_root C o' =
     andthen (cli_open_unlocked_vault C o') (\<lambda>_.
     andthen (in_vault (vault_audit_merkle_root (c_env C))) (\<lambda>(the_root, count).
     andthen (say C ''audit_merkle_root='') (\<lambda>_.
     andthen (cli_print_hex C the_root) (\<lambda>_.
     say_checked C ('' entries='' @ dec_digits count @ newline)))))"

definition report_lines :: "'k cli_env \<Rightarrow> vault_security_report \<Rightarrow> string list" where
  "report_lines C r =
     (let bold = (\<lambda>n. coloured C ''1'' (dec_digits n));
          shade = (\<lambda>code n. coloured C (if 0 < n then code else ''1'') (dec_digits n)) in
      [''  active: '' @ bold (active_secrets r) @ '' ('' @ bold (distinct_names r) @ '' distinct names), archived versions: '' @
         bold (archived_versions r) @ '', deleted names: '' @ bold (deleted_names r) @ newline,
       ''  expiry: '' @ bold (ttl_active r) @ '' with TTL, '' @ shade ''31'' (expired_active r) @ '' expired, '' @
         shade ''33'' (expiring_7d r) @ '' expiring within 7 days'' @ newline,
       ''  algorithms: '' @ bold (active_aes256gcm r) @ '' AES-256-GCM, '' @ bold (active_xchacha20poly1305 r) @
         '' XChaCha20-Poly1305, '' @ bold (active_aegis256 r) @ '' AEGIS-256'' @ newline])"

fun say_all :: "'k cli_env \<Rightarrow> string list \<Rightarrow> (process, unit) comp" where
  "say_all C [] = ret ()"
| "say_all C (s # ss) = andthen (say C s) (\<lambda>_. say_all C ss)"

definition report_advice :: "'k cli_env \<Rightarrow> vault_security_report \<Rightarrow> (process, unit) comp" where
  "report_advice C r =
     (let large = (1000 < active_secrets r \<and> 0 < active_aes256gcm r) in
      when_ok (large \<or> 0 < expired_active r)
        (andthen (cli_heading C ''Recommendations'') (\<lambda>_.
         andthen (when_ok large (say C (''  - prefer XChaCha20-Poly1305 or AEGIS-256 for large vaults (AES-GCM nonce prefix scale limit)'' @
           newline))) (\<lambda>_.
         when_ok (0 < expired_active r) (say C (''  - run auto-rotate: '' @ coloured C ''31'' (dec_digits (expired_active r)) @
           '' active secrets have expired'' @ newline))))))"

definition cli_run_status_report :: "'k cli_env \<Rightarrow> cli_options \<Rightarrow> (process, unit) comp" where
  "cli_run_status_report C o' =
     andthen (cli_open_unlocked_vault C o') (\<lambda>_.
     andthen (in_vault (vault_security_report_for (c_env C))) (\<lambda>r.
     andthen (cli_heading C ''Secrets'') (\<lambda>_.
     andthen (say_all C (report_lines C r)) (\<lambda>_.
     andthen (cli_heading C ''Audit'') (\<lambda>_.
     andthen (say C (''  entries: '' @ coloured C ''1'' (dec_digits (audit_entries r)) @ '', chain verified: '' @
       coloured C ''32'' ''yes'' @ newline)) (\<lambda>_.
     andthen (say C ''  merkle root: '') (\<lambda>_.
     finally_do
       (andthen (cli_print_hex C (audit_root r)) (\<lambda>_.
        say C ('' ('' @ coloured C ''1'' (dec_digits (audit_leaf_count r)) @ '' leaves; store it outside the vault)'' @ newline)))
       (\<lambda>hex. andthen (in_vault (backup_pqc_available (c_openssl C))) (\<lambda>pqc_supported.
        andthen (lift_result hex) (\<lambda>_.
        andthen (cli_heading C ''Post-quantum'') (\<lambda>_.
        andthen (say C (''  '' @ (if pqc_supported
          then ''X25519+ML-KEM-768 backup capsules supported; symmetric-256 core encryption''
          else ''symmetric-256 crypto-agile; X25519+ML-KEM-768 unavailable in the linked libcrypto'') @ newline)) (\<lambda>_.
        report_advice C r))))))))))))"

definition cli_run_pqc_keygen :: "'k cli_env \<Rightarrow> cli_options \<Rightarrow> (process, unit) comp" where
  "cli_run_pqc_keygen C o' =
     andthen (guard (\<not> blank (public_out_path o') \<and> \<not> blank (private_out_path o')) SM_ERR_INVALID_ARGUMENT) (\<lambda>_.
     andthen (cli_load_key_passphrase C o' True CLI_PASSWORD_MAX) (\<lambda>passphrase.
     andthen (in_system (vault_backup_keygen (c_os C) (c_openssl C) (given (public_out_path o'))
       (given (private_out_path o')) passphrase)) (\<lambda>_.
     say C (''hybrid backup keypair generated: public='' @ given (public_out_path o') @ '' private='' @
       given (private_out_path o') @ newline))))"

text \<open>\<open>sqlite3_serialize\<close> of the open connection; \<open>None\<close> when its file is not a database.\<close>

definition serialize_connection :: "'k cli_env \<Rightarrow> process \<Rightarrow> vault \<Rightarrow> bytes option" where
  "serialize_connection C p v =
     (case p_conn p of Some (e, Some cat) \<Rightarrow> Some (db_image (c_sqlite C) (cat, tables v)) | _ \<Rightarrow> None)"

definition cli_run_backup_export :: "'k cli_env \<Rightarrow> cli_options \<Rightarrow> (process, unit) comp" where
  "cli_run_backup_export C o' =
     andthen (guard (\<not> blank (recipient_path o') \<and> \<not> blank (output_path o')) SM_ERR_INVALID_ARGUMENT) (\<lambda>_.
     andthen (cli_open_unlocked_vault C o') (\<lambda>_.
     andthen (\<lambda>p. in_system (vault_backup_export (c_env C) (c_os C) (c_openssl C) (serialize_connection C p)
       (given (recipient_path o')) (given (output_path o'))) p) (\<lambda>_.
     say C (''backup capsule exported: '' @ given (output_path o') @ newline))))"

definition cli_run_backup_import :: "'k cli_env \<Rightarrow> cli_options \<Rightarrow> (process, unit) comp" where
  "cli_run_backup_import C o' =
     andthen (guard (\<not> blank (private_key_path o') \<and> \<not> blank (input_path o') \<and> \<not> blank (output_path o'))
       SM_ERR_INVALID_ARGUMENT) (\<lambda>_.
     andthen (cli_load_key_passphrase C o' False CLI_PASSWORD_MAX) (\<lambda>passphrase.
     andthen (in_system (vault_backup_import (c_env C) (c_os C) (c_openssl C) (given (private_key_path o')) passphrase
       (given (input_path o')) (given (output_path o')))) (\<lambda>_.
     say C (''backup capsule imported: '' @ given (output_path o') @ newline))))"

text \<open>A label, a value in hexadecimal, and the end of the line.\<close>

definition say_hex_line :: "'k cli_env \<Rightarrow> string \<Rightarrow> bytes \<Rightarrow> (process, unit) comp" where
  "say_hex_line C label data =
     andthen (say C label) (\<lambda>_. andthen (cli_print_hex C data) (\<lambda>_. say_checked C newline))"

definition cli_run_audit_proof :: "'k cli_env \<Rightarrow> cli_options \<Rightarrow> (process, unit) comp" where
  "cli_run_audit_proof C o' =
     andthen (guard (\<not> entry_id o' < 1) SM_ERR_INVALID_ARGUMENT) (\<lambda>_.
     andthen (cli_open_unlocked_vault C o') (\<lambda>_.
     andthen (in_vault (vault_audit_merkle_proof (c_env C) (entry_id o') AUDIT_MERKLE_PROOF_MAX_BYTES)) (\<lambda>(entry_hash, the_root, pf, index, count).
     andthen (say_checked C (''audit_entry_id='' @ dec_int (entry_id o') @ '' leaf_index='' @ dec_digits index @
       '' entries='' @ dec_digits count @ newline)) (\<lambda>_.
     andthen (say_hex_line C ''entry_hash='' entry_hash) (\<lambda>_.
     andthen (say_hex_line C ''audit_merkle_root='' the_root) (\<lambda>_.
     say_hex_line C ''proof='' pf))))))"

definition cli_run_audit_keygen :: "'k cli_env \<Rightarrow> cli_options \<Rightarrow> (process, unit) comp" where
  "cli_run_audit_keygen C o' =
     andthen (guard (public_out_path o' \<noteq> None \<and> private_out_path o' \<noteq> None) SM_ERR_INVALID_ARGUMENT) (\<lambda>_.
     andthen (in_vault (backup_mldsa_available (c_openssl C))) (\<lambda>available.
     andthen (guard available SM_ERR_CRYPTO) (\<lambda>_.
     andthen (cli_load_key_passphrase C o' True CLI_PASSWORD_MAX) (\<lambda>passphrase.
     andthen (in_system (vault_audit_signing_keygen (c_os C) (c_openssl C) (given (public_out_path o'))
       (given (private_out_path o')) passphrase)) (\<lambda>_.
     say C (''audit signing keypair written: '' @ given (public_out_path o') @ '' '' @ given (private_out_path o') @ newline))))))"

definition cli_run_audit_sign_root :: "'k cli_env \<Rightarrow> cli_options \<Rightarrow> (process, unit) comp" where
  "cli_run_audit_sign_root C o' =
     andthen (guard (private_key_path o' \<noteq> None) SM_ERR_INVALID_ARGUMENT) (\<lambda>_.
     andthen (cli_load_key_passphrase C o' False CLI_PASSWORD_MAX) (\<lambda>passphrase.
     andthen (cli_open_unlocked_vault C o') (\<lambda>_.
     andthen (in_system (vault_audit_sign_root (c_env C) (c_os C) (c_openssl C) (given (private_key_path o')) passphrase
       AUDIT_MERKLE_ROOT_BYTES BACKUP_MLDSA_SIGNATURE_MAX_BYTES)) (\<lambda>(the_root, count, signature).
     andthen (lift_result (utils_base64_encode (c_env C) signature (BACKUP_MLDSA_SIGNATURE_MAX_BYTES * 2))) (\<lambda>b64.
     andthen (say C ''audit merkle root: '') (\<lambda>_.
     andthen (cli_print_hex C the_root) (\<lambda>_.
     say_all C [newline @ ''entries: '' @ dec_digits count @ newline, ''algorithm: '' @ BACKUP_MLDSA_ALGORITHM @ newline,
       ''signature: '' @ b64 @ newline, ''store the root and signature outside the vault'' @ newline])))))))"

definition cli_run_audit_verify_root_sig :: "'k cli_env \<Rightarrow> cli_options \<Rightarrow> (process, unit) comp" where
  "cli_run_audit_verify_root_sig C o' =
     andthen (guard (public_key_path o' \<noteq> None \<and> root_hex o' \<noteq> None \<and> has_leaf_count o' \<and> signature_b64 o' \<noteq> None)
       SM_ERR_INVALID_ARGUMENT) (\<lambda>_.
     andthen (lift_result (cli_decode_hex_exact (c_hex2bin C) (given (root_hex o')) AUDIT_MERKLE_ROOT_BYTES)) (\<lambda>the_root.
     andthen (lift_result (utils_base64_decode (c_env C) (given (signature_b64 o')) BACKUP_MLDSA_SIGNATURE_MAX_BYTES)) (\<lambda>signature.
     andthen (in_disk (backup_mldsa_verify (c_os C) (c_openssl C) (given (public_key_path o'))
       (the_root @ utils_write_u64_le (of_nat (leaf_count o'))) signature)) (\<lambda>_.
     cli_ok C ''audit root signature verified''))))"

definition cli_run_audit_verify_proof :: "'k cli_env \<Rightarrow> cli_options \<Rightarrow> (process, unit) comp" where
  "cli_run_audit_verify_proof C o' =
     andthen (guard (\<not> entry_id o' < 1 \<and> root_hex o' \<noteq> None \<and> proof_hex o' \<noteq> None \<and> has_leaf_index o' \<and> has_leaf_count o')
       SM_ERR_INVALID_ARGUMENT) (\<lambda>_.
     andthen (lift_result (cli_decode_hex_exact (c_hex2bin C) (given (root_hex o')) AUDIT_MERKLE_ROOT_BYTES)) (\<lambda>the_root.
     andthen (lift_result (cli_decode_proof_hex (c_hex2bin C) (given (proof_hex o')) AUDIT_MERKLE_PROOF_MAX_BYTES)) (\<lambda>pf.
     andthen (cli_open_unlocked_vault C o') (\<lambda>_.
     andthen (in_vault (vault_audit_verify_merkle_proof (c_env C) (entry_id o') the_root pf (leaf_index o') (leaf_count o'))) (\<lambda>_.
     cli_ok C ''audit proof verified'')))))"

section \<open>Dispatch\<close>

datatype cli_command =
    Run_init | Run_put | Run_generate | Run_get | Run_totp | Run_list | Run_delete | Run_rollback | Run_rotate_kek
  | Run_check_expiry | Run_auto_rotate | Run_issue_token | Run_check_token | Run_revoke_tokens | Run_audit_verify
  | Run_audit_root | Run_audit_proof | Run_audit_verify_proof | Run_audit_keygen | Run_audit_sign_root
  | Run_audit_verify_root_sig | Run_status_report | Run_pqc_keygen | Run_backup_export | Run_backup_import

text \<open>The chain of comparisons of \<open>cli_dispatch\<close>.\<close>

definition cli_select :: "string \<Rightarrow> cli_command option" where
  "cli_select c =
     (if c = ''init'' then Some Run_init
      else if c = ''put'' \<or> c = ''set'' then Some Run_put
      else if c = ''generate'' \<or> c = ''gen'' then Some Run_generate
      else if c = ''get'' then Some Run_get
      else if c = ''totp'' then Some Run_totp
      else if c = ''list'' \<or> c = ''ls'' then Some Run_list
      else if c = ''delete'' \<or> c = ''del'' then Some Run_delete
      else if c = ''rollback'' then Some Run_rollback
      else if c = ''rotate-kek'' \<or> c = ''rotate'' then Some Run_rotate_kek
      else if c = ''check-expiry'' then Some Run_check_expiry
      else if c = ''auto-rotate'' \<or> c = ''rotate-dek'' then Some Run_auto_rotate
      else if c = ''issue-token'' then Some Run_issue_token
      else if c = ''check-token'' then Some Run_check_token
      else if c = ''revoke-tokens'' then Some Run_revoke_tokens
      else if c = ''audit-verify'' \<or> c = ''verify'' then Some Run_audit_verify
      else if c = ''audit-root'' \<or> c = ''merkle-root'' then Some Run_audit_root
      else if c = ''audit-proof'' then Some Run_audit_proof
      else if c = ''audit-verify-proof'' then Some Run_audit_verify_proof
      else if c = ''audit-keygen'' then Some Run_audit_keygen
      else if c = ''audit-sign-root'' then Some Run_audit_sign_root
      else if c = ''audit-verify-root-sig'' then Some Run_audit_verify_root_sig
      else if c = ''status-report'' \<or> c = ''security-report'' \<or> c = ''report'' then Some Run_status_report
      else if c = ''pqc-keygen'' then Some Run_pqc_keygen
      else if c = ''backup-export'' then Some Run_backup_export
      else if c = ''backup-import'' then Some Run_backup_import
      else None)"

fun cli_run :: "'k cli_env \<Rightarrow> cli_options \<Rightarrow> cli_command \<Rightarrow> process \<Rightarrow> (unit result \<times> process) option" where
  "cli_run C o' Run_init p = Some (cli_run_init C o' p)"
| "cli_run C o' Run_put p = Some (cli_run_put C o' p)"
| "cli_run C o' Run_generate p = Some (cli_run_generate C o' p)"
| "cli_run C o' Run_get p = Some (cli_run_get C o' p)"
| "cli_run C o' Run_totp p = Some (cli_run_totp C o' p)"
| "cli_run C o' Run_list p = Some (cli_run_list C o' p)"
| "cli_run C o' Run_delete p = Some (cli_run_delete C o' p)"
| "cli_run C o' Run_rollback p = Some (cli_run_rollback C o' p)"
| "cli_run C o' Run_rotate_kek p = Some (cli_run_rotate_kek C o' p)"
| "cli_run C o' Run_check_expiry p = Some (cli_run_check_expiry C o' p)"
| "cli_run C o' Run_auto_rotate p = cli_run_auto_rotate C o' p"
| "cli_run C o' Run_issue_token p = Some (cli_run_issue_token C o' p)"
| "cli_run C o' Run_check_token p = Some (cli_run_check_token C o' p)"
| "cli_run C o' Run_revoke_tokens p = Some (cli_run_revoke_tokens C o' p)"
| "cli_run C o' Run_audit_verify p = Some (cli_run_audit_verify C o' p)"
| "cli_run C o' Run_audit_root p = Some (cli_run_audit_root C o' p)"
| "cli_run C o' Run_audit_proof p = Some (cli_run_audit_proof C o' p)"
| "cli_run C o' Run_audit_verify_proof p = Some (cli_run_audit_verify_proof C o' p)"
| "cli_run C o' Run_audit_keygen p = Some (cli_run_audit_keygen C o' p)"
| "cli_run C o' Run_audit_sign_root p = Some (cli_run_audit_sign_root C o' p)"
| "cli_run C o' Run_audit_verify_root_sig p = Some (cli_run_audit_verify_root_sig C o' p)"
| "cli_run C o' Run_status_report p = Some (cli_run_status_report C o' p)"
| "cli_run C o' Run_pqc_keygen p = Some (cli_run_pqc_keygen C o' p)"
| "cli_run C o' Run_backup_export p = Some (cli_run_backup_export C o' p)"
| "cli_run C o' Run_backup_import p = Some (cli_run_backup_import C o' p)"

definition cli_dispatch :: "'k cli_env \<Rightarrow> cli_options \<Rightarrow> process \<Rightarrow> (unit result \<times> process) option" where
  "cli_dispatch C o' p =
     (if blank (command o') then Some (Inl SM_ERR_INVALID_ARGUMENT, p)
      else case cli_select (given (command o')) of
        None \<Rightarrow> Some (Inl SM_ERR_INVALID_ARGUMENT, p)
      | Some c \<Rightarrow> cli_run C o' c p)"

section \<open>The process\<close>

text \<open>
  The prompts of \<open>main\<close>: \<open>Inl\<close> when two passwords typed do not match, which ends the process;
  any other failure leaves the option as it is.
\<close>

definition prompted :: "(process, string) comp \<Rightarrow> (process, string option) comp" where
  "prompted m = finally_do m (\<lambda>r.
     case r of Inr s \<Rightarrow> ret (Some s) | Inl e \<Rightarrow> if e = SM_ERR_AUTH then raise SM_ERR_AUTH else ret None)"

definition cli_fill_passwords :: "'k cli_env \<Rightarrow> cli_options \<Rightarrow> (process, cli_options) comp" where
  "cli_fill_passwords C o' =
     andthen (gets (path_exists (c_os C) (given (db_path o')))) (\<lambda>found.
     andthen (if password o' = None \<and> cli_command_needs_master_password (given (command o')) then
         prompted (if command o' = Some ''init'' \<and> \<not> found then cli_prompt_password_confirmed C CLI_PASSWORD_MAX
           else cli_prompt_password C CLI_PASSWORD_MAX)
       else ret (password o')) (\<lambda>pw.
     andthen (if new_password o' = None \<and> command o' \<in> {Some ''rotate-kek'', Some ''rotate''} then
         prompted (cli_prompt_password_confirmed C CLI_PASSWORD_MAX)
       else ret (new_password o')) (\<lambda>new_pw.
     ret (o'\<lparr>password := pw, new_password := new_pw\<rparr>))))"

text \<open>Dispatch and \<open>vault_close\<close>; the first status that is not \<open>SM_OK\<close> decides the exit code.\<close>

definition cli_finish :: "'k cli_env \<Rightarrow> cli_options \<Rightarrow> process \<Rightarrow> (int \<times> process) option" where
  "cli_finish C o' p =
     (case cli_dispatch C o' p of
        None \<Rightarrow> None
      | Some (status, p1) \<Rightarrow>
          (case vault_shutdown (c_env C) (c_sqlite C) p1 of
             (close_status, p2) \<Rightarrow> Some (if isl status \<or> isl close_status then 1 else 0, p2)))"

text \<open>The exit code; \<open>argv\<close> does not ask for the clipboard helper. \<open>None\<close> is a run that does not end.\<close>

definition cli_main :: "'k cli_env \<Rightarrow> string list \<Rightarrow> process \<Rightarrow> (int \<times> process) option" where
  "cli_main C argv p =
     (if \<not> sodium_init_ok (c_env C) then Some (1, p)
      else case cli_parse_options (c_getenv C) argv of
        Inl _ \<Rightarrow> Some (2, p)
      | Inr o' \<Rightarrow>
          if opt_help o' then Some (0, snd (say_all C
            (case command o' of
               Some c \<Rightarrow> if cli_command_usage (Some c) \<noteq> None then cli_print_command_help (c_color C) c else cli_print_usage (c_color C)
             | None \<Rightarrow> cli_print_usage (c_color C)) p))
          else if command o' = None then Some (0, snd (say_all C (cli_print_intro (c_color C)) p))
          else case cli_fill_passwords C o' p of
            (Inl _, p1) \<Rightarrow> Some (1, p1)
          | (Inr o1, p1) \<Rightarrow> cli_finish C o1 p1)"

end
