(* ===== verification/Fuin_Vault_Unlock.thy ===== *)
theory Fuin_Vault_Unlock
  imports Fuin_Vault_Reach
begin

text \<open>
  Passwords and tokens of the vault, \<open>src/src/vault.c\<close>: what unlocking does by the right and
  by a wrong password, that a new master password opens the same contents, and that a
  revocation ends the tokens issued before it.
\<close>

section \<open>The right and the wrong password\<close>

lemma get_blob_total:
  assumes "healthy E" "g_db s" "metadata (tables s) key = Some b" "length b \<le> n"
  shows "vault_get_metadata_blob E key n s = (Inr (Some b), next_tick s)"
  using assms by (simp add: get_metadata_Inr healthy_def)

lemma load_auth_total:
  assumes "healthy E" "g_db s" "metadata (tables s) VAULT_METADATA_SALT = Some salt"
    and "metadata (tables s) VAULT_METADATA_VERIFIER = Some ver" "length salt = KDF_SALT_BYTES" "length ver = 32"
  shows "vault_load_auth_metadata E s = (Inr (Some (salt, ver)), next_tick (next_tick s))"
  using assms get_blob_total [OF assms(1,2,3), of KDF_SALT_BYTES] get_blob_total [OF assms(1), of "next_tick s" VAULT_METADATA_VERIFIER ver 32]
  by (simp add: vault_load_auth_metadata_def andthen_def crypto_hash_sha256_BYTES_def)

lemma load_meta_total:
  assumes "healthy E" "g_db s" "metadata (tables s) VAULT_METADATA_META_KEY_NONCE = Some n" "length n = 24"
    and "metadata (tables s) VAULT_METADATA_META_KEY_WRAPPED = Some w" "length w = VAULT_META_KEY_WRAP_BYTES"
    and "aead_decrypt E XCHACHA20_POLY1305 (kek_enc k) n (str_bytes VAULT_META_KEY_WRAP_AAD) w = Some mkey" "length mkey = 32"
  shows "vault_load_meta_key E k s = (Inr (k\<lparr>kek_meta := mkey\<rparr>), next_tick (next_tick s))"
  using assms get_blob_total [OF assms(1-3), of 24]
    get_blob_total [OF assms(1), of "next_tick s" VAULT_METADATA_META_KEY_WRAPPED w VAULT_META_KEY_WRAP_BYTES]
  by (simp add: vault_load_meta_key_def andthen_def)

text \<open>Unlocking by the password that opens the tables.\<close>

lemma unlock_total:
  assumes "opens E pw k (tables s)" "g_db s" "healthy E" "sha256_ok E"
  shows "\<exists>s'. vault_unlock_internal E pw initialize s = (Inr (), s') \<and> g_subkeys s' = Some k \<and> g_unlocked s' \<and>
    tables s' = tables s \<and> saved s' = saved s \<and> g_db s'"
proof -
  obtain salt mk k0 n w where o: "pw \<noteq> []" "metadata (tables s) VAULT_METADATA_SALT = Some salt" "length salt = KDF_SALT_BYTES"
    "fst (kdf_derive_master_key E pw salt) = Inr mk" "metadata (tables s) VAULT_METADATA_VERIFIER = Some (sha256 E mk)"
    "fst (kdf_derive_subkeys E mk) = Inr k0" "metadata (tables s) VAULT_METADATA_META_KEY_NONCE = Some n" "length n = 24"
    "metadata (tables s) VAULT_METADATA_META_KEY_WRAPPED = Some w" "length w = VAULT_META_KEY_WRAP_BYTES"
    "aead_decrypt E XCHACHA20_POLY1305 (kek_enc k0) n (str_bytes VAULT_META_KEY_WRAP_AAD) w = Some (kek_meta k)"
    "length (kek_meta k) = 32" "k = k0\<lparr>kek_meta := kek_meta k\<rparr>"
    using assms(1) unfolding opens_def by blast
  let ?s0 = "s\<lparr>g_subkeys := None, g_unlocked := False\<rparr>"
  let ?s2 = "next_tick (next_tick ?s0)" let ?s4 = "next_tick (next_tick ?s2)"
  have 1: "vault_load_auth_metadata E ?s0 = (Inr (Some (salt, sha256 E mk)), ?s2)"
    by (rule load_auth_total) (use assms o in \<open>simp_all add: sha256_ok_def\<close>)
  have 2: "vault_load_meta_key E k0 ?s2 = (Inr k, ?s4)"
    by (subst o(13), rule load_meta_total) (use assms o(7-12) in simp_all)
  have "vault_unlock_body E pw initialize ?s0 = (Inr k, ?s4)"
    using 1 2 o(4,6) by (simp add: vault_unlock_body_def andthen_def guard_def Let_def)
  then show ?thesis
    using o(1) assms(2)
    by (simp add: vault_unlock_internal_def andthen_def guard_def require_db_def vault_lock_state_def finally_do_def)
qed


text \<open>
  The right password opens the vault. When some password opens the tables with keys
  \<open>k\<close>, unlocking by that password in an environment in which nothing fails returns \<open>SM_OK\<close>,
  leaves exactly these keys unlocked, the stored metadata key among them, and the tables as
  they are; so does unlocking that does not initialise.
\<close>

theorem right_password_unlocks:
  assumes "opens E pw k (tables s)" "g_db s" "healthy E" "sha256_ok E"
  shows "\<exists>s'. vault_unlock_internal E pw initialize s = (Inr (), s') \<and> g_subkeys s' = Some k \<and> g_unlocked s' \<and>
    tables s' = tables s \<and> saved s' = saved s"
  using unlock_total [OF assms] by blast

text \<open>
  C10: A wrong password is refused. When the master key derived from the password has another
  digest than the stored verifier, unlocking returns \<open>SM_ERR_AUTH\<close>, leaves the vault locked
  whatever it was before, and only notes the failed attempt with its time in \<open>auth_failures\<close>.
\<close>

theorem wrong_password_refused:
  assumes "opens E pw k (tables s)" "g_db s" "healthy E" "sha256_ok E" "wrong \<noteq> []"
    and "metadata (tables s) VAULT_METADATA_SALT = Some salt" "fst (kdf_derive_master_key E wrong salt) = Inr mk"
    and "metadata (tables s) VAULT_METADATA_VERIFIER \<noteq> Some (sha256 E mk)"
  shows "\<exists>s' now. vault_unlock_internal E wrong initialize s = (Inl SM_ERR_AUTH, s') \<and> g_subkeys s' = None \<and> \<not> g_unlocked s' \<and>
    tables s' = (tables s)\<lparr>auth_failures := auth_failures (tables s) @ [(now, ''FAILURE'')]\<rparr> \<and>
    utils_format_iso8601 (clock E (tick s + 2)) UTILS_ISO8601_UTC_BUFFER_LEN = Inr now"
proof -
  obtain ver where o: "length salt = KDF_SALT_BYTES" "metadata (tables s) VAULT_METADATA_VERIFIER = Some ver" "length ver = 32"
    using assms(1,4,6) by (auto simp: opens_def sha256_ok_def)
  let ?s0 = "s\<lparr>g_subkeys := None, g_unlocked := False\<rparr>"
  let ?s2 = "next_tick (next_tick ?s0)"
  have 1: "vault_load_auth_metadata E ?s0 = (Inr (Some (salt, ver)), ?s2)"
    by (rule load_auth_total) (use assms o in simp_all)
  obtain now where now: "utils_now_iso8601 E UTILS_ISO8601_UTC_BUFFER_LEN ?s2 = (Inr now, next_tick ?s2)"
    using now_total [OF assms(3)] by metis
  let ?d = "(tables s)\<lparr>auth_failures := auth_failures (tables s) @ [(now, ''FAILURE'')]\<rparr>"
  have "vault_log_auth_failure_untrusted E ?s2 = (Inr (), next_tick ((next_tick ?s2)\<lparr>tables := ?d\<rparr>))"
    using now assms(2,3)
    by (simp add: vault_log_auth_failure_untrusted_def andthen_def require_db_def sql_write_def healthy_def)
  then have body: "vault_unlock_body E wrong initialize ?s0 = (Inl SM_ERR_AUTH, next_tick ((next_tick ?s2)\<lparr>tables := ?d\<rparr>))"
    using 1 assms(7,8) o(2) by (simp add: vault_unlock_body_def andthen_def guard_def Let_def)
  let ?s' = "(next_tick ((next_tick ?s2)\<lparr>tables := ?d\<rparr>))\<lparr>g_subkeys := None, g_unlocked := False\<rparr>"
  have "vault_unlock_internal E wrong initialize s = (Inl SM_ERR_AUTH, ?s')"
    using body assms(2,5)
    by (simp add: vault_unlock_internal_def andthen_def guard_def require_db_def vault_lock_state_def finally_do_def)
  moreover have "utils_format_iso8601 (clock E (tick s + 2)) UTILS_ISO8601_UTC_BUFFER_LEN = Inr now"
    using now by (auto simp: utils_now_iso8601_def andthen_eq_Inr next_tick_def split: if_splits)
  ultimately show ?thesis by (intro exI [of _ ?s'] exI [of _ now]) simp
qed

text \<open>
  C8: After a change of the master password the vault opens by the new one. When
  \<open>vault_rotate_kek\<close> has returned \<open>SM_OK\<close>, a later process that unlocks the durable tables by
  the new password, and in which nothing fails, gets keys under which every name shows the
  versions and contents it had before the change.
\<close>

theorem rotated_password_opens:
  assumes "vault_rotate_kek E new s = (Inr (), s')" "vault_inv E s" "g_subkeys s = Some k" "\<not> in_txn s"
    and "log_room (tables s)" "crypto_ok E" "kdf_ok E" "healthy E"
  shows "\<exists>k' s''. vault_unlock E new (reopened s') = (Inr (), s'') \<and> g_subkeys s'' = Some k' \<and>
    lookup_name E k' = lookup_name E k \<and>
    abs_vault E (kek_enc k') (secrets (tables s'')) = abs_vault E (kek_enc k) (secrets (committed s))"
proof -
  note k = unlocked_keys [OF assms(2,3,7,4)]
  obtain nk where r: "g_subkeys s' = Some (nk\<lparr>kek_meta := kek_meta k\<rparr>)" "\<not> in_txn s'"
      "opens E new (nk\<lparr>kek_meta := kek_meta k\<rparr>) (tables s')"
    using rotate_kek_Inr [OF assms(1) k(1) assms(3,5,6) k(3)] by blast
  let ?k = "nk\<lparr>kek_meta := kek_meta k\<rparr>"
  have abs: "vault_abs E ?k (tables s') = vault_abs E k (tables s)"
    using rotate_kek_refines [OF assms(1,3) k(1) assms(5,6) k(3)] r(1) by auto
  have t: "tables (reopened s') = tables s'" "g_db (reopened s')" using r(2) by (simp_all add: reopened_def)
  obtain s'' where u: "vault_unlock E new (reopened s') = (Inr (), s'')" "g_subkeys s'' = Some ?k" "tables s'' = tables s'"
    using unlock_total [of E new ?k "reopened s'" True] r(3) t assms(6,8) by (auto simp: vault_unlock_def crypto_ok_def)
  have "lookup_name E ?k = lookup_name E k"
    by (simp add: fun_eq_iff lookup_name_def vault_build_name_lookup_def)
  then show ?thesis using u abs assms(4) by (intro exI [of _ ?k] exI [of _ s'']) simp
qed

section \<open>Revoked tokens\<close>

lemma log_metadata:
  assumes "vault_log_success E k act tgt tv s = (Inr (), s')"
  shows "metadata (tables s') = metadata (tables s)"
proof -
  obtain r d where "insert_audit_row r (tables s) = Some d" "s' = s\<lparr>tables := d, tick := tick s + 5\<rparr>"
    using assms unfolding vault_log_success_def by (rule log_event_Inr)
  then show ?thesis using insert_audit_row_Some by fastforce
qed

lemma not_before_Inr:
  assumes "vault_get_token_not_before E s = (Inr w, s')"
  shows "w = (case metadata (tables s) VAULT_METADATA_TOKEN_NOT_BEFORE of None \<Rightarrow> 0 | Some b \<Rightarrow> read_le b)"
  using assms by (auto simp: vault_get_token_not_before_def andthen_eq_Inr get_metadata_Inr split: option.splits if_splits)

text \<open>
  C9: Revoking ends every token issued so far. Once \<open>vault_revoke_tokens\<close> has returned
  \<open>SM_OK\<close>, and until the next revocation, a token that \<open>vault_check_token\<close> accepts, under
  any keys and any required scope, verifies and was issued later than the revocation.
\<close>

theorem revoked_tokens_refused:
  assumes "vault_revoke_tokens E s = (Inr (), s1)" "clock E (tick s) \<le> INT64_MAX"
    and "metadata (tables t) VAULT_METADATA_TOKEN_NOT_BEFORE = metadata (tables s1) VAULT_METADATA_TOKEN_NOT_BEFORE"
    and "vault_check_token E J token required t = (Inr (), t')"
  shows "\<exists>k claims t1. g_subkeys t = Some k \<and> access_verify_token E J token required (kek_token k) t = (Inr claims, t1) \<and>
    clock E (tick s) < uint (issued_at claims)"
proof -
  obtain k now x1 x2 where rev: "0 < now" "now = clock E (tick s)"
      "tables x1 = (tables s)\<lparr>metadata := (metadata (tables s))(VAULT_METADATA_TOKEN_NOT_BEFORE \<mapsto> utils_write_u64_le (of_int now))\<rparr>"
      "vault_log_success E k ''TOKEN_REVOKE'' ''tokens'' 0 x1 = (Inr (), x2)" "tables s1 = tables x2"
    using revoke_tokens_Inr [OF assms(1)] by blast
  have "metadata (tables x2) = metadata (tables x1)" by (rule log_metadata [OF rev(4)])
  then have nb: "metadata (tables t) VAULT_METADATA_TOKEN_NOT_BEFORE = Some (utils_write_u64_le (of_int now))"
    using assms(3) rev(3,5) by simp
  obtain kt claims t1 w t2 where c: "g_subkeys t = Some kt" "access_verify_token E J token required (kek_token kt) t = (Inr claims, t1)"
      "vault_get_token_not_before E t1 = (Inr w, t2)" "\<not> (0 < w \<and> issued_at claims \<le> w)"
    using assms(4) by (auto simp: vault_check_token_def andthen_eq_Inr require_unlocked_Inr)
  have "tables t1 = tables t" using reads_state [OF reads_access(2) c(2)] by simp
  then have "w = read_le (utils_write_u64_le (of_int now))" using not_before_Inr [OF c(3)] nb by simp
  then have w: "w = of_int now" using u64.dec_enc [of "of_int now"] by (simp add: utils_read_u64_le_def)
  have "uint w = now" using w rev(1,2) assms(2) by (simp add: INT64_MAX_def unsigned_of_int take_bit_int_eq_self)
  then have "clock E (tick s) < uint (issued_at claims)"
    using c(4) rev(1,2) by (auto simp: word_le_def word_less_def)
  then show ?thesis using c(1,2) by blast
qed

section \<open>The sample vault\<close>

lemma sample_opens: "opens calm_env ''pw'' sample_keys (tables sample_unlocked)"
proof -
  let ?mk = "[112, 119] @ replicate 16 2 @ replicate 14 0"
  have "fst (kdf_derive_master_key calm_env ''pw'' (replicate 16 2)) = Inr ?mk" by code_simp
  moreover have "sha256 calm_env ?mk = ?mk" by code_simp
  moreover have "fst (kdf_derive_subkeys calm_env ?mk) = Inr sample_keys" by code_simp
  moreover have "aead_decrypt calm_env XCHACHA20_POLY1305 (kek_enc sample_keys) (replicate 24 8) (str_bytes VAULT_META_KEY_WRAP_AAD)
      (kek_meta sample_keys @ replicate 16 113) = Some (kek_meta sample_keys)" by code_simp
  ultimately show ?thesis
    by (auto simp: opens_def sample_unlocked_def credential_keys KDF_SALT_BYTES_def VAULT_META_KEY_WRAP_BYTES_def sample_keys_def)
qed

lemma sample_sha256: "sha256_ok calm_env"
  using calm_env_ok(1) by (simp add: crypto_ok_def)

theorem right_password_unlocks_witness:
  "\<exists>s'. vault_unlock_internal calm_env ''pw'' False (sample_unlocked\<lparr>g_subkeys := None\<rparr>) = (Inr (), s') \<and> g_subkeys s' = Some sample_keys"
  using right_password_unlocks [of calm_env "''pw''" sample_keys "sample_unlocked\<lparr>g_subkeys := None\<rparr>" False]
    sample_opens calm_env_ok(5) sample_sha256 by auto

theorem wrong_password_refused_witness:
  "\<exists>s' now. vault_unlock_internal calm_env ''no'' True sample_unlocked = (Inl SM_ERR_AUTH, s') \<and> g_subkeys s' = None \<and>
    auth_failures (tables s') = [(now, ''FAILURE'')]"
proof -
  let ?mk = "[110, 111] @ replicate 16 2 @ replicate 14 0"
  have "fst (kdf_derive_master_key calm_env ''no'' (replicate 16 2)) = Inr ?mk" by code_simp
  moreover have "sha256 calm_env ?mk = ?mk" by code_simp
  ultimately show ?thesis
    using wrong_password_refused [OF sample_opens sample_unlocked_simps(3) calm_env_ok(5) sample_sha256, of "''no''" "replicate 16 2" ?mk True]
    by (auto simp: sample_unlocked_def credential_keys)
qed

lemma put_blob_total:
  assumes "healthy E" "g_db s" "length v \<le> 1000"
  shows "vault_put_metadata_blob E key v s =
    (Inr (), next_tick ((next_tick s)\<lparr>tables := (tables s)\<lparr>metadata := (metadata (tables s))(key \<mapsto> v)\<rparr>\<rparr>))"
  using assms
  by (simp add: vault_put_metadata_blob_def andthen_def require_db_def guard_def sql_prepare_def sql_select_def sql_write_def
      healthy_def INT_MAX_def)

lemma sample_rotate: "\<exists>s'. vault_rotate_kek calm_env ''new'' sample_unlocked = (Inr (), s')"
proof -
  let ?E = calm_env and ?s = sample_unlocked
  note E = calm_env_ok(5,1)
  have ok: "sql_ok calm_env t" "sodium_init_ok calm_env" for t using E(1) by (simp_all add: healthy_def)
  have "\<not> isl (fst (vault_derive_credentials ?E ''new'' ?s))" by code_simp
  then obtain salt ver new s0 where 0: "vault_derive_credentials ?E ''new'' ?s = (Inr (salt, ver, new), s0)"
    by (cases "vault_derive_credentials ?E ''new'' ?s"; cases "fst (vault_derive_credentials ?E ''new'' ?s)") auto
  have rnd: "random_ok ?E" using E(2) by (simp add: crypto_ok_def)
  obtain mk where c: "fst (kdf_derive_subkeys ?E mk) = Inr new" "ver = sha256 ?E mk" "length salt = KDF_SALT_BYTES"
    using derive_credentials_Inr [OF 0 rnd] by blast
  have len: "length (kek_enc new) = 32" "length (kek_audit new) = 32" "length ver \<le> 1000" "length salt \<le> 1000"
    using c calm_env_ok(3) sample_sha256
    by (auto simp: kdf_ok_def kdf_derive_subkeys_def kdf_derive_subkey_def and_then_eq_Inr sha256_ok_def KDF_SALT_BYTES_def
        split: option.splits)
  have v: "view s0 = view ?s" by (rule view_steps, rule 0)
  have s0: "g_db s0" "\<not> in_txn s0" "secrets (tables s0) = []" "audit_log (tables s0) = []"
    using viewD [OF v] by simp_all
  let ?s1 = "next_tick (s0\<lparr>saved := Some (tables s0)\<rparr>)"
  have 1: "storage_begin_transaction ?E s0 = (Inr (), ?s1)"
    using s0 ok by (simp add: storage_begin_transaction_def andthen_def require_db_def in_txn_def)
  let ?s2 = "next_tick ?s1"
  have 2: "audit_verify_chain ?E (kek_audit sample_keys) ?s1 = (Inr (), ?s2)"
    using s0 ok by (simp add: audit_verify_chain_def andthen_def require_db_def sql_select_def audit_rows_def
        audit_validate_key_def crypto_auth_KEYBYTES_def sample_keys_def require_sodium_def)
  let ?s3 = "next_tick (next_tick (next_tick ?s2))"
  have 3: "key_manager_rotate_kek ?E (kek_enc sample_keys) (kek_enc new) ?s2 = (Inr (), ?s3)"
    using s0 ok len(1) by (simp add: key_manager_rotate_kek_def andthen_def require_db_def sql_select_def sql_prepare_def
        key_manager_validate_kek_def KEY_MANAGER_DEK_BYTES_def sample_keys_def require_sodium_def)
  obtain s4 where 4: "vault_put_wrapped_meta_key ?E (kek_meta sample_keys) (kek_enc new) ?s3 = (Inr (), s4)"
      "secrets (tables s4) = []" "audit_log (tables s4) = []" "g_db s4" "in_txn s4"
  proof -
    have "length (randombytes ?E (tick ?s3) 24) = 24" using rnd by (simp add: random_ok_def)
    moreover have "length (aead_encrypt ?E a k n ad m) = length m + tag_bytes a" for a k n ad m
      using E(2) by (simp add: crypto_ok_def aead_ok_def)
    ultimately show ?thesis
      using that s0 by (simp add: vault_put_wrapped_meta_key_def andthen_def guard_def put_blob_total [OF E(1)]
          VAULT_META_KEY_WRAP_BYTES_def sample_keys_def Let_def in_txn_def)
  qed
  obtain s5 where 5: "vault_put_metadata_blob ?E VAULT_METADATA_SALT salt s4 = (Inr (), s5)"
      "audit_log (tables s5) = []" "g_db s5" "in_txn s5"
    using put_blob_total [OF E(1) 4(4) len(4)] 4(3-5) by (simp add: in_txn_def)
  obtain s6 where 6: "vault_put_metadata_blob ?E VAULT_METADATA_VERIFIER ver s5 = (Inr (), s6)"
      "audit_log (tables s6) = []" "g_db s6" "in_txn s6"
    using put_blob_total [OF E(1) 5(3) len(3)] 5(2-4) by (simp add: in_txn_def)
  let ?s7 = "next_tick (next_tick s6)"
  have 7: "audit_resign_chain ?E (kek_audit new) s6 = (Inr (), ?s7)"
    using 6(2,3) ok len(2) by (simp add: audit_resign_chain_def andthen_def require_db_def sql_select_def sql_prepare_def
        audit_rows_def audit_validate_key_def crypto_auth_KEYBYTES_def require_sodium_def)
  have "audit_wf ?E (kek_audit new) (tables ?s7)" "log_room (tables ?s7)"
    using 6(2) by (simp_all add: audit_wf_def chain_ok_def audit_rows_def log_room_def INT_MAX_def)
  then obtain s8 where 8: "vault_log_success ?E new ''ROTATE_KEK'' ''vault'' 0 ?s7 = (Inr (), s8)"
    "view s8 = view (?s7\<lparr>tables := tables s8\<rparr>)"
    using log_success_total [OF E, of ?s7 new "''ROTATE_KEK''" "''vault''" 0] 6(3) len(2) by (auto simp: schema_actions_def)
  have "g_db s8" "saved s8 \<noteq> None" using 8(2) 6(3,4) by (auto simp: view_def in_txn_def)
  then have "storage_commit_transaction ?E s8 = (Inr (), next_tick (s8\<lparr>saved := None\<rparr>))"
    using ok by (auto simp: storage_commit_transaction_def andthen_def require_db_def)
  then show ?thesis
    using 0 1 2 3 4(1) 5(1) 6(1) 7 8(1)
    by (simp add: vault_rotate_kek_def vault_rotate_kek_body_def vault_require_unlocked_def guard_def require_db_def
        andthen_def finally_do_def commit_or_rollback_def vault_log_success_def)
qed

theorem rotated_password_opens_witness:
  "\<exists>s' s''. vault_rotate_kek calm_env ''new'' sample_unlocked = (Inr (), s') \<and> vault_unlock calm_env ''new'' (reopened s') = (Inr (), s'')"
proof -
  obtain s' where "vault_rotate_kek calm_env ''new'' sample_unlocked = (Inr (), s')" using sample_rotate by blast
  then show ?thesis
    using rotated_password_opens [OF _ sample_inv sample_unlocked_simps(1,4,7) calm_env_ok(1,3,5)] by blast
qed

text \<open>A revocation at an early time, and a token issued after it.\<close>

definition early_clock :: "nat \<Rightarrow> int" where
  "early_clock t = (if t = 100 then 1000 else 1719792000)"

definition early_env :: env where
  "early_env = sample_env\<lparr>clock := early_clock\<rparr>"

definition sample_later :: vault where
  "sample_later = sample_unlocked\<lparr>g_subkeys := Some (sample_keys\<lparr>kek_token := replicate 32 7\<rparr>),
     tables := (tables sample_unlocked)\<lparr>metadata := (metadata (tables sample_unlocked))
       (VAULT_METADATA_TOKEN_NOT_BEFORE \<mapsto> utils_write_u64_le 1000)\<rparr>\<rparr>"

lemma early_healthy: "healthy early_env" "crypto_ok early_env"
  using sample_hashes_ok sample_aead_ok sample_random_ok
  by (simp_all add: healthy_def early_env_def early_clock_def sample_env_def crypto_ok_def sha256_ok_def auth_ok_def
      generichash_ok_def aead_ok_def random_ok_def)

lemma sample_revoke: "\<exists>s1. vault_revoke_tokens early_env (sample_unlocked\<lparr>tick := 100\<rparr>) = (Inr (), s1)"
proof -
  let ?E = early_env and ?s = "sample_unlocked\<lparr>tick := 100\<rparr>"
  let ?s1 = "next_tick ((next_tick ?s)\<lparr>saved := Some (tables ?s)\<rparr>)"
  have ok: "sql_ok ?E t" for t using early_healthy(1) by (simp add: healthy_def)
  have s: "g_db ?s" "\<not> in_txn ?s" "g_subkeys ?s = Some sample_keys" "g_unlocked ?s" "audit_log (tables ?s) = []"
    by (simp_all add: in_txn_def) (simp_all add: sample_unlocked_def)
  have 1: "storage_begin_transaction ?E (next_tick ?s) = (Inr (), ?s1)"
    using s ok by (simp add: storage_begin_transaction_def andthen_def require_db_def in_txn_def)
  obtain s2 where 2: "vault_put_token_not_before ?E 1000 ?s1 = (Inr (), s2)" "audit_log (tables s2) = []" "g_db s2" "in_txn s2"
    using put_blob_total [OF early_healthy(1), of ?s1] s
    by (simp add: vault_put_token_not_before_def u64.width_enc in_txn_def)
  have "audit_wf ?E (kek_audit sample_keys) (tables s2)" "log_room (tables s2)" "length (kek_audit sample_keys) = 32"
    using 2(2) by (simp_all add: audit_wf_def chain_ok_def audit_rows_def log_room_def INT_MAX_def sample_keys_def)
  then obtain s3 where 3: "vault_log_success ?E sample_keys ''TOKEN_REVOKE'' ''tokens'' 0 s2 = (Inr (), s3)"
    "view s3 = view (s2\<lparr>tables := tables s3\<rparr>)"
    using log_success_total [OF early_healthy, of s2 sample_keys "''TOKEN_REVOKE''" "''tokens''" 0] 2(3) by (auto simp: schema_actions_def)
  have "g_db s3" "saved s3 \<noteq> None" using 3(2) 2(3,4) by (auto simp: view_def in_txn_def)
  then have "storage_commit_transaction ?E s3 = (Inr (), next_tick (s3\<lparr>saved := None\<rparr>))"
    using ok by (auto simp: storage_commit_transaction_def andthen_def require_db_def)
  moreover have "clock ?E 100 = 1000" by (simp add: early_env_def early_clock_def)
  ultimately show ?thesis
    using s 1 2(1) 3(1)
    by (simp add: vault_revoke_tokens_def vault_require_unlocked_def andthen_def guard_def finally_do_def commit_or_rollback_def)
qed

lemma sample_accepted:
  obtains token t' where "vault_check_token early_env sample_json token (Some ''read:a'') sample_later = (Inr (), t')"
proof -
  have c: "early_clock 0 = 1719792000" by (simp add: early_clock_def)
  obtain token s' where run: "access_issue_token early_env sample_json ''ci'' ''read:a'' 3600 (replicate 32 7) 2048 \<lparr>tick = 0\<rparr> = (Inr token, s')"
    using sample_issue_runs [of early_clock, OF c] unfolding early_env_def by blast
  have n: "nul_free ''ci''" "nul_free ''read:a''" "access_scope_allows ''read:a'' ''read:a''" by code_simp+
  have t: "tick sample_later = 14" by (simp add: sample_later_def sample_unlocked_def)
  have clk: "clock early_env 0 = 1719792000" "clock early_env 14 = 1719792000" by (simp_all add: early_env_def early_clock_def)
  have "fst (access_verify_token early_env sample_json token (Some ''read:a'') (replicate 32 7) sample_later) =
      Inr \<lparr>subject = ''ci'', scope = ''read:a'', issued_at = 1719792000, expires_at = 1719795600\<rparr>"
    using issued_token_result [OF run sample_json_ok _ _ _ n(1,2), of sample_later "Some ''read:a''"] n(3) t clk
      sample_clock_laws [of early_clock] by (simp add: early_env_def [symmetric] ACCESS_TOKEN_BUFFER_LEN_def Let_def)
  then obtain t1 where v: "access_verify_token early_env sample_json token (Some ''read:a'') (replicate 32 7) sample_later =
      (Inr \<lparr>subject = ''ci'', scope = ''read:a'', issued_at = 1719792000, expires_at = 1719795600\<rparr>, t1)"
    by (metis prod.collapse)
  have v1: "view t1 = view sample_later" using reads_view [OF reads_access(2) v] .
  have "metadata (tables t1) VAULT_METADATA_TOKEN_NOT_BEFORE = Some (utils_write_u64_le 1000)" "g_db t1"
    using viewD(1,5) [OF v1] by (simp_all add: sample_later_def)
  then have "vault_get_token_not_before early_env t1 = (Inr 1000, next_tick t1)"
    using get_blob_total [OF early_healthy(1), of t1 VAULT_METADATA_TOKEN_NOT_BEFORE "utils_write_u64_le 1000" 8]
      u64.dec_enc [of 1000]
    by (simp add: vault_get_token_not_before_def andthen_def u64.width_enc utils_read_u64_le_def)
  then have "vault_check_token early_env sample_json token (Some ''read:a'') sample_later = (Inr (), next_tick t1)"
    using v by (simp add: vault_check_token_def andthen_def guard_def vault_require_unlocked_def sample_later_def sample_unlocked_def)
  then show ?thesis using that by blast
qed

theorem revoked_tokens_refused_witness:
  "\<exists>token claims t1. access_verify_token early_env sample_json token (Some ''read:a'') (replicate 32 7) sample_later = (Inr claims, t1) \<and>
    1000 < uint (issued_at claims)"
proof -
  obtain s1 where s1: "vault_revoke_tokens early_env (sample_unlocked\<lparr>tick := 100\<rparr>) = (Inr (), s1)" using sample_revoke by blast
  obtain k now x1 x2 where rev: "now = clock early_env 100"
      "tables x1 = (tables sample_unlocked)\<lparr>metadata := (metadata (tables sample_unlocked))
        (VAULT_METADATA_TOKEN_NOT_BEFORE \<mapsto> utils_write_u64_le (of_int now))\<rparr>"
      "vault_log_success early_env k ''TOKEN_REVOKE'' ''tokens'' 0 x1 = (Inr (), x2)" "tables s1 = tables x2"
    using revoke_tokens_Inr [OF s1] by auto
  have clk: "clock early_env 100 = 1000" by (simp add: early_env_def early_clock_def)
  have nb: "metadata (tables sample_later) VAULT_METADATA_TOKEN_NOT_BEFORE = metadata (tables s1) VAULT_METADATA_TOKEN_NOT_BEFORE"
    using log_metadata [OF rev(3)] rev(1,2,4) clk by (simp add: sample_later_def)
  obtain token t' where t: "vault_check_token early_env sample_json token (Some ''read:a'') sample_later = (Inr (), t')"
    by (rule sample_accepted)
  have "clock early_env (tick (sample_unlocked\<lparr>tick := 100\<rparr>)) \<le> INT64_MAX" using clk by (simp add: INT64_MAX_def)
  from revoked_tokens_refused [OF s1 this nb t] clk show ?thesis by (auto simp: sample_later_def)
qed

end
