(* ===== verification/Fuin_Cli_Runs.thy ===== *)
theory Fuin_Cli_Runs
  imports Fuin_Cli Fuin_Vault_Unlock
begin

text \<open>
  What the commands of \<open>src/src/main.c\<close> guarantee: dispatch agrees with the table of commands, a
  token restricts the commands that take one, and a secret stored by one process is printed by
  another.
\<close>

section \<open>Lemmas: tokens\<close>

text \<open>The operation a token must allow for a command.\<close>

fun required_operation :: "cli_command \<Rightarrow> string option" where
  "required_operation Run_put = Some ''write''"
| "required_operation Run_generate = Some ''write''"
| "required_operation Run_get = Some ''read''"
| "required_operation Run_totp = Some ''read''"
| "required_operation Run_delete = Some ''delete''"
| "required_operation Run_rollback = Some ''write''"
| "required_operation _ = None"

text \<open>
  When the vault of a process accepts a token: authentic under its token key, with a scope that
  allows the required one, not expired, and issued after the last revocation, if there was one.
\<close>

definition token_accepted :: "'k cli_env \<Rightarrow> string \<Rightarrow> string \<Rightarrow> process \<Rightarrow> bool" where
  "token_accepted C t required q \<longleftrightarrow>
     (\<exists>k claims. g_subkeys (p_vault q) = Some k \<and>
        fst (access_verify_token (c_env C) (c_json C) t (Some required) (kek_token k) (p_vault q)) = Inr claims \<and>
        access_scope_allows (scope claims) required \<and>
        of_int (clock (c_env C) (tick (p_vault q))) < expires_at claims \<and>
        (case metadata (tables (p_vault q)) VAULT_METADATA_TOKEN_NOT_BEFORE of
           None \<Rightarrow> True
         | Some b \<Rightarrow> read_le b = (0 :: 64 word) \<or> read_le b < issued_at claims))"

lemma check_token_Inr:
  assumes "vault_check_token E J t req v = (Inr u, v')"
  obtains k claims v1 where "g_subkeys v = Some k" "access_verify_token E J t req (kek_token k) v = (Inr claims, v1)"
    "case metadata (tables v) VAULT_METADATA_TOKEN_NOT_BEFORE of
       None \<Rightarrow> True | Some b \<Rightarrow> read_le b = (0 :: 64 word) \<or> read_le b < issued_at claims"
proof -
  obtain k claims v1 w v2 where c: "g_subkeys v = Some k" "access_verify_token E J t req (kek_token k) v = (Inr claims, v1)"
      "vault_get_token_not_before E v1 = (Inr w, v2)" "\<not> (0 < w \<and> issued_at claims \<le> w)"
    using assms by (auto simp: vault_check_token_def andthen_eq_Inr require_unlocked_Inr)
  have "tables v1 = tables v" using reads_state [OF reads_access(2) c(2)] by simp
  then have "case metadata (tables v) VAULT_METADATA_TOKEN_NOT_BEFORE of
       None \<Rightarrow> True | Some b \<Rightarrow> read_le b = (0 :: 64 word) \<or> read_le b < issued_at claims"
    using not_before_Inr [OF c(3)] c(4) by (auto simp: word_gt_0 split: option.split)
  then show ?thesis using that c(1,2) by blast
qed

lemma authorize_Inr:
  assumes "cli_authorize_token C o' operation name q = (Inr u, q')" "token o' = Some t"
  shows "token_accepted C t (operation @ '':'' @ name) q" "name \<noteq> []"
proof -
  obtain v where v: "vault_check_token (c_env C) (c_json C) t (Some (operation @ '':'' @ name)) (p_vault q) = (Inr u, v)"
    "name \<noteq> []"
    using assms
    by (auto simp: cli_authorize_token_def andthen_eq_Inr guard_def cli_required_scope_def lift_result_def in_vault_Inr
        split: if_splits)
  obtain k claims v1 where k: "g_subkeys (p_vault q) = Some k"
    "access_verify_token (c_env C) (c_json C) t (Some (operation @ '':'' @ name)) (kek_token k) (p_vault q) = (Inr claims, v1)"
    "case metadata (tables (p_vault q)) VAULT_METADATA_TOKEN_NOT_BEFORE of
       None \<Rightarrow> True | Some b \<Rightarrow> read_le b = (0 :: 64 word) \<or> read_le b < issued_at claims"
    by (rule check_token_Inr [OF v(1)])
  from verify_token_Inr [OF k(2)] k show "token_accepted C t (operation @ '':'' @ name) q"
    unfolding token_accepted_def by auto
  show "name \<noteq> []" by (rule v(2))
qed

lemma authorize_keeps:
  assumes "cli_authorize_token C o' operation name q = (Inr u, q')"
  shows "view (p_vault q') = view (p_vault q)" "p_conn q' = p_conn q" "p_files q' = p_files q" "p_out q' = p_out q"
  using assms reads_view [OF reads_operations(10)]
  by (auto simp: cli_authorize_token_def andthen_eq_Inr guard_def lift_result_def in_vault_Inr split: option.splits if_splits)

lemma authorize_no_token: "token o' = None \<Longrightarrow> cli_authorize_token C o' operation name q = (Inr (), q)"
  by (simp add: cli_authorize_token_def ret_def)

section \<open>Lemmas: commands that a token gates\<close>

text \<open>A process at another moment, and the steps that only take time.\<close>

definition at_tick :: "nat \<Rightarrow> process \<Rightarrow> process" where
  "at_tick n p = p\<lparr>p_vault := (p_vault p)\<lparr>tick := n\<rparr>\<rparr>"

lemma at_tick_simps [simp]: "at_tick m (at_tick n p) = at_tick m p" "at_tick (tick (p_vault p)) p = p"
  by (simp_all add: at_tick_def)

definition clocked :: "(process, 'x) comp \<Rightarrow> bool" where
  "clocked m \<longleftrightarrow> (\<forall>p. \<exists>n. snd (m p) = at_tick n p)"

named_theorems clocked_rules \<open>computations of a process that only take time\<close>

lemma clockedD: "clocked m \<Longrightarrow> m p = (r, p') \<Longrightarrow> \<exists>n. p' = at_tick n p"
  by (metis clocked_def snd_conv)

lemma clocked_here: "(\<And>p. snd (m p) = p) \<Longrightarrow> clocked m"
  unfolding clocked_def by (metis at_tick_simps(2))

lemma clocked_basic [clocked_rules]:
  "clocked (ret x)" "clocked (raise e)" "clocked (lift_result r)" "clocked (guard b e)"
  by (rule clocked_here, simp add: ret_def raise_def lift_result_def guard_def)+

lemma clocked_andthen [clocked_rules]: "clocked m \<Longrightarrow> (\<And>x. clocked (f x)) \<Longrightarrow> clocked (andthen m f)"
  unfolding clocked_def andthen_def
  by (auto split: prod.splits sum.splits) (metis at_tick_simps(1) snd_conv)+

lemma clocked_finally [clocked_rules]: "clocked m \<Longrightarrow> (\<And>r. clocked (h r)) \<Longrightarrow> clocked (finally_do m h)"
  unfolding clocked_def finally_do_def
  by (auto split: prod.splits) (metis at_tick_simps(1) snd_conv)+

lemma clocked_prompt [clocked_rules]: "clocked (cli_prompt_password C n)"
  unfolding clocked_def cli_prompt_password_def by (auto simp: at_tick_def next_tick_def)

lemma clocked_vault [clocked_rules]:
  assumes "reads m"
  shows "clocked (in_vault m)"
proof -
  have run: "\<exists>n. v' = v\<lparr>tick := n\<rparr>" if "m v = (r, v')" for v v' :: vault and r
  proof -
    have "ticked (\<lambda>x. \<exists>n. x = v\<lparr>tick := n\<rparr>)" by (auto simp: ticked_def next_tick_def)
    moreover have "\<exists>n. v = v\<lparr>tick := n\<rparr>" by (rule exI [of _ "tick v"]) simp
    ultimately show ?thesis using preservesD [OF readsD [OF assms] _ that] by blast
  qed
  then show ?thesis
    unfolding clocked_def in_vault_def in_system_def on_vault_def at_tick_def
    by (auto split: prod.splits) (metis run)
qed

lemma clocked_typed [clocked_rules]: "clocked (typed_secret C)"
  unfolding typed_secret_def by (auto intro!: clocked_rules split: sum.split)

lemma clocked_authorize [clocked_rules]: "clocked (cli_authorize_token C o' operation name)"
  unfolding cli_authorize_token_def by (auto intro!: clocked_rules reads_operations split: option.split)

lemma reads_draw [read_rules]: "reads (uniform_draw E n)"
  by (auto simp: reads_def preserves_def ticked_def uniform_draw_def)

lemma reads_password_loop [read_rules]: "reads (password_loop E cs n)"
  by (induction n) (auto intro!: read_rules)

lemma reads_password: "reads (utils_generate_password E n len b)"
  unfolding utils_generate_password_def by (intro read_rules)

text \<open>
  A computation that does nothing before it has opened the vault and had the token accepted
  for an operation on the name.
\<close>

definition gated :: "'k cli_env \<Rightarrow> cli_options \<Rightarrow> string \<Rightarrow> string \<Rightarrow> (process, unit) comp \<Rightarrow> bool" where
  "gated C o' t operation m \<longleftrightarrow> (\<forall>p r p'. m p = (r, p') \<longrightarrow>
     (\<exists>n. (\<exists>e. r = Inl e \<and> (p' = at_tick n p \<or> cli_open_unlocked_vault C o' (at_tick n p) = (Inl e, p'))) \<or>
       (\<exists>q. cli_open_unlocked_vault C o' (at_tick n p) = (Inr (), q) \<and>
          (name_of o' \<noteq> [] \<and> token_accepted C t (operation @ '':'' @ name_of o') q \<or>
           (\<exists>e i. r = Inl e \<and> p' = at_tick i q)))))"

lemma gated_core:
  assumes "token o' = Some t"
  shows "gated C o' t operation (andthen (cli_open_unlocked_vault C o') (\<lambda>_.
    andthen (cli_authorize_token C o' operation (name_of o')) rest))"
  unfolding gated_def
proof (intro allI impI)
  fix p r p'
  assume run: "andthen (cli_open_unlocked_vault C o') (\<lambda>_.
    andthen (cli_authorize_token C o' operation (name_of o')) rest) p = (r, p')"
  obtain x q where open1: "cli_open_unlocked_vault C o' (at_tick (tick (p_vault p)) p) = (x, q)" by fastforce
  obtain y q' where auth: "cli_authorize_token C o' operation (name_of o') q = (y, q')" by fastforce
  show "\<exists>n. (\<exists>e. r = Inl e \<and> (p' = at_tick n p \<or> cli_open_unlocked_vault C o' (at_tick n p) = (Inl e, p'))) \<or>
       (\<exists>q. cli_open_unlocked_vault C o' (at_tick n p) = (Inr (), q) \<and>
          (name_of o' \<noteq> [] \<and> token_accepted C t (operation @ '':'' @ name_of o') q \<or>
           (\<exists>e i. r = Inl e \<and> p' = at_tick i q)))"
  proof (cases x)
    case (Inl e)
    then show ?thesis using run open1 by (intro exI [of _ "tick (p_vault p)"]) (auto simp: andthen_def)
  next
    case (Inr u)
    have "name_of o' \<noteq> [] \<and> token_accepted C t (operation @ '':'' @ name_of o') q \<or> (\<exists>e i. r = Inl e \<and> p' = at_tick i q)"
    proof (cases y)
      case (Inl e)
      then show ?thesis using run open1 \<open>x = Inr u\<close> auth clockedD [OF clocked_authorize auth] by (auto simp: andthen_def)
    next
      case (Inr w)
      show ?thesis using authorize_Inr [OF auth [unfolded Inr] assms] by blast
    qed
    then show ?thesis using Inr open1 by (intro exI [of _ "tick (p_vault p)"] disjI2 exI [of _ q]) simp
  qed
qed

lemma gated_after:
  assumes "clocked m" "\<And>x. gated C o' t operation (f x)"
  shows "gated C o' t operation (andthen m f)"
  unfolding gated_def
proof (intro allI impI)
  fix p r p' assume run: "andthen m f p = (r, p')"
  obtain x p1 where m: "m p = (x, p1)" by fastforce
  obtain n where n: "p1 = at_tick n p" using clockedD [OF assms(1) m] by blast
  show "\<exists>n. (\<exists>e. r = Inl e \<and> (p' = at_tick n p \<or> cli_open_unlocked_vault C o' (at_tick n p) = (Inl e, p'))) \<or>
       (\<exists>q. cli_open_unlocked_vault C o' (at_tick n p) = (Inr (), q) \<and>
          (name_of o' \<noteq> [] \<and> token_accepted C t (operation @ '':'' @ name_of o') q \<or>
           (\<exists>e i. r = Inl e \<and> p' = at_tick i q)))"
  proof (cases x)
    case (Inl e)
    then show ?thesis using run m n by (auto simp: andthen_def)
  next
    case (Inr a)
    then have "f a p1 = (r, p')" using run m by (simp add: andthen_def)
    then show ?thesis using assms(2) [of a] unfolding gated_def n by (metis at_tick_simps(1))
  qed
qed

lemma gated_commands:
  assumes "token o' = Some t"
  shows "gated C o' t ''write'' (cli_run_put C o')" "gated C o' t ''write'' (cli_run_generate C o')"
    "gated C o' t ''read'' (cli_run_get C o')" "gated C o' t ''read'' (cli_run_totp C o')"
    "gated C o' t ''delete'' (cli_run_delete C o')" "gated C o' t ''write'' (cli_run_rollback C o')"
proof -
  note core = gated_core [OF assms]
  show "gated C o' t ''write'' (cli_run_put C o')"
    unfolding cli_run_put_def has_name_def
    by (intro gated_after core) (auto intro!: clocked_rules split: option.split)
  show "gated C o' t ''write'' (cli_run_generate C o')"
    unfolding cli_run_generate_def has_name_def Let_def
    by (intro gated_after core clocked_rules reads_password)
  show "gated C o' t ''read'' (cli_run_get C o')" "gated C o' t ''read'' (cli_run_totp C o')"
    "gated C o' t ''delete'' (cli_run_delete C o')" "gated C o' t ''write'' (cli_run_rollback C o')"
    unfolding cli_run_get_def cli_run_totp_def cli_run_delete_def cli_run_rollback_def has_name_def
    by (intro gated_after core clocked_rules)+
qed

section \<open>Lemmas: a process on a known vault\<close>

text \<open>Opening and unlocking the database behind a path by its password.\<close>

lemma open_unlocked_known:
  assumes o: "command o' = Some c" "c \<noteq> ''init''" "db_path o' = Some path" "password o' = Some pw"
    and f: "path_entry (c_os C) path = Some e" "p_files p e = Some f" "path \<noteq> []" "realpath (c_os C) path = Some r"
      "db_load (c_sqlite C) (f_content f) = Some (cat, d)" "storage_verify_schema cat = Inr ()" "\<not> g_db (p_vault p)"
    and k: "opens (c_env C) pw k d"
    and env: "calm (c_os C)" "db_path_ok (c_os C)" "healthy (c_env C)" "sha256_ok (c_env C)"
  obtains q where "cli_open_unlocked_vault C o' p = (Inr (), q)" "tables (p_vault q) = d" "saved (p_vault q) = None"
    "g_subkeys (p_vault q) = Some k" "g_unlocked (p_vault q)" "g_db (p_vault q)" "p_conn q = Some (e, Some cat)"
    "p_files q e = Some (f\<lparr>f_mode := S_IRUSR_IWUSR\<rparr>)" "p_out q = p_out p"
proof -
  let ?p = "p\<lparr>p_vault := (p_vault p)\<lparr>g_subkeys := None, g_unlocked := False\<rparr>\<rparr>"
  have "\<And>t. sql_ok (c_env C) t" using env(3) by (simp add: healthy_def)
  then obtain p1 where open1: "storage_open (c_env C) (c_os C) (c_sqlite C) path ?p = (Inr (), p1)"
    using storage_open_total [OF env(1) _ env(2) f(1) _ f(3,4,5,6), of "c_env C" ?p] f(2,7) by auto
  have p1: "p_files p1 e = Some (f\<lparr>f_mode := S_IRUSR_IWUSR\<rparr>)" "p_conn p1 = Some (e, Some cat)"
    "tables (p_vault p1) = d" "saved (p_vault p1) = None" "g_db (p_vault p1)" "p_out p1 = p_out p"
    by (rule storage_open_Inr [OF open1 env(2)]; use f in auto)+
  have "opens (c_env C) pw k (tables (p_vault p1))" using k p1(3) by simp
  from unlock_total [OF this p1(5) env(3,4), of False] obtain v where
    v: "vault_unlock_existing (c_env C) pw (p_vault p1) = (Inr (), v)" "g_subkeys v = Some k" "g_unlocked v"
      "tables v = d" "saved v = None" "g_db v"
    using p1(3,4) by (auto simp: vault_unlock_existing_def)
  have pw: "pw \<noteq> []" using k by (auto simp: opens_def)
  have "cli_open_unlocked_vault C o' p = (Inr (), p1\<lparr>p_vault := v\<rparr>)"
    using o f(1,2) open1 v(1) pw
    by (simp add: cli_open_unlocked_vault_def andthen_def lift_result_def cli_require_password_def blank_def given_def
        gets_def guard_def path_exists_def vault_open_eq in_vault_def in_system_def on_vault_def)
  then show ?thesis by (rule that) (use v p1 in simp_all)
qed

lemma shutdown_healthy:
  assumes "vault_shutdown E L p = (r, p')" "healthy E"
  shows "r = Inr ()" "p_out p' = p_out p"
  using assms
  by (auto simp: vault_shutdown_def andthen_def in_vault_def in_system_def on_vault_def lock_state_eq close_connection_def
      storage_close_def sync_file_def healthy_def split: if_splits option.splits)

lemma not_isl_unit: "\<not> isl (r :: unit result) \<longleftrightarrow> r = Inr ()"
  by (cases r) simp_all

lemma emit_calm:
  "calm (c_os C) \<Longrightarrow> emit C data p = (Inr True, p\<lparr>p_vault := next_tick (p_vault p), p_out := p_out p @ data\<rparr>)"
  by (simp add: emit_def Let_def calm_def)

text \<open>Storing in an opened vault, after the token has been checked.\<close>

lemma put_tail_Inr:
  assumes run: "andthen (cli_authorize_token C o' ''write'' n) (\<lambda>_.
      in_vault (vault_put_with_options (c_env C) n secret alg ttl)) q = (Inr (), q')"
    and q: "g_subkeys (p_vault q) = Some k" "saved (p_vault q) = None" "g_db (p_vault q)"
      "keys_ok (c_env C) k (tables (p_vault q))" "log_room (tables (p_vault q))"
    and env: "crypto_ok (c_env C)" "hex_ok (c_env C)"
  shows "keys_ok (c_env C) k (committed (p_vault q'))" "g_db (p_vault q')" "n \<noteq> []"
    "spec_active (vault_abs (c_env C) k (committed (p_vault q')) (lookup_name (c_env C) k n)) = Some secret"
    "length (audit_log (committed (p_vault q'))) = Suc (length (audit_log (tables (p_vault q))))"
    "metadata (committed (p_vault q')) = metadata (tables (p_vault q))"
    "p_conn q' = p_conn q" "p_files q' = p_files q" "p_out q' = p_out q"
proof -
  obtain q1 v where 1: "cli_authorize_token C o' ''write'' n q = (Inr (), q1)"
    "vault_put_with_options (c_env C) n secret alg ttl (p_vault q1) = (Inr (), v)" "q' = q1\<lparr>p_vault := v\<rparr>"
    using run by (auto simp: andthen_eq_Inr in_vault_Inr)
  have q1: "view (p_vault q1) = view (p_vault q)" "p_conn q1 = p_conn q" "p_files q1 = p_files q" "p_out q1 = p_out q"
    using authorize_keeps [OF 1(1)] by simp_all
  note v = viewD [OF q1(1)]
  have "g_subkeys (p_vault q1) = Some k" using v(3) q(1) by (simp add: session_of_def)
  note put = put_keeps [OF 1(2) this]
  note put = put [OF _ _ env, unfolded v(1), OF q(4,5)]
  have c: "committed v = tables v" by (rule committed_closed [OF put(4)])
  show "keys_ok (c_env C) k (committed (p_vault q'))" "g_db (p_vault q')" "n \<noteq> []"
    "spec_active (vault_abs (c_env C) k (committed (p_vault q')) (lookup_name (c_env C) k n)) = Some secret"
    "length (audit_log (committed (p_vault q'))) = Suc (length (audit_log (tables (p_vault q))))"
    "metadata (committed (p_vault q')) = metadata (tables (p_vault q))"
    "p_conn q' = p_conn q" "p_files q' = p_files q" "p_out q' = p_out q"
    using put q(3) v(5) 1(3) q1 c by simp_all
qed

text \<open>What a successful \<open>put\<close> on a known vault leaves, and that a \<open>get\<close> on it prints the secret.\<close>

lemma get_known:
  assumes o: "command o' = Some ''get''" "db_path o' = Some path" "password o' = Some pw" "opt_name o' = Some n"
      "token o' = None" "opt_version o' = 0" "\<not> copy o'" "raw o'"
    and f: "path_entry (c_os C) path = Some e" "p_files p e = Some f" "path \<noteq> []" "realpath (c_os C) path = Some r"
      "db_load (c_sqlite C) (f_content f) = Some (cat, d)" "storage_verify_schema cat = Inr ()" "\<not> g_db (p_vault p)"
    and k: "opens (c_env C) pw k d" "keys_ok (c_env C) k d" "log_room d" "n \<noteq> []"
      "spec_active (vault_abs (c_env C) k d (lookup_name (c_env C) k n)) = Some secret" "length secret \<le> CLI_MAX_SECRET_BYTES"
    and env: "calm (c_os C)" "db_path_ok (c_os C)" "healthy (c_env C)" "crypto_ok (c_env C)" "hex_ok (c_env C)" "kdf_ok (c_env C)"
  obtains q where "cli_dispatch C o' p = Some (Inr (), q)" "p_out q = p_out p @ secret"
proof -
  have sha: "sha256_ok (c_env C)" using env(4) by (simp add: crypto_ok_def)
  have ne: "''get'' \<noteq> ''init''" by simp
  obtain q where q: "cli_open_unlocked_vault C o' p = (Inr (), q)" "tables (p_vault q) = d"
    "g_subkeys (p_vault q) = Some k" "g_unlocked (p_vault q)" "g_db (p_vault q)" "p_out q = p_out p"
    by (rule open_unlocked_known [OF o(1) ne o(2,3) f k(1) env(1-3) sha]) blast
  have len: "length (kek_audit k) = 32" using opens_lengths k(1) env(6) by blast
  have "fst (vault_get (c_env C) n CLI_MAX_SECRET_BYTES (p_vault q)) = Inr secret"
    using read_total [OF env(3-5) _ q(5) _ len k(4), of None CLI_MAX_SECRET_BYTES] q(2-4) k(2,3,5,6)
    by (simp add: vault_get_def andthen_def vault_require_unlocked_def)
  then obtain v where v: "vault_get (c_env C) n CLI_MAX_SECRET_BYTES (p_vault q) = (Inr secret, v)" by (metis prod.collapse)
  let ?q = "q\<lparr>p_vault := next_tick v, p_out := p_out q @ secret\<rparr>"
  have "cli_run_get C o' p = (Inr (), ?q)"
    using q(1) v k(4) o emit_calm [OF env(1), of secret "q\<lparr>p_vault := v\<rparr>"]
    by (simp add: cli_run_get_def andthen_def has_name_def guard_def blank_def name_of_def given_def authorize_no_token
        in_vault_def in_system_def on_vault_def when_ok_def ret_def)
  then have "cli_dispatch C o' p = Some (Inr (), ?q)"
    using o(1) by (simp add: cli_dispatch_def blank_def given_def cli_select_def)
  then show ?thesis by (rule that) (simp add: q(6))
qed

lemma put_known:
  assumes run: "cli_dispatch C o' p = Some (Inr (), q)"
    and o: "command o' = Some ''put''" "db_path o' = Some path" "password o' = Some pw" "opt_name o' = Some n" "read_stdin o'"
      "c_stdin C = (secret, failed)"
    and f: "path_entry (c_os C) path = Some e" "p_files p e = Some f" "path \<noteq> []" "realpath (c_os C) path = Some r"
      "db_load (c_sqlite C) (f_content f) = Some (cat, d)" "storage_verify_schema cat = Inr ()" "\<not> g_db (p_vault p)"
    and k: "opens (c_env C) pw k d" "keys_ok (c_env C) k d" "int (length (audit_log d)) + 1 < INT_MAX"
    and env: "calm (c_os C)" "db_path_ok (c_os C)" "healthy (c_env C)" "crypto_ok (c_env C)" "hex_ok (c_env C)"
  shows "opens (c_env C) pw k (committed (p_vault q))" "keys_ok (c_env C) k (committed (p_vault q))"
    "log_room (committed (p_vault q))" "n \<noteq> []" "length secret \<le> CLI_MAX_SECRET_BYTES"
    "spec_active (vault_abs (c_env C) k (committed (p_vault q)) (lookup_name (c_env C) k n)) = Some secret"
    "p_conn q = Some (e, Some cat)" "p_files q e = Some (f\<lparr>f_mode := S_IRUSR_IWUSR\<rparr>)" "g_db (p_vault q)"
proof -
  have sha: "sha256_ok (c_env C)" using env(4) by (simp add: crypto_ok_def)
  have ne: "''put'' \<noteq> ''init''" by simp
  obtain q0 where q0: "cli_open_unlocked_vault C o' p = (Inr (), q0)" "tables (p_vault q0) = d" "saved (p_vault q0) = None"
    "g_subkeys (p_vault q0) = Some k" "g_db (p_vault q0)" "p_conn q0 = Some (e, Some cat)"
    "p_files q0 e = Some (f\<lparr>f_mode := S_IRUSR_IWUSR\<rparr>)"
    by (rule open_unlocked_known [OF o(1) ne o(2,3) f k(1) env(1-3) sha]) blast
  have "cli_run_put C o' p = (Inr (), q)"
    using run o(1) by (simp add: cli_dispatch_def blank_def given_def cli_select_def)
  then have put: "andthen (cli_authorize_token C o' ''write'' n) (\<lambda>_.
      in_vault (vault_put_with_options (c_env C) n secret (opt_algorithm o') (ttl_of o'))) q0 = (Inr (), q)"
    and len: "length secret \<le> CLI_MAX_SECRET_BYTES"
    using q0(1) o(4-6)
    by (auto simp: cli_run_put_def andthen_def has_name_def guard_def blank_def lift_result_def cli_read_stdin_secret_def
        name_of_def given_def split: if_splits)
  have room: "log_room (tables (p_vault q0))" using k(3) q0(2) by (simp add: log_room_def)
  note t = put_tail_Inr [OF put q0(4,3,5) _ room env(4,5), unfolded q0(2), OF k(2)]
  show "opens (c_env C) pw k (committed (p_vault q))" using t(6) k(1) opens_meta by blast
  show "log_room (committed (p_vault q))" using t(5) k(3) by (simp add: log_room_def)
  show "keys_ok (c_env C) k (committed (p_vault q))" "n \<noteq> []"
    "spec_active (vault_abs (c_env C) k (committed (p_vault q)) (lookup_name (c_env C) k n)) = Some secret"
    "p_conn q = Some (e, Some cat)" "p_files q e = Some (f\<lparr>f_mode := S_IRUSR_IWUSR\<rparr>)" "g_db (p_vault q)"
    using t q0(6,7) by simp_all
  show "length secret \<le> CLI_MAX_SECRET_BYTES" by (rule len)
qed

section \<open>Properties\<close>

text \<open>
  C4: A secret survives the process that stored it. When \<open>fuin put NAME --stdin\<close> on the
  database of a vault ended with exit code 0, a later process running \<open>fuin get NAME --raw\<close> with
  the same password, in which no call fails, ends with exit code 0 and its standard output is
  exactly the bytes that were read from standard input.
\<close>

theorem put_then_get_process:
  assumes put: "cli_finish C o1 (process_start t1 fs d1) = Some (0, p1)"
    and o1: "command o1 = Some ''put''" "db_path o1 = Some path" "password o1 = Some pw" "opt_name o1 = Some n" "read_stdin o1"
      "c_stdin C = (secret, failed)"
    and o2: "command o2 = Some ''get''" "db_path o2 = Some path" "password o2 = Some pw" "opt_name o2 = Some n"
      "token o2 = None" "opt_version o2 = 0" "\<not> copy o2" "raw o2"
    and f: "path_entry (c_os C) path = Some e" "fs e = Some f" "path \<noteq> []" "realpath (c_os C) path = Some r"
      "db_load (c_sqlite C) (f_content f) = Some (cat, d)" "storage_verify_schema cat = Inr ()"
    and k: "opens (c_env C) pw k d" "keys_ok (c_env C) k d" "int (length (audit_log d)) + 1 < INT_MAX"
    and env: "calm (c_os C)" "db_path_ok (c_os C)" "healthy (c_env C)" "crypto_ok (c_env C)" "hex_ok (c_env C)" "kdf_ok (c_env C)"
    and sqlite: "\<And>q. cli_dispatch C o1 (process_start t1 fs d1) = Some (Inr (), q) \<Longrightarrow> reads_back (c_sqlite C) q"
  shows "\<exists>p2. cli_finish C o2 (process_start t2 (process_end (c_sqlite C) p1) d2) = Some (0, p2) \<and> p_out p2 = secret"
proof -
  let ?p = "process_start t1 fs d1"
  obtain q where q: "cli_dispatch C o1 ?p = Some (Inr (), q)" and close: "\<exists>r. vault_shutdown (c_env C) (c_sqlite C) q = (r, p1)"
    using put by (auto simp: cli_finish_def not_isl_unit split: option.splits prod.splits if_splits)
  have p: "p_files ?p e = Some f" "\<not> g_db (p_vault ?p)" using f(2) by (simp_all add: process_start_def)
  note stored = put_known [OF q o1 f(1) p(1) f(3-6) p(2) k env(1-5)]
  let ?d = "committed (p_vault q)" let ?p2 = "process_start t2 (process_end (c_sqlite C) p1) d2"
  let ?f = "f\<lparr>f_mode := S_IRUSR_IWUSR, f_content := db_image (c_sqlite C) (cat, ?d)\<rparr>"
  have f2: "p_files ?p2 e = Some ?f" "\<not> g_db (p_vault ?p2)" "p_out ?p2 = []"
    using close end_after_shutdown(1) [OF _ stored(7,8,9)] by (auto simp: process_start_def)
  have "db_load (c_sqlite C) (f_content ?f) = Some (cat, ?d)"
    using sqlite [OF q] stored(7) by (simp add: reads_back_def)
  from get_known [OF o2 f(1) f2(1) f(3,4) this f(6) f2(2) stored(1-4) stored(6,5) env]
  obtain q2 where q2: "cli_dispatch C o2 ?p2 = Some (Inr (), q2)" "p_out q2 = secret" using f2(3) by auto
  obtain r3 p3 where s: "vault_shutdown (c_env C) (c_sqlite C) q2 = (r3, p3)" by fastforce
  have "r3 = Inr ()" "p_out p3 = p_out q2" using shutdown_healthy [OF s env(3)] by simp_all
  then show ?thesis using q2 s by (simp add: cli_finish_def)
qed

text \<open>
  C20: A token restricts what a command does. A command that stores, reads, deletes or restores
  a secret and that is given a token does one of three things. It fails before the vault is open,
  and then the process is what the failed opening left, or as it was but for the clock. It opens
  the vault of this run, refuses, and changes nothing after the opening. Or the vault it opened
  accepts the token for this very operation and name: the token is authentic under the vault's
  token key, has not expired, was issued after the last revocation, and its scope allows the
  operation on the name. Success is only possible in the last case.
\<close>

theorem token_gates_commands:
  assumes "cli_run C o' c p = Some (r, p')" "token o' = Some t" "required_operation c = Some operation"
  shows "\<exists>n. (\<exists>e. r = Inl e \<and> (p' = at_tick n p \<or> cli_open_unlocked_vault C o' (at_tick n p) = (Inl e, p'))) \<or>
    (\<exists>q. cli_open_unlocked_vault C o' (at_tick n p) = (Inr (), q) \<and>
       (name_of o' \<noteq> [] \<and> token_accepted C t (operation @ '':'' @ name_of o') q \<or>
        (\<exists>e i. r = Inl e \<and> p' = at_tick i q)))"
proof -
  have "\<exists>m. gated C o' t operation m \<and> m p = (r, p')"
    using assms(1,3) gated_commands [OF assms(2), of C] by (cases c) auto
  then show ?thesis unfolding gated_def by blast
qed

text \<open>The spelling of a command that its usage line teaches.\<close>

fun canonical :: "cli_command \<Rightarrow> string" where
  "canonical Run_init = ''init''"
| "canonical Run_put = ''put''"
| "canonical Run_generate = ''generate''"
| "canonical Run_get = ''get''"
| "canonical Run_totp = ''totp''"
| "canonical Run_list = ''list''"
| "canonical Run_delete = ''delete''"
| "canonical Run_rollback = ''rollback''"
| "canonical Run_rotate_kek = ''rotate-kek''"
| "canonical Run_check_expiry = ''check-expiry''"
| "canonical Run_auto_rotate = ''auto-rotate''"
| "canonical Run_issue_token = ''issue-token''"
| "canonical Run_check_token = ''check-token''"
| "canonical Run_revoke_tokens = ''revoke-tokens''"
| "canonical Run_audit_verify = ''audit-verify''"
| "canonical Run_audit_root = ''audit-root''"
| "canonical Run_audit_proof = ''audit-proof''"
| "canonical Run_audit_verify_proof = ''audit-verify-proof''"
| "canonical Run_audit_keygen = ''audit-keygen''"
| "canonical Run_audit_sign_root = ''audit-sign-root''"
| "canonical Run_audit_verify_root_sig = ''audit-verify-root-sig''"
| "canonical Run_status_report = ''status-report''"
| "canonical Run_pqc_keygen = ''pqc-keygen''"
| "canonical Run_backup_export = ''backup-export''"
| "canonical Run_backup_import = ''backup-import''"

lemma usage_of_spellings:
  "list_all (\<lambda>s. cli_command_usage (Some s) =
     (case cli_select s of None \<Rightarrow> None | Some c \<Rightarrow> cli_command_usage (Some (canonical c)))) (map fst CLI_COMMAND_HELP)"
  by code_simp

lemma select_canonical: "cli_select (canonical c) = Some c"
  by (induction c; code_simp)

lemma usage_canonical: "cli_command_usage (Some (canonical c)) \<noteq> None"
  by (induction c; code_simp)

text \<open>
  The table of commands and dispatch agree, as the comment on the table demands: a spelling
  has a usage line exactly when dispatch runs a command for it, and the line is the one of that
  command's canonical spelling, which is a command itself.
\<close>

theorem dispatch_matches_help:
  "cli_command_usage (Some s) =
     (case cli_select s of None \<Rightarrow> None | Some c \<Rightarrow> cli_command_usage (Some (canonical c))) \<and>
   cli_select (canonical c) = Some c \<and> cli_command_usage (Some (canonical c)) \<noteq> None"
proof -
  have "cli_command_usage (Some s) = (case cli_select s of None \<Rightarrow> None | Some c \<Rightarrow> cli_command_usage (Some (canonical c)))"
  proof (cases "s \<in> set (map fst CLI_COMMAND_HELP)")
    case True
    then show ?thesis using usage_of_spellings unfolding list_all_iff by blast
  next
    case False
    then have "map_of CLI_COMMAND_HELP s = None" by (simp add: map_of_eq_None_iff)
    moreover have "cli_select s = None" using False by (simp add: CLI_COMMAND_HELP_def cli_select_def)
    ultimately show ?thesis by (simp add: cli_command_usage_def)
  qed
  then show ?thesis using select_canonical usage_canonical by blast
qed

section \<open>A sample run of two processes\<close>

lemma andthen_cong:
  "(\<And>x s'. m s = (Inr x, s') \<Longrightarrow> f x s' = g x s') \<Longrightarrow> andthen m f s = andthen m g s"
  by (auto simp: andthen_def split: prod.splits sum.splits)

text \<open>Opening depends on the format only at the contents of the files that are there.\<close>

lemma storage_open_load_cong:
  assumes "\<And>e f. p_files p e = Some f \<Longrightarrow> db_load L (f_content f) = db_load L' (f_content f)" "db_image L = db_image L'"
  shows "storage_open E H L path p = storage_open E H L' path p"
proof -
  have "sync_file L = sync_file L'" by (rule ext) (simp add: sync_file_def assms(2) split: option.split)
  from this have "close_connection E L = close_connection E L'" unfolding close_connection_def by presburger
  then have close: "or_close E L m = or_close E L' m" for m unfolding or_close_def by presburger
  have conn: "connect E H L r (ret ()) p' = connect E H L' r (ret ()) p'"
    if "\<And>e f. p_files p' e = Some f \<Longrightarrow> db_load L (f_content f) = db_load L' (f_content f)" for r p'
  proof -
    have "sqlite3_open E H L r p' = sqlite3_open E H L' r p'"
      using that by (auto simp: sqlite3_open_def Let_def split: option.splits)
    then show ?thesis by (simp add: connect_def andthen_def)
  qed
  have kept: "map_option f_content (p_files p' e) = map_option f_content (p_files p e)"
    if "in_disk (storage_open_owner_only_fd H path False) p = (Inr u, p1)"
      "in_disk (storage_resolve_db_path H path) p1 = (Inr r, p')" for u p1 r p' e
    using in_disk_Inr [OF that(1)] in_disk_Inr [OF that(2)]
    by (auto elim!: open_fd_Inr dest!: tightens_resolve)
  show ?thesis unfolding storage_open_def close
  proof (intro andthen_cong)
    fix a p0 b p1 c p2 d p3 r p4
    assume "guard (path \<noteq> []) SM_ERR_INVALID_ARGUMENT p = (Inr a, p0)" "gets (g_db \<circ> p_vault) p0 = (Inr b, p1)"
      "guard (\<not> b) SM_ERR_STORAGE p1 = (Inr c, p2)" and fd: "in_disk (storage_open_owner_only_fd H path False) p2 = (Inr d, p3)"
      and res: "in_disk (storage_resolve_db_path H path) p3 = (Inr r, p4)"
    then have "p2 = p" by (auto simp: guard_def gets_def)
    then have same: "map_option f_content (p_files p4 e) = map_option f_content (p_files p e)" for e
      using kept fd res by blast
    have "connect E H L r (ret ()) p4 = connect E H L' r (ret ()) p4"
    proof (rule conn)
      fix e f assume "p_files p4 e = Some f"
      then obtain f0 where "p_files p e = Some f0" "f_content f0 = f_content f" using same [of e] by (cases "p_files p e") auto
      then show "db_load L (f_content f) = db_load L' (f_content f)" using assms(1) by metis
    qed
    then show "or_close E L' (connect E H L r (ret ())) p4 = or_close E L' (connect E H L' r (ret ())) p4"
      by (simp add: or_close_def finally_do_def)
  qed
qed

definition sample_cli :: "sqlite \<Rightarrow> sample_key cli_env" where
  "sample_cli L = \<lparr>c_env = calm_env, c_os = db_os, c_openssl = sample_openssl, c_json = sample_json, c_sqlite = L,
     c_getenv = sample_getenv, c_hex2bin = (\<lambda>_ _. None), c_color = False, c_stdin = ([1, 2], False),
     c_tty = (\<lambda>_. No_tty), c_clipboard = (\<lambda>_ _. Inr ())\<rparr>"

lemma sample_cli_simps [simp]:
  "c_env (sample_cli L) = calm_env" "c_os (sample_cli L) = db_os" "c_sqlite (sample_cli L) = L"
  "c_stdin (sample_cli L) = ([1, 2], False)"
  by (simp_all add: sample_cli_def)

definition sample_put_options :: cli_options where
  "sample_put_options = cli_init_options\<lparr>command := Some ''put'', db_path := Some ''v.db'', password := Some ''pw'',
     opt_name := Some ''a'', read_stdin := True\<rparr>"

definition sample_get_options :: cli_options where
  "sample_get_options = cli_init_options\<lparr>command := Some ''get'', db_path := Some ''v.db'', password := Some ''pw'',
     opt_name := Some ''a'', raw := True\<rparr>"

abbreviation "sample_start \<equiv> process_start 0 sample_files (tables sample_unlocked)"

text \<open>The format knows the tables before the run and those the run ends with.\<close>

definition sample_after :: process where
  "sample_after = snd (the (cli_dispatch (sample_cli (sample_sqlite (tables sample_unlocked) (tables sample_unlocked)))
     sample_put_options sample_start))"

definition sample_format :: sqlite where
  "sample_format = sample_sqlite (tables sample_unlocked) (committed (p_vault sample_after))"

lemma sample_put_any_format:
  "cli_dispatch (sample_cli (sample_sqlite d1 d2)) sample_put_options (process_start t sample_files d) =
    cli_dispatch (sample_cli (sample_sqlite d1 d3)) sample_put_options (process_start t sample_files d)"
proof -
  have "storage_open E H (sample_sqlite d1 d2) path p = storage_open E H (sample_sqlite d1 d3) path p"
    if "p_files p = sample_files" for E H path p
    by (rule storage_open_load_cong) (auto simp: sample_sqlite_def that sample_files_def split: if_splits)
  then have opened: "cli_open_unlocked_vault (sample_cli (sample_sqlite d1 d2)) o' p =
      cli_open_unlocked_vault (sample_cli (sample_sqlite d1 d3)) o' p"
    if "p_files p = sample_files" "command o' = Some ''put''" for o' p
    using that
    by (simp add: cli_open_unlocked_vault_def andthen_def lift_result_def gets_def guard_def vault_open_eq sample_cli_def
        split: sum.split)
  have o: "command sample_put_options = Some ''put''" "token sample_put_options = None" "read_stdin sample_put_options"
      "\<not> blank (opt_name sample_put_options)"
    by (simp_all add: sample_put_options_def cli_init_options_def blank_def)
  have "cli_run_put (sample_cli L) sample_put_options p = andthen (cli_open_unlocked_vault (sample_cli L) sample_put_options) (\<lambda>_.
      in_vault (vault_put_with_options calm_env (name_of sample_put_options) [1, 2] (opt_algorithm sample_put_options)
        (ttl_of sample_put_options))) p" for L p
    using o by (simp add: cli_run_put_def andthen_def has_name_def guard_def lift_result_def cli_read_stdin_secret_def
        CLI_MAX_SECRET_BYTES_def authorize_no_token split: prod.split sum.split)
  then have "cli_run_put (sample_cli (sample_sqlite d1 d2)) sample_put_options (process_start t sample_files d) =
      cli_run_put (sample_cli (sample_sqlite d1 d3)) sample_put_options (process_start t sample_files d)"
    using opened [OF _ o(1), of "process_start t sample_files d"] by (simp add: andthen_def process_start_def)
  then show ?thesis using o(1) by (simp add: cli_dispatch_def blank_def given_def cli_select_def)
qed

lemma sample_options:
  "command sample_put_options = Some ''put''" "db_path sample_put_options = Some ''v.db''"
  "password sample_put_options = Some ''pw''" "opt_name sample_put_options = Some ''a''" "read_stdin sample_put_options"
  "token sample_put_options = None" "opt_algorithm sample_put_options = None" "\<not> has_ttl sample_put_options"
  "command sample_get_options = Some ''get''" "db_path sample_get_options = Some ''v.db''"
  "password sample_get_options = Some ''pw''" "opt_name sample_get_options = Some ''a''"
  "token sample_get_options = None" "opt_version sample_get_options = 0" "\<not> copy sample_get_options" "raw sample_get_options"
  by (simp_all add: sample_put_options_def sample_get_options_def cli_init_options_def)

lemma sample_database:
  "path_entry db_os ''v.db'' = Some ''v.db''" "''v.db'' \<noteq> []" "realpath db_os ''v.db'' = Some ''/v.db''"
  "sample_files ''v.db'' = Some \<lparr>f_content = [1], f_regular = True, f_uid = 1000, f_mode = 0x1A4\<rparr>"
  "db_load (sample_sqlite d1 d2) [1] = Some (sample_catalog, d1)"
  by (simp_all add: db_os_ok) (simp_all add: db_os_def sample_files_def sample_sqlite_def)

lemma sample_keys_ok: "keys_ok calm_env sample_keys (tables sample_unlocked)" "length (kek_audit sample_keys) = 32"
  using unlocked_keys [OF sample_inv sample_unlocked_simps(1) calm_env_ok(3) sample_unlocked_simps(4)] by simp_all

lemma sample_put_total:
  assumes "g_subkeys v = Some sample_keys" "g_unlocked v" "g_db v" "\<not> in_txn v" "tables v = tables sample_unlocked"
  shows "\<exists>v'. vault_put_with_options calm_env ''a'' [1, 2] None 0 v = (Inr (), v')"
proof -
  have "vault_name_is_clean ''a''" by code_simp
  moreover have "\<exists>a. crypto_engine_select_algorithm calm_env None = Inr a" by (simp add: crypto_engine_select_algorithm_def)
  ultimately show ?thesis
    using put_total [OF calm_env_ok(5,1,2) assms(3,4) _ _ assms(1,2) sample_keys_ok(2)] assms(5) sample_keys_ok(1)
    by (auto simp: fresh_ids_def sample_clock)
qed

lemma sample_put_dispatched:
  "\<exists>q. cli_dispatch (sample_cli (sample_sqlite (tables sample_unlocked) d2)) sample_put_options sample_start = Some (Inr (), q)"
proof -
  let ?C = "sample_cli (sample_sqlite (tables sample_unlocked) d2)"
  have C: "c_env ?C = calm_env" "c_os ?C = db_os" "c_sqlite ?C = sample_sqlite (tables sample_unlocked) d2" "c_stdin ?C = ([1, 2], False)"
    by (simp_all add: sample_cli_def)
  have sha: "sha256_ok calm_env" using calm_env_ok(1) by (simp add: crypto_ok_def)
  have ne: "''put'' \<noteq> ''init''" by simp
  obtain q where q: "cli_open_unlocked_vault ?C sample_put_options sample_start = (Inr (), q)"
    "tables (p_vault q) = tables sample_unlocked" "saved (p_vault q) = None" "g_subkeys (p_vault q) = Some sample_keys"
    "g_unlocked (p_vault q)" "g_db (p_vault q)"
    by (rule open_unlocked_known [OF sample_options(1) ne sample_options(2,3), of ?C "''v.db''" sample_start
          "\<lparr>f_content = [1], f_regular = True, f_uid = 1000, f_mode = 0x1A4\<rparr>" "''/v.db''" sample_catalog "tables sample_unlocked" sample_keys])
       (simp_all add: C sample_database process_start_def sample_catalog_verified sample_opens db_os_ok calm_env_ok sha)
  have "\<exists>v. vault_put_with_options calm_env ''a'' [1, 2] None 0 (p_vault q) = (Inr (), v)"
    by (rule sample_put_total) (use q(2-6) in \<open>simp_all add: in_txn_def\<close>)
  then have "\<exists>p'. cli_run_put ?C sample_put_options sample_start = (Inr (), p')"
    using q(1) sample_options(4-8) C(1,4)
    by (auto simp: cli_run_put_def andthen_def has_name_def guard_def blank_def lift_result_def cli_read_stdin_secret_def
        CLI_MAX_SECRET_BYTES_def name_of_def given_def ttl_of_def authorize_no_token in_vault_def in_system_def on_vault_def)
  then show ?thesis using sample_options(1) by (simp add: cli_dispatch_def blank_def given_def cli_select_def)
qed

lemma sample_put_after:
  "cli_dispatch (sample_cli sample_format) sample_put_options sample_start = Some (Inr (), sample_after)"
  using sample_put_dispatched [of "tables sample_unlocked"]
    sample_put_any_format [of "tables sample_unlocked" "committed (p_vault sample_after)" 0 "tables sample_unlocked" "tables sample_unlocked"]
  by (auto simp: sample_format_def sample_after_def)

theorem put_then_get_process_witness:
  "\<exists>p1 p2. cli_finish (sample_cli sample_format) sample_put_options sample_start = Some (0, p1) \<and>
    cli_finish (sample_cli sample_format) sample_get_options
      (process_start 100 (process_end sample_format p1) (tables sample_unlocked)) = Some (0, p2) \<and> p_out p2 = [1, 2]"
proof -
  let ?C = "sample_cli sample_format" let ?f = "\<lparr>f_content = [1], f_regular = True, f_uid = 1000, f_mode = 0x1A4\<rparr>"
  have C: "c_env ?C = calm_env" "c_os ?C = db_os" "c_sqlite ?C = sample_format" "c_stdin ?C = ([1, 2], False)"
    by (simp_all add: sample_cli_def)
  have load: "db_load sample_format [1] = Some (sample_catalog, tables sample_unlocked)"
    by (simp add: sample_format_def sample_sqlite_def)
  obtain r p1 where s: "vault_shutdown calm_env sample_format sample_after = (r, p1)" by fastforce
  have put: "cli_finish ?C sample_put_options sample_start = Some (0, p1)"
    using sample_put_after s shutdown_healthy(1) [OF s calm_env_ok(5)] by (simp add: cli_finish_def C)
  have written: "reads_back sample_format q" if "cli_dispatch ?C sample_put_options sample_start = Some (Inr (), q)" for q
  proof -
    have q: "q = sample_after" using that sample_put_after by simp
    have "p_conn sample_after = Some (''v.db'', Some sample_catalog)"
      by (rule put_known(7) [OF sample_put_after sample_options(1-5) C(4), of _ ?f "''/v.db''" sample_catalog "tables sample_unlocked" sample_keys])
         (simp_all add: C sample_database process_start_def sample_catalog_verified sample_opens db_os_ok calm_env_ok
           sample_keys_ok sample_format_def INT_MAX_def)
    then show ?thesis by (simp add: q reads_back_def sample_format_def sample_sqlite_def)
  qed
  have "\<exists>p2. cli_finish ?C sample_get_options (process_start 100 (process_end (c_sqlite ?C) p1) (tables sample_unlocked)) = Some (0, p2) \<and>
      p_out p2 = [1, 2]"
    by (rule put_then_get_process [OF put sample_options(1-5) C(4) sample_options(9-16), of _ ?f "''/v.db''" sample_catalog
          "tables sample_unlocked" sample_keys])
       (simp_all add: C sample_database sample_catalog_verified sample_opens db_os_ok calm_env_ok sample_keys_ok
         INT_MAX_def written load sample_files_def)
  then show ?thesis using put C(3) by auto
qed

lemma sample_payload_short:
  "length (print_unformatted sample_json (access_payload_items ''ci'' ''write:a'' 1719792000 1719795600
    (bin2base64 sample_env (randombytes sample_env (Suc 0) 16)))) < 300"
  by code_simp

text \<open>A token that a vault with the sample keys accepts for writing \<open>a\<close> in every state.\<close>

lemma sample_write_token:
  "\<exists>t. \<forall>v :: vault. g_subkeys v = Some sample_keys \<and> g_unlocked v \<and> g_db v \<and> tables v = tables sample_unlocked \<longrightarrow>
    (\<exists>v'. vault_check_token calm_env sample_json t (Some ''write:a'') v = (Inr (), v'))"
proof -
  have key: "length (kek_token sample_keys) = 32" by (simp add: sample_keys_def)
  obtain t s' where run: "access_issue_token calm_env sample_json ''ci'' ''write:a'' 3600 (kek_token sample_keys) 2048 \<lparr>tick = 0\<rparr> = (Inr t, s')"
    using sample_issue_with [of "\<lambda>_. 1719792000", OF _ key _ _ sample_payload_short] unfolding calm_env_def
    by (auto simp: ACCESS_SCOPE_MAX_def)
  have n: "nul_free ''ci''" "nul_free ''write:a''" "access_scope_allows ''write:a'' ''write:a''" by code_simp+
  have laws: "base64_ok calm_env" "auth_ok calm_env" "random_ok calm_env" unfolding calm_env_def by (rule sample_clock_laws)+
  show ?thesis
  proof (intro exI [of _ t] allI impI, elim conjE)
    fix v :: vault assume v: "g_subkeys v = Some sample_keys" "g_unlocked v" "g_db v" "tables v = tables sample_unlocked"
    have "\<exists>c. fst (access_verify_token calm_env sample_json t (Some ''write:a'') (kek_token sample_keys) v) = Inr c"
      using issued_token_result [OF run sample_json_ok laws n(1,2), of v "Some ''write:a''"] n(3)
      by (simp add: sample_clock ACCESS_TOKEN_BUFFER_LEN_def Let_def)
    then obtain c v1 where v1: "access_verify_token calm_env sample_json t (Some ''write:a'') (kek_token sample_keys) v = (Inr c, v1)"
      by (metis prod.collapse)
    have w: "view v1 = view v" using reads_view [OF reads_access(2) v1] .
    have "metadata (tables sample_unlocked) VAULT_METADATA_TOKEN_NOT_BEFORE = None" by code_simp
    then have "g_db v1" "metadata (tables v1) VAULT_METADATA_TOKEN_NOT_BEFORE = None"
      using viewD(1,5) [OF w] v(3,4) by simp_all
    then have "vault_get_metadata_blob calm_env VAULT_METADATA_TOKEN_NOT_BEFORE 8 v1 = (Inr None, next_tick v1)"
      using calm_env_ok(5) by (simp add: get_metadata_Inr healthy_def)
    then have "vault_get_token_not_before calm_env v1 = (Inr 0, next_tick v1)"
      by (simp add: vault_get_token_not_before_def andthen_def ret_def)
    then show "\<exists>v'. vault_check_token calm_env sample_json t (Some ''write:a'') v = (Inr (), v')"
      using v v1 by (simp add: vault_check_token_def andthen_def guard_def vault_require_unlocked_def)
  qed
qed

lemma sample_token_put:
  obtains t q where "cli_run (sample_cli (sample_sqlite (tables sample_unlocked) d2)) (sample_put_options\<lparr>token := Some t\<rparr>) Run_put
    sample_start = Some (Inr (), q)"
proof -
  let ?C = "sample_cli (sample_sqlite (tables sample_unlocked) d2)"
  have sha: "sha256_ok calm_env" using calm_env_ok(1) by (simp add: crypto_ok_def)
  obtain t where t: "\<forall>v :: vault. g_subkeys v = Some sample_keys \<and> g_unlocked v \<and> g_db v \<and> tables v = tables sample_unlocked \<longrightarrow>
      (\<exists>v'. vault_check_token calm_env sample_json t (Some ''write:a'') v = (Inr (), v'))"
    using sample_write_token by blast
  let ?o = "sample_put_options\<lparr>token := Some t\<rparr>"
  have o: "command ?o = Some ''put''" "''put'' \<noteq> ''init''" "db_path ?o = Some ''v.db''" "password ?o = Some ''pw''"
    using sample_options by simp_all
  obtain q where q: "cli_open_unlocked_vault ?C ?o sample_start = (Inr (), q)"
    "tables (p_vault q) = tables sample_unlocked" "saved (p_vault q) = None" "g_subkeys (p_vault q) = Some sample_keys"
    "g_unlocked (p_vault q)" "g_db (p_vault q)"
    by (rule open_unlocked_known [OF o, of ?C "''v.db''" sample_start
          "\<lparr>f_content = [1], f_regular = True, f_uid = 1000, f_mode = 0x1A4\<rparr>" "''/v.db''" sample_catalog "tables sample_unlocked" sample_keys])
       (simp_all add: sample_database process_start_def sample_catalog_verified sample_opens db_os_ok calm_env_ok sha)
  obtain v where v: "vault_check_token calm_env sample_json t (Some ''write:a'') (p_vault q) = (Inr (), v)"
    using t q(2,4-6) by blast
  have view: "view v = view (p_vault q)" using reads_view [OF reads_operations(10) v] .
  note w = viewD [OF view]
  have "\<exists>v'. vault_put_with_options calm_env ''a'' [1, 2] None 0 v = (Inr (), v')"
    by (rule sample_put_total) (use q(2-6) w in \<open>simp_all add: session_of_def in_txn_def\<close>)
  then obtain v' where v': "vault_put_with_options calm_env ''a'' [1, 2] None 0 v = (Inr (), v')" by blast
  obtain k :: kdf_subkeys and c v1 where "access_verify_token calm_env sample_json t (Some ''write:a'') (kek_token k) (p_vault q) = (Inr c, v1)"
    by (rule check_token_Inr [OF v]) blast
  from verify_token_Inr [OF this] have "t \<noteq> []" by (auto simp: ACCESS_TOKEN_PREFIX_def)
  then have "cli_authorize_token ?C ?o ''write'' ''a'' q = (Inr (), q\<lparr>p_vault := v\<rparr>)"
    using v by (simp add: CLI_SCOPE_BUFFER_LEN_def ACCESS_SCOPE_MAX_def cli_authorize_token_def cli_required_scope_def andthen_def lift_result_def guard_def in_vault_def in_system_def on_vault_def
        sample_cli_def)
  then have "cli_run_put ?C ?o sample_start = (Inr (), q\<lparr>p_vault := v'\<rparr>)"
    using q(1) v' sample_options(4-8)
    by (simp add: cli_run_put_def andthen_def has_name_def guard_def blank_def lift_result_def cli_read_stdin_secret_def
        CLI_MAX_SECRET_BYTES_def name_of_def given_def ttl_of_def in_vault_def in_system_def on_vault_def)
  then show ?thesis using that [of t] by simp
qed

theorem token_gates_commands_witness:
  "\<exists>t q. cli_run (sample_cli sample_format) (sample_put_options\<lparr>token := Some t\<rparr>) Run_put sample_start = Some (Inr (), q) \<and>
    (\<exists>n q0. cli_open_unlocked_vault (sample_cli sample_format) (sample_put_options\<lparr>token := Some t\<rparr>) (at_tick n sample_start) = (Inr (), q0) \<and>
       token_accepted (sample_cli sample_format) t ''write:a'' q0)"
proof -
  obtain t q where run: "cli_run (sample_cli sample_format) (sample_put_options\<lparr>token := Some t\<rparr>) Run_put sample_start = Some (Inr (), q)"
    using sample_token_put unfolding sample_format_def by blast
  have "name_of (sample_put_options\<lparr>token := Some t\<rparr>) = ''a''" using sample_options(4) by (simp add: name_of_def given_def)
  then show ?thesis using run token_gates_commands [OF run, of t "''write''"] by auto
qed

end
