(* ===== verification/Fuin_Cli_Clipboard.thy ===== *)
theory Fuin_Cli_Clipboard
  imports Fuin_Cli
begin

text \<open>
  The clipboard of \<open>src/src/main.c\<close>: the environment handed to other programs, feeding the copy
  program and reading the paste program through pipes, the helper process that clears the
  clipboard later, and its start. The state holds the clipboard and the helper processes that
  were started. The programs and the system calls are the record \<open>programs\<close>: outcomes at the
  current tick, what the programs make of the clipboard, and what else happens to the clipboard
  while the helper sleeps. A call that a signal interrupts is retried by the code; its outcome
  here is that of the last try. The candidate paths are those of the systems other than macOS.
\<close>

section \<open>State and parameters\<close>

record programs =
  x_ok :: "string \<Rightarrow> bool"
  call_ok :: "nat \<Rightarrow> bool"
  io_result :: "nat \<Rightarrow> int"
  child_ok :: "nat \<Rightarrow> bool"
  copied :: "nat \<Rightarrow> bytes \<Rightarrow> bytes \<Rightarrow> bytes"
  pasted :: "nat \<Rightarrow> bytes \<Rightarrow> bytes"
  meanwhile :: "nat \<Rightarrow> bytes \<Rightarrow> bytes"

text \<open>A helper process: its arguments, its environment and what it reads on standard input.\<close>

record desktop = world +
  clip :: bytes
  helpers :: "(string list \<times> string list \<times> bytes) list"

section \<open>The environment of other programs\<close>

definition CLI_CLIPBOARD_ENV_MAX :: nat where "CLI_CLIPBOARD_ENV_MAX = 12"
definition CLI_CLIPBOARD_CLEAR_SECONDS :: nat where "CLI_CLIPBOARD_CLEAR_SECONDS = 30"
definition CLI_CLIPBOARD_CLEAR_HELPER :: string where "CLI_CLIPBOARD_CLEAR_HELPER = ''__fuin_clipboard_clear_helper''"
definition UINT_MAX :: int where "UINT_MAX = 4294967295"

definition cli_clipboard_add_env ::
  "(string \<Rightarrow> string option) \<Rightarrow> nat \<Rightarrow> string \<Rightarrow> string option \<Rightarrow> string list \<Rightarrow> string list result" where
  "cli_clipboard_add_env getenv envp_len name fallback_value envp =
     (if envp_len \<le> length envp + 1 then Inl SM_ERR_INVALID_ARGUMENT
      else
        let chosen = (if name = ''PATH'' \<and> fallback_value \<noteq> None then fallback_value
                      else if blank (getenv name) then fallback_value else getenv name) in
        if blank chosen then Inr envp
        else if SIZE_MAX - int (length (given chosen)) - 2 < int (length name) then Inl SM_ERR_INVALID_ARGUMENT
        else Inr (envp @ [name @ ''='' @ given chosen]))"

definition fixed_path :: string where
  "fixed_path = ''/usr/bin:/bin:/usr/sbin:/sbin:/usr/local/bin:/opt/homebrew/bin''"

definition inherited_names :: "string list" where
  "inherited_names = [''HOME'', ''DISPLAY'', ''WAYLAND_DISPLAY'', ''XDG_RUNTIME_DIR'', ''XAUTHORITY'', ''DBUS_SESSION_BUS_ADDRESS'']"

fun add_each :: "(string \<Rightarrow> string option) \<Rightarrow> nat \<Rightarrow> string list \<Rightarrow> string list \<Rightarrow> string list result" where
  "add_each getenv envp_len [] envp = Inr envp"
| "add_each getenv envp_len (name # names) envp =
     and_then (cli_clipboard_add_env getenv envp_len name None envp) (add_each getenv envp_len names)"

definition cli_clipboard_build_env :: "(string \<Rightarrow> string option) \<Rightarrow> nat \<Rightarrow> string list result" where
  "cli_clipboard_build_env getenv envp_len =
     (if envp_len < 2 then Inl SM_ERR_INVALID_ARGUMENT
      else and_then (cli_clipboard_add_env getenv envp_len ''PATH'' (Some fixed_path) [])
        (add_each getenv envp_len inherited_names))"

section \<open>Pipes\<close>

text \<open>One \<open>read\<close> of at most \<open>n\<close> bytes from a pipe: \<open>None\<close> is an error, no byte is the end.\<close>

definition read_fd :: "programs \<Rightarrow> nat \<Rightarrow> bytes \<Rightarrow> nat \<Rightarrow> bytes option" where
  "read_fd P t rest n =
     (if io_result P t < 0 then None else Some (take (max 1 (min (nat (io_result P t)) n)) rest))"

text \<open>
  The loops of \<open>cli_read_exact_fd\<close> and of \<open>cli_clipboard_read_current\<close>, which differ in what the
  end of the pipe means.
\<close>

function read_loop :: "programs \<Rightarrow> bytes result \<Rightarrow> nat \<Rightarrow> bytes \<Rightarrow> (desktop, bytes) comp" where
  "read_loop P at_end room rest s =
     (if room = 0 then (Inr [], s)
      else case read_fd P (tick s) rest room of
        None \<Rightarrow> (Inl SM_ERR_STORAGE, next_tick s)
      | Some [] \<Rightarrow> (at_end, next_tick s)
      | Some (b # bs) \<Rightarrow>
          andthen (read_loop P at_end (room - length (b # bs)) (drop (length (b # bs)) rest)) (\<lambda>later.
          ret ((b # bs) @ later)) (next_tick s))"
  by pat_completeness auto
termination
  by (relation "measure (\<lambda>(P, at_end, n, rest, s). n)") (auto simp: less_imp_diff_less)

definition cli_read_exact_fd :: "programs \<Rightarrow> nat \<Rightarrow> bytes \<Rightarrow> (desktop, bytes) comp" where
  "cli_read_exact_fd P = read_loop P (Inl SM_ERR_STORAGE)"

text \<open>What reaches the other end of the pipe, and whether it is everything.\<close>

function cli_write_all_fd :: "programs \<Rightarrow> bytes \<Rightarrow> desktop \<Rightarrow> (bytes \<times> bool) \<times> desktop" where
  "cli_write_all_fd P data s =
     (if data = [] then (([], True), s)
      else if io_result P (tick s) \<le> 0 then (([], False), next_tick s)
      else
        let n = min (nat (io_result P (tick s))) (length data) in
        case cli_write_all_fd P (drop n data) (next_tick s) of
          ((later, ok), s') \<Rightarrow> ((take n data @ later, ok), s'))"
  by pat_completeness auto
termination
  by (relation "measure (\<lambda>(P, data, s). length data)") auto

declare read_loop.simps [simp del] cli_write_all_fd.simps [simp del]

text \<open>\<open>sigemptyset\<close> comes first; ignoring and restoring \<open>SIGPIPE\<close> leaves no trace.\<close>

definition cli_write_all_ignore_sigpipe :: "programs \<Rightarrow> bytes \<Rightarrow> desktop \<Rightarrow> (bytes \<times> bool) \<times> desktop" where
  "cli_write_all_ignore_sigpipe P data s =
     (if call_ok P (tick s) then cli_write_all_fd P data (next_tick s) else (([], False), next_tick s))"

section \<open>The clipboard programs\<close>

definition os_call :: "programs \<Rightarrow> (desktop, bool) comp" where
  "os_call P = (\<lambda>s. (Inr (call_ok P (tick s)), next_tick s))"

fun require_calls :: "programs \<Rightarrow> nat \<Rightarrow> (desktop, unit) comp" where
  "require_calls P 0 = ret ()"
| "require_calls P (Suc n) = andthen (os_call P) (\<lambda>ok. andthen (guard ok SM_ERR_STORAGE) (\<lambda>_. require_calls P n))"

definition cli_wait_for_child :: "programs \<Rightarrow> (desktop, bool) comp" where
  "cli_wait_for_child P = (\<lambda>s. (Inr (child_ok P (tick s)), next_tick s))"

definition CLI_CLIPBOARD_CANDIDATES :: "string list" where
  "CLI_CLIPBOARD_CANDIDATES = [''/usr/bin/xclip'', ''/usr/local/bin/xclip'', ''/bin/xclip'', ''/run/current-system/sw/bin/xclip'']"

definition cli_clipboard_resolve_program :: "programs \<Rightarrow> string list \<Rightarrow> string option" where
  "cli_clipboard_resolve_program P candidates = find (x_ok P) candidates"

text \<open>
  \<open>Inl\<close> is a failure before the program runs, and \<open>Inr False\<close> one after: it runs, with both ends
  of its pipe closed. The calls are \<open>pipe\<close>, the preparation of the file actions, one more of
  them when standard output is not the pipe, and \<open>posix_spawn\<close>.
\<close>

definition cli_clipboard_spawn :: "programs \<Rightarrow> (string \<Rightarrow> string option) \<Rightarrow> bool \<Rightarrow> (desktop, bool) comp" where
  "cli_clipboard_spawn P getenv child_stdin =
     andthen (lift_result (cli_clipboard_build_env getenv CLI_CLIPBOARD_ENV_MAX)) (\<lambda>_.
     andthen (require_calls P (if child_stdin then 8 else 7)) (\<lambda>_. os_call P))"

text \<open>The copy program takes over what it was fed when its standard input ends.\<close>

definition feed :: "programs \<Rightarrow> bytes \<Rightarrow> desktop \<Rightarrow> desktop" where
  "feed P sent s = s\<lparr>clip := copied P (tick s) (clip s) sent\<rparr>"

definition cli_clipboard_write :: "programs \<Rightarrow> (string \<Rightarrow> string option) \<Rightarrow> bytes \<Rightarrow> (desktop, unit) comp" where
  "cli_clipboard_write P getenv data =
     (if cli_clipboard_resolve_program P CLI_CLIPBOARD_CANDIDATES = None then raise SM_ERR_STORAGE
      else andthen (cli_clipboard_spawn P getenv True) (\<lambda>connected s.
        if \<not> connected then (Inl SM_ERR_STORAGE, feed P [] s)
        else case cli_write_all_ignore_sigpipe P data s of
          ((sent, whole), s1) \<Rightarrow>
            andthen (os_call P) (\<lambda>closed.
            andthen (cli_wait_for_child P) (\<lambda>exited.
            guard (whole \<and> closed \<and> exited) SM_ERR_STORAGE)) (feed P sent s1)))"

definition cli_clipboard_read_current :: "programs \<Rightarrow> (string \<Rightarrow> string option) \<Rightarrow> nat \<Rightarrow> (desktop, bytes) comp" where
  "cli_clipboard_read_current P getenv max_len =
     andthen (guard (max_len \<le> CLI_MAX_SECRET_BYTES) SM_ERR_INVALID_ARGUMENT) (\<lambda>_.
     andthen (guard (cli_clipboard_resolve_program P CLI_CLIPBOARD_CANDIDATES \<noteq> None) SM_ERR_STORAGE) (\<lambda>_.
     andthen (cli_clipboard_spawn P getenv False) (\<lambda>connected.
     andthen (guard connected SM_ERR_STORAGE) (\<lambda>_ s.
     finally_do (read_loop P (Inr []) (max_len + 1) (pasted P (tick s) (clip s))) (\<lambda>r.
       andthen (os_call P) (\<lambda>closed.
       andthen (cli_wait_for_child P) (\<lambda>exited.
       andthen (guard (closed \<and> exited) SM_ERR_STORAGE) (\<lambda>_. lift_result r)))) s))))"

section \<open>Clearing later\<close>

text \<open>\<open>sleep\<close>, until the whole delay is over.\<close>

definition sleep :: "programs \<Rightarrow> (desktop, unit) comp" where
  "sleep P = (\<lambda>s. (Inr (), (next_tick s)\<lparr>clip := meanwhile P (tick s) (clip s)\<rparr>))"

definition clear_if_unchanged :: "programs \<Rightarrow> (string \<Rightarrow> string option) \<Rightarrow> bytes \<Rightarrow> (desktop, unit) comp" where
  "clear_if_unchanged P getenv expected =
     finally_do (cli_clipboard_read_current P getenv (length expected)) (\<lambda>r.
       case r of
         Inr current \<Rightarrow> if current = expected then finally_do (cli_clipboard_write P getenv []) (\<lambda>_. ret ()) else ret ()
       | Inl _ \<Rightarrow> ret ())"

definition cli_clipboard_clear_helper ::
  "programs \<Rightarrow> (string \<Rightarrow> string option) \<Rightarrow> string list \<Rightarrow> bytes \<Rightarrow> (desktop, unit) comp" where
  "cli_clipboard_clear_helper P getenv argv input =
     andthen (guard (length argv = 4) SM_ERR_INVALID_ARGUMENT) (\<lambda>_.
     andthen (lift_result (cli_parse_size_value (argv ! 2) True)) (\<lambda>expected_len.
     andthen (lift_result (cli_parse_size_value (argv ! 3) True)) (\<lambda>delay_seconds.
     andthen (guard (expected_len \<le> CLI_MAX_SECRET_BYTES \<and> int delay_seconds \<le> UINT_MAX) SM_ERR_INVALID_ARGUMENT) (\<lambda>_.
     if expected_len = 0 then ret ()
     else
       andthen (cli_read_exact_fd P expected_len input) (\<lambda>expected.
       andthen (when_ok (0 < delay_seconds) (sleep P)) (\<lambda>_.
       clear_if_unchanged P getenv expected))))))"

text \<open>
  The calls before \<open>posix_spawnp\<close> are \<open>pipe\<close> and the preparation of the file actions. Once the
  helper runs it reads what is written to the pipe.
\<close>

definition cli_clipboard_schedule_clear ::
  "programs \<Rightarrow> (string \<Rightarrow> string option) \<Rightarrow> string \<Rightarrow> bytes \<Rightarrow> (desktop, unit) comp" where
  "cli_clipboard_schedule_clear P getenv program_path data =
     andthen (guard (length data \<le> CLI_MAX_SECRET_BYTES \<and> program_path \<noteq> []) SM_ERR_INVALID_ARGUMENT) (\<lambda>_.
     if data = [] then ret ()
     else
       andthen (lift_result (cli_clipboard_build_env getenv CLI_CLIPBOARD_ENV_MAX)) (\<lambda>envp.
       andthen (require_calls P 8) (\<lambda>_.
       andthen (os_call P) (\<lambda>closed s.
       let argv = [program_path, CLI_CLIPBOARD_CLEAR_HELPER, dec_digits (length data), dec_digits CLI_CLIPBOARD_CLEAR_SECONDS] in
       case (if closed then cli_write_all_ignore_sigpipe P data s else (([], False), s)) of
         ((sent, whole), s1) \<Rightarrow>
           (if whole then Inr () else Inl SM_ERR_STORAGE, s1\<lparr>helpers := helpers s1 @ [(argv, envp, sent)]\<rparr>)))))"

text \<open>The branch of \<open>main\<close> that runs the helper: its exit code, \<open>None\<close> for any other command line.\<close>

definition helper_main ::
  "programs \<Rightarrow> (string \<Rightarrow> string option) \<Rightarrow> string list \<Rightarrow> bytes \<Rightarrow> desktop \<Rightarrow> (int \<times> desktop) option" where
  "helper_main P getenv argv input s =
     (if 1 < length argv \<and> argv ! 1 = CLI_CLIPBOARD_CLEAR_HELPER
      then (case cli_clipboard_clear_helper P getenv argv input s of (status, s') \<Rightarrow> Some (if isl status then 1 else 0, s'))
      else None)"

section \<open>Hypotheses\<close>

text \<open>
  The paste program prints the clipboard; the copy program stores what it was fed or leaves the
  clipboard as it is. \<open>calm_programs\<close>: no call fails, every transfer moves at least a byte, a
  clipboard program is installed, and copying stores.
\<close>

definition programs_ok :: "programs \<Rightarrow> bool" where
  "programs_ok P \<longleftrightarrow> (\<forall>t c. pasted P t c = c) \<and> (\<forall>t c d. copied P t c d \<in> {c, d})"

definition calm_programs :: "programs \<Rightarrow> bool" where
  "calm_programs P \<longleftrightarrow> (\<forall>t. call_ok P t \<and> 0 < io_result P t \<and> child_ok P t) \<and>
     (\<forall>t c d. copied P t c d = d) \<and> list_ex (x_ok P) CLI_CLIPBOARD_CANDIDATES"

text \<open>The environment another program gets: a fixed path and the variables of the display.\<close>

definition clean_env :: "(string \<Rightarrow> string option) \<Rightarrow> string list" where
  "clean_env getenv =
     (''PATH='' @ fixed_path) #
     map (\<lambda>n. n @ ''='' @ given (getenv n)) (filter (\<lambda>n. \<not> blank (getenv n)) inherited_names)"

section \<open>Lemmas\<close>

lemma add_env_Inr:
  assumes "cli_clipboard_add_env getenv len name None envp = Inr envp'"
  shows "envp' = envp @ (if blank (getenv name) then [] else [name @ ''='' @ given (getenv name)])"
  using assms by (auto simp: cli_clipboard_add_env_def Let_def blank_def split: if_splits)

lemma add_each_Inr:
  "add_each getenv len names envp = Inr envp' \<Longrightarrow>
    envp' = envp @ map (\<lambda>n. n @ ''='' @ given (getenv n)) (filter (\<lambda>n. \<not> blank (getenv n)) names)"
proof (induction names arbitrary: envp)
  case (Cons a names)
  then obtain e where e: "cli_clipboard_add_env getenv len a None envp = Inr e" "add_each getenv len names e = Inr envp'"
    by (auto simp: and_then_eq_Inr)
  from Cons.IH [OF e(2)] add_env_Inr [OF e(1)] show ?case by simp
qed simp

lemma build_env_Inr:
  assumes "cli_clipboard_build_env getenv len = Inr envp"
  shows "envp = clean_env getenv"
  using assms
  by (auto simp: cli_clipboard_build_env_def clean_env_def and_then_eq_Inr cli_clipboard_add_env_def Let_def blank_def given_def
      fixed_path_def dest!: add_each_Inr split: if_splits)

text \<open>Computations that leave the clipboard and the helpers alone.\<close>

definition apart :: "(desktop, 'b) comp \<Rightarrow> bool" where
  "apart m \<longleftrightarrow> (\<forall>s. clip (snd (m s)) = clip s \<and> helpers (snd (m s)) = helpers s)"

lemma apartD: "apart m \<Longrightarrow> m s = (r, s') \<Longrightarrow> clip s' = clip s \<and> helpers s' = helpers s"
  unfolding apart_def by (metis snd_conv)

named_theorems apart_rules \<open>computations that leave the clipboard alone\<close>

lemma apart_basic [apart_rules]:
  "apart (ret x)" "apart (guard b e)" "apart (lift_result r)" "apart (os_call P)" "apart (cli_wait_for_child P)"
  by (simp_all add: apart_def ret_def guard_def lift_result_def os_call_def cli_wait_for_child_def next_tick_def)

lemma apart_andthen [apart_rules]: "apart m \<Longrightarrow> (\<And>x. apart (f x)) \<Longrightarrow> apart (andthen m f)"
  unfolding apart_def andthen_def by (auto split: prod.splits sum.splits) (metis snd_conv)+

lemma apart_finally [apart_rules]: "apart m \<Longrightarrow> (\<And>r. apart (f r)) \<Longrightarrow> apart (finally_do m f)"
  unfolding apart_def finally_do_def by (auto split: prod.splits) (metis snd_conv)+

lemma apart_calls [apart_rules]: "apart (require_calls P n)"
proof (induction n)
  case 0
  show ?case unfolding require_calls.simps by (rule apart_rules)
next
  case (Suc n)
  then show ?case unfolding require_calls.simps by (intro apart_rules)
qed

lemma apart_spawn [apart_rules]: "apart (cli_clipboard_spawn P getenv b)"
  unfolding cli_clipboard_spawn_def by (intro apart_rules)

lemma read_fd_Some:
  assumes "read_fd P t rest n = Some d" "0 < n"
  shows "d = take (length d) rest" "length d \<le> n" "d = [] \<longleftrightarrow> rest = []"
proof -
  obtain k where k: "d = take k rest" "0 < k" "k \<le> n"
    using assms by (auto simp: read_fd_def max_def split: if_splits)
  then show "d = take (length d) rest" by (metis append_eq_conv_conj append_take_drop_id)
  show "length d \<le> n" "d = [] \<longleftrightarrow> rest = []" using k by simp_all
qed

lemma read_loop_0 [simp]: "read_loop P at_end 0 rest s = (Inr [], s)"
  by (simp add: read_loop.simps)

lemma read_loop_stops:
  "0 < n \<Longrightarrow> read_fd P (tick s) rest n = None \<Longrightarrow> read_loop P at_end n rest s = (Inl SM_ERR_STORAGE, next_tick s)"
  "0 < n \<Longrightarrow> read_fd P (tick s) rest n = Some [] \<Longrightarrow> read_loop P at_end n rest s = (at_end, next_tick s)"
  by (simp_all add: read_loop.simps [of P at_end n])

lemma read_loop_step:
  assumes "read_fd P (tick s) rest n = Some d" "d \<noteq> []" "0 < n"
  shows "read_loop P at_end n rest s =
    andthen (read_loop P at_end (n - length d) (drop (length d) rest)) (\<lambda>later. ret (d @ later)) (next_tick s)"
  using assms by (cases d) (simp_all add: read_loop.simps [of P at_end n])

lemma read_fd_split:
  assumes "read_fd P t rest n = Some d" "0 < n"
  shows "d @ take (n - length d) (drop (length d) rest) = take n rest"
  using read_fd_Some(1,2) [OF assms] by (metis le_add_diff_inverse take_add)

text \<open>A successful loop has read the beginning of the stream, whatever the sizes of the reads.\<close>

lemma read_loop_result:
  "read_loop P at_end n rest s = (r, s') \<Longrightarrow> at_end \<in> {Inl SM_ERR_STORAGE, Inr []} \<Longrightarrow>
    clip s' = clip s \<and> helpers s' = helpers s \<and>
    (\<forall>d. r = Inr d \<longrightarrow> d = take n rest \<and> (at_end = Inl SM_ERR_STORAGE \<longrightarrow> n \<le> length rest))"
proof (induction n arbitrary: rest s r s' rule: less_induct)
  case (less n)
  note run = less.prems
  consider "n = 0" | "0 < n" "read_fd P (tick s) rest n = None" | "0 < n" "read_fd P (tick s) rest n = Some []"
    | d where "0 < n" "read_fd P (tick s) rest n = Some d" "d \<noteq> []"
    by fastforce
  then show ?case
  proof cases
    case 3
    then have "rest = []" using read_fd_Some(3) [OF 3(2,1)] by simp
    then show ?thesis using run 3 read_loop_stops(2) [OF 3] by (auto simp: next_tick_def)
  next
    case (4 d)
    obtain r1 s1 where r1: "read_loop P at_end (n - length d) (drop (length d) rest) (next_tick s) = (r1, s1)" by fastforce
    have "n - length d < n" using 4 by simp
    from less.IH [OF this r1 run(2)] have ih: "clip s1 = clip s" "helpers s1 = helpers s"
      "\<forall>e. r1 = Inr e \<longrightarrow> e = take (n - length d) (drop (length d) rest) \<and>
        (at_end = Inl SM_ERR_STORAGE \<longrightarrow> n - length d \<le> length (drop (length d) rest))"
      by (simp_all add: next_tick_def)
    have "r = (case r1 of Inl e \<Rightarrow> Inl e | Inr e \<Rightarrow> Inr (d @ e))" "s' = s1"
      using run(1) r1 by (auto simp: read_loop_step [OF 4(2,3,1)] andthen_def ret_def split: sum.splits)
    moreover have "d @ e = take n rest" "at_end = Inl SM_ERR_STORAGE \<longrightarrow> n \<le> length rest" if "r1 = Inr e" for e
    proof -
      have e: "e = take (n - length d) (drop (length d) rest)"
          "at_end = Inl SM_ERR_STORAGE \<longrightarrow> n - length d \<le> length (drop (length d) rest)"
        using ih(3) that by blast+
      show "d @ e = take n rest" unfolding e(1) by (rule read_fd_split [OF 4(2,1)])
      have "length d \<le> length rest" using read_fd_Some(1) [OF 4(2,1)] by (metis length_take min.cobounded1)
      then show "at_end = Inl SM_ERR_STORAGE \<longrightarrow> n \<le> length rest" using e(2) by auto
    qed
    ultimately show ?thesis using ih(1,2) by (cases r1) simp_all
  qed (use run read_loop_stops(1) in \<open>auto simp: next_tick_def\<close>)
qed

lemma read_loop_calm:
  "\<forall>t. 0 < io_result P t \<Longrightarrow> at_end = Inr [] \<or> n \<le> length rest \<Longrightarrow> \<exists>d s'. read_loop P at_end n rest s = (Inr d, s')"
proof (induction n arbitrary: rest s rule: less_induct)
  case (less n)
  have "0 \<le> io_result P (tick s)" using less.prems(1) by (simp add: order.strict_implies_order)
  then obtain d where d: "read_fd P (tick s) rest n = Some d" by (auto simp: read_fd_def)
  consider "n = 0" | "0 < n" "d = []" | "0 < n" "d \<noteq> []" by blast
  then show ?case
  proof cases
    case 2
    then have "at_end = Inr []" using less.prems(2) read_fd_Some(3) [OF d] by auto
    then show ?thesis using read_loop_stops(2) [OF 2(1)] d 2(2) by simp
  next
    case 3
    have "n - length d < n" "at_end = Inr [] \<or> n - length d \<le> length (drop (length d) rest)"
      using 3 less.prems(2) by auto
    then obtain e s1 where "read_loop P at_end (n - length d) (drop (length d) rest) (next_tick s) = (Inr e, s1)"
      using less.IH less.prems(1) by blast
    then show ?thesis by (simp add: read_loop_step [OF d 3(2,1)] andthen_def ret_def)
  qed simp
qed

lemma write_nil [simp]: "cli_write_all_fd P [] s = (([], True), s)"
  by (simp add: cli_write_all_fd.simps)

lemma write_result:
  "cli_write_all_fd P data s = ((sent, ok), s') \<Longrightarrow>
    clip s' = clip s \<and> helpers s' = helpers s \<and> (ok \<longrightarrow> sent = data) \<and> ((\<forall>t. 0 < io_result P t) \<longrightarrow> ok)"
proof (induction "length data" arbitrary: data s sent ok s' rule: less_induct)
  case less
  note run = less.prems
  show ?case
  proof (cases "0 < io_result P (tick s) \<and> data \<noteq> []")
    case False
    then have "data = [] \<or> data \<noteq> [] \<and> io_result P (tick s) \<le> 0" by auto
    then show ?thesis
    proof
      assume "data \<noteq> [] \<and> io_result P (tick s) \<le> 0"
      moreover from this have "cli_write_all_fd P data s = (([], False), next_tick s)"
        by (simp add: cli_write_all_fd.simps [of P data s])
      ultimately show ?thesis using run by (auto simp: next_tick_def not_less intro!: exI [of _ "tick s"])
    qed (use run in simp)
  next
    case True
    let ?n = "min (nat (io_result P (tick s))) (length data)"
    obtain later ok1 s1 where w: "cli_write_all_fd P (drop ?n data) (next_tick s) = ((later, ok1), s1)"
      by (metis surj_pair)
    have "length (drop ?n data) < length data" using True by auto
    from less.hyps [OF this w] have ih: "clip s1 = clip s" "helpers s1 = helpers s" "ok1 \<longrightarrow> later = drop ?n data"
        "(\<forall>t. 0 < io_result P t) \<longrightarrow> ok1"
      by (simp_all add: next_tick_def)
    have "sent = take ?n data @ later" "ok = ok1" "s' = s1"
      using run True w by (simp_all add: cli_write_all_fd.simps [of P data s] Let_def)
    then show ?thesis using ih by auto
  qed
qed

lemma write_ignore_result:
  assumes "cli_write_all_ignore_sigpipe P data s = ((sent, ok), s')"
  shows "clip s' = clip s" "helpers s' = helpers s" "ok \<Longrightarrow> sent = data"
    "calm_programs P \<Longrightarrow> ok"
  using assms write_result [of P data "next_tick s" sent ok s']
  by (auto simp: cli_write_all_ignore_sigpipe_def calm_programs_def next_tick_def split: if_splits)

lemma andthen_guarded: "andthen (guard b e) f = (if b then f () else raise e)"
  by (rule ext) (simp add: andthen_def guard_def raise_def)

lemma spawn_apart:
  assumes "cli_clipboard_spawn P getenv b s = (r, s')"
  shows "clip s' = clip s" "helpers s' = helpers s"
  using apartD [OF apart_spawn assms] by simp_all

lemma end_of_child:
  assumes "andthen (os_call P) (\<lambda>closed. andthen (cli_wait_for_child P) (f closed)) s = (r, s')" "\<And>x y. apart (f x y)"
  shows "clip s' = clip s" "helpers s' = helpers s"
proof -
  have "apart (andthen (os_call P) (\<lambda>closed. andthen (cli_wait_for_child P) (f closed)))"
    using assms(2) by (intro apart_rules)
  from apartD [OF this assms(1)] show "clip s' = clip s" "helpers s' = helpers s" by simp_all
qed

lemma read_current_result:
  assumes "cli_clipboard_read_current P getenv n s = (r, s')"
  shows "clip s' = clip s" "helpers s' = helpers s" "programs_ok P \<Longrightarrow> r = Inr d \<Longrightarrow> d = take (n + 1) (clip s)"
proof -
  have "clip s' = clip s \<and> helpers s' = helpers s \<and> (programs_ok P \<longrightarrow> r = Inr d \<longrightarrow> d = take (n + 1) (clip s))"
  proof (cases "n \<le> CLI_MAX_SECRET_BYTES \<and> cli_clipboard_resolve_program P CLI_CLIPBOARD_CANDIDATES \<noteq> None")
    case False
    then show ?thesis using assms by (auto simp: cli_clipboard_read_current_def andthen_guarded raise_def split: if_splits)
  next
    case True
    obtain c s1 where sp: "cli_clipboard_spawn P getenv False s = (c, s1)" by fastforce
    note s1 = spawn_apart [OF sp]
    show ?thesis
    proof (cases "c = Inr True")
      case False
      then show ?thesis using assms True sp s1
        by (cases c) (auto simp: cli_clipboard_read_current_def andthen_guarded raise_def andthen_Inl andthen_Inr)
    next
      case yes: True
      obtain q s2 where q: "read_loop P (Inr []) (n + 1) (pasted P (tick s1) (clip s1)) s1 = (q, s2)" by fastforce
      note s2 = read_loop_result [OF q]
      have fin: "andthen (os_call P) (\<lambda>closed. andthen (cli_wait_for_child P) (\<lambda>exited.
          andthen (guard (closed \<and> exited) SM_ERR_STORAGE) (\<lambda>_. lift_result q))) s2 = (r, s')"
        using assms True sp yes q by (simp add: cli_clipboard_read_current_def andthen_guarded andthen_Inl andthen_Inr finally_do_def)
      have "r = Inr d \<Longrightarrow> q = Inr d"
        using fin by (auto simp: andthen_eq_Inr lift_result_def)
      then show ?thesis using end_of_child [OF fin] s1 s2 by (auto simp: programs_ok_def intro!: apart_rules)
    qed
  qed
  then show "clip s' = clip s" "helpers s' = helpers s" "programs_ok P \<Longrightarrow> r = Inr d \<Longrightarrow> d = take (n + 1) (clip s)"
    by blast+
qed

lemma clear_result:
  assumes "cli_clipboard_write P getenv [] s = (r, s')" "programs_ok P"
  shows "helpers s' = helpers s" "clip s' \<in> {clip s, []}"
proof -
  have fed: "copied P t c [] = c \<or> copied P t c [] = []" for t c using assms(2) by (auto simp: programs_ok_def)
  have "helpers s' = helpers s \<and> clip s' \<in> {clip s, []}"
  proof (cases "cli_clipboard_resolve_program P CLI_CLIPBOARD_CANDIDATES = None")
    case True
    then show ?thesis using assms(1) by (auto simp: cli_clipboard_write_def raise_def)
  next
    case False
    obtain c s1 where sp: "cli_clipboard_spawn P getenv True s = (c, s1)" by fastforce
    note s1 = spawn_apart [OF sp]
    show ?thesis
    proof (cases "c = Inr True")
      case no: False
      then show ?thesis using assms(1) False sp s1 fed [of "tick s1" "clip s1"]
        by (cases c) (auto simp: cli_clipboard_write_def andthen_Inl andthen_Inr feed_def)
    next
      case yes: True
      obtain sent ok s2 where w: "cli_write_all_ignore_sigpipe P [] s1 = ((sent, ok), s2)" by (metis surj_pair)
      have sent: "sent = []" using w by (auto simp: cli_write_all_ignore_sigpipe_def split: if_splits)
      have fin: "andthen (os_call P) (\<lambda>closed. andthen (cli_wait_for_child P) (\<lambda>exited.
          guard (ok \<and> closed \<and> exited) SM_ERR_STORAGE)) (feed P sent s2) = (r, s')"
        using assms(1) False sp yes w by (simp add: cli_clipboard_write_def andthen_Inl andthen_Inr)
      have "clip s' = clip (feed P sent s2)" "helpers s' = helpers (feed P sent s2)"
        by (rule end_of_child [OF fin], rule apart_rules)+
      then show ?thesis using write_ignore_result(1,2) [OF w] s1 fed [of "tick s2" "clip s2"] sent by (auto simp: feed_def)
    qed
  qed
  then show "helpers s' = helpers s" "clip s' \<in> {clip s, []}" by blast+
qed

text \<open>One byte more than expected is enough to tell a longer clipboard from the expected one.\<close>

lemma take_one_more: "take (length e + 1) c = e \<longleftrightarrow> c = e"
proof
  assume e: "take (length e + 1) c = e"
  then have "length (take (length e + 1) c) = length e" by simp
  then have "length c = length e" by (simp add: min_def split: if_splits)
  then show "c = e" using e by simp
qed simp

lemma clear_if_unchanged_result:
  assumes "clear_if_unchanged P getenv expected s = (r, s')" "programs_ok P"
  shows "r = Inr ()" "clip s' = clip s \<or> clip s' = [] \<and> clip s = expected"
proof -
  obtain q s1 where q: "cli_clipboard_read_current P getenv (length expected) s = (q, s1)" by fastforce
  note s1 = read_current_result [OF q]
  have "r = Inr () \<and> (clip s' = clip s \<or> clip s' = [] \<and> clip s = expected)"
  proof (cases "q = Inr expected")
    case True
    then have "take (length expected + 1) (clip s) = expected" using s1(3) assms(2) by metis
    then have e: "clip s = expected" unfolding take_one_more .
    obtain w s2 where w: "cli_clipboard_write P getenv [] s1 = (w, s2)" by fastforce
    have "r = Inr ()" "s' = s2" using assms(1) q True w by (simp_all add: clear_if_unchanged_def finally_do_def ret_def)
    then show ?thesis using clear_result(2) [OF w assms(2)] s1(1) e by auto
  next
    case False
    then have "r = Inr ()" "s' = s1"
      using assms(1) q by (auto simp: clear_if_unchanged_def finally_do_def ret_def split: sum.splits if_splits)
    then show ?thesis using s1(1) by simp
  qed
  then show "r = Inr ()" "clip s' = clip s \<or> clip s' = [] \<and> clip s = expected" by blast+
qed

section \<open>Lemmas: the arguments of the helper\<close>

lemma is_digit_char: "d < 10 \<Longrightarrow> is_digit (digit_char d)"
proof -
  have "list_all (\<lambda>d. is_digit (digit_char d)) [0..<10]" by code_simp
  then show "d < 10 \<Longrightarrow> is_digit (digit_char d)" by (simp add: list_all_iff)
qed

lemma dec_digits_parsed: "list_all is_digit (dec_digits n) \<and> digits_value (dec_digits n) = int n"
proof (induction n rule: dec_digits.induct)
  case (1 n)
  have snoc: "digits_value (xs @ [digit_char d]) = digits_value xs * 10 + int d" if "d < 10" for xs d
    using of_char_digit [OF that] by (simp add: digits_value_def)
  show ?case
  proof (cases "n < 10")
    case True
    have "digits_value [digit_char n] = int n" using snoc [OF True, of "[]"] by (simp add: digits_value_def)
    then show ?thesis using True by (simp add: dec_digits.simps [of n] is_digit_char)
  next
    case False
    have "int (n div 10) * 10 + int (n mod 10) = int n" by (metis div_mult_mod_eq of_nat_add of_nat_mult of_nat_numeral)
    then show ?thesis using 1 False snoc [of "n mod 10" "dec_digits (n div 10)"]
      by (simp add: dec_digits.simps [of n] is_digit_char)
  qed
qed

lemma parse_dec_digits:
  assumes "int n \<le> UINT64_MAX"
  shows "cli_parse_size_value (dec_digits n) True = Inr n"
proof -
  have d: "list_all is_digit (dec_digits n)" "digits_value (dec_digits n) = int n" using dec_digits_parsed by simp_all
  then have w: "takeWhile is_digit (dec_digits n) = dec_digits n" "dropWhile is_digit (dec_digits n) = []"
    by (simp_all add: list_all_iff takeWhile_eq_all_conv)
  have "is_digit (hd (dec_digits n))" using d(1) by (cases "dec_digits n") auto
  moreover have "strtoull (dec_digits n) = Some (Some (int n), [])"
    using assms d(2) by (simp add: strtoull_def w Let_def)
  ultimately show ?thesis by (simp add: cli_parse_size_value_def)
qed

section \<open>Lemmas: when nothing fails\<close>

lemma calls_calm: "calm_programs P \<Longrightarrow> \<exists>s'. require_calls P n s = (Inr (), s')"
  by (induction n arbitrary: s) (simp_all add: ret_def andthen_def guard_def os_call_def calm_programs_def)

lemma spawn_calm:
  assumes "calm_programs P" "cli_clipboard_build_env getenv CLI_CLIPBOARD_ENV_MAX = Inr e"
  obtains s1 where "cli_clipboard_spawn P getenv b s = (Inr True, s1)"
proof -
  obtain s0 where "require_calls P (if b then 8 else 7) s = (Inr (), s0)" using calls_calm [OF assms(1)] by blast
  then have "cli_clipboard_spawn P getenv b s = (Inr True, next_tick s0)"
    using assms by (simp add: cli_clipboard_spawn_def andthen_def lift_result_def os_call_def calm_programs_def)
  then show ?thesis by (rule that)
qed

lemma program_calm: "calm_programs P \<Longrightarrow> cli_clipboard_resolve_program P CLI_CLIPBOARD_CANDIDATES \<noteq> None"
  by (auto simp: calm_programs_def cli_clipboard_resolve_program_def find_None_iff list_ex_iff)

lemma read_current_calm:
  assumes "calm_programs P" "cli_clipboard_build_env getenv CLI_CLIPBOARD_ENV_MAX = Inr e" "n \<le> CLI_MAX_SECRET_BYTES"
  shows "\<exists>d s'. cli_clipboard_read_current P getenv n s = (Inr d, s')"
proof -
  obtain s1 where s1: "cli_clipboard_spawn P getenv False s = (Inr True, s1)" by (rule spawn_calm [OF assms(1,2)])
  have "\<forall>t. 0 < io_result P t" using assms(1) by (simp add: calm_programs_def)
  from read_loop_calm [OF this, of "Inr []"] obtain d s2 where
    "read_loop P (Inr []) (n + 1) (pasted P (tick s1) (clip s1)) s1 = (Inr d, s2)" by blast
  then show ?thesis using s1 program_calm [OF assms(1)] assms(1,3)
    by (simp add: cli_clipboard_read_current_def andthen_guarded andthen_Inr finally_do_def andthen_def os_call_def
        cli_wait_for_child_def calm_programs_def guard_def lift_result_def)
qed

lemma write_calm:
  assumes "calm_programs P" "cli_clipboard_build_env getenv CLI_CLIPBOARD_ENV_MAX = Inr e"
  shows "\<exists>s'. cli_clipboard_write P getenv data s = (Inr (), s') \<and> clip s' = data"
proof -
  obtain s1 where s1: "cli_clipboard_spawn P getenv True s = (Inr True, s1)" by (rule spawn_calm [OF assms(1,2)])
  obtain sent ok s2 where w: "cli_write_all_ignore_sigpipe P data s1 = ((sent, ok), s2)" by (metis surj_pair)
  have "ok" "sent = data" using write_ignore_result [OF w] assms(1) by simp_all
  then show ?thesis using s1 w program_calm [OF assms(1)] assms(1)
    by (auto simp: cli_clipboard_write_def andthen_Inr andthen_def os_call_def cli_wait_for_child_def calm_programs_def
        guard_def feed_def next_tick_def)
qed

lemma clear_calm:
  assumes "calm_programs P" "cli_clipboard_build_env getenv CLI_CLIPBOARD_ENV_MAX = Inr e" "programs_ok P"
    and "length expected \<le> CLI_MAX_SECRET_BYTES"
  shows "\<exists>s'. clear_if_unchanged P getenv expected s = (Inr (), s') \<and> clip s' = (if clip s = expected then [] else clip s)"
proof -
  obtain d s1 where r: "cli_clipboard_read_current P getenv (length expected) s = (Inr d, s1)"
    using read_current_calm [OF assms(1,2,4)] by blast
  have d: "d = take (length expected + 1) (clip s)" "clip s1 = clip s"
    using read_current_result(3) [OF r assms(3), of d] read_current_result(1) [OF r] by simp_all
  obtain s2 where w: "cli_clipboard_write P getenv [] s1 = (Inr (), s2)" "clip s2 = []" using write_calm [OF assms(1,2)] by blast
  have "d = expected \<longleftrightarrow> clip s = expected" unfolding d(1) by (rule take_one_more)
  then show ?thesis using r w d(2) by (simp add: clear_if_unchanged_def finally_do_def ret_def)
qed

lemma schedule_calm:
  assumes "calm_programs P" "cli_clipboard_build_env getenv CLI_CLIPBOARD_ENV_MAX = Inr envp"
    and "length data \<le> CLI_MAX_SECRET_BYTES" "data \<noteq> []" "program_path \<noteq> []"
  shows "\<exists>s1. cli_clipboard_schedule_clear P getenv program_path data s = (Inr (), s1) \<and>
    helpers s1 = helpers s @ [([program_path, CLI_CLIPBOARD_CLEAR_HELPER, dec_digits (length data),
      dec_digits CLI_CLIPBOARD_CLEAR_SECONDS], clean_env getenv, data)]"
proof -
  obtain s0 where s0: "require_calls P 8 s = (Inr (), s0)" using calls_calm [OF assms(1)] by blast
  have h: "helpers s0 = helpers s" using apartD [OF apart_calls s0] by simp
  obtain sent ok s2 where w: "cli_write_all_ignore_sigpipe P data (next_tick s0) = ((sent, ok), s2)" by (metis surj_pair)
  have "ok" "sent = data" "helpers s2 = helpers s0"
    using write_ignore_result [OF w] assms(1) by (simp_all add: next_tick_def)
  then show ?thesis
    using assms s0 w h build_env_Inr [OF assms(2)]
    by (simp add: cli_clipboard_schedule_clear_def andthen_guarded lift_result_def andthen_Inr os_call_def calm_programs_def Let_def)
qed

lemma helper_body:
  assumes "length argv = 4" "cli_parse_size_value (argv ! 2) True = Inr n" "cli_parse_size_value (argv ! 3) True = Inr delay"
    and "n \<le> CLI_MAX_SECRET_BYTES" "int delay \<le> UINT_MAX" "n \<noteq> 0"
  shows "cli_clipboard_clear_helper P getenv argv input s =
    andthen (cli_read_exact_fd P n input) (\<lambda>expected. andthen (when_ok (0 < delay) (sleep P)) (\<lambda>_.
      clear_if_unchanged P getenv expected)) s"
  using assms by (simp add: cli_clipboard_clear_helper_def andthen_guarded lift_result_def andthen_Inr)

section \<open>Properties\<close>

text \<open>
  C23: The clearing helper never destroys what somebody else put on the clipboard. Whatever its
  arguments and its input are and whichever calls fail, the clipboard ends as it was when the
  helper woke up, or it is emptied; and then it held exactly the bytes, of the announced length,
  that the helper was given.
\<close>

theorem helper_clears_own_value:
  assumes "helper_main P getenv argv input s = Some (code, s')" "programs_ok P"
  shows "\<exists>c. (c = clip s \<or> (\<exists>t. c = meanwhile P t (clip s))) \<and>
    (clip s' = c \<or> clip s' = [] \<and>
      (\<exists>n. cli_parse_size_value (argv ! 2) True = Inr n \<and> n \<le> length input \<and> c = take n input))"
proof -
  obtain r where run: "cli_clipboard_clear_helper P getenv argv input s = (r, s')"
    using assms(1) by (auto simp: helper_main_def split: if_splits prod.splits)
  show ?thesis
  proof (cases "\<exists>n delay. cli_parse_size_value (argv ! 2) True = Inr n \<and> cli_parse_size_value (argv ! 3) True = Inr delay \<and>
      length argv = 4 \<and> n \<le> CLI_MAX_SECRET_BYTES \<and> int delay \<le> UINT_MAX \<and> n \<noteq> 0")
    case False
    then have "s' = s"
      using run by (auto simp: cli_clipboard_clear_helper_def andthen_def guard_def lift_result_def ret_def split: sum.splits if_splits)
    then show ?thesis by blast
  next
    case True
    then obtain n delay where n: "cli_parse_size_value (argv ! 2) True = Inr n" "cli_parse_size_value (argv ! 3) True = Inr delay"
      "length argv = 4" "n \<le> CLI_MAX_SECRET_BYTES" "int delay \<le> UINT_MAX" "n \<noteq> 0" by blast
    have body: "andthen (cli_read_exact_fd P n input) (\<lambda>expected. andthen (when_ok (0 < delay) (sleep P)) (\<lambda>_.
        clear_if_unchanged P getenv expected)) s = (r, s')"
      using run helper_body [OF n(3,1,2,4-6)] by simp
    obtain q s1 where q: "cli_read_exact_fd P n input s = (q, s1)" by fastforce
    have s1: "clip s1 = clip s" "\<And>d. q = Inr d \<Longrightarrow> d = take n input \<and> n \<le> length input"
      using read_loop_result [OF q [unfolded cli_read_exact_fd_def]] by simp_all
    show ?thesis
    proof (cases q)
      case (Inl e)
      then show ?thesis using body q s1(1) by (auto simp: andthen_Inl)
    next
      case (Inr expected)
      have "\<exists>s2. when_ok (0 < delay) (sleep P) s1 = (Inr (), s2)" by (cases "0 < delay") (simp_all add: when_ok_def sleep_def ret_def)
      then obtain s2 where s2: "when_ok (0 < delay) (sleep P) s1 = (Inr (), s2)" by blast
      then have "clip s2 = clip s \<or> (\<exists>t. clip s2 = meanwhile P t (clip s))"
        using s1(1) by (auto simp: when_ok_def sleep_def ret_def split: if_splits)
      moreover have "clear_if_unchanged P getenv expected s2 = (r, s')"
        using body q Inr s2 by (simp add: andthen_Inr)
      from clear_if_unchanged_result(2) [OF this assms(2)] have "clip s' = clip s2 \<or> clip s' = [] \<and> clip s2 = expected" .
      ultimately show ?thesis using s1(2) [OF Inr] n(1) by blast
    qed
  qed
qed

text \<open>
  C24: A copied secret leaves the clipboard. When scheduling the clearing of a secret succeeded and
  no call fails, one helper was started, with a clean environment (the fixed search path and the
  display variables, no other variable) and the secret on its standard input; whenever it runs it
  exits with 0, and the clipboard is then empty if it still held the secret at the end of the
  delay, and otherwise as it was.
\<close>

theorem clipboard_cleared:
  assumes run: "cli_clipboard_schedule_clear P getenv program_path data s = (Inr (), s1)" "data \<noteq> []"
    and P: "programs_ok P" "calm_programs P"
    and env: "cli_clipboard_build_env getenv' CLI_CLIPBOARD_ENV_MAX = Inr e"
  shows "\<exists>argv. helpers s1 = helpers s @ [(argv, clean_env getenv, data)] \<and>
    (\<forall>s2. \<exists>t s3. helper_main P getenv' argv data s2 = Some (0, s3) \<and>
      clip s3 = (if meanwhile P t (clip s2) = data then [] else meanwhile P t (clip s2)))"
proof -
  let ?argv = "[program_path, CLI_CLIPBOARD_CLEAR_HELPER, dec_digits (length data), dec_digits CLI_CLIPBOARD_CLEAR_SECONDS]"
  have len: "length data \<le> CLI_MAX_SECRET_BYTES"
    using run(1) by (auto simp: cli_clipboard_schedule_clear_def andthen_guarded raise_def split: if_splits)
  obtain envp where envp: "cli_clipboard_build_env getenv CLI_CLIPBOARD_ENV_MAX = Inr envp"
    using run by (auto simp: cli_clipboard_schedule_clear_def andthen_guarded raise_def lift_result_def andthen_eq_Inr split: if_splits)
  have "program_path \<noteq> []"
    using run(1) by (auto simp: cli_clipboard_schedule_clear_def andthen_guarded raise_def split: if_splits)
  then have helper: "helpers s1 = helpers s @ [(?argv, clean_env getenv, data)]"
    using schedule_calm [OF P(2) envp len run(2), of program_path s] run(1) by auto
  have "\<exists>t s3. helper_main P getenv' ?argv data s2 = Some (0, s3) \<and>
      clip s3 = (if meanwhile P t (clip s2) = data then [] else meanwhile P t (clip s2))" for s2
  proof -
    have arg: "cli_parse_size_value (dec_digits (length data)) True = Inr (length data)"
      "cli_parse_size_value (dec_digits CLI_CLIPBOARD_CLEAR_SECONDS) True = Inr CLI_CLIPBOARD_CLEAR_SECONDS"
      using len by (auto intro!: parse_dec_digits simp: CLI_MAX_SECRET_BYTES_def CLI_CLIPBOARD_CLEAR_SECONDS_def UINT64_MAX_def)
    have "\<forall>t. 0 < io_result P t" using P(2) by (simp add: calm_programs_def)
    from read_loop_calm [OF this] obtain d s3 where d: "read_loop P (Inl SM_ERR_STORAGE) (length data) data s2 = (Inr d, s3)"
      by (metis order_refl)
    have s3: "d = data" "clip s3 = clip s2" using read_loop_result [OF d] by simp_all
    obtain s4 where s4: "sleep P s3 = (Inr (), s4)" "clip s4 = meanwhile P (tick s3) (clip s2)"
      using s3(2) by (simp add: sleep_def)
    obtain s5 where s5: "clear_if_unchanged P getenv' data s4 = (Inr (), s5)"
      "clip s5 = (if clip s4 = data then [] else clip s4)" using clear_calm [OF P(2) env P(1) len] by blast
    have idx: "length ?argv = 4" "cli_parse_size_value (?argv ! 2) True = Inr (length data)"
      "cli_parse_size_value (?argv ! 3) True = Inr CLI_CLIPBOARD_CLEAR_SECONDS" using arg by simp_all
    have delay: "int CLI_CLIPBOARD_CLEAR_SECONDS \<le> UINT_MAX" "0 < CLI_CLIPBOARD_CLEAR_SECONDS" "length data \<noteq> 0"
      using run(2) by (simp_all add: CLI_CLIPBOARD_CLEAR_SECONDS_def UINT_MAX_def)
    have "cli_clipboard_clear_helper P getenv' ?argv data s2 = (Inr (), s5)"
      unfolding helper_body [OF idx len delay(1,3)]
      using d s3(1) s4(1) s5(1) delay(2) by (simp add: andthen_Inr cli_read_exact_fd_def when_ok_def)
    then show ?thesis using s4(2) s5(2) by (auto simp: helper_main_def)
  qed
  then show ?thesis using helper by blast
qed

section \<open>Samples\<close>

definition sample_programs :: programs where
  "sample_programs = \<lparr>x_ok = (\<lambda>_. True), call_ok = (\<lambda>_. True), io_result = (\<lambda>_. 3), child_ok = (\<lambda>_. True),
     copied = (\<lambda>_ _ d. d), pasted = (\<lambda>_ c. c), meanwhile = (\<lambda>_ c. c)\<rparr>"

lemma sample_programs_ok: "programs_ok sample_programs" "calm_programs sample_programs"
  by (simp_all add: programs_ok_def calm_programs_def sample_programs_def CLI_CLIPBOARD_CANDIDATES_def)

definition sample_desktop :: "bytes \<Rightarrow> desktop" where
  "sample_desktop c = \<lparr>tick = 0, clip = c, helpers = []\<rparr>"

definition sample_display :: "string \<Rightarrow> string option" where
  "sample_display n = (if n = ''DISPLAY'' then Some '':0'' else if n = ''FUIN_PASSWORD'' then Some ''pw'' else None)"

lemma sample_simps [simp]:
  "meanwhile sample_programs t c = c" "clip (sample_desktop c) = c" "helpers (sample_desktop c) = []"
  by (simp_all add: sample_programs_def sample_desktop_def)

lemma sample_env_built: "\<exists>e. cli_clipboard_build_env sample_display CLI_CLIPBOARD_ENV_MAX = Inr e"
proof -
  have "\<not> isl (cli_clipboard_build_env sample_display CLI_CLIPBOARD_ENV_MAX)" by code_simp
  then show ?thesis by (cases "cli_clipboard_build_env sample_display CLI_CLIPBOARD_ENV_MAX") simp_all
qed

theorem helper_clears_own_value_witness:
  "\<exists>code s'. helper_main sample_programs sample_display [''fuin'', CLI_CLIPBOARD_CLEAR_HELPER, ''2'', ''30''] [7, 8] (sample_desktop [9, 9]) =
    Some (code, s') \<and> clip s' = [9, 9]"
proof -
  let ?argv = "[''fuin'', CLI_CLIPBOARD_CLEAR_HELPER, ''2'', ''30'']"
  let ?run = "helper_main sample_programs sample_display ?argv [7, 8] (sample_desktop [9, 9])"
  have "?run \<noteq> None" by (simp add: helper_main_def split: prod.split)
  then obtain code s' where run: "?run = Some (code, s')" by (metis option.exhaust surj_pair)
  have n: "cli_parse_size_value (?argv ! 2) True = Inr 2" by code_simp
  have "clip s' = [9, 9]"
    using helper_clears_own_value [OF run sample_programs_ok(1)] n by auto
  then show ?thesis using run by blast
qed

theorem clipboard_cleared_witness:
  "case cli_clipboard_schedule_clear sample_programs sample_display ''fuin'' [1, 2, 3, 4] (sample_desktop [1, 2, 3, 4]) of
    (r, s1) \<Rightarrow> r = Inr () \<and>
      (\<exists>argv s3. helpers s1 = [(argv, [''PATH='' @ fixed_path, ''DISPLAY=:0''], [1, 2, 3, 4])] \<and>
        helper_main sample_programs sample_display argv [1, 2, 3, 4] (sample_desktop [1, 2, 3, 4]) = Some (0, s3) \<and> clip s3 = [])"
proof -
  obtain e where e: "cli_clipboard_build_env sample_display CLI_CLIPBOARD_ENV_MAX = Inr e" using sample_env_built by blast
  obtain s1 where s1: "cli_clipboard_schedule_clear sample_programs sample_display ''fuin'' [1, 2, 3, 4] (sample_desktop [1, 2, 3, 4]) = (Inr (), s1)"
    using schedule_calm [OF sample_programs_ok(2) e, of "[1, 2, 3, 4]" "''fuin''"] by (auto simp: CLI_MAX_SECRET_BYTES_def)
  have env: "clean_env sample_display = [''PATH='' @ fixed_path, ''DISPLAY=:0'']" by code_simp
  obtain argv where argv: "helpers s1 = [(argv, clean_env sample_display, [1, 2, 3, 4])]"
      "\<forall>s2. \<exists>t s3. helper_main sample_programs sample_display argv [1, 2, 3, 4] s2 = Some (0, s3) \<and>
        clip s3 = (if meanwhile sample_programs t (clip s2) = [1, 2, 3, 4] then [] else meanwhile sample_programs t (clip s2))"
    using clipboard_cleared [OF s1 _ sample_programs_ok e] by auto
  from argv(2) obtain s3 where "helper_main sample_programs sample_display argv [1, 2, 3, 4] (sample_desktop [1, 2, 3, 4]) = Some (0, s3)"
      "clip s3 = []"
    by (auto dest: spec [of _ "sample_desktop [1, 2, 3, 4]"])
  then show ?thesis using s1 argv(1) env by auto
qed

end
