(* ===== verification/Spec2Isabelle.thy ===== *)
theory Spec2Isabelle
  imports Fuin_Vault_Expiry Fuin_Cli_Runs Fuin_Cli_Clipboard
begin

text \<open>
  A verification development for fuin, a command line vault for secrets.

  \<^bold>\<open>The program.\<close> fuin keeps named secrets, with their history of versions, in one SQLite
  file. All paths are relative to \<open>src/src/\<close>.
  \<^item> \<open>main.c\<close> parses the command line, asks for passwords, opens and unlocks the vault, runs one
    command and prints its result.
  \<^item> \<open>vault.c\<close> is the session: the subkeys derived from the master password (\<open>kdf.c\<close>), and every
    operation on secrets as a transaction that also appends an event to the audit log.
  \<^item> \<open>crypto_engine.c\<close> encrypts a secret under a fresh data key, which \<open>key_manager.c\<close> wraps under the
    key-encryption key and rewraps when the password changes.
  \<^item> \<open>audit.c\<close> keeps the hash-chained, signed log and its Merkle tree.
  \<^item> \<open>access.c\<close> issues and verifies scoped tokens.
  \<^item> \<open>backup.c\<close> exports the database to a capsule for a hybrid public key, imports it, and signs Merkle
    roots.
  \<^item> \<open>storage.c\<close> owns the connection, its transactions, the schema and the modes of the database file.
  \<^item> \<open>utils.c\<close> has timestamps, codecs, identifiers, passwords and one-time codes.

  \<^bold>\<open>Theories and sources.\<close>
  \<^item> \<open>Fuin_Prelude\<close>: bytes, C strings, status codes (\<open>include/utils.h\<close>), computations that thread a
    state and stop at the first status that is not \<open>SM_OK\<close> (\<open>andthen\<close>, \<open>finally_do\<close> for cleanup),
    and the interfaces \<open>fixed_codec\<close> and \<open>framing\<close> for integer and length-prefixed encodings.
  \<^item> \<open>Fuin_Env\<close>: the record \<open>env\<close> of libsodium, OpenSSL's HMAC, the clock and the outcome of every SQL
    statement, with their documented laws as named predicates and one small instance.
  \<^item> \<open>Fuin_Time\<close>, \<open>Fuin_Utils\<close>: \<open>utils.c\<close>.
  \<^item> \<open>Fuin_Storage\<close>: the tables of \<open>sql/schema.sql\<close>, statements, transactions and the verification of
    the schema, \<open>storage.c\<close>; the interface \<open>transactional\<close>.
  \<^item> \<open>Fuin_Audit\<close>, \<open>Fuin_Audit_Chain\<close>, \<open>Fuin_Merkle\<close>: \<open>audit.c\<close>.
  \<^item> \<open>Fuin_Crypto\<close>: \<open>crypto_engine.c\<close>. \<open>Fuin_Keys\<close>: \<open>kdf.c\<close> and \<open>key_manager.c\<close>.
    \<open>Fuin_Access\<close>: \<open>access.c\<close>.
  \<^item> \<open>Fuin_Vault_Data\<close>, \<open>Fuin_Vault\<close>: \<open>vault.c\<close>, its data access and its operations. On top of them
    \<open>Fuin_Vault_Atomic\<close> (what a failing operation leaves alone), \<open>Fuin_Vault_Secrets\<close> and
    \<open>Fuin_Vault_Effects\<close> (what a successful one does), \<open>Fuin_Vault_Inv\<close> and \<open>Fuin_Vault_Runs\<close> (the
    invariant and runs), \<open>Fuin_Vault_Spec\<close>, \<open>Fuin_Vault_Live\<close> and \<open>Fuin_Vault_Reach\<close> (the abstract
    vault and its refinement), \<open>Fuin_Vault_Unlock\<close> (passwords and tokens) and \<open>Fuin_Vault_Expiry\<close>
    (automatic rotation).
  \<^item> \<open>Fuin_Files\<close>, \<open>Fuin_Backup\<close>, \<open>Fuin_Backup_Keys\<close>, \<open>Fuin_Backup_Capsule\<close>: \<open>backup.c\<close> over a table of
    files; the interface \<open>exact_format\<close>. \<open>Fuin_Vault_Backup\<close>: the entry points of \<open>vault.c\<close> to it.
  \<^item> \<open>Fuin_Process\<close>: a process with its vault, files and standard output; opening, initialising and
    closing a database file (\<open>storage.c\<close>, \<open>vault_init\<close> and \<open>vault_open\<close> of \<open>vault.c\<close>).
  \<^item> \<open>Fuin_Cli_Args\<close>, \<open>Fuin_Cli_Help\<close>, \<open>Fuin_Cli_Show\<close>, \<open>Fuin_Cli\<close>: \<open>main.c\<close>; \<open>Fuin_Cli_Runs\<close>: what
    whole processes guarantee; \<open>Fuin_Cli_Clipboard\<close>: the clipboard programs and the helper process of
    \<open>main.c\<close> that clears the clipboard later.

  \<^bold>\<open>State.\<close> A definition has the name of the C function it translates and returns a status
  (\<open>Inl\<close> an error) or the result together with the new state. The store (\<open>g_db\<close>, \<open>tables\<close>, and
  \<open>saved\<close>, the snapshot of an open transaction) is extended by the vault's globals (\<open>g_subkeys\<close>,
  \<open>g_unlocked\<close>); the backup functions work on a table of files with owner, mode and content; a
  process pairs both and adds standard output and the connection's file. The counter \<open>tick\<close> numbers
  the calls whose outcome the program does not decide (the clock, the random generator, SQL
  statements, file operations): the parameters answer per tick, so the theorems hold for every
  schedule of failures unless they assume a healthy environment.

  \<^bold>\<open>What is shown.\<close>
  \<^item> Vault: each successful operation of \<open>vault_op\<close> does what the abstract vault of contents does
    (\<open>operation_refines_spec\<close>); after any run with failures, crashes and unlockings some password
    opens the durable tables, every version decrypts and the log verifies
    (\<open>reachable_vault_consistent\<close>); failing operations are atomic, a locked vault refuses, stored
    secrets are read back, new passwords open the old contents, wrong ones are refused and noted,
    revoked tokens are refused, and automatic rotation ends, having renewed the secrets that were
    due with the contents they had and nothing else (\<open>auto_rotate_terminates\<close>). The type \<open>vault_op\<close>
    has the 16 operations that run at most one transaction on an unlocked session. Opening,
    unlocking and closing are steps of a run beside it, automatic rotation has its own
    theorem and \<open>Fuin_Vault_Backup\<close> the signing of roots and the export; \<open>vault_debug_name_lookup\<close>
    and the verification of a Merkle proof of the vault change no table and are outside it.
  \<^item> Audit: appending keeps the chain verifiable, the head of a chain binds its entries, Merkle
    proofs are complete and sound, signing again keeps the log verifiable, and a signed root
    verifies. Soundness exhibits a SHA-256 collision instead of assuming there is none.
  \<^item> Encryption: round trip and key commitment, rotation of the key-encryption key keeps secrets.
  \<^item> Tokens: issued tokens verify, accepted ones are authentic, scope matching equals its
    declarative reading.
  \<^item> Backups: export and import are inverse, the capsule format has no slack, no existing file is
    touched, and private keys are read only from protected, encrypted files.
  \<^item> Processes: opening gives the mode 0600 to the database file and its sidecars and touches no
    other file; a secret stored by one process is printed by the next; a command whose token the
    vault it opened does not accept changes nothing after the opening; no secret is taken from the
    arguments without the opt-in; a copied secret is cleared from the clipboard, and nothing else
    is; durations, edit distances and listed names are exact.
  \<^item> Timestamps, base32, one-time codes: the C code equals a reference definition.

  Each locale is interpreted on the model: \<open>fixed_codec\<close> and \<open>framing\<close> on the encoders of \<open>utils.c\<close>,
  \<open>audit.c\<close>, \<open>crypto_engine.c\<close> and \<open>backup.c\<close>, \<open>transactional\<close> on the transactions of \<open>storage.c\<close>,
  \<open>exact_format\<close> on the capsule and the hybrid encapsulation.

  \<^bold>\<open>Loops.\<close> Loops over data are structural or have a measure and need no fuel. The one loop the
  code does not bound, in \<open>vault_auto_rotate_expired\<close>, is a \<open>partial_function\<close> whose value
  \<open>None\<close> means that it does not return; \<open>auto_rotate_terminates\<close> proves that it returns when the
  clock does not run backwards (\<open>monotone_clock\<close>) and the rows hold expiry texts and intervals as the
  code writes them (\<open>timely\<close>).

  \<^bold>\<open>Hypotheses.\<close> \<open>crypto_ok\<close>, \<open>base64_ok\<close>, \<open>hex_ok\<close> and \<open>kdf_ok\<close> state lengths and inverse laws of
  libsodium's functions; \<open>verifier_binds\<close> that two master keys do not share a verifier, the only
  place where a hash is taken as free of collisions; \<open>json_ok\<close> the print/parse round trip of cJSON;
  \<open>os_ok\<close> and \<open>db_path_ok\<close> that path resolution is consistent; \<open>reads_back\<close> that SQLite reads the
  database it wrote; \<open>healthy\<close> and \<open>calm\<close> that no statement and no file operation fails;
  \<open>fresh_ids\<close> that random identifiers do not repeat; \<open>log_room\<close> that the log is shorter than
  \<open>INT_MAX\<close>. The witnesses discharge them on a concrete instance.

  \<^bold>\<open>Simplifications.\<close> Output pointers are not \<open>NULL\<close>, and a \<open>NULL\<close> input is \<open>None\<close> only where the code
  treats it differently from an empty one. \<open>malloc\<close>, \<open>sodium_malloc\<close> and \<open>mlock\<close> succeed, and the
  clearing of local buffers leaves no trace in the model. Return codes of libsodium's hash
  functions, which cannot fail, are not read; a failing \<open>sodium_init\<close> is. One process uses a
  database at a time. Static helpers of \<open>vault.c\<close> that read \<open>*g_subkeys\<close> take it as an argument.
  Directories do not change during a run, and the last component of a path is no symbolic link.
  Runs unlock only outside a transaction. A statement that fails leaves the tables unchanged. The
  round trips of private keys assume a passphrase of at most \<open>PEM_BUFSIZE\<close> = 1024 bytes. \<open>getopt_long\<close> is that of the GNU
  library with \<open>POSIXLY_CORRECT\<close> unset; a path without an entry is the error \<open>ENOENT\<close>; multi-part prints to standard output are one write each.

  \<^bold>\<open>Not modelled.\<close> Messages on standard error and on the terminal, terminal attributes, and the
  choice of colour from the environment (a parameter). The commands of \<open>Fuin_Cli\<close> see the clipboard
  only as an outcome; its programs and its helper are in \<open>Fuin_Cli_Clipboard\<close>, where system calls
  interrupted by signals are one call. cJSON (\<open>third_party/\<close>), libsodium, OpenSSL and SQLite are parameters,
  as are \<open>sqlite3_serialize\<close>, the file format and the statements of the schema text that the build
  generates. Fuzz harnesses, benchmarks, tests, the demo and the documentation carry no logic of
  the program.
\<close>

end
